(* ===== verification/Prelude.thy ===== *)
theory Prelude
  imports Main "HOL-Library.Word"
begin

text \<open>
  Vocabulary shared by every component of the development: the fixed-width C integer types,
  octet strings, the numeric error codes of \<^verbatim>\<open>include/h2o/http2_common.h\<close>, the result type
  of the fallible C functions, the theorem collections that the component proofs feed, and the
  generic facts on words and lists that several components use.
\<close>

unbundle bit_operations_syntax

named_theorems codec_simps \<open>round-trip equations of the octet-level encoders and decoders\<close>
named_theorems inv_intros \<open>preservation facts: an operation keeps the invariant of its component\<close>
named_theorems safe_simps \<open>facts showing that a guarded read stays inside its buffer\<close>

section \<open>C integers and octet strings\<close>

type_synonym u8 = "8 word"
type_synonym u16 = "16 word"
type_synonym u32 = "32 word"
type_synonym u64 = "64 word"

text \<open>
  A C buffer that is only read (a pointer together with its end pointer, or an
  \<^verbatim>\<open>h2o_iovec_t\<close>) is the list of the octets between the two pointers; advancing the pointer
  is dropping octets from the front.
\<close>

type_synonym octets = "u8 list"

definition str :: "string \<Rightarrow> octets" where
  "str s = map of_char s"

lemma str_Nil [simp]: "str [] = []"
  by (simp add: str_def)

lemma str_Cons [simp]: "str (c # s) = of_char c # str s"
  by (simp add: str_def)

lemma length_str [simp]: "length (str s) = length s"
  by (simp add: str_def)

section \<open>Error codes and results\<close>

text \<open>
  The error codes of \<^verbatim>\<open>include/h2o/http2_common.h\<close>. \<^term>\<open>READ_PAST_END\<close> is not a code of
  the program: it marks the places where the C code would read beyond the octets it was given,
  which C leaves undefined; \<^term>\<open>ASSERTION_FAILED\<close> marks a failing \<^verbatim>\<open>assert\<close> or a use of a
  \<^verbatim>\<open>NULL\<close> entry. Theorems named \<^verbatim>\<open>..._in_bounds\<close> show that neither is ever produced.
\<close>

datatype h2err =
    H2O_HTTP2_ERROR_NONE
  | H2O_HTTP2_ERROR_PROTOCOL
  | H2O_HTTP2_ERROR_INTERNAL
  | H2O_HTTP2_ERROR_FLOW_CONTROL
  | H2O_HTTP2_ERROR_SETTINGS_TIMEOUT
  | H2O_HTTP2_ERROR_STREAM_CLOSED
  | H2O_HTTP2_ERROR_FRAME_SIZE
  | H2O_HTTP2_ERROR_REFUSED_STREAM
  | H2O_HTTP2_ERROR_CANCEL
  | H2O_HTTP2_ERROR_COMPRESSION
  | H2O_HTTP2_ERROR_CONNECT
  | H2O_HTTP2_ERROR_ENHANCE_YOUR_CALM
  | H2O_HTTP2_ERROR_INADEQUATE_SECURITY
  | H2O_HTTP2_ERROR_INVALID_HEADER_CHAR
  | H2O_HTTP2_ERROR_INCOMPLETE
  | H2O_HTTP2_ERROR_PROTOCOL_CLOSE_IMMEDIATELY
  | READ_PAST_END
  | ASSERTION_FAILED

text \<open>
  A fallible function returns \<^term>\<open>Inl (e, d)\<close> where the C function returns the negative code
  \<open>e\<close>; \<open>d\<close> is the text it stored through \<^verbatim>\<open>err_desc\<close>, \<^term>\<open>None\<close> when it left that
  argument alone.
\<close>

type_synonym 'a h2res = "(h2err \<times> string option) + 'a"

section \<open>Generic facts\<close>

lemma take_append_length [simp]: "take (length xs) (xs @ ys) = xs"
  by simp

lemma drop_append_length [simp]: "drop (length xs) (xs @ ys) = ys"
  by simp

lemma nth_append_length_plus: "(xs @ ys) ! (length xs + i) = ys ! i"
  by (simp add: nth_append)

lemma unat_u8_less: "unat (b :: u8) < 256"
  using unsigned_less [of b, where ?'a = nat] by simp

lemma unat_of_nat_eq: "n < 2 ^ LENGTH('a) \<Longrightarrow> unat (of_nat n :: 'a::len word) = n"
  by (simp add: unat_of_nat)

lemma unat_ucast_up:
  assumes "LENGTH('a::len) \<le> LENGTH('b::len)"
  shows "unat (ucast (w :: 'a word) :: 'b word) = unat w"
proof -
  have "unat w < 2 ^ LENGTH('a)"
    by (rule unsigned_less)
  also have "\<dots> \<le> 2 ^ LENGTH('b)"
    using assms by (simp add: power_increasing)
  finally show ?thesis
    by (simp add: unsigned_ucast_eq take_bit_nat_eq_self)
qed

text \<open>Positions in a ring.\<close>

lemma add_mod_inj:
  fixes i j s c :: nat
  assumes "i < c" "j < c" "(i + s) mod c = (j + s) mod c"
  shows "i = j"
proof -
  have le: "a = b" if "a \<le> b" "b < c" "(b + s) mod c = (a + s) mod c" for a b
  proof -
    have "c dvd (b + s) - (a + s)"
      using that mod_eq_dvd_iff_nat [of "a + s" "b + s" c] by simp
    then have "c dvd b - a" by simp
    then have "b - a = 0 \<or> c \<le> b - a"
      using dvd_imp_le by blast
    with that show ?thesis by linarith
  qed
  show ?thesis
    using assms le [of i j] le [of j i] by (cases "i \<le> j") simp_all
qed

end
