(* ===== verification/Http2_Frame.thy ===== *)
theory Http2_Frame
  imports Prelude
begin

text \<open>
  The HTTP/2 framing layer: \<^verbatim>\<open>lib/http2/frame.c\<close> and the inline functions of
  \<^verbatim>\<open>include/h2o/http2_common.h\<close>. The decoders take the octets that are available from the
  read pointer on; an encoder appends to the octets already in the output buffer. The section
  order follows the source: integers, settings, frame header, frame encoders, frame decoders,
  flow-control window. The lemmas after each group are the round trips, the settings invariant
  and the absence of reads past the received octets.
\<close>

section \<open>Big-endian integers\<close>

definition decode16u :: "octets \<Rightarrow> u16 option" where
  "decode16u src = (case src of
     a # b # _ \<Rightarrow> Some (push_bit 8 (ucast a) OR ucast b)
   | _ \<Rightarrow> None)"

definition decode24u :: "octets \<Rightarrow> u32 option" where
  "decode24u src = (case src of
     a # b # c # _ \<Rightarrow> Some (push_bit 16 (ucast a) OR push_bit 8 (ucast b) OR ucast c)
   | _ \<Rightarrow> None)"

definition decode32u :: "octets \<Rightarrow> u32 option" where
  "decode32u src = (case src of
     a # b # c # d # _ \<Rightarrow>
       Some (push_bit 24 (ucast a) OR push_bit 16 (ucast b) OR push_bit 8 (ucast c) OR ucast d)
   | _ \<Rightarrow> None)"

definition encode16u :: "u16 \<Rightarrow> octets" where
  "encode16u v = [ucast (drop_bit 8 v), ucast v]"

definition encode24u :: "u32 \<Rightarrow> octets" where
  "encode24u v = [ucast (drop_bit 16 v), ucast (drop_bit 8 v), ucast v]"

definition encode32u :: "u32 \<Rightarrow> octets" where
  "encode32u v = [ucast (drop_bit 24 v), ucast (drop_bit 16 v), ucast (drop_bit 8 v), ucast v]"

lemma length_encode_u [simp]:
  "length (encode16u v16) = 2" "length (encode24u v) = 3" "length (encode32u v) = 4"
  by (simp_all add: encode16u_def encode24u_def encode32u_def)

lemma decode16u_encode16u [codec_simps]: "decode16u (encode16u v @ rest) = Some v"
  by (auto simp: decode16u_def encode16u_def bit_simps intro!: bit_word_eqI)

text \<open>A word below $2^k$ has no bit at position $k$ or above.\<close>

lemma not_bit_of_less: "unat v < 2 ^ k \<Longrightarrow> k \<le> n \<Longrightarrow> \<not> bit v n"
  for v :: "'a::len word"
proof
  assume v: "unat v < 2 ^ k" and n: "k \<le> n" and b: "bit v n"
  have "take_bit k (unat v) = unat v"
    using v by (simp add: take_bit_nat_eq_self)
  moreover have "bit (unat v) n"
    using b by (simp add: bit_unsigned_iff bit_imp_le_length)
  ultimately have "n < k"
    by (metis bit_take_bit_iff)
  with n show False by simp
qed

lemma decode24u_encode24u [codec_simps]:
  assumes "unat v < 2 ^ 24"
  shows "decode24u (encode24u v @ rest) = Some v"
proof -
  have hi: "\<not> bit v n" if "24 \<le> n" for n
    using not_bit_of_less [OF assms that] .
  have "bit (push_bit 16 (ucast (ucast (drop_bit 16 v) :: u8)) OR
      push_bit 8 (ucast (ucast (drop_bit 8 v) :: u8)) OR ucast (ucast v :: u8) :: u32) n = bit v n"
    if "n < 32" for n
    using that hi [of n]
    by (cases "n < 8"; cases "n < 16"; cases "n < 24") (auto simp: bit_simps)
  then show ?thesis
    by (auto simp: decode24u_def encode24u_def intro!: bit_word_eqI)
qed

lemma decode32u_encode32u [codec_simps]: "decode32u (encode32u v @ rest) = Some v"
proof -
  have "bit (push_bit 24 (ucast (ucast (drop_bit 24 v) :: u8)) OR
      push_bit 16 (ucast (ucast (drop_bit 16 v) :: u8)) OR
      push_bit 8 (ucast (ucast (drop_bit 8 v) :: u8)) OR ucast (ucast v :: u8) :: u32) n = bit v n"
    if "n < 32" for n
    using that by (cases "n < 8"; cases "n < 16"; cases "n < 24") (auto simp: bit_simps)
  then show ?thesis
    by (auto simp: decode32u_def encode32u_def intro!: bit_word_eqI)
qed

lemma decode_u_Some [safe_simps]:
  "2 \<le> length src \<Longrightarrow> \<exists>v. decode16u src = Some v"
  "3 \<le> length src \<Longrightarrow> \<exists>v. decode24u src = Some v"
  "4 \<le> length src \<Longrightarrow> \<exists>v. decode32u src = Some v"
  by (auto simp: decode16u_def decode24u_def decode32u_def numeral_eq_Suc Suc_le_length_iff)

section \<open>Settings\<close>

record h2o_http2_settings =
  header_table_size :: u32
  enable_push :: u32
  max_concurrent_streams :: u32
  initial_window_size :: u32
  max_frame_size :: u32

definition H2O_HTTP2_SETTINGS_DEFAULT :: h2o_http2_settings where
  "H2O_HTTP2_SETTINGS_DEFAULT = \<lparr>header_table_size = 4096, enable_push = 1,
     max_concurrent_streams = 0xffffffff, initial_window_size = 65535, max_frame_size = 16384\<rparr>"

text \<open>
  One iteration of the loop of \<^verbatim>\<open>h2o_http2_update_peer_settings\<close>: the \<^verbatim>\<open>SET\<close> cases of its
  switch. The bounds of the 32-bit fields whose range is the whole type are written as in the
  source.
\<close>

definition peer_setting :: "h2o_http2_settings \<Rightarrow> u16 \<Rightarrow> u32 \<Rightarrow> h2o_http2_settings h2res" where
  "peer_setting s identifier value =
    (if identifier = 1 then
       (if 0 \<le> value \<and> value \<le> 0xffffffff then Inr (s\<lparr>header_table_size := value\<rparr>)
        else Inl (H2O_HTTP2_ERROR_NONE, Some ''invalid SETTINGS frame''))
     else if identifier = 2 then
       (if 0 \<le> value \<and> value \<le> 1 then Inr (s\<lparr>enable_push := value\<rparr>)
        else Inl (H2O_HTTP2_ERROR_PROTOCOL, Some ''invalid SETTINGS frame''))
     else if identifier = 3 then
       (if 0 \<le> value \<and> value \<le> 0xffffffff then Inr (s\<lparr>max_concurrent_streams := value\<rparr>)
        else Inl (H2O_HTTP2_ERROR_NONE, Some ''invalid SETTINGS frame''))
     else if identifier = 4 then
       (if 0 \<le> value \<and> value \<le> 0x7fffffff then Inr (s\<lparr>initial_window_size := value\<rparr>)
        else Inl (H2O_HTTP2_ERROR_FLOW_CONTROL, Some ''invalid SETTINGS frame''))
     else if identifier = 5 then
       (if 16384 \<le> value \<and> value \<le> 16777215 then Inr (s\<lparr>max_frame_size := value\<rparr>)
        else Inl (H2O_HTTP2_ERROR_PROTOCOL, Some ''invalid SETTINGS frame''))
     else Inr s)"

text \<open>
  The loop stops early with the error of the offending pair; the pairs before it have already
  been stored in the caller's structure, so the settings are returned beside the error.
\<close>

function update_peer_settings ::
  "h2o_http2_settings \<Rightarrow> octets \<Rightarrow> h2o_http2_settings \<times> (h2err \<times> string option)" where
  "update_peer_settings s src =
    (if 6 \<le> length src then
       (case (decode16u src, decode32u (drop 2 src)) of
          (Some identifier, Some value) \<Rightarrow>
            (case peer_setting s identifier value of
               Inl e \<Rightarrow> (s, e)
             | Inr s' \<Rightarrow> update_peer_settings s' (drop 6 src))
        | _ \<Rightarrow> (s, (READ_PAST_END, None)))
     else if src \<noteq> [] then (s, (H2O_HTTP2_ERROR_FRAME_SIZE, None))
     else (s, (H2O_HTTP2_ERROR_NONE, None)))"
  by pat_completeness auto
termination
  by (relation "measure (\<lambda>(s, src). length src)") auto

declare update_peer_settings.simps [simp del]

text \<open>What a peer may never make the connection believe about its own limits.\<close>

definition settings_ok :: "h2o_http2_settings \<Rightarrow> bool" where
  "settings_ok s \<longleftrightarrow> enable_push s \<le> 1 \<and> initial_window_size s \<le> 0x7fffffff \<and>
     16384 \<le> max_frame_size s \<and> max_frame_size s \<le> 16777215"

lemma settings_ok_default [inv_intros]: "settings_ok H2O_HTTP2_SETTINGS_DEFAULT"
  by (simp add: settings_ok_def H2O_HTTP2_SETTINGS_DEFAULT_def)

lemma settings_ok_peer_setting [inv_intros]:
  "settings_ok s \<Longrightarrow> peer_setting s i v = Inr s' \<Longrightarrow> settings_ok s'"
  by (auto simp: peer_setting_def settings_ok_def split: if_splits)

lemma settings_ok_update [inv_intros]:
  "settings_ok s \<Longrightarrow> settings_ok (fst (update_peer_settings s src))"
proof (induction s src rule: update_peer_settings.induct)
  case (1 s src)
  show ?case
    using "1.prems" "1.IH"
    by (subst update_peer_settings.simps)
      (auto split: option.splits sum.splits dest: settings_ok_peer_setting)
qed

lemma update_peer_settings_in_bounds [safe_simps]:
  "fst (snd (update_peer_settings s src)) \<noteq> READ_PAST_END"
proof (induction s src rule: update_peer_settings.induct)
  case (1 s src)
  have "\<exists>v. decode16u src = Some v" "\<exists>v. decode32u (drop 2 src) = Some v" if "6 \<le> length src"
    using that by (auto intro!: decode_u_Some)
  then show ?case
    using "1.IH"
    by (subst update_peer_settings.simps)
      (auto split: option.splits sum.splits simp: peer_setting_def split: if_splits)
qed

section \<open>Frame header and frame encoders\<close>

text \<open>\<^term>\<open>None\<close> is the call of \<^verbatim>\<open>h2o_fatal\<close>, which ends the process.\<close>

definition encode_frame_header :: "nat \<Rightarrow> u8 \<Rightarrow> u8 \<Rightarrow> u32 \<Rightarrow> octets option" where
  "encode_frame_header len type flags stream_id =
    (if len > 0xffffff then None
     else Some (encode24u (of_nat len) @ [type] @ [flags] @ encode32u stream_id))"

text \<open>
  \<^verbatim>\<open>allocate_frame\<close> reserves the frame in the output buffer and writes its header; the caller
  then fills in exactly \<open>len\<close> payload octets, passed here as \<open>payload\<close>.
\<close>

definition allocate_frame :: "octets \<Rightarrow> u8 \<Rightarrow> u8 \<Rightarrow> u32 \<Rightarrow> octets \<Rightarrow> octets option" where
  "allocate_frame buf type flags stream_id payload =
    map_option (\<lambda>hdr. buf @ hdr @ payload) (encode_frame_header (length payload) type flags stream_id)"

definition encode_rst_stream_frame :: "octets \<Rightarrow> u32 \<Rightarrow> int \<Rightarrow> octets option" where
  "encode_rst_stream_frame buf stream_id errnum =
    allocate_frame buf 3 0 stream_id (encode32u (word_of_int errnum))"

definition encode_ping_frame :: "octets \<Rightarrow> bool \<Rightarrow> octets \<Rightarrow> octets option" where
  "encode_ping_frame buf is_ack data =
    allocate_frame buf 6 (if is_ack then 1 else 0) 0 (take 8 data)"

definition encode_goaway_frame :: "octets \<Rightarrow> u32 \<Rightarrow> int \<Rightarrow> octets \<Rightarrow> octets option" where
  "encode_goaway_frame buf last_stream_id errnum additional_data =
    allocate_frame buf 7 0 0
      (encode32u last_stream_id @ encode32u (word_of_int (- errnum)) @ additional_data)"

fun encode_settings_pairs :: "(u16 \<times> u32) list \<Rightarrow> octets" where
  "encode_settings_pairs [] = []"
| "encode_settings_pairs ((key, value) # settings) =
     encode16u key @ encode32u value @ encode_settings_pairs settings"

definition encode_settings_frame :: "octets \<Rightarrow> (u16 \<times> u32) list \<Rightarrow> octets option" where
  "encode_settings_frame buf settings = allocate_frame buf 4 0 0 (encode_settings_pairs settings)"

definition encode_window_update_frame :: "octets \<Rightarrow> u32 \<Rightarrow> int \<Rightarrow> octets option" where
  "encode_window_update_frame buf stream_id window_size_increment =
    allocate_frame buf 8 0 stream_id (encode32u (word_of_int window_size_increment))"

definition encode_origin_frame :: "octets \<Rightarrow> octets \<Rightarrow> octets option" where
  "encode_origin_frame buf payload = allocate_frame buf 12 0 0 payload"

section \<open>Frame decoders\<close>

text \<open>
  \<open>payload\<close> is the pointer into the receive buffer: the octets from there to the end of what was
  received, of which the frame owns the first \<open>length\<close>.
\<close>

record h2o_http2_frame =
  frame_length :: u32
  frame_type :: u8
  frame_flags :: u8
  frame_stream_id :: u32
  frame_payload :: octets

definition decode_frame :: "octets \<Rightarrow> nat \<Rightarrow> (nat \<times> h2o_http2_frame) h2res" where
  "decode_frame src max_size =
    (if length src < 9 then Inl (H2O_HTTP2_ERROR_INCOMPLETE, None)
     else case (decode24u src, decode32u (drop 5 src)) of
       (Some len, Some sid) \<Rightarrow>
         (let frame = \<lparr>frame_length = len, frame_type = src ! 3, frame_flags = src ! 4,
                frame_stream_id = sid AND 0x7fffffff, frame_payload = drop 9 src\<rparr>
          in if unat (frame_length frame) > max_size then Inl (H2O_HTTP2_ERROR_FRAME_SIZE, None)
             else if length src < 9 + unat (frame_length frame) then
               Inl (H2O_HTTP2_ERROR_INCOMPLETE, None)
             else Inr (9 + unat (frame_length frame), frame))
     | _ \<Rightarrow> Inl (READ_PAST_END, None))"

record h2o_http2_data_payload =
  data_base :: octets
  data_length :: nat

definition decode_data_payload :: "h2o_http2_frame \<Rightarrow> h2o_http2_data_payload h2res" where
  "decode_data_payload frame =
    (if frame_stream_id frame = 0 then
       Inl (H2O_HTTP2_ERROR_PROTOCOL, Some ''invalid stream id in DATA frame'')
     else if frame_flags frame AND 0x8 \<noteq> 0 then
       (if unat (frame_length frame) < 1 then
          Inl (H2O_HTTP2_ERROR_PROTOCOL, Some ''invalid DATA frame'')
        else case frame_payload frame of
          [] \<Rightarrow> Inl (READ_PAST_END, None)
        | padding_length # rest \<Rightarrow>
            if unat (frame_length frame) < 1 + unat padding_length then
              Inl (H2O_HTTP2_ERROR_PROTOCOL, Some ''invalid DATA frame'')
            else Inr \<lparr>data_base = rest,
                      data_length = unat (frame_length frame) - (1 + unat padding_length)\<rparr>)
     else Inr \<lparr>data_base = frame_payload frame, data_length = unat (frame_length frame)\<rparr>)"

record h2o_http2_priority =
  exclusive :: bool
  dependency :: u32
  weight :: u16

definition h2o_http2_default_priority :: h2o_http2_priority where
  "h2o_http2_default_priority = \<lparr>exclusive = False, dependency = 0, weight = 16\<rparr>"

definition decode_priority :: "octets \<Rightarrow> (h2o_http2_priority \<times> octets) option" where
  "decode_priority src = (case (decode32u src, drop 4 src) of
     (Some u4, w # rest) \<Rightarrow>
       Some (\<lparr>exclusive = (drop_bit 31 u4 \<noteq> 0), dependency = u4 AND 0x7fffffff,
              weight = ucast w + 1\<rparr>, rest)
   | _ \<Rightarrow> None)"

record h2o_http2_headers_payload =
  hp_priority :: h2o_http2_priority
  hp_headers :: octets

text \<open>
  \<open>src\<close> to \<open>src_end\<close> of the source is the list of octets between the two pointers. The two
  branches on the flags are separate functions here because the source moves both pointers
  between them.
\<close>

definition headers_strip_padding :: "h2o_http2_frame \<Rightarrow> octets \<Rightarrow> octets h2res" where
  "headers_strip_padding frame src =
    (if frame_flags frame AND 0x8 \<noteq> 0 then
       (case src of
          [] \<Rightarrow> Inl (H2O_HTTP2_ERROR_PROTOCOL, Some ''invalid HEADERS frame'')
        | padlen # src' \<Rightarrow>
            if length src' < unat padlen then
              Inl (H2O_HTTP2_ERROR_PROTOCOL, Some ''invalid HEADERS frame'')
            else Inr (take (length src' - unat padlen) src'))
     else Inr src)"

definition decode_headers_payload :: "h2o_http2_frame \<Rightarrow> h2o_http2_headers_payload h2res" where
  "decode_headers_payload frame =
    (if length (frame_payload frame) < unat (frame_length frame) then Inl (READ_PAST_END, None)
     else if frame_stream_id frame = 0 then
       Inl (H2O_HTTP2_ERROR_PROTOCOL, Some ''invalid stream id in HEADERS frame'')
     else case headers_strip_padding frame (take (unat (frame_length frame)) (frame_payload frame)) of
       Inl e \<Rightarrow> Inl e
     | Inr src \<Rightarrow>
         if frame_flags frame AND 0x20 \<noteq> 0 then
           (if length src < 5 then Inl (H2O_HTTP2_ERROR_PROTOCOL, None)
            else case decode_priority src of
              None \<Rightarrow> Inl (READ_PAST_END, None)
            | Some (prio, src') \<Rightarrow> Inr \<lparr>hp_priority = prio, hp_headers = src'\<rparr>)
         else Inr \<lparr>hp_priority = h2o_http2_default_priority, hp_headers = src\<rparr>)"

definition decode_priority_payload :: "h2o_http2_frame \<Rightarrow> h2o_http2_priority h2res" where
  "decode_priority_payload frame =
    (if frame_stream_id frame = 0 then
       Inl (H2O_HTTP2_ERROR_PROTOCOL, Some ''invalid stream id in PRIORITY frame'')
     else if unat (frame_length frame) \<noteq> 5 then
       Inl (H2O_HTTP2_ERROR_FRAME_SIZE, Some ''invalid PRIORITY frame'')
     else case decode_priority (frame_payload frame) of
       None \<Rightarrow> Inl (READ_PAST_END, None)
     | Some (prio, _) \<Rightarrow> Inr prio)"

definition decode_rst_stream_payload :: "h2o_http2_frame \<Rightarrow> u32 h2res" where
  "decode_rst_stream_payload frame =
    (if frame_stream_id frame = 0 then
       Inl (H2O_HTTP2_ERROR_PROTOCOL, Some ''invalid stream id in RST_STREAM frame'')
     else if unat (frame_length frame) \<noteq> 4 then
       Inl (H2O_HTTP2_ERROR_FRAME_SIZE, Some ''invalid RST_STREAM frame'')
     else case decode32u (frame_payload frame) of
       None \<Rightarrow> Inl (READ_PAST_END, None)
     | Some error_code \<Rightarrow> Inr error_code)"

definition decode_ping_payload :: "h2o_http2_frame \<Rightarrow> octets h2res" where
  "decode_ping_payload frame =
    (if frame_stream_id frame \<noteq> 0 then
       Inl (H2O_HTTP2_ERROR_PROTOCOL, Some ''invalid PING frame'')
     else if unat (frame_length frame) \<noteq> 8 then
       Inl (H2O_HTTP2_ERROR_FRAME_SIZE, Some ''invalid PING frame'')
     else if length (frame_payload frame) < 8 then Inl (READ_PAST_END, None)
     else Inr (take 8 (frame_payload frame)))"

record h2o_http2_goaway_payload =
  goaway_last_stream_id :: u32
  goaway_error_code :: u32
  goaway_debug_data :: octets

definition decode_goaway_payload :: "h2o_http2_frame \<Rightarrow> h2o_http2_goaway_payload h2res" where
  "decode_goaway_payload frame =
    (if frame_stream_id frame \<noteq> 0 then
       Inl (H2O_HTTP2_ERROR_PROTOCOL, Some ''invalid stream id in GOAWAY frame'')
     else if unat (frame_length frame) < 8 then
       Inl (H2O_HTTP2_ERROR_FRAME_SIZE, Some ''invalid GOAWAY frame'')
     else if length (frame_payload frame) < unat (frame_length frame) then Inl (READ_PAST_END, None)
     else case (decode32u (frame_payload frame), decode32u (drop 4 (frame_payload frame))) of
       (Some sid, Some code) \<Rightarrow>
         Inr \<lparr>goaway_last_stream_id = sid AND 0x7fffffff, goaway_error_code = code,
              goaway_debug_data = take (unat (frame_length frame) - 8) (drop 8 (frame_payload frame))\<rparr>
     | _ \<Rightarrow> Inl (READ_PAST_END, None))"

text \<open>The boolean beside the error is the value stored through \<^verbatim>\<open>err_is_stream_level\<close>.\<close>

definition decode_window_update_payload ::
  "h2o_http2_frame \<Rightarrow> ((h2err \<times> string option) \<times> bool) + u32" where
  "decode_window_update_payload frame =
    (if unat (frame_length frame) \<noteq> 4 then
       Inl ((H2O_HTTP2_ERROR_FRAME_SIZE, Some ''invalid WINDOW_UPDATE frame''), False)
     else case decode32u (frame_payload frame) of
       None \<Rightarrow> Inl ((READ_PAST_END, None), False)
     | Some v \<Rightarrow>
         (let window_size_increment = v AND 0x7fffffff
          in if window_size_increment = 0 then
               Inl ((H2O_HTTP2_ERROR_PROTOCOL, Some ''invalid WINDOW_UPDATE frame''),
                    frame_stream_id frame \<noteq> 0)
             else Inr window_size_increment))"

section \<open>Flow-control window\<close>

text \<open>
  \<^verbatim>\<open>h2o_http2_window_t\<close> holds one \<^verbatim>\<open>ssize_t\<close>. An update is refused above $2^{31}-1$ and a
  consumer never takes more octets than a frame holds, so the values stay far inside 64 bits and
  the model uses mathematical integers.
\<close>

definition window_init :: "u32 \<Rightarrow> int" where
  "window_init initial = uint initial"

text \<open>\<^term>\<open>None\<close> is the return value -1; the window is then unchanged.\<close>

definition window_update :: "int \<Rightarrow> int \<Rightarrow> int option" where
  "window_update avail delta = (let v = avail + delta in if v > 2 ^ 31 - 1 then None else Some v)"

definition window_consume :: "int \<Rightarrow> nat \<Rightarrow> int" where
  "window_consume avail bytes = avail - int bytes"

lemma window_update_le [inv_intros]: "window_update avail delta = Some v \<Longrightarrow> v \<le> 2 ^ 31 - 1"
  by (auto simp: window_update_def Let_def split: if_splits)

lemma window_consume_le [inv_intros]: "avail \<le> 2 ^ 31 - 1 \<Longrightarrow> window_consume avail n \<le> 2 ^ 31 - 1"
  by (simp add: window_consume_def)

section \<open>Correctness of the framing layer\<close>

definition frame_ok :: "h2o_http2_frame \<Rightarrow> bool" where
  "frame_ok frame \<longleftrightarrow> unat (frame_length frame) \<le> length (frame_payload frame)"

lemma decode_frame_ok [inv_intros]:
  assumes "decode_frame src m = Inr (n, frame)"
  shows "frame_ok frame" "n = 9 + unat (frame_length frame)" "n \<le> length src"
    "unat (frame_length frame) \<le> m" "frame_payload frame = drop 9 src"
  using assms
  by (auto simp: decode_frame_def frame_ok_def Let_def split: if_splits option.splits)

lemma decode_frame_in_bounds [safe_simps]:
  "decode_frame src m \<noteq> Inl (READ_PAST_END, d)"
proof (cases "length src < 9")
  case True
  then show ?thesis by (simp add: decode_frame_def)
next
  case False
  then obtain a b where "decode24u src = Some a" "decode32u (drop 5 src) = Some b"
    using decode_u_Some(2) [of src] decode_u_Some(3) [of "drop 5 src"] by force
  with False show ?thesis
    by (auto simp: decode_frame_def Let_def)
qed

lemma decode_priority_Some:
  assumes "5 \<le> length src"
  shows "\<exists>prio. decode_priority src = Some (prio, drop 5 src)"
proof -
  obtain v where "decode32u src = Some v"
    using decode_u_Some(3) [of src] assms by auto
  moreover obtain w where "drop 4 src = w # drop 5 src"
    using assms by (metis Cons_nth_drop_Suc add_Suc_right add_Suc_shift less_le_trans
        numeral_nat(2) eval_nat_numeral(3) lessI)
  ultimately show ?thesis
    by (simp add: decode_priority_def)
qed

lemma decode_priority_None: "decode_priority src = None \<Longrightarrow> length src < 5"
  using decode_priority_Some [of src] by (fastforce simp: not_less [symmetric])

lemma headers_strip_padding_in_bounds [safe_simps]:
  "headers_strip_padding frame src \<noteq> Inl (READ_PAST_END, d)"
  by (simp add: headers_strip_padding_def split: list.split)

lemma payload_in_bounds [safe_simps]:
  assumes "frame_ok frame"
  shows "decode_data_payload frame \<noteq> Inl (READ_PAST_END, d)"
    and "decode_headers_payload frame \<noteq> Inl (READ_PAST_END, d)"
    and "decode_priority_payload frame \<noteq> Inl (READ_PAST_END, d)"
    and "decode_rst_stream_payload frame \<noteq> Inl (READ_PAST_END, d)"
    and "decode_ping_payload frame \<noteq> Inl (READ_PAST_END, d)"
    and "decode_goaway_payload frame \<noteq> Inl (READ_PAST_END, d)"
    and "decode_window_update_payload frame \<noteq> Inl ((READ_PAST_END, d), l)"
proof -
  let ?p = "frame_payload frame"
  have d32: "\<exists>v. decode32u ?p = Some v" if "4 \<le> unat (frame_length frame)"
    using that assms by (intro decode_u_Some(3)) (simp add: frame_ok_def)
  have d32': "\<exists>v. decode32u (drop 4 ?p) = Some v" if "8 \<le> unat (frame_length frame)"
    using that assms by (intro decode_u_Some(3)) (simp add: frame_ok_def)
  have prio: "\<exists>v. decode_priority ?p = Some v" if "unat (frame_length frame) = 5"
    using that assms decode_priority_Some [of ?p] by (auto simp: frame_ok_def)
  show "decode_data_payload frame \<noteq> Inl (READ_PAST_END, d)"
    using assms by (auto simp: decode_data_payload_def frame_ok_def split: list.splits)
  show "decode_headers_payload frame \<noteq> Inl (READ_PAST_END, d)"
    using assms headers_strip_padding_in_bounds [of frame _ d]
    by (auto simp: decode_headers_payload_def frame_ok_def
        split: option.splits sum.splits dest: decode_priority_None)
  show "decode_priority_payload frame \<noteq> Inl (READ_PAST_END, d)"
    using prio by (auto simp: decode_priority_payload_def split: option.splits)
  show "decode_rst_stream_payload frame \<noteq> Inl (READ_PAST_END, d)"
    using d32 by (auto simp: decode_rst_stream_payload_def split: option.splits)
  show "decode_ping_payload frame \<noteq> Inl (READ_PAST_END, d)"
    using assms by (auto simp: decode_ping_payload_def frame_ok_def)
  show "decode_goaway_payload frame \<noteq> Inl (READ_PAST_END, d)"
    using assms d32 d32' by (auto simp: decode_goaway_payload_def frame_ok_def split: option.splits)
  show "decode_window_update_payload frame \<noteq> Inl ((READ_PAST_END, d), l)"
    using d32 by (auto simp: decode_window_update_payload_def Let_def split: option.splits)
qed

subsection \<open>Round trips\<close>

lemma stream_id_mask: "unat (sid :: u32) < 2 ^ 31 \<Longrightarrow> sid AND 0x7fffffff = sid"
proof -
  assume sid: "unat sid < 2 ^ 31"
  have "n < 31" if "bit sid n" for n
    using not_bit_of_less [OF sid] that by (meson not_le)
  then have "take_bit 31 sid = sid"
    by (intro bit_word_eqI) (auto simp: bit_simps)
  moreover have "(0x7fffffff :: u32) = mask 31"
    by (simp add: mask_eq_exp_minus_1)
  ultimately show ?thesis
    by (simp only: take_bit_eq_mask)
qed

lemma window_increment_small:
  assumes "0 < inc" "inc < 2 ^ 31"
  shows "word_of_int inc AND 0x7fffffff = (word_of_int inc :: u32)" "word_of_int inc \<noteq> (0 :: u32)"
proof -
  have u: "unat (word_of_int inc :: u32) = nat inc"
    using assms by (simp add: unsigned_of_int take_bit_int_eq_self)
  then show "word_of_int inc AND 0x7fffffff = (word_of_int inc :: u32)"
    using assms by (intro stream_id_mask) (simp add: nat_less_iff)
  show "word_of_int inc \<noteq> (0 :: u32)"
    using u assms by (metis nat_0_iff not_le unsigned_0)
qed

lemma length_encode_frame_header [simp]:
  "encode_frame_header n t f sid = Some hdr \<Longrightarrow> length hdr = 9"
  by (auto simp: encode_frame_header_def split: if_splits)

lemma decode_encode_frame [codec_simps]:
  assumes hdr: "encode_frame_header (length p) t f sid = Some hdr"
    and m: "length p \<le> m" and sid: "unat sid < 2 ^ 31"
  shows "decode_frame (hdr @ p @ rest) m = Inr (9 + length p,
    \<lparr>frame_length = of_nat (length p), frame_type = t, frame_flags = f, frame_stream_id = sid,
     frame_payload = p @ rest\<rparr>)"
proof -
  have len: "length p < 2 ^ 24"
    using hdr by (auto simp: encode_frame_header_def split: if_splits)
  then have u: "unat (of_nat (length p) :: u32) = length p"
    by (simp add: unat_of_nat_eq)
  have h: "hdr = encode24u (of_nat (length p)) @ [t] @ [f] @ encode32u sid"
    using hdr by (auto simp: encode_frame_header_def split: if_splits)
  have t: "hdr ! 3 = t" "hdr ! 4 = f" "drop 5 hdr = encode32u sid"
    by (simp_all add: h encode24u_def numeral_eq_Suc)
  have d24: "decode24u (hdr @ p @ rest) = Some (of_nat (length p))"
    using decode24u_encode24u [of "of_nat (length p)"] u len by (simp add: h)
  show ?thesis
    using hdr m by (simp add: decode_frame_def d24 decode32u_encode32u Let_def u t nth_append stream_id_mask [OF sid])
qed

text \<open>
  Every encoder appends a frame that the frame decoder reads back, whatever follows it in the
  buffer.
\<close>

lemma decode_allocated_frame:
  assumes "length p \<le> m" "m \<le> 0xffffff" "unat sid < 2 ^ 31"
  shows "\<exists>hdr. allocate_frame buf t f sid p = Some (buf @ hdr @ p) \<and> length hdr = 9 \<and>
    decode_frame (hdr @ p @ rest) m = Inr (9 + length p,
    \<lparr>frame_length = of_nat (length p), frame_type = t, frame_flags = f, frame_stream_id = sid,
     frame_payload = p @ rest\<rparr>)"
proof -
  obtain hdr where hdr: "encode_frame_header (length p) t f sid = Some hdr"
    using assms by (simp add: encode_frame_header_def)
  then show ?thesis
    using decode_encode_frame [OF hdr assms(1,3)] by (simp add: allocate_frame_def)
qed

lemma frame_roundtripI:
  assumes "length p \<le> m" "m \<le> 0xffffff" "unat sid < 2 ^ 31"
    and "P \<lparr>frame_length = of_nat (length p), frame_type = t, frame_flags = f, frame_stream_id = sid,
     frame_payload = p @ rest\<rparr>"
  shows "\<exists>b frame. allocate_frame buf t f sid p = Some (buf @ b) \<and>
    decode_frame (b @ rest) m = Inr (length b, frame) \<and> P frame"
proof -
  obtain hdr where "allocate_frame buf t f sid p = Some (buf @ hdr @ p)" "length hdr = 9"
    "decode_frame (hdr @ p @ rest) m = Inr (9 + length p,
      \<lparr>frame_length = of_nat (length p), frame_type = t, frame_flags = f, frame_stream_id = sid,
       frame_payload = p @ rest\<rparr>)"
    using decode_allocated_frame [OF assms(1-3), of buf t f rest] by blast
  then show ?thesis
    using assms(4) by (intro exI [of _ "hdr @ p"]) simp
qed

lemma settings_pairs_roundtrip [codec_simps]:
  "update_peer_settings s (encode_settings_pairs ((k, v) # kvs)) =
    (case peer_setting s k v of
       Inl e \<Rightarrow> (s, e)
     | Inr s' \<Rightarrow> update_peer_settings s' (encode_settings_pairs kvs))"
proof -
  define src where "src = encode_settings_pairs ((k, v) # kvs)"
  have src: "src = encode16u k @ encode32u v @ encode_settings_pairs kvs"
    by (simp add: src_def)
  have "6 \<le> length src" "src \<noteq> []"
    by (auto simp: src encode16u_def)
  moreover have "decode16u src = Some k"
    by (simp add: src codec_simps)
  moreover have "decode32u (drop 2 src) = Some v"
    by (simp add: src codec_simps)
  moreover have "drop 6 src = encode_settings_pairs kvs"
    by (simp add: src)
  ultimately have "update_peer_settings s src =
    (case peer_setting s k v of
       Inl e \<Rightarrow> (s, e)
     | Inr s' \<Rightarrow> update_peer_settings s' (encode_settings_pairs kvs))"
    by (subst update_peer_settings.simps) (simp split: sum.split)
  then show ?thesis
    by (simp only: src_def)
qed

text \<open>The reference semantics of a SETTINGS frame: its pairs, applied one after the other.\<close>

fun apply_settings ::
  "h2o_http2_settings \<Rightarrow> (u16 \<times> u32) list \<Rightarrow> h2o_http2_settings \<times> (h2err \<times> string option)" where
  "apply_settings s [] = (s, (H2O_HTTP2_ERROR_NONE, None))"
| "apply_settings s ((k, v) # kvs) =
     (case peer_setting s k v of Inl e \<Rightarrow> (s, e) | Inr s' \<Rightarrow> apply_settings s' kvs)"

lemma update_encode_settings:
  "update_peer_settings s (encode_settings_pairs kvs) = apply_settings s kvs"
proof (induction s kvs rule: apply_settings.induct)
  case (1 s)
  show ?case by (simp add: update_peer_settings.simps)
next
  case (2 s k v kvs)
  then show ?case
    by (simp only: settings_pairs_roundtrip apply_settings.simps split: sum.split) simp
qed

lemma length_encode_settings_pairs [simp]: "length (encode_settings_pairs kvs) = 6 * length kvs"
  by (induction kvs rule: encode_settings_pairs.induct) auto

subsection \<open>Properties\<close>

text \<open>
  C12. The decoders of the framing layer never read beyond the octets received: neither the frame
  decoder nor, for any frame it accepts, one of the seven payload decoders reaches a read past
  the end; and an accepted frame lies wholly inside the buffer and within the size limit.
\<close>

theorem frame_decoders_in_bounds:
  "decode_frame src m \<noteq> Inl (READ_PAST_END, d) \<and>
   (decode_frame src m = Inr (n, frame) \<longrightarrow>
      n = 9 + unat (frame_length frame) \<and> n \<le> length src \<and> unat (frame_length frame) \<le> m \<and>
      decode_data_payload frame \<noteq> Inl (READ_PAST_END, d) \<and>
      decode_headers_payload frame \<noteq> Inl (READ_PAST_END, d) \<and>
      decode_priority_payload frame \<noteq> Inl (READ_PAST_END, d) \<and>
      decode_rst_stream_payload frame \<noteq> Inl (READ_PAST_END, d) \<and>
      decode_ping_payload frame \<noteq> Inl (READ_PAST_END, d) \<and>
      decode_goaway_payload frame \<noteq> Inl (READ_PAST_END, d) \<and>
      decode_window_update_payload frame \<noteq> Inl ((READ_PAST_END, d), l))"
  using decode_frame_in_bounds [of src m d] decode_frame_ok [of src m n frame]
    payload_in_bounds [of frame d] by blast

theorem frame_decoders_in_bounds_witness:
  "decode_frame [0, 0, 5, 0, 8, 0, 0, 0, 1, 2, 7, 7, 0, 0] 16384 = Inr (14,
     \<lparr>frame_length = 5, frame_type = 0, frame_flags = 8, frame_stream_id = 1,
      frame_payload = [2, 7, 7, 0, 0]\<rparr>) \<and>
   decode_data_payload \<lparr>frame_length = 5, frame_type = 0, frame_flags = 8, frame_stream_id = 1,
      frame_payload = [2, 7, 7, 0, 0]\<rparr> \<noteq> Inl (READ_PAST_END, None)"
proof -
  have "decode_frame [0, 0, 5, 0, 8, 0, 0, 0, 1, 2, 7, 7, 0, 0] 16384 = Inr (14,
     \<lparr>frame_length = 5, frame_type = 0, frame_flags = 8, frame_stream_id = 1,
      frame_payload = [2, 7, 7, 0, 0]\<rparr>)"
    by (simp add: decode_frame_def decode24u_def decode32u_def)
  then show ?thesis
    using frame_decoders_in_bounds by blast
qed

text \<open>
  C19. Whatever octets a peer sends in SETTINGS frames, in any number and order, the settings the
  connection keeps for it stay within the limits of RFC 9113 (push flag, window size, frame
  size), also when the frame is rejected halfway.
\<close>

theorem peer_settings_stay_valid:
  "settings_ok (fold (\<lambda>src s. fst (update_peer_settings s src)) srcs H2O_HTTP2_SETTINGS_DEFAULT)"
proof -
  have "settings_ok (fold (\<lambda>src s. fst (update_peer_settings s src)) srcs s)" if "settings_ok s" for s
    using that by (induction srcs arbitrary: s) (auto intro: settings_ok_update)
  then show ?thesis
    by (simp add: settings_ok_default)
qed

text \<open>
  C20. A SETTINGS frame built from a list of pairs is read back as exactly those pairs, applied in
  order: the frame decoder accepts it and updating the settings from its payload has the same
  result, error included, as applying the pairs one by one.
\<close>

theorem settings_frame_roundtrip:
  assumes "6 * length kvs \<le> m" "m \<le> 0xffffff"
  shows "\<exists>bytes frame. encode_settings_frame buf kvs = Some (buf @ bytes) \<and>
    decode_frame (bytes @ rest) m = Inr (length bytes, frame) \<and>
    frame_type frame = 4 \<and> frame_stream_id frame = 0 \<and>
    update_peer_settings s (take (unat (frame_length frame)) (frame_payload frame)) = apply_settings s kvs"
proof -
  have "unat (of_nat (6 * length kvs) :: u32) = 6 * length kvs"
    using assms by (intro unat_of_nat_eq) simp
  then show ?thesis
    unfolding encode_settings_frame_def using assms
    by (intro frame_roundtripI) (auto simp: update_encode_settings)
qed

theorem settings_frame_roundtrip_witness:
  "\<exists>bytes frame. encode_settings_frame [] [(3, 100), (4, 0x80000000)] = Some ([] @ bytes) \<and>
    decode_frame (bytes @ [1, 2]) 16384 = Inr (length bytes, frame) \<and>
    frame_type frame = 4 \<and> frame_stream_id frame = 0 \<and>
    update_peer_settings H2O_HTTP2_SETTINGS_DEFAULT
      (take (unat (frame_length frame)) (frame_payload frame)) =
    (H2O_HTTP2_SETTINGS_DEFAULT\<lparr>max_concurrent_streams := 100\<rparr>,
     (H2O_HTTP2_ERROR_FLOW_CONTROL, Some ''invalid SETTINGS frame''))"
proof -
  have "apply_settings H2O_HTTP2_SETTINGS_DEFAULT [(3, 100), (4, 0x80000000)] =
    (H2O_HTTP2_SETTINGS_DEFAULT\<lparr>max_concurrent_streams := 100\<rparr>,
     (H2O_HTTP2_ERROR_FLOW_CONTROL, Some ''invalid SETTINGS frame''))"
    by (simp add: peer_setting_def)
  then show ?thesis
    using settings_frame_roundtrip [of "[(3, 100), (4, 0x80000000)]" 16384 "[]" "[1, 2]"
        H2O_HTTP2_SETTINGS_DEFAULT] by simp
qed

text \<open>
  C16. The control frames a server emits are understood by the decoders as what was meant: a PING frame (type 6, stream 0) returns the eight
  octets and the ACK flag, GOAWAY (type 7, stream 0) the last stream, which may be 0, the error code and the debug data, RST_STREAM (type 3) the
  stream and the error code, and WINDOW_UPDATE (type 8) the stream, 0 for the connection, and the increment, whatever follows in the buffer.
\<close>

theorem control_frames_roundtrip:
  assumes sid: "unat sid < 2 ^ 31" "sid \<noteq> 0" and last_sid: "unat last_sid < 2 ^ 31" and wsid: "unat wsid < 2 ^ 31"
    and m: "16384 \<le> m" "m \<le> 0xffffff"
    and data: "length data = 8" and dbg: "8 + length dbg \<le> m" and inc: "0 < inc" "inc < 2 ^ 31"
  shows "(\<exists>b f. encode_ping_frame buf ack data = Some (buf @ b) \<and>
      decode_frame (b @ rest) m = Inr (length b, f) \<and> frame_type f = 6 \<and> frame_stream_id f = 0 \<and>
      frame_flags f = (if ack then 1 else 0) \<and> decode_ping_payload f = Inr data) \<and>
    (\<exists>b f. encode_goaway_frame buf last_sid err dbg = Some (buf @ b) \<and>
      decode_frame (b @ rest) m = Inr (length b, f) \<and> frame_type f = 7 \<and> frame_stream_id f = 0 \<and> frame_flags f = 0 \<and>
      decode_goaway_payload f = Inr \<lparr>goaway_last_stream_id = last_sid,
        goaway_error_code = word_of_int (- err), goaway_debug_data = dbg\<rparr>) \<and>
    (\<exists>b f. encode_rst_stream_frame buf sid err = Some (buf @ b) \<and>
      decode_frame (b @ rest) m = Inr (length b, f) \<and> frame_type f = 3 \<and> frame_stream_id f = sid \<and> frame_flags f = 0 \<and>
      decode_rst_stream_payload f = Inr (word_of_int err)) \<and>
    (\<exists>b f. encode_window_update_frame buf wsid inc = Some (buf @ b) \<and>
      decode_frame (b @ rest) m = Inr (length b, f) \<and> frame_type f = 8 \<and> frame_stream_id f = wsid \<and> frame_flags f = 0 \<and>
      decode_window_update_payload f = Inr (word_of_int inc))"
proof (intro conjI)
  have len: "unat (of_nat (8 + length dbg) :: u32) = 8 + length dbg"
    using dbg m by (intro unat_of_nat_eq) simp
  have inc': "word_of_int inc AND 0x7fffffff = (word_of_int inc :: u32)" "word_of_int inc \<noteq> (0 :: u32)"
    using inc by (auto simp: window_increment_small)
  show "\<exists>b f. encode_ping_frame buf ack data = Some (buf @ b) \<and>
      decode_frame (b @ rest) m = Inr (length b, f) \<and> frame_type f = 6 \<and> frame_stream_id f = 0 \<and>
      frame_flags f = (if ack then 1 else 0) \<and> decode_ping_payload f = Inr data"
    unfolding encode_ping_frame_def using data m
    by (intro frame_roundtripI) (auto simp: decode_ping_payload_def)
  show "\<exists>b f. encode_goaway_frame buf last_sid err dbg = Some (buf @ b) \<and>
      decode_frame (b @ rest) m = Inr (length b, f) \<and> frame_type f = 7 \<and> frame_stream_id f = 0 \<and> frame_flags f = 0 \<and>
      decode_goaway_payload f = Inr \<lparr>goaway_last_stream_id = last_sid,
        goaway_error_code = word_of_int (- err), goaway_debug_data = dbg\<rparr>"
    unfolding encode_goaway_frame_def using dbg m len
    by (intro frame_roundtripI) (auto simp: decode_goaway_payload_def codec_simps stream_id_mask [OF last_sid])
  show "\<exists>b f. encode_rst_stream_frame buf sid err = Some (buf @ b) \<and>
      decode_frame (b @ rest) m = Inr (length b, f) \<and> frame_type f = 3 \<and> frame_stream_id f = sid \<and> frame_flags f = 0 \<and>
      decode_rst_stream_payload f = Inr (word_of_int err)"
    unfolding encode_rst_stream_frame_def using sid m
    by (intro frame_roundtripI) (auto simp: decode_rst_stream_payload_def codec_simps)
  show "\<exists>b f. encode_window_update_frame buf wsid inc = Some (buf @ b) \<and>
      decode_frame (b @ rest) m = Inr (length b, f) \<and> frame_type f = 8 \<and> frame_stream_id f = wsid \<and> frame_flags f = 0 \<and>
      decode_window_update_payload f = Inr (word_of_int inc)"
    unfolding encode_window_update_frame_def using wsid m inc'
    by (intro frame_roundtripI) (auto simp: decode_window_update_payload_def codec_simps Let_def)
qed

theorem control_frames_roundtrip_witness:
  "(\<exists>b f. encode_ping_frame [] True [1, 2, 3, 4, 5, 6, 7, 8] = Some ([] @ b) \<and>
      decode_frame (b @ [0]) 16384 = Inr (length b, f) \<and> frame_type f = 6 \<and>
      decode_ping_payload f = Inr [1, 2, 3, 4, 5, 6, 7, 8] \<and> frame_flags f = 1) \<and>
   (\<exists>b f. encode_window_update_frame [] 0 65535 = Some ([] @ b) \<and>
      decode_frame (b @ [0]) 16384 = Inr (length b, f) \<and> frame_type f = 8 \<and> frame_stream_id f = 0 \<and>
      decode_window_update_payload f = Inr 65535)"
  using control_frames_roundtrip [of 5 0 0 16384 "[1, 2, 3, 4, 5, 6, 7, 8]" "[]" 65535 "[]" True "[0]" 0]
  by auto

end
