(* ===== verification/Hpack_Int.thy ===== *)
theory Hpack_Int
  imports Prelude
begin

text \<open>
  HPACK integers (RFC 7541, 5.1): \<^verbatim>\<open>h2o_hpack_decode_int\<close> and \<^verbatim>\<open>h2o_hpack_encode_int\<close> of
  \<^verbatim>\<open>lib/http2/hpack.c\<close>, which QPACK uses as well. The decoder is shown to compute the value of
  the RFC's grammar whenever it accepts, and to accept everything that fits a non-negative
  64-bit integer in at most nine continuation octets; the encoder is its right inverse.
\<close>

section \<open>Decoder\<close>

definition prefix_max :: "nat \<Rightarrow> u8" where
  "prefix_max prefix_bits = push_bit prefix_bits 1 - 1"

text \<open>An octet is read only behind a test that the input is not at its end; reading past the end is \<^const>\<open>READ_PAST_END\<close>.\<close>

definition read_octet :: "octets \<Rightarrow> (u8 \<times> octets) h2res" where
  "read_octet src = (case src of [] \<Rightarrow> Inl (READ_PAST_END, None) | b # src' \<Rightarrow> Inr (b, src'))"

lemma read_octet_simps [simp]: "read_octet [] = Inl (READ_PAST_END, None)" "read_octet (b # src) = Inr (b, src)"
  by (simp_all add: read_octet_def)

text \<open>The \<^verbatim>\<open>for\<close> loop over \<open>shift\<close> and the handling of the ninth octet that follows it.\<close>

function decode_int_loop :: "u64 \<Rightarrow> nat \<Rightarrow> octets \<Rightarrow> (u64 \<times> octets) h2res" where
  "decode_int_loop value shift src =
    (if shift < 56 then
       (if src = [] then Inl (H2O_HTTP2_ERROR_INCOMPLETE, None)
        else
          (case read_octet src of
             Inl e \<Rightarrow> Inl e
           | Inr (b, src') \<Rightarrow>
               (let value' = value + push_bit shift (ucast (b AND 127))
                in if b AND 128 = 0 then Inr (value', src')
                   else decode_int_loop value' (shift + 7) src')))
     else
       (if src = [] then Inl (H2O_HTTP2_ERROR_INCOMPLETE, None)
        else
          (case read_octet src of
             Inl e \<Rightarrow> Inl e
           | Inr (b, src') \<Rightarrow>
               if b AND 128 \<noteq> 0 then Inl (H2O_HTTP2_ERROR_COMPRESSION, None)
               else (let value' = value + push_bit shift (ucast (b AND 127))
                     in if value' > 0x7fffffffffffffff then Inl (H2O_HTTP2_ERROR_COMPRESSION, None)
                        else Inr (value', src')))))"
  by pat_completeness auto
termination
  by (relation "measure (\<lambda>(value, shift, src). 63 - shift)") auto

declare decode_int_loop.simps [simp del]

definition decode_int :: "octets \<Rightarrow> nat \<Rightarrow> (u64 \<times> octets) h2res" where
  "decode_int src prefix_bits =
    (if src = [] then Inl (H2O_HTTP2_ERROR_INCOMPLETE, None)
     else
       (case read_octet src of
          Inl e \<Rightarrow> Inl e
        | Inr (b, src') \<Rightarrow>
            (let value = b AND prefix_max prefix_bits
             in if value \<noteq> prefix_max prefix_bits then Inr (ucast value, src')
                else decode_int_loop (ucast (prefix_max prefix_bits)) 0 src')))"

section \<open>Encoder\<close>

definition encode_int_is_onebyte :: "int \<Rightarrow> nat \<Rightarrow> bool" where
  "encode_int_is_onebyte value prefix_bits \<longleftrightarrow> value < 2 ^ prefix_bits - 1"

function encode_int_loop :: "int \<Rightarrow> octets" where
  "encode_int_loop value =
    (if value \<ge> 128 then (0x80 OR word_of_int value) # encode_int_loop (value div 2 ^ 7)
     else [word_of_int value])"
  by pat_completeness auto
termination
  by (relation "measure nat") auto

declare encode_int_loop.simps [simp del]

text \<open>
  The C function or-s the prefix into the octet \<open>*dst\<close> that the caller has already written;
  \<open>first\<close> is that octet.
\<close>

definition encode_int :: "u8 \<Rightarrow> int \<Rightarrow> nat \<Rightarrow> octets" where
  "encode_int first value prefix_bits =
    (if encode_int_is_onebyte value prefix_bits then [first OR word_of_int value]
     else (first OR word_of_int (2 ^ prefix_bits - 1)) #
       encode_int_loop (value - (2 ^ prefix_bits - 1)))"

section \<open>The RFC's reading of the octets\<close>

text \<open>
  RFC 7541, 5.1, over unbounded numbers: continuation octets carry seven bits each, least
  significant group first, until one without the top bit.
\<close>

fun rfc_groups :: "octets \<Rightarrow> (nat \<times> octets) option" where
  "rfc_groups [] = None"
| "rfc_groups (b # bs) =
     (if unat b < 128 then Some (unat b, bs)
      else map_option (\<lambda>(n, rest). (unat b - 128 + 128 * n, rest)) (rfc_groups bs))"

definition rfc_int :: "octets \<Rightarrow> nat \<Rightarrow> (nat \<times> octets) option" where
  "rfc_int src prefix_bits = (case src of
     [] \<Rightarrow> None
   | b # bs \<Rightarrow>
       if unat b mod 2 ^ prefix_bits < 2 ^ prefix_bits - 1
       then Some (unat b mod 2 ^ prefix_bits, bs)
       else map_option (\<lambda>(n, rest). (2 ^ prefix_bits - 1 + n, rest)) (rfc_groups bs))"

section \<open>Octets and their seven-bit groups\<close>

lemma u8_and_127: "unat (b AND 127 :: u8) = unat b mod 128"
proof -
  have "b AND 127 = take_bit 7 b"
    by (simp add: take_bit_eq_mask mask_eq_exp_minus_1)
  then show ?thesis
    by (simp add: take_bit_eq_mod unat_mod_distrib)
qed

lemma bit_0x80: "bit (0x80 :: u8) n \<longleftrightarrow> n = 7"
proof -
  have "(0x80 :: u8) = push_bit 7 1" by simp
  then show ?thesis by (simp only: bit_push_bit_iff) (auto simp: bit_1_iff)
qed

lemma u8_and_128: "(b AND 128 = (0 :: u8)) \<longleftrightarrow> unat b < 128"
proof -
  have "b AND 128 = (0 :: u8) \<longleftrightarrow> \<not> bit b 7"
  proof
    assume "b AND 128 = 0"
    then have "\<not> bit (b AND 128) 7" by simp
    then show "\<not> bit b 7" by (simp only: bit_and_iff bit_0x80) simp
  next
    assume "\<not> bit b 7"
    then show "b AND 128 = 0"
      by (intro bit_word_eqI) (simp only: bit_and_iff bit_0x80 bit_0_eq, auto)
  qed
  also have "bit b 7 \<longleftrightarrow> bit (unat b) 7"
    by (simp add: bit_unsigned_iff)
  also have "\<dots> \<longleftrightarrow> odd (unat b div 128)"
    by (simp add: bit_iff_odd)
  also have "\<not> \<dots> \<longleftrightarrow> unat b < 128"
  proof -
    have "unat b < 256" by (rule unat_u8_less)
    then have "unat b div 128 < 2" by simp
    then show ?thesis by (auto simp: less_2_cases_iff div_eq_0_iff)
  qed
  finally show ?thesis .
qed

lemma unat_or_128: "unat (0x80 OR w :: u8) = 128 + unat w mod 128"
proof -
  have "0x80 OR w = 0x80 OR take_bit 7 w"
  proof (rule bit_word_eqI)
    fix n assume "n < LENGTH(8)"
    then have "n < 7 \<or> n = 7" by auto
    then show "bit (0x80 OR w) n = bit (0x80 OR take_bit 7 w) n"
      by (simp only: bit_or_iff bit_take_bit_iff bit_0x80) auto
  qed
  also have "\<dots> = 0x80 + take_bit 7 w"
  proof (rule disjunctive_add_eq_or [symmetric])
    show "0x80 AND take_bit 7 w = 0"
      by (rule bit_word_eqI) (simp only: bit_and_iff bit_take_bit_iff bit_0x80 bit_0_eq; simp)
  qed
  finally have "0x80 OR w = 0x80 + take_bit 7 w" .
  moreover have t: "unat (take_bit 7 w) = unat w mod 128"
    by (simp only: unsigned_take_bit_eq) (simp add: take_bit_eq_mod)
  moreover have "unat (0x80 + take_bit 7 w) = 128 + unat (take_bit 7 w)"
    by (subst unat_add_lem [THEN iffD1]) (simp_all add: t del: take_bit_word_eq_self)
  ultimately show ?thesis by simp
qed

lemma unat_or_128_int: "unat (0x80 OR word_of_int v :: u8) = 128 + nat (v mod 128)"
proof -
  have "unat (word_of_int v :: u8) mod 128 = nat (v mod 128)"
  proof -
    have "int (unat (word_of_int v :: u8)) = v mod 256"
      by (simp add: unsigned_of_int take_bit_eq_mod)
    then have "int (unat (word_of_int v :: u8) mod 128) = v mod 128"
      by (simp add: zmod_int mod_mod_cancel)
    then show ?thesis by linarith
  qed
  then show ?thesis by (simp add: unat_or_128)
qed

lemma prefix_max_mask: "prefix_max p = mask p"
  by (simp add: prefix_max_def mask_eq_exp_minus_1)

lemma unat_prefix_max: "p \<le> 8 \<Longrightarrow> unat (prefix_max p) = 2 ^ p - 1"
proof -
  assume "p \<le> 8"
  then consider "p = 0" | "p = 1" | "p = 2" | "p = 3" | "p = 4" | "p = 5" | "p = 6" | "p = 7" | "p = 8"
    by linarith
  then show ?thesis
    by cases (simp_all add: prefix_max_def)
qed

lemma unat_and_prefix_max: "unat (b AND prefix_max p) = unat b mod 2 ^ p"
proof -
  have "b AND prefix_max p = take_bit p b"
    by (simp only: prefix_max_mask take_bit_eq_mask)
  then show ?thesis
    by (simp only: unsigned_take_bit_eq) (simp only: take_bit_eq_mod)
qed

text \<open>Number of continuation octets (top bit set) at the front of the input.\<close>

definition cont :: "octets \<Rightarrow> nat" where
  "cont src = length (takeWhile (\<lambda>b. 128 \<le> unat b) src)"

lemma cont_simps [simp]:
  "cont [] = 0"
  "cont (b # bs) = (if unat b < 128 then 0 else Suc (cont bs))"
  by (simp_all add: cont_def)

lemma rfc_groups_bound: "rfc_groups src = Some (n, rest) \<Longrightarrow> n < 2 ^ (7 * Suc (cont src))"
proof (induction src arbitrary: n)
  case Nil
  then show ?case by simp
next
  case (Cons b bs)
  show ?case
  proof (cases "unat b < 128")
    case True
    with Cons.prems show ?thesis by simp
  next
    case False
    then obtain m where m: "rfc_groups bs = Some (m, rest)" "n = unat b - 128 + 128 * m"
      using Cons.prems by auto
    have "unat b < 256" by (rule unat_u8_less)
    moreover have "Suc m \<le> 2 ^ (7 * Suc (cont bs))" using Cons.IH [OF m(1)] by simp
    then have "128 * Suc m \<le> 128 * 2 ^ (7 * Suc (cont bs))" by (rule mult_le_mono2)
    moreover have "128 * 2 ^ (7 * Suc (cont bs)) = (2::nat) ^ (7 * Suc (Suc (cont bs)))"
      by (simp add: power_add)
    ultimately show ?thesis using m False by simp
  qed
qed

lemma rfc_groups_None: "rfc_groups src = None \<longleftrightarrow> cont src = length src"
  by (induction src) auto

lemma rfc_groups_rest: "rfc_groups src = Some (n, rest) \<Longrightarrow> rest = drop (Suc (cont src)) src"
  by (induction src arbitrary: n) (auto split: if_splits)

text \<open>One accumulation step never wraps around 64 bits.\<close>

lemma unat_accumulate:
  assumes "k \<le> 8" "unat (acc :: u64) < 2 ^ (7 * k) + 255"
  shows "unat (acc + push_bit (7 * k) (ucast (b AND 127 :: u8))) = unat acc + (unat b mod 128) * 2 ^ (7 * k)"
    and "unat acc + (unat b mod 128) * 2 ^ (7 * k) < 2 ^ (7 * Suc k) + 255"
proof -
  let ?d = "unat b mod 128"
  have d: "?d \<le> 127" by simp
  have "?d * 2 ^ (7 * k) \<le> 127 * 2 ^ (7 * k)"
    using d by (rule mult_le_mono1)
  moreover have "(2::nat) ^ (7 * Suc k) = 128 * 2 ^ (7 * k)"
    by (simp add: power_add)
  ultimately show bnd: "unat acc + ?d * 2 ^ (7 * k) < 2 ^ (7 * Suc k) + 255"
    using assms(2) by linarith
  have "(2::nat) ^ (7 * Suc k) \<le> 2 ^ 63"
    using assms(1) by (intro power_increasing) auto
  with bnd have lt: "unat acc + ?d * 2 ^ (7 * k) < 2 ^ 64"
    by simp
  have "unat (ucast (b AND 127) :: u64) = ?d"
    by (simp add: unat_ucast_up u8_and_127)
  then have "(ucast (b AND 127) :: u64) = of_nat ?d"
    by (metis of_nat_unat ucast_id)
  then have "acc + push_bit (7 * k) (ucast (b AND 127)) = of_nat (unat acc + ?d * 2 ^ (7 * k))"
    by (simp add: push_bit_eq_mult)
  then have "unat (acc + push_bit (7 * k) (ucast (b AND 127))) =
      unat (of_nat (unat acc + ?d * 2 ^ (7 * k)) :: u64)"
    by (rule arg_cong)
  also have "\<dots> = unat acc + ?d * 2 ^ (7 * k)"
    using lt by (intro unat_of_nat_eq) simp
  finally show "unat (acc + push_bit (7 * k) (ucast (b AND 127))) = unat acc + ?d * 2 ^ (7 * k)" .
qed

section \<open>The decoder computes the RFC's value\<close>

definition groups_result :: "nat \<Rightarrow> nat \<Rightarrow> octets \<Rightarrow> (u64 \<times> octets) h2res" where
  "groups_result acc k src =
    (if 9 - k \<le> cont src then Inl (H2O_HTTP2_ERROR_COMPRESSION, None)
     else case rfc_groups src of
       None \<Rightarrow> Inl (H2O_HTTP2_ERROR_INCOMPLETE, None)
     | Some (n, rest) \<Rightarrow>
         if acc + n * 2 ^ (7 * k) < 2 ^ 63 then Inr (of_nat (acc + n * 2 ^ (7 * k)), rest)
         else Inl (H2O_HTTP2_ERROR_COMPRESSION, None))"

lemma decode_int_loop_spec:
  "k \<le> 8 \<Longrightarrow> unat acc < 2 ^ (7 * k) + 255 \<Longrightarrow>
   decode_int_loop acc (7 * k) src = groups_result (unat acc) k src"
proof (induction "8 - k" arbitrary: k acc src)
  case 0
  then have k: "k = 8" "7 * k = 56" by auto
  show ?case
  proof (cases src)
    case Nil
    then show ?thesis
      by (subst decode_int_loop.simps) (simp add: groups_result_def k)
  next
    case (Cons b bs)
    let ?v = "acc + push_bit (7 * k) (ucast (b AND 127))"
    note ac = unat_accumulate [OF \<open>k \<le> 8\<close> \<open>unat acc < 2 ^ (7 * k) + 255\<close>, of b]
    have gt: "?v > 0x7fffffffffffffff \<longleftrightarrow> \<not> unat ?v < 2 ^ 63"
      by (auto simp: word_less_nat_alt)
    have v: "?v = of_nat (unat acc + (unat b mod 128) * 2 ^ (7 * k))"
      using ac(1) by (metis of_nat_unat ucast_id)
    show ?thesis
    proof (cases "unat b < 128")
      case True
      then show ?thesis
        using gt v unfolding ac(1)
        by (subst decode_int_loop.simps) (simp add: groups_result_def k Cons u8_and_128)
    next
      case False
      then show ?thesis
        by (subst decode_int_loop.simps) (simp add: groups_result_def k Cons u8_and_128)
    qed
  qed
next
  case (Suc m)
  then have k: "k < 8" "m = 8 - Suc k" by auto
  show ?case
  proof (cases src)
    case Nil
    then show ?thesis using k by (simp add: decode_int_loop.simps groups_result_def)
  next
    case (Cons b bs)
    note ac = unat_accumulate [OF \<open>k \<le> 8\<close> \<open>unat acc < 2 ^ (7 * k) + 255\<close>, of b]
    let ?v = "acc + push_bit (7 * k) (ucast (b AND 127))"
    have IH: "decode_int_loop ?v (7 * Suc k) bs = groups_result (unat ?v) (Suc k) bs"
      using k ac by (intro Suc.hyps(1)) simp_all
    have v: "?v = of_nat (unat acc + (unat b mod 128) * 2 ^ (7 * k))"
      by (metis ac(1) of_nat_unat ucast_id)
    have shift: "7 * k + 7 = 7 * Suc k" "7 * k < 56"
      using k by auto
    show ?thesis
    proof (cases "unat b < 128")
      case True
      have "unat acc + unat b * 2 ^ (7 * k) < 2 ^ 63"
      proof -
        have "(2::nat) ^ (7 * Suc k) \<le> 2 ^ 56"
          using k by (intro power_increasing) auto
        with ac(2) True show ?thesis by simp
      qed
      with True v k shift show ?thesis
        by (subst decode_int_loop.simps) (simp add: groups_result_def Cons u8_and_128 Let_def)
    next
      case False
      have "decode_int_loop acc (7 * k) src = decode_int_loop ?v (7 * Suc k) bs"
        using False shift by (subst decode_int_loop.simps) (simp add: Cons u8_and_128 Let_def add.commute)
      also have "\<dots> = groups_result (unat acc) k src"
      proof -
        have "unat b mod 128 = unat b - 128"
          using False unat_u8_less [of b] by (subst mod_if) simp
        then have sum: "unat acc + unat b mod 128 * 2 ^ (7 * k) + n * 2 ^ (7 * Suc k) =
            unat acc + (unat b - 128 + 128 * n) * 2 ^ (7 * k)" for n
          by (simp add: power_add distrib_right)
        show ?thesis
          unfolding IH ac(1) groups_result_def Cons using False k
          by (cases "rfc_groups bs") (auto simp: sum simp del: power_Suc mult_Suc_right)
      qed
      finally show ?thesis .
    qed
  qed
qed

lemma decode_int_spec:
  assumes "1 \<le> p" "p \<le> 8"
  shows "decode_int src p = (case src of
     [] \<Rightarrow> Inl (H2O_HTTP2_ERROR_INCOMPLETE, None)
   | b # bs \<Rightarrow>
       if unat b mod 2 ^ p < 2 ^ p - 1 then Inr (of_nat (unat b mod 2 ^ p), bs)
       else groups_result (2 ^ p - 1) 0 bs)"
proof (cases src)
  case Nil
  then show ?thesis by (simp add: decode_int_def)
next
  case (Cons b bs)
  have "(2::nat) ^ p \<le> 2 ^ 8"
    using assms by (intro power_increasing) auto
  then have lim: "2 ^ p - 1 < (256::nat)"
    by simp
  have m: "unat b mod 2 ^ p \<le> 2 ^ p - 1"
    using mod_less_divisor [of "2 ^ p" "unat b"] by (simp add: Suc_leI le_diff_conv2)
  have eq: "b AND prefix_max p = prefix_max p \<longleftrightarrow> unat b mod 2 ^ p = 2 ^ p - 1"
    using assms by (simp add: word_unat_eq_iff unat_and_prefix_max unat_prefix_max)
  have "decode_int_loop (ucast (prefix_max p)) (7 * 0) bs = groups_result (2 ^ p - 1) 0 bs"
    using assms lim
    by (subst decode_int_loop_spec) (simp_all add: unat_ucast_up unat_prefix_max)
  moreover have "ucast (b AND prefix_max p) = (of_nat (unat b mod 2 ^ p) :: u64)"
    by (metis unat_and_prefix_max of_nat_unat)
  ultimately show ?thesis
    using m by (auto simp: decode_int_def Cons Let_def eq)
qed

lemma groups_result_InrD:
  assumes "groups_result n0 k src = Inr (v, rest)"
  obtains n where "rfc_groups src = Some (n, rest)" "n0 + n * 2 ^ (7 * k) < 2 ^ 63"
    "v = of_nat (n0 + n * 2 ^ (7 * k))" "cont src < 9 - k"
  using assms by (auto simp: groups_result_def split: if_splits option.splits)

lemma encode_int_loop_groups:
  "0 \<le> v \<Longrightarrow> rfc_groups (encode_int_loop v @ rest) = Some (nat v, rest)"
proof (induction v rule: encode_int_loop.induct)
  case (1 v)
  show ?case
  proof (cases "v \<ge> 128")
    case True
    have IH: "rfc_groups (encode_int_loop (v div 2 ^ 7) @ rest) = Some (nat (v div 2 ^ 7), rest)"
      using "1.IH" [OF True] "1.prems" by (simp add: pos_imp_zdiv_nonneg_iff)
    have enc: "encode_int_loop v = (0x80 OR word_of_int v) # encode_int_loop (v div 2 ^ 7)"
      using True by (subst encode_int_loop.simps) simp
    have "nat v = nat (v mod 128) + 128 * nat (v div 128)"
      using "1.prems" by (simp add: nat_div_distrib nat_mod_distrib)
    then show ?thesis
      using IH by (simp add: enc unat_or_128_int)
  next
    case False
    with "1.prems" have "unat (word_of_int v :: u8) = nat v"
      by (simp add: unsigned_of_int take_bit_int_eq_self)
    with False "1.prems" show ?thesis
      by (subst encode_int_loop.simps) (simp add: nat_less_iff)
  qed
qed

lemma cont_encode_int_loop:
  "0 \<le> v \<Longrightarrow> v < 2 ^ (7 * Suc c) \<Longrightarrow> cont (encode_int_loop v @ rest) \<le> c"
proof (induction c arbitrary: v)
  case 0
  then show ?case
    by (subst encode_int_loop.simps) (simp add: unsigned_of_int take_bit_eq_mod nat_less_iff)
next
  case (Suc c)
  show ?case
  proof (cases "v \<ge> 128")
    case True
    have "v div 128 < 2 ^ (7 * Suc c)"
    proof -
      have "v < 128 * X \<Longrightarrow> v div 128 < X" for X :: int
        by presburger
      then show ?thesis
        using Suc.prems by (simp add: power_add)
    qed
    then have "cont (encode_int_loop (v div 2 ^ 7) @ rest) \<le> c"
      using Suc.IH [of "v div 128"] Suc.prems by simp
    with True show ?thesis
      by (subst encode_int_loop.simps) simp
  next
    case False
    with Suc.prems have "unat (word_of_int v :: u8) < 128"
      by (simp add: unsigned_of_int take_bit_int_eq_self nat_less_iff)
    with False show ?thesis
      by (subst encode_int_loop.simps) simp
  qed
qed

lemma length_encode_int_loop: "0 \<le> v \<Longrightarrow> length (encode_int_loop v) = Suc (cont (encode_int_loop v))"
proof -
  assume "0 \<le> v"
  then have "rfc_groups (encode_int_loop v @ []) = Some (nat v, [])"
    by (rule encode_int_loop_groups)
  then have "drop (Suc (cont (encode_int_loop v))) (encode_int_loop v) = []"
    using rfc_groups_rest [of "encode_int_loop v"] by simp
  moreover have "cont (encode_int_loop v) < length (encode_int_loop v)"
    using \<open>rfc_groups (encode_int_loop v @ []) = Some (nat v, [])\<close> rfc_groups_None [of "encode_int_loop v"]
    by (auto simp: cont_def intro: le_neq_implies_less length_takeWhile_le)
  ultimately show ?thesis by simp
qed

lemma decode_int_groups_iff:
  assumes "1 \<le> p" "p \<le> 8"
  shows "(decode_int src p = Inr (v, rest) \<longleftrightarrow>
      rfc_int src p = Some (unat v, rest) \<and> unat v < 2 ^ 63 \<and> length src \<le> length rest + 10) \<and>
    (decode_int src p = Inl (H2O_HTTP2_ERROR_INCOMPLETE, None) \<longleftrightarrow>
      rfc_int src p = None \<and> length src < 10)"
proof (cases src)
  case Nil
  then show ?thesis
    by (simp add: decode_int_spec [OF assms] rfc_int_def)
next
  case (Cons b bs)
  show ?thesis
  proof (cases "unat b mod 2 ^ p < 2 ^ p - 1")
    case True
    have "unat b mod 2 ^ p < 256"
      using unat_u8_less [of b] mod_less_eq_dividend [of "unat b" "2 ^ p"] by linarith
    with True show ?thesis
      by (auto simp: decode_int_spec [OF assms] rfc_int_def Cons unat_of_nat_eq word_unat_eq_iff)
  next
    case False
    show ?thesis
    proof (cases "rfc_groups bs")
      case None
      then have "cont bs = length bs"
        by (simp add: rfc_groups_None)
      with None False show ?thesis
        by (auto simp: decode_int_spec [OF assms] rfc_int_def Cons groups_result_def)
    next
      case (Some nr)
      obtain n r where nr: "rfc_groups bs = Some (n, r)"
        using Some by (cases nr) auto
      then have "cont bs < length bs"
        using rfc_groups_None [of bs] by (auto simp: cont_def intro: le_neq_implies_less length_takeWhile_le)
      then have r: "Suc (length bs) \<le> length r + 10 \<longleftrightarrow> \<not> 9 \<le> cont bs"
        using rfc_groups_rest [OF nr] by auto
      show ?thesis
        using False r
        by (auto simp: decode_int_spec [OF assms] rfc_int_def Cons groups_result_def nr
            word_unat_eq_iff unat_of_nat_eq)
    qed
  qed
qed

lemma decode_int_errors:
  assumes "1 \<le> p" "p \<le> 8" "decode_int src p = Inl e"
  shows "e = (H2O_HTTP2_ERROR_INCOMPLETE, None) \<or> e = (H2O_HTTP2_ERROR_COMPRESSION, None)"
  using assms(3) by (auto simp: decode_int_spec [OF assms(1,2)] groups_result_def split: list.splits if_splits option.splits)

lemmas decode_int_groups = decode_int_groups_iff [THEN conjunct1, THEN iffD2]

section \<open>Properties\<close>

text \<open>
  C17. The HPACK integer decoder computes the RFC's grammar on every input. Where the grammar gives a number below \<open>2\<^sup>6\<^sup>3\<close> in at most ten octets,
  the decoder returns it with the octets behind it; a larger number or a longer encoding is the error COMPRESSION; and if the grammar runs
  out of octets, the decoder asks for more with INCOMPLETE while fewer than ten octets are there, and returns COMPRESSION otherwise. It never reads
  past the end.
\<close>

theorem decode_int_correct:
  assumes "1 \<le> p" "p \<le> 8"
  shows "decode_int src p = (case rfc_int src p of
      Some (n, rest) \<Rightarrow> if n < 2 ^ 63 \<and> length src \<le> length rest + 10 then Inr (of_nat n, rest) else Inl (H2O_HTTP2_ERROR_COMPRESSION, None)
    | None \<Rightarrow> if length src < 10 then Inl (H2O_HTTP2_ERROR_INCOMPLETE, None) else Inl (H2O_HTTP2_ERROR_COMPRESSION, None))"
proof -
  note iff = decode_int_groups_iff [OF assms, of src]
  have other: "decode_int src p = Inl (H2O_HTTP2_ERROR_COMPRESSION, None)"
    if "\<forall>v rest. decode_int src p \<noteq> Inr (v, rest)" "decode_int src p \<noteq> Inl (H2O_HTTP2_ERROR_INCOMPLETE, None)"
    using that decode_int_errors [OF assms, of src] by (cases "decode_int src p") auto
  show ?thesis
  proof (cases "rfc_int src p")
    case None
    then show ?thesis using iff other by auto
  next
    case (Some nr)
    obtain n rest where nr: "rfc_int src p = Some (n, rest)" using Some by (cases nr) auto
    show ?thesis
    proof (cases "n < 2 ^ 63 \<and> length src \<le> length rest + 10")
      case True
      then have "unat (of_nat n :: u64) = n" by (simp add: unat_of_nat_eq)
      then show ?thesis using iff [of "of_nat n" rest] nr True by simp
    next
      case False
      then show ?thesis using iff other nr by auto
    qed
  qed
qed

theorem decode_int_correct_witness:
  "decode_int [0x1f, 0x9a, 0x0a, 0x77] 5 = Inr (1337, [0x77]) \<and>
   rfc_int [0x1f, 0x9a, 0x0a, 0x77] 5 = Some (unat (1337 :: u64), [0x77])"
proof -
  have "rfc_int [0x1f, 0x9a, 0x0a, 0x77] 5 = Some (unat (1337 :: u64), [0x77])"
    by (simp add: rfc_int_def)
  then show ?thesis
    using decode_int_correct [of 5 "[0x1f, 0x9a, 0x0a, 0x77]"] by simp
qed

lemma rfc_int_encode_int:
  assumes p: "1 \<le> p" "p \<le> 8" and v: "0 \<le> v" and first: "first AND prefix_max p = 0"
  shows "rfc_int (encode_int first v p @ rest) p = Some (nat v, rest)"
proof -
  have low: "unat (first OR w) mod 2 ^ p = unat w mod 2 ^ p" for w
  proof -
    have "(first OR w) AND prefix_max p = w AND prefix_max p"
      using first by (simp add: bit.conj_disj_distrib2)
    then show ?thesis
      by (metis unat_and_prefix_max)
  qed
  have w: "unat (word_of_int u :: u8) mod 2 ^ p = nat u" if "0 \<le> u" "u < 2 ^ p" for u
  proof -
    have "(2::int) ^ p \<le> 2 ^ 8"
      using p by (intro power_increasing) auto
    with that show ?thesis
      by (simp add: unsigned_of_int take_bit_int_eq_self nat_less_iff)
  qed
  show ?thesis
  proof (cases "v < 2 ^ p - 1")
    case True
    with v w [of v] show ?thesis
      by (simp add: encode_int_def encode_int_is_onebyte_def rfc_int_def low nat_less_iff)
  next
    case False
    have "unat (word_of_int (2 ^ p - 1) :: u8) mod 2 ^ p = 2 ^ p - 1"
      using w [of "2 ^ p - 1"] by (simp add: nat_diff_distrib nat_power_eq)
    moreover have "rfc_groups (encode_int_loop (v - (2 ^ p - 1)) @ rest) = Some (nat (v - (2 ^ p - 1)), rest)"
      using False by (intro encode_int_loop_groups) simp
    moreover have "2 ^ p - 1 + nat (v - (2 ^ p - 1)) = nat v"
    proof -
      have "int (2 ^ p - 1) = 2 ^ p - 1" by (simp add: of_nat_diff)
      then show ?thesis using False v by linarith
    qed
    ultimately show ?thesis
      using False by (simp add: encode_int_def encode_int_is_onebyte_def rfc_int_def low)
  qed
qed

lemma length_encode_int:
  assumes "0 \<le> v" "v < 2 ^ 63"
  shows "length (encode_int first v p) \<le> 10"
proof (cases "v < 2 ^ p - 1")
  case True
  then show ?thesis by (simp add: encode_int_def encode_int_is_onebyte_def)
next
  case False
  have "cont (encode_int_loop (v - (2 ^ p - 1)) @ []) \<le> 8"
  proof (rule cont_encode_int_loop)
    have "v - (2 ^ p - 1) \<le> v" by simp
    also have "\<dots> < 2 ^ (7 * Suc 8)" using assms by simp
    finally show "v - (2 ^ p - 1) < 2 ^ (7 * Suc 8)" .
  qed (use False in simp)
  moreover have "length (encode_int_loop (v - (2 ^ p - 1))) = Suc (cont (encode_int_loop (v - (2 ^ p - 1))))"
    using False by (intro length_encode_int_loop) simp
  ultimately show ?thesis
    using False by (simp add: encode_int_def encode_int_is_onebyte_def)
qed

lemma decode_encode_int [codec_simps]:
  assumes "1 \<le> p" "p \<le> 8" "0 \<le> v" "v < 2 ^ 63" "first AND prefix_max p = 0"
  shows "decode_int (encode_int first v p @ rest) p = Inr (word_of_int v, rest)"
proof -
  have "unat (word_of_int v :: u64) = nat v"
    using assms by (simp add: unsigned_of_int take_bit_int_eq_self)
  moreover have "length (encode_int first v p @ rest) \<le> length rest + 10"
    using length_encode_int [OF assms(3,4), of first p] by simp
  ultimately show ?thesis
    using rfc_int_encode_int [OF assms(1,2,3,5), of rest] assms(3,4)
      decode_int_groups [OF assms(1,2), of "encode_int first v p @ rest" "word_of_int v" rest]
    by (simp add: nat_less_iff)
qed

text \<open>
  Encoding an integer and decoding it with the same prefix gives the integer back, for every
  value a non-negative \<^verbatim>\<open>int64_t\<close> can hold and any flag bits above the prefix, and the encoder
  writes at most \<^verbatim>\<open>H2O_HPACK_ENCODE_INT_MAX_LENGTH\<close> (10) octets.
\<close>

theorem encode_int_roundtrip:
  assumes "1 \<le> p" "p \<le> 8" "0 \<le> v" "v < 2 ^ 63" "first AND prefix_max p = 0"
  shows "decode_int (encode_int first v p @ rest) p = Inr (word_of_int v, rest) \<and>
    length (encode_int first v p) \<le> 10"
  using decode_encode_int [OF assms] length_encode_int [OF assms(3,4)] by simp

theorem encode_int_roundtrip_witness:
  "decode_int (encode_int 0x40 9223372036854775807 6 @ [1]) 6 = Inr (9223372036854775807, [1]) \<and>
   length (encode_int 0x40 9223372036854775807 6) \<le> 10"
  using encode_int_roundtrip [where p = 6 and v = 9223372036854775807 and first = "0x40" and rest = "[1]"]
  by (simp add: prefix_max_def)

end
