(* ===== verification/Bit_Strings.thy ===== *)
theory Bit_Strings
  imports Prelude "HOL-Library.Sublist"
begin

text \<open>
  Numbers as bit strings, most significant bit first, and the contract of a prefix code. This is
  the specification language of the Huffman coder: the tables of the program are compared with
  bit strings, and unique decodability is proved once, in the locale \<open>prefix_code\<close>.
\<close>

section \<open>Fixed-length binary notation\<close>

fun bits :: "nat \<Rightarrow> nat \<Rightarrow> bool list" where
  "bits 0 v = []"
| "bits (Suc n) v = bit v n # bits n v"

lemma length_bits [simp]: "length (bits n v) = n"
  by (induction n) auto

lemma bits_cong: "(\<And>i. i < n \<Longrightarrow> bit v i = bit w i) \<Longrightarrow> bits n v = bits n w"
  by (induction n) auto

lemma bits_eqD: "bits n v = bits n w \<Longrightarrow> i < n \<Longrightarrow> bit v i = bit w i"
  by (induction n) (auto simp: less_Suc_eq)

lemma bits_mod: "bits n (v mod 2 ^ n) = bits n v"
  by (rule bits_cong) (simp add: bit_take_bit_iff flip: take_bit_eq_mod)

lemma bit_concat:
  assumes "y < 2 ^ b"
  shows "bit (x * 2 ^ b + y) k = (if k < b then bit y k else bit (x :: nat) (k - b))"
proof -
  have y: "take_bit b y = y"
    using assms by (simp add: take_bit_nat_eq_self)
  have "push_bit b x + take_bit b y = push_bit b x OR take_bit b y"
    by (intro disjunctive_add_eq_or bit_eqI) (auto simp: bit_simps)
  then have "x * 2 ^ b + y = push_bit b x OR take_bit b y"
    by (simp add: push_bit_eq_mult y)
  moreover have "k < b" if "bit y k"
    using that y by (metis bit_take_bit_iff)
  moreover have "bit (take_bit b y) k = bit y k"
    by (simp only: y)
  ultimately show ?thesis
    by (auto simp: bit_or_iff bit_push_bit_iff)
qed

lemma bits_append:
  assumes "y < 2 ^ b"
  shows "bits (a + b) (x * 2 ^ b + y) = bits a x @ bits b y"
proof (induction a)
  case 0
  show ?case
    using assms by (auto intro!: bits_cong simp: bit_concat)
next
  case (Suc a)
  then show ?case
    using bit_concat [OF assms, of x "a + b"] by simp
qed

lemma bits_inj: "v < 2 ^ n \<Longrightarrow> w < 2 ^ n \<Longrightarrow> bits n v = bits n w \<Longrightarrow> v = w"
proof -
  assume v: "v < 2 ^ n" and w: "w < 2 ^ n" and eq: "bits n v = bits n w"
  have "take_bit n v = take_bit n w"
    using bits_eqD [OF eq] by (intro bit_eqI) (auto simp: bit_take_bit_iff)
  with v w show ?thesis
    by (simp add: take_bit_nat_eq_self)
qed

lemma bits_prefix_interval:
  assumes nm: "n \<le> m" and c: "c < 2 ^ n" and d: "d < 2 ^ m"
    and eq: "bits n c @ u = bits m d @ v"
  shows "c * 2 ^ (m - n) \<le> d \<and> d < (c + 1) * 2 ^ (m - n)"
proof -
  define K where "K = (2::nat) ^ (m - n)"
  have K: "0 < K" "d mod K < 2 ^ (m - n)"
    by (simp_all add: K_def)
  have "bits (n + (m - n)) (d div K * K + d mod K) = bits n (d div K) @ bits (m - n) (d mod K)"
    unfolding K_def by (rule bits_append) simp
  then have "bits m d = bits n (d div K) @ bits (m - n) (d mod K)"
    using nm by simp
  then have "bits n c = bits n (d div K)"
    using eq by (simp add: append_eq_append_conv)
  moreover have "d < 2 ^ n * K"
    using d nm by (simp add: K_def flip: power_add)
  then have "d div K < 2 ^ n"
    using K(1) by (simp add: div_less_iff_less_mult)
  ultimately have "c = d div K"
    using c bits_inj by blast
  then show ?thesis
    using K(1) by (simp add: dividend_less_div_times flip: K_def)
qed

lemma scaled_interval:
  assumes "n \<le> m" "m \<le> b" "c * 2 ^ (m - n) \<le> d \<and> d < (c + 1) * (2::nat) ^ (m - n)"
  shows "c * 2 ^ (b - n) < (d + 1) * 2 ^ (b - m) \<and> d * 2 ^ (b - m) < (c + 1) * 2 ^ (b - n)"
proof -
  have p: "(2::nat) ^ (b - n) = 2 ^ (m - n) * 2 ^ (b - m)"
    using assms by (simp flip: power_add)
  have "c * 2 ^ (m - n) * 2 ^ (b - m) \<le> d * 2 ^ (b - m)"
    using assms by (intro mult_le_mono1) simp
  moreover have "d * 2 ^ (b - m) < (c + 1) * 2 ^ (m - n) * 2 ^ (b - m)"
    using assms by (intro mult_strict_right_mono) simp_all
  moreover have "d * 2 ^ (b - m) < (d + 1) * 2 ^ (b - m)"
    by simp
  ultimately show ?thesis
    unfolding p mult.assoc [symmetric] by linarith
qed

lemma bits_ones: "bits n (2 ^ n - 1) = replicate n True"
proof -
  have "bits n (mask m) = replicate n True" if "n \<le> m" for m
    using that by (induction n) (auto simp: bit_mask_iff)
  then show ?thesis
    by (simp add: mask_eq_exp_minus_1)
qed

lemma bits_eq_ones_iff: "v < 2 ^ n \<Longrightarrow> bits n v = replicate n True \<longleftrightarrow> Suc v = 2 ^ n"
proof -
  assume v: "v < 2 ^ n"
  have "bits n v = replicate n True \<longleftrightarrow> bits n v = bits n (2 ^ n - 1)"
    by (simp only: bits_ones)
  also have "\<dots> \<longleftrightarrow> v = 2 ^ n - 1"
    using bits_inj [of v n "2 ^ n - 1"] v by auto
  also have "\<dots> \<longleftrightarrow> Suc v = 2 ^ n"
    by (metis Suc_pred' diff_Suc_1 zero_less_power zero_less_numeral)
  finally show ?thesis .
qed

text \<open>The bits of a string of octets.\<close>

definition octets_bits :: "octets \<Rightarrow> bool list" where
  "octets_bits bs = concat (map (\<lambda>b. bits 8 (unat b)) bs)"

lemma octets_bits_simps [simp]:
  "octets_bits [] = []"
  "octets_bits (b # bs) = bits 8 (unat b) @ octets_bits bs"
  "octets_bits (xs @ ys) = octets_bits xs @ octets_bits ys"
  by (simp_all add: octets_bits_def)

lemma length_octets_bits [simp]: "length (octets_bits bs) = 8 * length bs"
  by (induction bs) auto

lemma octet_nibbles: "bits 8 v = bits 4 (v div 16) @ bits 4 (v mod 16)"
  using bits_append [of "v mod 16" 4 4 "v div 16"] by simp

section \<open>Prefix codes\<close>

text \<open>
  \<open>code\<close> gives the code words of the symbols in \<open>syms\<close>; no code word is a prefix of another, and
  none is empty.
\<close>

abbreviation codes :: "('s \<Rightarrow> bool list) \<Rightarrow> 's list \<Rightarrow> bool list" where
  "codes code xs \<equiv> concat (map code xs)"

locale prefix_code =
  fixes code :: "'s \<Rightarrow> bool list" and syms :: "'s set"
  assumes prefix_free: "x \<in> syms \<Longrightarrow> y \<in> syms \<Longrightarrow> code x @ u = code y @ v \<Longrightarrow> x = y"
    and code_nonempty: "x \<in> syms \<Longrightarrow> code x \<noteq> []"
begin

text \<open>
  Two parses of the same bits agree as long as the shorter one lasts: a sequence of symbols that
  was already read is a prefix of the sequence that was sent, if what remains to be sent cannot
  start with a code word.
\<close>

lemma read_is_prefix:
  assumes "set xs \<subseteq> syms" "set ys \<subseteq> syms"
    and "codes code xs @ u = codes code ys @ pad"
    and "\<And>z w. z \<in> syms \<Longrightarrow> pad \<noteq> code z @ w"
  shows "\<exists>zs. ys = xs @ zs \<and> u = codes code zs @ pad"
  using assms(1-3)
proof (induction xs arbitrary: ys)
  case Nil
  then show ?case by simp
next
  case (Cons x xs)
  show ?case
  proof (cases ys)
    case Nil
    then have "pad = code x @ codes code xs @ u"
      using Cons.prems by simp
    with assms(4) Cons.prems(1) show ?thesis by auto
  next
    case (Cons y ys')
    then have eq: "code x @ codes code xs @ u = code y @ codes code ys' @ pad"
      using Cons.prems(3) by simp
    then have "x = y"
      using Cons.prems Cons by (intro prefix_free) auto
    then have "codes code xs @ u = codes code ys' @ pad"
      using eq by simp
    then show ?thesis
      using Cons.IH [of ys'] Cons.prems Cons \<open>x = y\<close> by auto
  qed
qed

end

end
