(* ===== verification/Hpack_Huffman_Check.thy ===== *)
theory Hpack_Huffman_Check
  imports Hpack_Huffman_Table Bit_Strings
begin

text \<open>
  Consistency of the two Huffman tables. Every state of the decoding automaton stands for the
  bits read since the last complete code word; \<open>state_path\<close> gives them, as a bit length and a
  number. The check goes through all 4096 transitions of \<open>huff_decode_table\<close>: what a transition
  emits, where it leads, whether it fails and whether it may be the last one is what the code
  table says of the bits read. The result is an interpretation of the locale
  \<open>huffman_automaton\<close>, which is all that the correctness proof of the decoder uses.
\<close>

section \<open>The contract of the decoding automaton\<close>

text \<open>
  \<open>path s\<close> is the bit string of state \<open>s\<close>; \<open>entry s i\<close> is the transition on the four bits \<open>i\<close>.
  Flags: 4 fails, 2 emits a symbol, 1 may be the last transition.
\<close>

locale huffman_automaton = prefix_code code syms
  for code :: "nat \<Rightarrow> bool list" and syms :: "nat set" +
  fixes eos :: nat
    and path :: "nat \<Rightarrow> bool list"
    and entry :: "nat \<Rightarrow> nat \<Rightarrow> nat \<times> nat \<times> nat"
  assumes eos: "eos \<in> syms" "code eos = replicate 30 True"
    and path_start: "path 0 = []"
    and path_inner: "s < 256 \<Longrightarrow> x \<in> syms \<Longrightarrow> path s \<noteq> code x @ u"
    and entry_fail: "s < 256 \<Longrightarrow> i < 16 \<Longrightarrow> entry s i = (t, fl, y) \<Longrightarrow> fl AND 4 \<noteq> 0 \<Longrightarrow>
      prefix (code eos) (path s @ bits 4 i)"
    and entry_state: "s < 256 \<Longrightarrow> i < 16 \<Longrightarrow> entry s i = (t, fl, y) \<Longrightarrow> fl AND 4 = 0 \<Longrightarrow> t < 256"
    and entry_bits: "s < 256 \<Longrightarrow> i < 16 \<Longrightarrow> entry s i = (t, fl, y) \<Longrightarrow> fl AND 4 = 0 \<Longrightarrow>
      path s @ bits 4 i = (if fl AND 2 \<noteq> 0 then code y else []) @ path t"
    and entry_sym: "s < 256 \<Longrightarrow> i < 16 \<Longrightarrow> entry s i = (t, fl, y) \<Longrightarrow> fl AND 4 = 0 \<Longrightarrow>
      fl AND 2 \<noteq> 0 \<Longrightarrow> y \<in> syms \<and> y \<noteq> eos"
    and entry_accept: "s < 256 \<Longrightarrow> i < 16 \<Longrightarrow> entry s i = (t, fl, y) \<Longrightarrow> fl AND 4 = 0 \<Longrightarrow>
      fl AND 1 \<noteq> 0 \<longleftrightarrow> (\<exists>k < 8. path t = replicate k True)"
begin

text \<open>Padding, at most seven one bits, cannot start with a code word.\<close>

lemma padding_no_code:
  assumes "k < 8" "z \<in> syms"
  shows "replicate k True \<noteq> code z @ w"
proof
  assume eq: "replicate k True = code z @ w"
  have "code z @ w @ replicate (30 - k) True = code eos @ []"
    using assms(1) by (simp add: eos(2) flip: eq append_assoc replicate_add)
  then have "z = eos"
    by (rule prefix_free [OF assms(2) eos(1)])
  then have "30 \<le> k"
    using arg_cong [OF eq, of length] by (simp add: eos(2))
  with assms(1) show False by simp
qed

text \<open>A transition on bits of a well-formed encoding does not fail.\<close>

lemma no_fail:
  assumes "s < 256" "i < 16" "entry s i = (t, fl, y)"
    and "path s @ bits 4 i @ rest = codes code xs @ replicate k True"
    and "k < 8" "set xs \<subseteq> syms - {eos}"
  shows "fl AND 4 = 0"
proof (rule ccontr)
  assume "fl AND 4 \<noteq> 0"
  then obtain r where r: "path s @ bits 4 i = code eos @ r"
    using entry_fail [OF assms(1-3)] by (auto elim: prefixE)
  then have eq: "code eos @ r @ rest = codes code xs @ replicate k True"
    using assms(4) by (metis append_assoc)
  show False
  proof (cases xs)
    case Nil
    with eq have "replicate k True = code eos @ r @ rest" by simp
    with padding_no_code [OF assms(5) eos(1)] show False by blast
  next
    case (Cons x xs')
    then have "code eos @ r @ rest = code x @ codes code xs' @ replicate k True"
      using eq by simp
    then have "eos = x"
      by (rule prefix_free [rotated -1]) (use eos assms(6) Cons in auto)
    with assms(6) Cons show False by simp
  qed
qed

text \<open>At the end of a well-formed encoding the automaton is in the middle of the padding.\<close>

lemma final_state:
  assumes "s < 256" "path s = codes code xs @ replicate k True" "set xs \<subseteq> syms"
  shows "xs = [] \<and> path s = replicate k True"
proof (cases xs)
  case (Cons x xs')
  then have "path s = code x @ codes code xs' @ replicate k True"
    using assms(2) by simp
  with path_inner [OF assms(1), of x] Cons assms(3) show ?thesis by auto
qed (use assms in simp)

end

section \<open>Codes as bit strings\<close>

definition huff_code :: "nat \<Rightarrow> bool list" where
  "huff_code x = (case huff_sym_table ! x of (nbits, code) \<Rightarrow> bits nbits code)"

definition huff_syms :: "nat set" where
  "huff_syms = {0..256}"

text \<open>
  A code word of \<open>n\<close> bits covers an interval of the 30-bit numbers. In the order of \<open>huff_order\<close>
  these intervals follow each other, so two code words that start the same bits are equal.
\<close>

definition huff_order :: "nat list" where
  "huff_order = [
     48, 49, 50, 97, 99, 101, 105, 111, 115, 116, 32, 37, 45, 46, 47, 51, 52, 53, 54, 55, 56, 57,
     61, 65, 95, 98, 100, 102, 103, 104, 108, 109, 110, 112, 114, 117, 58, 66, 67, 68, 69, 70,
     71, 72, 73, 74, 75, 76, 77, 78, 79, 80, 81, 82, 83, 84, 85, 86, 87, 89, 106, 107, 113, 118,
     119, 120, 121, 122, 38, 42, 44, 59, 88, 90, 33, 34, 40, 41, 63, 39, 43, 124, 35, 62, 0, 36,
     64, 91, 93, 126, 94, 125, 60, 96, 123, 92, 195, 208, 128, 130, 131, 162, 184, 194, 224, 226,
     153, 161, 167, 172, 176, 177, 179, 209, 216, 217, 227, 229, 230, 129, 132, 133, 134, 136,
     146, 154, 156, 160, 163, 164, 169, 170, 173, 178, 181, 185, 186, 187, 189, 190, 196, 198,
     228, 232, 233, 1, 135, 137, 138, 139, 140, 141, 143, 147, 149, 150, 151, 152, 155, 157, 158,
     165, 166, 168, 174, 175, 180, 182, 183, 188, 191, 197, 231, 239, 9, 142, 144, 145, 148, 159,
     171, 206, 215, 225, 236, 237, 199, 207, 234, 235, 192, 193, 200, 201, 202, 205, 210, 213,
     218, 219, 238, 240, 242, 243, 255, 203, 204, 211, 212, 214, 221, 222, 223, 241, 244, 245,
     246, 247, 248, 250, 251, 252, 253, 254, 2, 3, 4, 5, 6, 7, 8, 11, 12, 14, 15, 16, 17, 18, 19,
     20, 21, 23, 24, 25, 26, 27, 28, 29, 30, 31, 127, 220, 249, 10, 13, 22, 256]"

definition code_lo :: "nat \<Rightarrow> nat" where
  "code_lo x = (case huff_sym_table ! x of (nbits, code) \<Rightarrow> code * 2 ^ (30 - nbits))"

definition code_hi :: "nat \<Rightarrow> nat" where
  "code_hi x = (case huff_sym_table ! x of (nbits, code) \<Rightarrow> (code + 1) * 2 ^ (30 - nbits))"

fun adjacent :: "nat list \<Rightarrow> bool" where
  "adjacent (x # y # xs) = (code_lo x < code_hi x \<and> code_hi x \<le> code_lo y \<and> adjacent (y # xs))"
| "adjacent [x] = (code_lo x < code_hi x)"
| "adjacent [] = True"

lemmas sym_nth = huff_sym_table_nth huff_sym_table_nth(2) [unfolded One_nat_def]

lemma huff_order_adjacent: "adjacent huff_order"
  by (simp add: huff_order_def code_lo_def code_hi_def sym_nth)

lemma adjacent_sorted:
  "adjacent xs \<Longrightarrow> sorted_wrt (\<lambda>x y. code_hi x \<le> code_lo y) xs \<and> (\<forall>x \<in> set xs. code_lo x < code_hi x)"
proof (induction xs rule: adjacent.induct)
  case (1 x y xs)
  then have IH: "sorted_wrt (\<lambda>x y. code_hi x \<le> code_lo y) (y # xs)"
    "\<forall>x \<in> set (y # xs). code_lo x < code_hi x" and xy: "code_lo x < code_hi x" "code_hi x \<le> code_lo y"
    by auto
  have "code_hi x \<le> code_lo z" if "z \<in> set (y # xs)" for z
  proof (cases "z = y")
    case False
    with that IH have "code_hi y \<le> code_lo z" "code_lo y < code_hi y"
      by auto
    with xy show ?thesis by linarith
  qed (use xy in simp)
  with IH xy show ?case by auto
qed auto

lemma sorted_intervals_distinct:
  "sorted_wrt (\<lambda>x y. code_hi x \<le> code_lo y) xs \<Longrightarrow> \<forall>x \<in> set xs. code_lo x < code_hi x \<Longrightarrow> distinct xs"
  by (induction xs) fastforce+

lemma huff_order_set: "set huff_order = huff_syms"
proof -
  have "distinct huff_order"
    using adjacent_sorted [OF huff_order_adjacent] sorted_intervals_distinct by blast
  then have "card (set huff_order) = length huff_order"
    by (rule distinct_card)
  also have "\<dots> = card huff_syms"
    by (simp add: huff_syms_def huff_order_def)
  finally have "card (set huff_order) = card huff_syms" .
  moreover have "set huff_order \<subseteq> huff_syms"
    by (simp add: huff_order_def huff_syms_def)
  ultimately show ?thesis
    by (intro card_subset_eq) (simp_all add: huff_syms_def)
qed

lemma sorted_intervals_disjoint:
  assumes "sorted_wrt (\<lambda>x y. code_hi x \<le> code_lo y) xs" "x \<in> set xs" "y \<in> set xs" "x \<noteq> y"
  shows "code_hi x \<le> code_lo y \<or> code_hi y \<le> code_lo x"
  using assms by (induction xs) auto

lemma code_intervals_disjoint:
  assumes "x \<in> huff_syms" "y \<in> huff_syms" "code_lo x < code_hi y" "code_lo y < code_hi x"
  shows "x = y"
proof (rule ccontr)
  assume "x \<noteq> y"
  then have "code_hi x \<le> code_lo y \<or> code_hi y \<le> code_lo x"
    using sorted_intervals_disjoint [OF adjacent_sorted [OF huff_order_adjacent, THEN conjunct1]]
      assms(1,2) by (simp only: huff_order_set)
  with assms(3,4) show False
    by simp
qed

lemma huff_sym_range:
  "x \<in> huff_syms \<Longrightarrow> huff_sym_table ! x = (n, c) \<Longrightarrow> 5 \<le> n \<and> n \<le> 30 \<and> c < 2 ^ n"
proof -
  assume x: "x \<in> huff_syms" "huff_sym_table ! x = (n, c)"
  have "list_all (\<lambda>(n, c). 5 \<le> n \<and> n \<le> 30 \<and> c < 2 ^ n) huff_sym_table"
    by (simp add: huff_sym_table_def)
  with x show ?thesis
    by (auto simp: list_all_length length_huff_sym_table huff_syms_def dest: spec [of _ x])
qed

text \<open>If two code words start the same bits then the shorter one's interval holds the longer one's start.\<close>

lemma prefix_interval:
  assumes xs: "x \<in> huff_syms" "y \<in> huff_syms"
    and eq: "huff_code x @ u = huff_code y @ v"
    and len: "length (huff_code x) \<le> length (huff_code y)"
  shows "x = y"
proof -
  obtain n c m d where x: "huff_sym_table ! x = (n, c)" and y: "huff_sym_table ! y = (m, d)"
    by (metis surj_pair)
  have r: "5 \<le> n" "n \<le> 30" "c < 2 ^ n" "5 \<le> m" "m \<le> 30" "d < 2 ^ m"
    using huff_sym_range [OF xs(1) x] huff_sym_range [OF xs(2) y] by auto
  have nm: "n \<le> m"
    using len by (simp add: huff_code_def x y)
  have "bits n c @ u = bits m d @ v"
    using eq by (simp add: huff_code_def x y)
  from scaled_interval [OF nm r(5) bits_prefix_interval [OF nm r(3,6) this]] show ?thesis
    by (intro code_intervals_disjoint [OF xs]) (simp_all add: code_lo_def code_hi_def x y)
qed

interpretation hpc: prefix_code huff_code huff_syms
proof
  fix x y u v
  assume "x \<in> huff_syms" "y \<in> huff_syms" "huff_code x @ u = huff_code y @ v"
  then show "x = y"
    using prefix_interval [of x y u v] prefix_interval [of y x v u] nat_le_linear by metis
next
  fix x
  assume x: "x \<in> huff_syms"
  obtain n c where xe: "huff_sym_table ! x = (n, c)"
    by (metis surj_pair)
  then have "n > 0"
    using huff_sym_range [OF x] by simp
  then have "length (huff_code x) > 0"
    by (simp add: huff_code_def xe)
  then show "huff_code x \<noteq> []"
    by simp
qed

section \<open>The bit string of a state\<close>

definition state_paths :: "(nat \<times> nat) list list" where
  "state_paths = [
    [
     (0, 0), (1, 0), (2, 0), (3, 0), (4, 0), (4, 1), (3, 1), (4, 2), (4, 3), (2, 1), (3, 2),
     (4, 4), (4, 5), (5, 10), (5, 11), (3, 3)],
    [
     (4, 6), (5, 12), (5, 13), (4, 7), (5, 14), (5, 15), (1, 1), (2, 2), (3, 4), (4, 8), (5, 16),
     (5, 17), (4, 9), (5, 18), (5, 19), (3, 5)],
    [
     (4, 10), (5, 20), (5, 21), (4, 11), (5, 22), (5, 23), (6, 46), (6, 47), (2, 3), (3, 6),
     (4, 12), (5, 24), (6, 48), (6, 49), (5, 25), (6, 50)],
    [
     (6, 51), (4, 13), (5, 26), (6, 52), (6, 53), (5, 27), (6, 54), (6, 55), (3, 7), (4, 14),
     (5, 28), (6, 56), (6, 57), (5, 29), (6, 58), (6, 59)],
    [
     (4, 15), (5, 30), (6, 60), (6, 61), (5, 31), (6, 62), (7, 124), (7, 125), (6, 63), (7, 126),
     (7, 127), (8, 254), (9, 508), (9, 509), (8, 255), (9, 510)],
    [
     (10, 1021), (9, 511), (10, 1022), (11, 2045), (10, 1023), (11, 2046), (12, 4092),
     (12, 4093), (11, 2047), (12, 4094), (12, 4095), (13, 8190), (13, 8191), (14, 16382),
     (14, 16383), (15, 32767)],
    [
     (16, 65534), (17, 131068), (18, 262136), (18, 262137), (19, 524275), (17, 131069),
     (18, 262138), (19, 524276), (19, 524277), (18, 262139), (19, 524278), (19, 524279),
     (20, 1048558), (20, 1048559), (16, 65535), (17, 131070)],
    [
     (18, 262140), (19, 524280), (20, 1048560), (20, 1048561), (19, 524281), (20, 1048562),
     (20, 1048563), (18, 262141), (19, 524282), (20, 1048564), (21, 2097129), (20, 1048565),
     (21, 2097130), (21, 2097131), (19, 524283), (20, 1048566)],
    [
     (21, 2097132), (21, 2097133), (20, 1048567), (21, 2097134), (21, 2097135), (17, 131071),
     (18, 262142), (19, 524284), (20, 1048568), (21, 2097136), (21, 2097137), (20, 1048569),
     (21, 2097138), (21, 2097139), (19, 524285), (20, 1048570)],
    [
     (21, 2097140), (21, 2097141), (20, 1048571), (21, 2097142), (22, 4194284), (22, 4194285),
     (21, 2097143), (22, 4194286), (22, 4194287), (18, 262143), (19, 524286), (20, 1048572),
     (21, 2097144), (22, 4194288), (22, 4194289), (21, 2097145)],
    [
     (22, 4194290), (22, 4194291), (20, 1048573), (21, 2097146), (22, 4194292), (22, 4194293),
     (21, 2097147), (22, 4194294), (22, 4194295), (19, 524287), (20, 1048574), (21, 2097148),
     (22, 4194296), (22, 4194297), (21, 2097149), (22, 4194298)],
    [
     (23, 8388597), (22, 4194299), (23, 8388598), (23, 8388599), (20, 1048575), (21, 2097150),
     (22, 4194300), (23, 8388600), (23, 8388601), (22, 4194301), (23, 8388602), (23, 8388603),
     (24, 16777206), (24, 16777207), (21, 2097151), (22, 4194302)],
    [
     (23, 8388604), (24, 16777208), (25, 33554416), (25, 33554417), (24, 16777209),
     (25, 33554418), (25, 33554419), (23, 8388605), (24, 16777210), (25, 33554420),
     (25, 33554421), (24, 16777211), (25, 33554422), (25, 33554423), (26, 67108847), (22, 4194303)],
    [
     (23, 8388606), (24, 16777212), (25, 33554424), (26, 67108848), (26, 67108849),
     (25, 33554425), (26, 67108850), (26, 67108851), (24, 16777213), (25, 33554426),
     (26, 67108852), (26, 67108853), (25, 33554427), (26, 67108854), (26, 67108855), (23, 8388607)],
    [
     (24, 16777214), (25, 33554428), (26, 67108856), (27, 134217713), (26, 67108857),
     (27, 134217714), (27, 134217715), (25, 33554429), (26, 67108858), (27, 134217716),
     (27, 134217717), (26, 67108859), (27, 134217718), (27, 134217719), (24, 16777215),
     (25, 33554430)],
    [
     (26, 67108860), (27, 134217720), (27, 134217721), (26, 67108861), (27, 134217722),
     (27, 134217723), (25, 33554431), (26, 67108862), (27, 134217724), (27, 134217725),
     (26, 67108863), (27, 134217726), (27, 134217727), (28, 268435455), (29, 536870910),
     (29, 536870911)]]"

definition state_path :: "nat \<Rightarrow> nat \<times> nat" where
  "state_path s = state_paths ! (s div 16) ! (s mod 16)"

lemma state_path_eqs:
  "state_path 0 = (0, 0)"
  "state_path 1 = (1, 0)"
  "state_path 2 = (2, 0)"
  "state_path 3 = (3, 0)"
  "state_path 4 = (4, 0)"
  "state_path 5 = (4, 1)"
  "state_path 6 = (3, 1)"
  "state_path 7 = (4, 2)"
  "state_path 8 = (4, 3)"
  "state_path 9 = (2, 1)"
  "state_path 10 = (3, 2)"
  "state_path 11 = (4, 4)"
  "state_path 12 = (4, 5)"
  "state_path 13 = (5, 10)"
  "state_path 14 = (5, 11)"
  "state_path 15 = (3, 3)"
  "state_path 16 = (4, 6)"
  "state_path 17 = (5, 12)"
  "state_path 18 = (5, 13)"
  "state_path 19 = (4, 7)"
  "state_path 20 = (5, 14)"
  "state_path 21 = (5, 15)"
  "state_path 22 = (1, 1)"
  "state_path 23 = (2, 2)"
  "state_path 24 = (3, 4)"
  "state_path 25 = (4, 8)"
  "state_path 26 = (5, 16)"
  "state_path 27 = (5, 17)"
  "state_path 28 = (4, 9)"
  "state_path 29 = (5, 18)"
  "state_path 30 = (5, 19)"
  "state_path 31 = (3, 5)"
  "state_path 32 = (4, 10)"
  "state_path 33 = (5, 20)"
  "state_path 34 = (5, 21)"
  "state_path 35 = (4, 11)"
  "state_path 36 = (5, 22)"
  "state_path 37 = (5, 23)"
  "state_path 38 = (6, 46)"
  "state_path 39 = (6, 47)"
  "state_path 40 = (2, 3)"
  "state_path 41 = (3, 6)"
  "state_path 42 = (4, 12)"
  "state_path 43 = (5, 24)"
  "state_path 44 = (6, 48)"
  "state_path 45 = (6, 49)"
  "state_path 46 = (5, 25)"
  "state_path 47 = (6, 50)"
  "state_path 48 = (6, 51)"
  "state_path 49 = (4, 13)"
  "state_path 50 = (5, 26)"
  "state_path 51 = (6, 52)"
  "state_path 52 = (6, 53)"
  "state_path 53 = (5, 27)"
  "state_path 54 = (6, 54)"
  "state_path 55 = (6, 55)"
  "state_path 56 = (3, 7)"
  "state_path 57 = (4, 14)"
  "state_path 58 = (5, 28)"
  "state_path 59 = (6, 56)"
  "state_path 60 = (6, 57)"
  "state_path 61 = (5, 29)"
  "state_path 62 = (6, 58)"
  "state_path 63 = (6, 59)"
  "state_path 64 = (4, 15)"
  "state_path 65 = (5, 30)"
  "state_path 66 = (6, 60)"
  "state_path 67 = (6, 61)"
  "state_path 68 = (5, 31)"
  "state_path 69 = (6, 62)"
  "state_path 70 = (7, 124)"
  "state_path 71 = (7, 125)"
  "state_path 72 = (6, 63)"
  "state_path 73 = (7, 126)"
  "state_path 74 = (7, 127)"
  "state_path 75 = (8, 254)"
  "state_path 76 = (9, 508)"
  "state_path 77 = (9, 509)"
  "state_path 78 = (8, 255)"
  "state_path 79 = (9, 510)"
  "state_path 80 = (10, 1021)"
  "state_path 81 = (9, 511)"
  "state_path 82 = (10, 1022)"
  "state_path 83 = (11, 2045)"
  "state_path 84 = (10, 1023)"
  "state_path 85 = (11, 2046)"
  "state_path 86 = (12, 4092)"
  "state_path 87 = (12, 4093)"
  "state_path 88 = (11, 2047)"
  "state_path 89 = (12, 4094)"
  "state_path 90 = (12, 4095)"
  "state_path 91 = (13, 8190)"
  "state_path 92 = (13, 8191)"
  "state_path 93 = (14, 16382)"
  "state_path 94 = (14, 16383)"
  "state_path 95 = (15, 32767)"
  "state_path 96 = (16, 65534)"
  "state_path 97 = (17, 131068)"
  "state_path 98 = (18, 262136)"
  "state_path 99 = (18, 262137)"
  "state_path 100 = (19, 524275)"
  "state_path 101 = (17, 131069)"
  "state_path 102 = (18, 262138)"
  "state_path 103 = (19, 524276)"
  "state_path 104 = (19, 524277)"
  "state_path 105 = (18, 262139)"
  "state_path 106 = (19, 524278)"
  "state_path 107 = (19, 524279)"
  "state_path 108 = (20, 1048558)"
  "state_path 109 = (20, 1048559)"
  "state_path 110 = (16, 65535)"
  "state_path 111 = (17, 131070)"
  "state_path 112 = (18, 262140)"
  "state_path 113 = (19, 524280)"
  "state_path 114 = (20, 1048560)"
  "state_path 115 = (20, 1048561)"
  "state_path 116 = (19, 524281)"
  "state_path 117 = (20, 1048562)"
  "state_path 118 = (20, 1048563)"
  "state_path 119 = (18, 262141)"
  "state_path 120 = (19, 524282)"
  "state_path 121 = (20, 1048564)"
  "state_path 122 = (21, 2097129)"
  "state_path 123 = (20, 1048565)"
  "state_path 124 = (21, 2097130)"
  "state_path 125 = (21, 2097131)"
  "state_path 126 = (19, 524283)"
  "state_path 127 = (20, 1048566)"
  "state_path 128 = (21, 2097132)"
  "state_path 129 = (21, 2097133)"
  "state_path 130 = (20, 1048567)"
  "state_path 131 = (21, 2097134)"
  "state_path 132 = (21, 2097135)"
  "state_path 133 = (17, 131071)"
  "state_path 134 = (18, 262142)"
  "state_path 135 = (19, 524284)"
  "state_path 136 = (20, 1048568)"
  "state_path 137 = (21, 2097136)"
  "state_path 138 = (21, 2097137)"
  "state_path 139 = (20, 1048569)"
  "state_path 140 = (21, 2097138)"
  "state_path 141 = (21, 2097139)"
  "state_path 142 = (19, 524285)"
  "state_path 143 = (20, 1048570)"
  "state_path 144 = (21, 2097140)"
  "state_path 145 = (21, 2097141)"
  "state_path 146 = (20, 1048571)"
  "state_path 147 = (21, 2097142)"
  "state_path 148 = (22, 4194284)"
  "state_path 149 = (22, 4194285)"
  "state_path 150 = (21, 2097143)"
  "state_path 151 = (22, 4194286)"
  "state_path 152 = (22, 4194287)"
  "state_path 153 = (18, 262143)"
  "state_path 154 = (19, 524286)"
  "state_path 155 = (20, 1048572)"
  "state_path 156 = (21, 2097144)"
  "state_path 157 = (22, 4194288)"
  "state_path 158 = (22, 4194289)"
  "state_path 159 = (21, 2097145)"
  "state_path 160 = (22, 4194290)"
  "state_path 161 = (22, 4194291)"
  "state_path 162 = (20, 1048573)"
  "state_path 163 = (21, 2097146)"
  "state_path 164 = (22, 4194292)"
  "state_path 165 = (22, 4194293)"
  "state_path 166 = (21, 2097147)"
  "state_path 167 = (22, 4194294)"
  "state_path 168 = (22, 4194295)"
  "state_path 169 = (19, 524287)"
  "state_path 170 = (20, 1048574)"
  "state_path 171 = (21, 2097148)"
  "state_path 172 = (22, 4194296)"
  "state_path 173 = (22, 4194297)"
  "state_path 174 = (21, 2097149)"
  "state_path 175 = (22, 4194298)"
  "state_path 176 = (23, 8388597)"
  "state_path 177 = (22, 4194299)"
  "state_path 178 = (23, 8388598)"
  "state_path 179 = (23, 8388599)"
  "state_path 180 = (20, 1048575)"
  "state_path 181 = (21, 2097150)"
  "state_path 182 = (22, 4194300)"
  "state_path 183 = (23, 8388600)"
  "state_path 184 = (23, 8388601)"
  "state_path 185 = (22, 4194301)"
  "state_path 186 = (23, 8388602)"
  "state_path 187 = (23, 8388603)"
  "state_path 188 = (24, 16777206)"
  "state_path 189 = (24, 16777207)"
  "state_path 190 = (21, 2097151)"
  "state_path 191 = (22, 4194302)"
  "state_path 192 = (23, 8388604)"
  "state_path 193 = (24, 16777208)"
  "state_path 194 = (25, 33554416)"
  "state_path 195 = (25, 33554417)"
  "state_path 196 = (24, 16777209)"
  "state_path 197 = (25, 33554418)"
  "state_path 198 = (25, 33554419)"
  "state_path 199 = (23, 8388605)"
  "state_path 200 = (24, 16777210)"
  "state_path 201 = (25, 33554420)"
  "state_path 202 = (25, 33554421)"
  "state_path 203 = (24, 16777211)"
  "state_path 204 = (25, 33554422)"
  "state_path 205 = (25, 33554423)"
  "state_path 206 = (26, 67108847)"
  "state_path 207 = (22, 4194303)"
  "state_path 208 = (23, 8388606)"
  "state_path 209 = (24, 16777212)"
  "state_path 210 = (25, 33554424)"
  "state_path 211 = (26, 67108848)"
  "state_path 212 = (26, 67108849)"
  "state_path 213 = (25, 33554425)"
  "state_path 214 = (26, 67108850)"
  "state_path 215 = (26, 67108851)"
  "state_path 216 = (24, 16777213)"
  "state_path 217 = (25, 33554426)"
  "state_path 218 = (26, 67108852)"
  "state_path 219 = (26, 67108853)"
  "state_path 220 = (25, 33554427)"
  "state_path 221 = (26, 67108854)"
  "state_path 222 = (26, 67108855)"
  "state_path 223 = (23, 8388607)"
  "state_path 224 = (24, 16777214)"
  "state_path 225 = (25, 33554428)"
  "state_path 226 = (26, 67108856)"
  "state_path 227 = (27, 134217713)"
  "state_path 228 = (26, 67108857)"
  "state_path 229 = (27, 134217714)"
  "state_path 230 = (27, 134217715)"
  "state_path 231 = (25, 33554429)"
  "state_path 232 = (26, 67108858)"
  "state_path 233 = (27, 134217716)"
  "state_path 234 = (27, 134217717)"
  "state_path 235 = (26, 67108859)"
  "state_path 236 = (27, 134217718)"
  "state_path 237 = (27, 134217719)"
  "state_path 238 = (24, 16777215)"
  "state_path 239 = (25, 33554430)"
  "state_path 240 = (26, 67108860)"
  "state_path 241 = (27, 134217720)"
  "state_path 242 = (27, 134217721)"
  "state_path 243 = (26, 67108861)"
  "state_path 244 = (27, 134217722)"
  "state_path 245 = (27, 134217723)"
  "state_path 246 = (25, 33554431)"
  "state_path 247 = (26, 67108862)"
  "state_path 248 = (27, 134217724)"
  "state_path 249 = (27, 134217725)"
  "state_path 250 = (26, 67108863)"
  "state_path 251 = (27, 134217726)"
  "state_path 252 = (27, 134217727)"
  "state_path 253 = (28, 268435455)"
  "state_path 254 = (29, 536870910)"
  "state_path 255 = (29, 536870911)"
  by (simp_all add: state_path_def state_paths_def)

lemmas path_nth = state_path_eqs state_path_eqs(2) [unfolded One_nat_def]

text \<open>
  What one transition has to satisfy. \<open>name_char\<close> and \<open>value_char\<close> are the octets that may occur
  in a header name and in a header value; the flags of a transition that emits an octet tell
  whether it is one of them.
\<close>

definition name_char :: "nat \<Rightarrow> bool" where
  "name_char y \<longleftrightarrow> 94 \<le> y \<and> y \<le> 122 \<or> 45 \<le> y \<and> y \<le> 57 \<and> y \<noteq> 47 \<or>
    y = 33 \<or> 35 \<le> y \<and> y \<le> 39 \<or> y = 42 \<or> y = 43 \<or> y = 124 \<or> y = 126"

definition value_char :: "nat \<Rightarrow> bool" where
  "value_char y \<longleftrightarrow> 32 \<le> y \<and> y \<noteq> 127 \<or> y = 9"

definition chk_entry :: "nat \<times> nat \<Rightarrow> nat \<Rightarrow> nat \<times> nat \<times> nat \<Rightarrow> bool" where
  "chk_entry = (\<lambda>(len, val) i (t, fl, y).
    if fl AND 4 \<noteq> 0 then 30 \<le> len + 4 \<and> (val * 16 + i) div 2 ^ (len + 4 - 30) = 2 ^ 30 - 1 \<and> val < 2 ^ len
    else t < 256 \<and> (case state_path t of (tn, tv) \<Rightarrow>
      val < 2 ^ len \<and> tv < 2 ^ tn \<and> (fl AND 1 \<noteq> 0 \<longleftrightarrow> tn < 8 \<and> Suc tv = 2 ^ tn) \<and>
      (if fl AND 2 \<noteq> 0 then
         y < 256 \<and> (fl AND 8 = 0 \<longleftrightarrow> name_char y) \<and> (fl AND 16 = 0 \<longleftrightarrow> value_char y) \<and>
         (case huff_sym_table ! y of (n, c) \<Rightarrow> len + 4 = n + tn \<and> val * 16 + i = c * 2 ^ tn + tv)
       else len + 4 = tn \<and> val * 16 + i = tv)))"

fun chk_row :: "nat \<times> nat \<Rightarrow> nat \<Rightarrow> (nat \<times> nat \<times> nat) list \<Rightarrow> bool" where
  "chk_row p i [] = (i = 16)"
| "chk_row p i (e # es) = (chk_entry p i e \<and> chk_row p (i + 1) es)"

fun chk_rows :: "nat \<Rightarrow> (nat \<times> nat \<times> nat) list list \<Rightarrow> bool" where
  "chk_rows s [] = True"
| "chk_rows s (r # rs) = (chk_row (state_path s) 0 r \<and> chk_rows (s + 1) rs)"

lemmas chk_simps = chk_entry_def path_nth sym_nth name_char_def value_char_def

lemma chk_states_0: "chk_rows 0 huff_states_0"
  by (simp add: huff_states_0_def chk_simps flip: numeral_2_eq_2)

lemma chk_states_8: "chk_rows 8 huff_states_8"
  by (simp add: huff_states_8_def chk_simps)

lemma chk_states_16: "chk_rows 16 huff_states_16"
  by (simp add: huff_states_16_def chk_simps)

lemma chk_states_24: "chk_rows 24 huff_states_24"
  by (simp add: huff_states_24_def chk_simps)

lemma chk_states_32: "chk_rows 32 huff_states_32"
  by (simp add: huff_states_32_def chk_simps)

lemma chk_states_40: "chk_rows 40 huff_states_40"
  by (simp add: huff_states_40_def chk_simps)

lemma chk_states_48: "chk_rows 48 huff_states_48"
  by (simp add: huff_states_48_def chk_simps)

lemma chk_states_56: "chk_rows 56 huff_states_56"
  by (simp add: huff_states_56_def chk_simps)

lemma chk_states_64: "chk_rows 64 huff_states_64"
  by (simp add: huff_states_64_def chk_simps)

lemma chk_states_72: "chk_rows 72 huff_states_72"
  by (simp add: huff_states_72_def chk_simps)

lemma chk_states_80: "chk_rows 80 huff_states_80"
  by (simp add: huff_states_80_def chk_simps)

lemma chk_states_88: "chk_rows 88 huff_states_88"
  by (simp add: huff_states_88_def chk_simps)

lemma chk_states_96: "chk_rows 96 huff_states_96"
  by (simp add: huff_states_96_def chk_simps)

lemma chk_states_104: "chk_rows 104 huff_states_104"
  by (simp add: huff_states_104_def chk_simps)

lemma chk_states_112: "chk_rows 112 huff_states_112"
  by (simp add: huff_states_112_def chk_simps)

lemma chk_states_120: "chk_rows 120 huff_states_120"
  by (simp add: huff_states_120_def chk_simps)

lemma chk_states_128: "chk_rows 128 huff_states_128"
  by (simp add: huff_states_128_def chk_simps)

lemma chk_states_136: "chk_rows 136 huff_states_136"
  by (simp add: huff_states_136_def chk_simps)

lemma chk_states_144: "chk_rows 144 huff_states_144"
  by (simp add: huff_states_144_def chk_simps)

lemma chk_states_152: "chk_rows 152 huff_states_152"
  by (simp add: huff_states_152_def chk_simps)

lemma chk_states_160: "chk_rows 160 huff_states_160"
  by (simp add: huff_states_160_def chk_simps)

lemma chk_states_168: "chk_rows 168 huff_states_168"
  by (simp add: huff_states_168_def chk_simps)

lemma chk_states_176: "chk_rows 176 huff_states_176"
  by (simp add: huff_states_176_def chk_simps)

lemma chk_states_184: "chk_rows 184 huff_states_184"
  by (simp add: huff_states_184_def chk_simps)

lemma chk_states_192: "chk_rows 192 huff_states_192"
  by (simp add: huff_states_192_def chk_simps)

lemma chk_states_200: "chk_rows 200 huff_states_200"
  by (simp add: huff_states_200_def chk_simps)

lemma chk_states_208: "chk_rows 208 huff_states_208"
  by (simp add: huff_states_208_def chk_simps)

lemma chk_states_216: "chk_rows 216 huff_states_216"
  by (simp add: huff_states_216_def chk_simps)

lemma chk_states_224: "chk_rows 224 huff_states_224"
  by (simp add: huff_states_224_def chk_simps)

lemma chk_states_232: "chk_rows 232 huff_states_232"
  by (simp add: huff_states_232_def chk_simps)

lemma chk_states_240: "chk_rows 240 huff_states_240"
  by (simp add: huff_states_240_def chk_simps)

lemma chk_states_248: "chk_rows 248 huff_states_248"
  by (simp add: huff_states_248_def chk_simps)

lemma chk_rows_append: "chk_rows s (xs @ ys) \<longleftrightarrow> chk_rows s xs \<and> chk_rows (s + length xs) ys"
  by (induction xs arbitrary: s) auto

lemma chk_huff_decode_table: "chk_rows 0 huff_decode_table" "length huff_decode_table = 256"
proof -
  have len:
    "length huff_states_0 = 8"
    "length huff_states_8 = 8"
    "length huff_states_16 = 8"
    "length huff_states_24 = 8"
    "length huff_states_32 = 8"
    "length huff_states_40 = 8"
    "length huff_states_48 = 8"
    "length huff_states_56 = 8"
    "length huff_states_64 = 8"
    "length huff_states_72 = 8"
    "length huff_states_80 = 8"
    "length huff_states_88 = 8"
    "length huff_states_96 = 8"
    "length huff_states_104 = 8"
    "length huff_states_112 = 8"
    "length huff_states_120 = 8"
    "length huff_states_128 = 8"
    "length huff_states_136 = 8"
    "length huff_states_144 = 8"
    "length huff_states_152 = 8"
    "length huff_states_160 = 8"
    "length huff_states_168 = 8"
    "length huff_states_176 = 8"
    "length huff_states_184 = 8"
    "length huff_states_192 = 8"
    "length huff_states_200 = 8"
    "length huff_states_208 = 8"
    "length huff_states_216 = 8"
    "length huff_states_224 = 8"
    "length huff_states_232 = 8"
    "length huff_states_240 = 8"
    "length huff_states_248 = 8"
    by (simp_all add: huff_states_defs)
  show "chk_rows 0 huff_decode_table"
    by (simp add: huff_decode_table_def chk_rows_append len chk_states_0 chk_states_8 chk_states_16 chk_states_24 chk_states_32 chk_states_40 chk_states_48 chk_states_56 chk_states_64 chk_states_72 chk_states_80 chk_states_88 chk_states_96 chk_states_104 chk_states_112 chk_states_120 chk_states_128 chk_states_136 chk_states_144 chk_states_152 chk_states_160 chk_states_168 chk_states_176 chk_states_184 chk_states_192 chk_states_200 chk_states_208 chk_states_216 chk_states_224 chk_states_232 chk_states_240 chk_states_248)
  show "length huff_decode_table = 256"
    by (simp add: huff_decode_table_def len)
qed

lemma chk_rowD:
  "chk_row p j r \<Longrightarrow> length r + j = 16 \<and> (\<forall>i < length r. chk_entry p (j + i) (r ! i))"
  by (induction p j r rule: chk_row.induct) (auto simp: nth_Cons split: nat.split)

lemma chk_rowsD:
  "chk_rows s rs \<Longrightarrow> k < length rs \<Longrightarrow> i < 16 \<Longrightarrow> chk_entry (state_path (s + k)) i (rs ! k ! i)"
proof (induction s rs arbitrary: k rule: chk_rows.induct)
  case (2 s r rs)
  show ?case
  proof (cases k)
    case 0
    have "length r = 16 \<and> (\<forall>i < length r. chk_entry (state_path s) i (r ! i))"
      using chk_rowD [of "state_path s" 0 r] 2(2) by simp
    with 0 2(4) show ?thesis by simp
  next
    case (Suc k')
    with 2 show ?thesis by simp
  qed
qed simp

lemma transition_ok:
  "s < 256 \<Longrightarrow> i < 16 \<Longrightarrow> chk_entry (state_path s) i (huff_decode_table ! s ! i)"
  using chk_rowsD [OF chk_huff_decode_table(1), of s i] by (simp add: chk_huff_decode_table(2))

text \<open>The path of a state is a proper prefix of a code word, for instance of this one.\<close>

definition state_leaf :: "nat list" where
  "state_leaf = [
     48, 48, 48, 48, 48, 50, 99, 99, 105, 115, 115, 115, 32, 32, 45, 47, 47, 47, 52, 54, 54, 56,
     61, 61, 61, 61, 61, 95, 100, 100, 103, 108, 108, 108, 110, 114, 114, 58, 58, 67, 69, 69, 69,
     69, 69, 71, 73, 73, 75, 77, 77, 77, 79, 81, 81, 83, 85, 85, 85, 85, 87, 106, 106, 113, 119,
     119, 119, 121, 38, 38, 38, 44, 88, 88, 33, 33, 33, 40, 63, 63, 39, 124, 124, 35, 0, 0, 0,
     64, 93, 93, 94, 94, 60, 60, 123, 92, 92, 92, 92, 208, 128, 131, 131, 131, 184, 224, 224,
     153, 153, 167, 176, 176, 176, 176, 176, 179, 216, 216, 227, 230, 230, 230, 129, 133, 133,
     136, 154, 154, 154, 160, 164, 164, 170, 178, 178, 178, 178, 178, 185, 187, 187, 190, 198,
     198, 198, 232, 1, 1, 1, 137, 139, 139, 141, 147, 147, 147, 147, 147, 150, 152, 152, 157,
     165, 165, 165, 168, 175, 175, 182, 188, 188, 188, 188, 197, 239, 239, 9, 144, 144, 148, 171,
     171, 171, 171, 215, 236, 236, 199, 199, 234, 192, 192, 192, 192, 192, 200, 202, 202, 210,
     218, 218, 218, 238, 242, 242, 255, 203, 211, 211, 211, 211, 211, 214, 222, 222, 241, 245,
     245, 245, 247, 250, 250, 252, 254, 254, 254, 254, 2, 4, 4, 6, 8, 8, 8, 12, 15, 15, 17, 19,
     19, 19, 19, 21, 24, 24, 26, 28, 28, 28, 30, 127, 127, 249, 10, 10, 22]"

fun chk_leaves :: "nat \<Rightarrow> nat list \<Rightarrow> bool" where
  "chk_leaves s [] = (s = 256)"
| "chk_leaves s (z # zs) = ((case (state_path s, huff_sym_table ! z) of ((n, v), (m, c)) \<Rightarrow>
     z \<le> 256 \<and> n < m \<and> c div 2 ^ (m - n) = v) \<and> chk_leaves (s + 1) zs)"

lemma chk_state_leaf: "chk_leaves 0 state_leaf"
  by (simp add: state_leaf_def path_nth sym_nth flip: numeral_2_eq_2)

lemma chk_leavesD:
  "chk_leaves s zs \<Longrightarrow> s \<le> k \<Longrightarrow> k < 256 \<Longrightarrow>
    \<exists>z \<le> 256. \<exists>n v m c. state_path k = (n, v) \<and> huff_sym_table ! z = (m, c) \<and> n < m \<and> c div 2 ^ (m - n) = v"
proof (induction s zs rule: chk_leaves.induct)
  case (2 s z zs)
  show ?case
  proof (cases "k = s")
    case True
    with 2(2) show ?thesis
      by (intro exI [of _ z]) (auto split: prod.splits)
  next
    case False
    with 2 show ?thesis by simp
  qed
qed simp

section \<open>The tables satisfy the contract\<close>

definition huff_path :: "nat \<Rightarrow> bool list" where
  "huff_path s = (case state_path s of (n, v) \<Rightarrow> bits n v)"

lemma bits_append4: "i < 16 \<Longrightarrow> bits n v @ bits 4 i = bits (n + 4) (v * 16 + i)"
  using bits_append [of i 4 n v] by simp

lemma bits_split:
  assumes "n \<le> m"
  shows "bits m c = bits n (c div 2 ^ (m - n)) @ bits (m - n) (c mod 2 ^ (m - n))"
proof -
  have "c mod 2 ^ (m - n) < 2 ^ (m - n)"
    by simp
  from bits_append [OF this, of n "c div 2 ^ (m - n)"] show ?thesis
    by (simp only: div_mult_mod_eq le_add_diff_inverse [OF assms])
qed

lemma path_extends_to_code:
  assumes "s < 256"
  shows "\<exists>z \<in> huff_syms. \<exists>w. w \<noteq> [] \<and> huff_code z = huff_path s @ w"
proof -
  obtain z n v m c where z: "z \<le> 256" and s: "state_path s = (n, v)"
    and c: "huff_sym_table ! z = (m, c)" "n < m" "c div 2 ^ (m - n) = v"
    using chk_leavesD [OF chk_state_leaf, of s] assms by auto
  have "huff_code z = huff_path s @ bits (m - n) (c mod 2 ^ (m - n))"
    using c bits_split [of n m c] by (simp add: huff_code_def huff_path_def s)
  moreover have "bits (m - n) (c mod 2 ^ (m - n)) \<noteq> []"
    using c(2) by (simp flip: length_0_conv)
  ultimately show ?thesis
    using z by (intro bexI [of _ z] exI conjI) (auto simp: huff_syms_def)
qed

text \<open>One transition, read as a fact on bit strings.\<close>

lemma transition_bits:
  assumes s: "s < 256" and i: "i < 16" and e: "huff_decode_table ! s ! i = (t, fl, y)"
  shows "fl AND 4 \<noteq> 0 \<Longrightarrow> prefix (huff_code 256) (huff_path s @ bits 4 i)"
    and "fl AND 4 = 0 \<Longrightarrow> t < 256"
    and "fl AND 4 = 0 \<Longrightarrow> huff_path s @ bits 4 i = (if fl AND 2 \<noteq> 0 then huff_code y else []) @ huff_path t"
    and "fl AND 4 = 0 \<Longrightarrow> fl AND 2 \<noteq> 0 \<Longrightarrow> y < 256"
    and "fl AND 4 = 0 \<Longrightarrow> fl AND 2 \<noteq> 0 \<Longrightarrow> fl AND 8 = 0 \<longleftrightarrow> name_char y"
    and "fl AND 4 = 0 \<Longrightarrow> fl AND 2 \<noteq> 0 \<Longrightarrow> fl AND 16 = 0 \<longleftrightarrow> value_char y"
    and "fl AND 4 = 0 \<Longrightarrow> fl AND 1 \<noteq> 0 \<longleftrightarrow> (\<exists>k < 8. huff_path t = replicate k True)"
proof -
  obtain len val where p: "state_path s = (len, val)" by (metis surj_pair)
  obtain tn tv where t: "state_path t = (tn, tv)" by (metis surj_pair)
  obtain n c where y: "huff_sym_table ! y = (n, c)" by (metis surj_pair)
  note ok = transition_ok [OF s i, unfolded e p chk_entry_def prod.case t y]
  have path: "huff_path s @ bits 4 i = bits (len + 4) (val * 16 + i)"
    by (simp add: huff_path_def p bits_append4 [OF i])
  {
    assume "fl AND 4 \<noteq> 0"
    then have l: "30 \<le> len + 4" and q: "(val * 16 + i) div 2 ^ (len + 4 - 30) = 2 ^ 30 - 1"
      using ok by simp_all
    have eos: "huff_code 256 = bits 30 (2 ^ 30 - 1)"
      by (simp add: huff_code_def huff_sym_table_nth)
    show "prefix (huff_code 256) (huff_path s @ bits 4 i)"
      unfolding path bits_split [OF l] q eos by (rule prefixI) (rule refl)
  }
  assume nofail: "fl AND 4 = 0"
  show "t < 256"
    using ok nofail by simp
  show "huff_path s @ bits 4 i = (if fl AND 2 \<noteq> 0 then huff_code y else []) @ huff_path t"
    using ok nofail bits_append [of tv tn n c] unfolding path
    by (auto simp: huff_path_def huff_code_def t y split: if_splits)
  show "fl AND 1 \<noteq> 0 \<longleftrightarrow> (\<exists>k < 8. huff_path t = replicate k True)"
  proof -
    have tv: "tv < 2 ^ tn" and acc: "fl AND 1 \<noteq> 0 \<longleftrightarrow> tn < 8 \<and> Suc tv = 2 ^ tn"
      using ok nofail by simp_all
    have "huff_path t = replicate k True \<longleftrightarrow> k = tn \<and> Suc tv = 2 ^ tn" for k
    proof -
      have "bits tn tv = replicate k True \<Longrightarrow> k = tn"
        by (metis length_bits length_replicate)
      with bits_eq_ones_iff [OF tv] show ?thesis
        unfolding huff_path_def t prod.case by blast
    qed
    with acc show ?thesis by auto
  qed
  assume "fl AND 2 \<noteq> 0"
  with ok nofail show "y < 256" "fl AND 8 = 0 \<longleftrightarrow> name_char y" "fl AND 16 = 0 \<longleftrightarrow> value_char y"
    by simp_all
qed

interpretation ha: huffman_automaton huff_code huff_syms 256 huff_path "\<lambda>s i. huff_decode_table ! s ! i"
proof
  show "(256 :: nat) \<in> huff_syms"
    by (simp add: huff_syms_def)
  show "huff_code 256 = replicate 30 True"
    using bits_ones [of 30] by (simp add: huff_code_def huff_sym_table_nth)
  show "huff_path 0 = []"
    by (simp add: huff_path_def path_nth)
next
  fix s x :: nat and u
  assume "s < 256" and x: "x \<in> huff_syms"
  then obtain z w where z: "z \<in> huff_syms" "w \<noteq> []" "huff_code z = huff_path s @ w"
    using path_extends_to_code by blast
  show "huff_path s \<noteq> huff_code x @ u"
  proof
    assume eq: "huff_path s = huff_code x @ u"
    then have "x = z"
      using hpc.prefix_free [OF x z(1), of "u @ w" "[]"] z(3) by simp
    with eq z show False by simp
  qed
next
  fix s i t fl y :: nat
  assume e: "s < 256" "i < 16" "huff_decode_table ! s ! i = (t, fl, y)"
  note tb = transition_bits [OF e]
  show "fl AND 4 \<noteq> 0 \<Longrightarrow> prefix (huff_code 256) (huff_path s @ bits 4 i)"
    by (rule tb(1))
  assume nofail: "fl AND 4 = 0"
  show "t < 256"
    by (rule tb(2) [OF nofail])
  show "huff_path s @ bits 4 i = (if fl AND 2 \<noteq> 0 then huff_code y else []) @ huff_path t"
    by (rule tb(3) [OF nofail])
  show "fl AND 1 \<noteq> 0 \<longleftrightarrow> (\<exists>k < 8. huff_path t = replicate k True)"
    by (rule tb(7) [OF nofail])
  show "y \<in> huff_syms \<and> y \<noteq> 256" if "fl AND 2 \<noteq> 0"
    using tb(4) [OF nofail that] by (simp add: huff_syms_def)
qed
end
