(* ===== verification/Hpack_Huffman.thy ===== *)
theory Hpack_Huffman
  imports Hpack_Huffman_Check
begin

text \<open>
  Huffman-coded strings: \<^verbatim>\<open>huffdecode4\<close>, \<^verbatim>\<open>h2o_hpack_decode_huffman\<close> and
  \<^verbatim>\<open>h2o_hpack_encode_huffman\<close> of \<^verbatim>\<open>lib/http2/hpack.c\<close>. The 4096 transitions of the decoding
  table are compared with the code table through the bit string that each state stands for; the
  decoder then accepts exactly the well-padded Huffman encodings, and the encoder produces one.
\<close>

section \<open>Decoder\<close>

text \<open>
  The variables of the loop: octets written so far, automaton state, \<^verbatim>\<open>maybe_eos\<close>,
  \<^verbatim>\<open>seen_char_types\<close>.
\<close>

record huff_state =
  hs_out :: octets
  hs_state :: nat
  hs_maybe_eos :: bool
  hs_seen :: nat

definition huff_init :: huff_state where
  "huff_init = \<lparr>hs_out = [], hs_state = 0, hs_maybe_eos = True, hs_seen = 0\<rparr>"

definition huffdecode4 :: "huff_state \<Rightarrow> nat \<Rightarrow> huff_state option" where
  "huffdecode4 st inp =
    (case huff_decode_table ! hs_state st ! inp of
       (nstate, flags, sy) \<Rightarrow>
         if flags AND NGHTTP2_HUFF_FAIL \<noteq> 0 then None
         else
           (let st' = (if flags AND NGHTTP2_HUFF_SYM \<noteq> 0
                       then st\<lparr>hs_out := hs_out st @ [of_nat sy],
                               hs_seen := hs_seen st OR (flags AND NGHTTP2_HUFF_INVALID_CHARS)\<rparr>
                       else st)
            in Some (st'\<lparr>hs_state := nstate, hs_maybe_eos := (flags AND NGHTTP2_HUFF_ACCEPTED \<noteq> 0)\<rparr>)))"

fun huff_loop :: "huff_state \<Rightarrow> octets \<Rightarrow> huff_state option" where
  "huff_loop st [] = Some st"
| "huff_loop st (b # src) =
     (case huffdecode4 st (unat (drop_bit 4 b)) of
        None \<Rightarrow> None
      | Some st1 \<Rightarrow>
          (case huffdecode4 st1 (unat (b AND 0xf)) of
             None \<Rightarrow> None
           | Some st2 \<Rightarrow> huff_loop st2 src))"

text \<open>The number of octets that the loop has written when it ends, or when it gives up.\<close>

fun huff_written :: "huff_state \<Rightarrow> octets \<Rightarrow> nat" where
  "huff_written st [] = length (hs_out st)"
| "huff_written st (b # src) =
     (case huffdecode4 st (unat (drop_bit 4 b)) of
        None \<Rightarrow> length (hs_out st)
      | Some st1 \<Rightarrow>
          (case huffdecode4 st1 (unat (b AND 0xf)) of
             None \<Rightarrow> length (hs_out st1)
           | Some st2 \<Rightarrow> huff_written st2 src))"

definition H2O_HPACK_SOFT_ERROR_BIT_INVALID_NAME :: nat where
  "H2O_HPACK_SOFT_ERROR_BIT_INVALID_NAME = 1"
definition H2O_HPACK_SOFT_ERROR_BIT_INVALID_VALUE :: nat where
  "H2O_HPACK_SOFT_ERROR_BIT_INVALID_VALUE = 2"

lemmas soft_error_defs =
  H2O_HPACK_SOFT_ERROR_BIT_INVALID_NAME_def H2O_HPACK_SOFT_ERROR_BIT_INVALID_VALUE_def

definition h2o_hpack_err_found_upper_case_in_header_name :: string where
  "h2o_hpack_err_found_upper_case_in_header_name = ''found an upper-case letter in header name''"

definition header_value_valid_as_whole :: "octets \<Rightarrow> bool" where
  "header_value_valid_as_whole s \<longleftrightarrow>
    \<not> (s \<noteq> [] \<and> (hd s = 0x20 \<or> hd s = 0x09 \<or> last s = 0x20 \<or> last s = 0x09))"

text \<open>
  \<^term>\<open>Inl d\<close> is the return value \<^verbatim>\<open>SIZE_MAX\<close>, with what was stored through \<^verbatim>\<open>err_desc\<close>;
  otherwise the decoded octets and the updated \<^verbatim>\<open>soft_errors\<close>.
\<close>

definition decode_huffman :: "nat \<Rightarrow> octets \<Rightarrow> bool \<Rightarrow> string option + (octets \<times> nat)" where
  "decode_huffman soft_errors src is_name =
    (case huff_loop huff_init src of
       None \<Rightarrow> Inl None
     | Some st \<Rightarrow>
         if \<not> hs_maybe_eos st then Inl None
         else if is_name then
           (if hs_out st = [] then
              Inr (hs_out st, soft_errors OR H2O_HPACK_SOFT_ERROR_BIT_INVALID_NAME)
            else if hs_seen st AND NGHTTP2_HUFF_INVALID_FOR_HEADER_NAME \<noteq> 0 \<and>
                    hd (hs_out st) \<noteq> of_char CHR '':'' then
              (if hs_seen st AND NGHTTP2_HUFF_UPPER_CASE_CHAR \<noteq> 0 then
                 Inl (Some h2o_hpack_err_found_upper_case_in_header_name)
               else Inr (hs_out st, soft_errors OR H2O_HPACK_SOFT_ERROR_BIT_INVALID_NAME))
            else Inr (hs_out st, soft_errors))
         else
           (if hs_seen st AND NGHTTP2_HUFF_INVALID_FOR_HEADER_VALUE \<noteq> 0 \<or>
               \<not> header_value_valid_as_whole (hs_out st)
            then Inr (hs_out st, soft_errors OR H2O_HPACK_SOFT_ERROR_BIT_INVALID_VALUE)
            else Inr (hs_out st, soft_errors)))"

section \<open>Encoder\<close>

text \<open>
  \<^verbatim>\<open>bits\<close>, \<^verbatim>\<open>bits_left\<close> and the octets written. \<^term>\<open>None\<close> is the return value
  \<^verbatim>\<open>SIZE_MAX\<close>: the output would be as long as the input.
\<close>

function huff_flush :: "nat \<Rightarrow> u64 \<Rightarrow> nat \<Rightarrow> octets \<Rightarrow> (u64 \<times> nat \<times> octets) option" where
  "huff_flush len b bits_left dst =
    (if bits_left \<le> 32 then
       (let dst' = dst @ [ucast (drop_bit 32 b)]
        in if length dst' = len then None
           else huff_flush len (push_bit 8 b) (bits_left + 8) dst')
     else Some (b, bits_left, dst))"
  by pat_completeness auto
termination
  by (relation "measure (\<lambda>(len, b, bits_left, dst). 40 - bits_left)") auto

declare huff_flush.simps [simp del]

fun encode_huffman_loop ::
  "nat \<Rightarrow> u64 \<Rightarrow> nat \<Rightarrow> octets \<Rightarrow> octets \<Rightarrow> (u64 \<times> nat \<times> octets) option" where
  "encode_huffman_loop len b bits_left dst [] = Some (b, bits_left, dst)"
| "encode_huffman_loop len b bits_left dst (c # src) =
     (case huff_sym_table ! unat c of
        (nbits, code) \<Rightarrow>
          (case huff_flush len (b OR push_bit (bits_left - nbits) (of_nat code)) (bits_left - nbits) dst of
             None \<Rightarrow> None
           | Some (b', bits_left', dst') \<Rightarrow> encode_huffman_loop len b' bits_left' dst' src))"

definition encode_huffman :: "octets \<Rightarrow> octets option" where
  "encode_huffman src =
    (case encode_huffman_loop (length src) 0 40 [] src of
       None \<Rightarrow> None
     | Some (b, bits_left, dst) \<Rightarrow>
         (let dst' = (if bits_left \<noteq> 40
                      then dst @ [ucast (drop_bit 32 (b OR (push_bit bits_left 1 - 1)))]
                      else dst)
          in if length dst' = length src then None else Some dst'))"

section \<open>The decoder accepts the well-padded encodings\<close>

abbreviation huff_codes :: "octets \<Rightarrow> bool list" where
  "huff_codes out \<equiv> codes huff_code (map unat out)"

text \<open>\<open>B\<close> are the bits read so far.\<close>

definition huff_inv :: "bool list \<Rightarrow> huff_state \<Rightarrow> bool" where
  "huff_inv B st \<longleftrightarrow> hs_state st < 256 \<and> B = huff_codes (hs_out st) @ huff_path (hs_state st) \<and>
    (hs_maybe_eos st \<longleftrightarrow> (\<exists>k < 8. huff_path (hs_state st) = replicate k True)) \<and>
    (hs_seen st AND 8 = 0 \<longleftrightarrow> (\<forall>c \<in> set (hs_out st). name_char (unat c))) \<and>
    (hs_seen st AND 16 = 0 \<longleftrightarrow> (\<forall>c \<in> set (hs_out st). value_char (unat c))) \<and>
    hs_seen st AND 32 = 0"

lemma huff_init_inv: "huff_inv [] huff_init"
  by (auto simp: huff_inv_def huff_init_def ha.path_start)

lemma octets_are_symbols: "set (map unat (out :: octets)) \<subseteq> huff_syms - {256}"
proof -
  have "unat c \<in> huff_syms - {256}" for c :: u8
    using unat_u8_less [of c] by (simp add: huff_syms_def)
  then show ?thesis by auto
qed

lemma huffdecode4_cases:
  assumes "huff_decode_table ! hs_state st ! i = (t, fl, y)"
  shows "huffdecode4 st i =
    (if fl AND 4 \<noteq> 0 then None
     else Some \<lparr>hs_out = hs_out st @ (if fl AND 2 \<noteq> 0 then [of_nat y] else []), hs_state = t,
                hs_maybe_eos = (fl AND 1 \<noteq> 0),
                hs_seen = (if fl AND 2 \<noteq> 0 then hs_seen st OR (fl AND 24) else hs_seen st)\<rparr>)"
  by (simp add: huffdecode4_def assms huff_flag_defs)

lemma seen_flags:
  fixes a f :: nat
  shows "(a OR (f AND 24)) AND 8 = 0 \<longleftrightarrow> a AND 8 = 0 \<and> f AND 8 = 0"
    and "(a OR (f AND 24)) AND 16 = 0 \<longleftrightarrow> a AND 16 = 0 \<and> f AND 16 = 0"
    and "(a OR (f AND 24)) AND 32 = 0 \<longleftrightarrow> a AND 32 = 0"
proof -
  have m: "24 AND (8::nat) = 8" "24 AND (16::nat) = 16" "24 AND (32::nat) = 0"
    by simp_all
  have "(a OR (f AND 24)) AND k = (a AND k) OR (f AND (24 AND k))" for k
    by (rule bit_eqI) (auto simp: bit_simps)
  then show "(a OR (f AND 24)) AND 8 = 0 \<longleftrightarrow> a AND 8 = 0 \<and> f AND 8 = 0"
    and "(a OR (f AND 24)) AND 16 = 0 \<longleftrightarrow> a AND 16 = 0 \<and> f AND 16 = 0"
    and "(a OR (f AND 24)) AND 32 = 0 \<longleftrightarrow> a AND 32 = 0"
    by (simp_all only: m or_eq_0_iff and_zero_eq simp_thms)
qed

lemma huffdecode4_inv:
  assumes inv: "huff_inv B st" and i: "i < 16" and step: "huffdecode4 st i = Some st'"
  shows "huff_inv (B @ bits 4 i) st'"
proof -
  obtain t fl y where e: "huff_decode_table ! hs_state st ! i = (t, fl, y)"
    by (metis surj_pair)
  have s: "hs_state st < 256"
    using inv by (simp add: huff_inv_def)
  note tb = transition_bits [OF s i e]
  have nf: "fl AND 4 = 0" and st': "st' = \<lparr>hs_out = hs_out st @ (if fl AND 2 \<noteq> 0 then [of_nat y] else []),
      hs_state = t, hs_maybe_eos = (fl AND 1 \<noteq> 0),
      hs_seen = (if fl AND 2 \<noteq> 0 then hs_seen st OR (fl AND 24) else hs_seen st)\<rparr>"
    using step by (auto simp: huffdecode4_cases [OF e] split: if_splits)
  have y: "unat (of_nat y :: u8) = y" if "fl AND 2 \<noteq> 0"
    using tb(4) [OF nf that] by (simp add: unat_of_nat_eq)
  have "B @ bits 4 i = huff_codes (hs_out st') @ huff_path (hs_state st')"
    using inv tb(3) [OF nf] y by (auto simp: huff_inv_def st')
  with inv tb(2,7) [OF nf] tb(5,6) [OF nf] y show ?thesis
    by (auto simp: huff_inv_def st' seen_flags)
qed

lemma huffdecode4_reject:
  assumes inv: "huff_inv B st" and i: "i < 16" and step: "huffdecode4 st i = None" and k: "k < 8"
  shows "B @ bits 4 i @ rest \<noteq> huff_codes out @ replicate k True"
proof
  assume eq: "B @ bits 4 i @ rest = huff_codes out @ replicate k True"
  obtain t fl y where e: "huff_decode_table ! hs_state st ! i = (t, fl, y)"
    by (metis surj_pair)
  have s: "hs_state st < 256" and B: "B = huff_codes (hs_out st) @ huff_path (hs_state st)"
    using inv by (simp_all add: huff_inv_def)
  have fail: "fl AND 4 \<noteq> 0"
    using step by (auto simp: huffdecode4_cases [OF e] split: if_splits)
  obtain zs where zs: "map unat out = map unat (hs_out st) @ zs"
    "huff_path (hs_state st) @ bits 4 i @ rest = codes huff_code zs @ replicate k True"
    using hpc.read_is_prefix [of "map unat (hs_out st)" "map unat out"
        "huff_path (hs_state st) @ bits 4 i @ rest" "replicate k True"]
      octets_are_symbols ha.padding_no_code [OF k] eq B by auto
  moreover have "set zs \<subseteq> huff_syms - {256}"
    using octets_are_symbols [of out] zs(1) by auto
  ultimately have "fl AND 4 = 0"
    using ha.no_fail [OF s i e zs(2) k] by blast
  with fail show False by simp
qed

lemma unat_nibbles: "unat (drop_bit 4 b) = unat b div 16" "unat (b AND 0xf) = unat b mod 16" for b :: u8
proof -
  show "unat (drop_bit 4 b) = unat b div 16"
    by (simp add: drop_bit_eq_div unat_div_distrib)
  show "unat (b AND 0xf) = unat b mod 16"
    using take_bit_eq_mask [of 4 b] unat_mod_distrib [of b 16]
    by (simp add: mask_numeral take_bit_eq_mod)
qed

lemma octet_split: "bits 8 (unat b) = bits 4 (unat (drop_bit 4 b)) @ bits 4 (unat (b AND 0xf))"
  for b :: u8
  by (simp only: unat_nibbles octet_nibbles)

lemma nibbles_less: "unat (drop_bit 4 b) < 16" "unat (b AND 0xf) < 16" for b :: u8
  using unat_u8_less [of b] by (simp_all add: unat_nibbles)

lemma huff_loop_inv:
  "huff_inv B st \<Longrightarrow> huff_loop st src = Some st' \<Longrightarrow> huff_inv (B @ octets_bits src) st'"
proof (induction src arbitrary: B st)
  case (Cons b src)
  then obtain st1 st2 where
    "huffdecode4 st (unat (drop_bit 4 b)) = Some st1" "huffdecode4 st1 (unat (b AND 0xf)) = Some st2"
    and loop: "huff_loop st2 src = Some st'"
    by (auto split: option.splits)
  then have "huff_inv ((B @ bits 4 (unat (drop_bit 4 b))) @ bits 4 (unat (b AND 0xf))) st2"
    using Cons.prems(1) nibbles_less by (blast intro: huffdecode4_inv)
  from Cons.IH [OF this loop] show ?case
    by (simp add: octet_split)
qed simp

lemma huff_loop_reject:
  "huff_inv B st \<Longrightarrow> huff_loop st src = None \<Longrightarrow> k < 8 \<Longrightarrow>
    B @ octets_bits src \<noteq> huff_codes out @ replicate k True"
proof (induction src arbitrary: B st)
  case (Cons b src)
  let ?hi = "unat (drop_bit 4 b)" and ?lo = "unat (b AND 0xf)"
  show ?case
  proof (cases "huffdecode4 st ?hi")
    case None
    with huffdecode4_reject [OF Cons.prems(1) nibbles_less(1) None Cons.prems(3)] show ?thesis
      by (simp add: octet_split)
  next
    case (Some st1)
    then have inv1: "huff_inv (B @ bits 4 ?hi) st1"
      using Cons.prems(1) nibbles_less by (blast intro: huffdecode4_inv)
    show ?thesis
    proof (cases "huffdecode4 st1 ?lo")
      case None
      from huffdecode4_reject [OF inv1 nibbles_less(2) None Cons.prems(3)] show ?thesis
        by (simp add: octet_split)
    next
      case (Some st2)
      then have "huff_inv ((B @ bits 4 ?hi) @ bits 4 ?lo) st2"
        using inv1 nibbles_less by (blast intro: huffdecode4_inv)
      from Cons.IH [OF this _ Cons.prems(3)] \<open>huffdecode4 st ?hi = Some st1\<close> Some Cons.prems(2)
      show ?thesis by (simp add: octet_split)
    qed
  qed
qed simp

lemma map_unat_inject: "map unat xs = map unat (ys :: octets) \<longleftrightarrow> xs = ys"
  by (simp add: inj_map_eq_map inj_def word_unat_eq_iff)

lemma huff_loop_accepts_iff:
  "(\<exists>st. huff_loop huff_init src = Some st \<and> hs_maybe_eos st \<and> hs_out st = out) \<longleftrightarrow>
    (\<exists>k < 8. octets_bits src = huff_codes out @ replicate k True)"
proof
  assume "\<exists>st. huff_loop huff_init src = Some st \<and> hs_maybe_eos st \<and> hs_out st = out"
  then show "\<exists>k < 8. octets_bits src = huff_codes out @ replicate k True"
    using huff_loop_inv [OF huff_init_inv] by (fastforce simp: huff_inv_def)
next
  assume "\<exists>k < 8. octets_bits src = huff_codes out @ replicate k True"
  then obtain k where k: "k < 8" and eq: "octets_bits src = huff_codes out @ replicate k True"
    by blast
  then obtain st where st: "huff_loop huff_init src = Some st"
    using huff_loop_reject [OF huff_init_inv _ k, of src out] by (cases "huff_loop huff_init src") auto
  from huff_loop_inv [OF huff_init_inv this] have inv: "huff_inv (octets_bits src) st" by simp
  then have s: "hs_state st < 256"
    and B: "huff_codes (hs_out st) @ huff_path (hs_state st) = huff_codes out @ replicate k True"
    using eq by (auto simp: huff_inv_def)
  obtain zs where zs: "map unat out = map unat (hs_out st) @ zs"
    "huff_path (hs_state st) = codes huff_code zs @ replicate k True"
    using hpc.read_is_prefix [OF _ _ B ha.padding_no_code [OF k]] octets_are_symbols by blast
  moreover have "set zs \<subseteq> huff_syms"
    using octets_are_symbols [of out] zs(1) by auto
  ultimately have "zs = []" "huff_path (hs_state st) = replicate k True"
    using ha.final_state [OF s zs(2)] by auto
  moreover from this zs(1) have "out = hs_out st"
    by (simp add: map_unat_inject)
  ultimately show "\<exists>st. huff_loop huff_init src = Some st \<and> hs_maybe_eos st \<and> hs_out st = out"
    using st inv k by (auto simp: huff_inv_def)
qed

lemma code_length: "5 \<le> length (huff_code (unat c))" for c :: u8
proof -
  obtain n v where e: "huff_sym_table ! unat c = (n, v)" by (metis surj_pair)
  with octets_are_symbols [of "[c]"] huff_sym_range [OF _ e] show ?thesis
    by (simp add: huff_code_def)
qed

lemma codes_length: "5 * length out \<le> length (huff_codes out)"
proof (induction out)
  case (Cons c out)
  with code_length [of c] show ?case by simp
qed simp

section \<open>The encoder produces the encoding\<close>

text \<open>The low 40 bits of \<^verbatim>\<open>bits\<close> hold the pending bits, above \<^verbatim>\<open>bits_left\<close> zeroes.\<close>

definition window :: "u64 \<Rightarrow> nat \<Rightarrow> bool list" where
  "window b bl = rev (map (bit b) [bl..<40])"

definition window_ok :: "u64 \<Rightarrow> nat \<Rightarrow> bool" where
  "window_ok b bl \<longleftrightarrow> bl \<le> 40 \<and> (\<forall>j < bl. \<not> bit b j)"

lemma length_window [simp]: "length (window b bl) = 40 - bl"
  by (simp add: window_def)

lemma bits_rev: "bits n v = rev (map (bit v) [0..<n])"
  by (induction n) auto

lemma upt_shift: "[k..<k + n] = map (\<lambda>i. i + k) [0..<n]"
  by (simp add: map_add_upt add.commute)

lemma bit_word_of_nat: "bit (of_nat c :: u64) i \<longleftrightarrow> i < 64 \<and> bit c i"
  by (simp add: bit_simps)

lemma not_bit_nat: "c < 2 ^ n \<Longrightarrow> n \<le> i \<Longrightarrow> \<not> bit (c :: nat) i"
  by (metis bit_take_bit_iff not_less take_bit_nat_eq_self)

lemma window_add:
  assumes ok: "window_ok b bl" and n: "n \<le> bl" "c < 2 ^ n"
  shows "window (b OR push_bit (bl - n) (of_nat c)) (bl - n) = window b bl @ bits n c"
    and "window_ok (b OR push_bit (bl - n) (of_nat c)) (bl - n)"
proof -
  let ?b = "b OR push_bit (bl - n) (of_nat c) :: u64" and ?k = "bl - n"
  have bl: "bl \<le> 40" and zero: "\<And>j. j < bl \<Longrightarrow> \<not> bit b j"
    using ok by (auto simp: window_ok_def)
  have bit: "bit ?b j \<longleftrightarrow> bit b j \<or> ?k \<le> j \<and> bit c (j - ?k)" if "j < 40" for j
    using that by (auto simp: bit_simps bit_word_of_nat)
  have up: "[?k..<40] = [?k..<?k + n] @ [bl..<40]"
    using n bl upt_add_eq_append [of ?k bl "40 - bl"] by simp
  have hi: "map (bit ?b) [bl..<40] = map (bit b) [bl..<40]"
    using bit not_bit_nat [OF n(2)] n(1) by auto
  have lo: "map (bit ?b) [?k..<?k + n] = map (bit c) [0..<n]"
    unfolding upt_shift using bit zero n(1) bl by (auto simp: comp_def)
  show "window ?b ?k = window b bl @ bits n c"
    unfolding window_def up map_append hi lo bits_rev by simp
  show "window_ok ?b ?k"
    using bl zero bit by (auto simp: window_ok_def)
qed

lemma bit_octet: "bit (ucast (drop_bit 32 b) :: u8) i \<longleftrightarrow> i < 8 \<and> bit b (32 + i)" for b :: u64
  by (auto simp: bit_simps)

lemma bit_unat: "bit (unat w) i \<longleftrightarrow> bit w i" for w :: "'a::len word"
  by (auto simp: bit_simps dest: bit_imp_le_length)

lemma octet_of_window:
  "bits 8 (unat (ucast (drop_bit 32 b) :: u8)) = rev (map (bit b) [32..<40])" for b :: u64
proof -
  have "[32..<40] = map (\<lambda>i. 32 + i) [0..<8]"
    by (simp add: upt_rec)
  then show ?thesis
    unfolding bits_rev by (auto simp: bit_octet bit_unat)
qed

lemma window_emit:
  assumes ok: "window_ok b bl" and bl: "bl \<le> 32"
  shows "window b bl = bits 8 (unat (ucast (drop_bit 32 b) :: u8)) @ window (push_bit 8 b) (bl + 8)"
    and "window_ok (push_bit 8 b) (bl + 8)"
proof -
  have "[bl..<40] = [bl..<32] @ [32..<40]"
    using bl upt_add_eq_append [of bl 32 8] by simp
  moreover have "map (bit (push_bit 8 b)) [bl + 8..<40] = map (bit b) [bl..<32]"
  proof -
    have "[bl + 8..<40] = map (\<lambda>i. i + 8) [bl..<32]"
      using bl by (intro nth_equalityI) auto
    then show ?thesis
      by (auto simp: bit_simps)
  qed
  ultimately show "window b bl = bits 8 (unat (ucast (drop_bit 32 b) :: u8)) @ window (push_bit 8 b) (bl + 8)"
    by (simp add: window_def octet_of_window)
  show "window_ok (push_bit 8 b) (bl + 8)"
    using assms by (auto simp: window_ok_def bit_simps)
qed

lemma window_pad:
  assumes ok: "window_ok b bl" and bl: "32 \<le> bl"
  shows "bits 8 (unat (ucast (drop_bit 32 (b OR (push_bit bl 1 - 1))) :: u8)) = window b bl @ replicate (bl - 32) True"
proof -
  let ?b = "b OR (push_bit bl 1 - 1) :: u64"
  have bl40: "bl \<le> 40" and zero: "\<And>j. j < bl \<Longrightarrow> \<not> bit b j"
    using ok by (auto simp: window_ok_def)
  have "push_bit bl 1 - 1 = (mask bl :: u64)"
    by (simp add: mask_eq_exp_minus_1 push_bit_eq_mult)
  then have bit: "bit ?b j \<longleftrightarrow> bit b j \<or> j < bl" if "j < 40" for j
    using that by (auto simp: bit_simps)
  have "[32..<40] = [32..<bl] @ [bl..<40]"
    using bl bl40 upt_add_eq_append [of 32 bl "40 - bl"] by simp
  moreover have "map (bit ?b) [32..<bl] = replicate (bl - 32) True"
    using bit bl40 by (intro nth_equalityI) auto
  moreover have "map (bit ?b) [bl..<40] = map (bit b) [bl..<40]"
    using bit by auto
  ultimately show ?thesis
    unfolding octet_of_window window_def by simp
qed

text \<open>
  \<open>enc_inv len X b bl dst\<close>: the octets written and the pending bits are \<open>X\<close>, and the output
  buffer of \<open>len\<close> octets is not full.
\<close>

definition enc_inv :: "nat \<Rightarrow> bool list \<Rightarrow> u64 \<Rightarrow> nat \<Rightarrow> octets \<Rightarrow> bool" where
  "enc_inv len X b bl dst \<longleftrightarrow> window_ok b bl \<and> X = octets_bits dst @ window b bl \<and> length dst < len"

lemma huff_flush_cases:
  assumes "enc_inv len X b bl dst"
  shows "case huff_flush len b bl dst of
      None \<Rightarrow> 8 * len \<le> length X
    | Some (b', bl', dst') \<Rightarrow> enc_inv len X b' bl' dst' \<and> 32 < bl'"
  using assms
proof (induction len b bl dst rule: huff_flush.induct)
  case (1 len b bl dst)
  let ?o = "ucast (drop_bit 32 b) :: u8"
  show ?case
  proof (cases "bl \<le> 32")
    case True
    have ok: "window_ok b bl" and X: "X = octets_bits dst @ window b bl" and len: "length dst < len"
      using "1.prems" by (auto simp: enc_inv_def)
    note emit = window_emit [OF ok True]
    show ?thesis
    proof (cases "Suc (length dst) = len")
      case full: True
      then have "huff_flush len b bl dst = None"
        using True by (subst huff_flush.simps) simp
      moreover have "8 * len \<le> length X"
        using full by (auto simp: X emit(1))
      ultimately show ?thesis by simp
    next
      case False
      then have "huff_flush len b bl dst = huff_flush len (push_bit 8 b) (bl + 8) (dst @ [?o])"
        using True by (subst huff_flush.simps) simp
      moreover have "enc_inv len X (push_bit 8 b) (bl + 8) (dst @ [?o])"
        using emit len False by (auto simp: enc_inv_def X)
      ultimately show ?thesis
        using "1.IH" [OF True refl] False by simp
    qed
  next
    case False
    then have "huff_flush len b bl dst = Some (b, bl, dst)"
      by (subst huff_flush.simps) simp
    with False "1.prems" show ?thesis by simp
  qed
qed

lemma encode_huffman_loop_cases:
  assumes "enc_inv len X b bl dst" "32 < bl"
  shows "case encode_huffman_loop len b bl dst src of
      None \<Rightarrow> 8 * len \<le> length (X @ huff_codes src)
    | Some (b', bl', dst') \<Rightarrow> enc_inv len (X @ huff_codes src) b' bl' dst' \<and> 32 < bl'"
  using assms
proof (induction src arbitrary: X b bl dst)
  case Nil
  then show ?case by simp
next
  case (Cons c src)
  obtain n v where e: "huff_sym_table ! unat c = (n, v)" by (metis surj_pair)
  have r: "n \<le> bl" "v < 2 ^ n" and code: "huff_code (unat c) = bits n v"
    using huff_sym_range [OF _ e] octets_are_symbols [of "[c]"] Cons.prems(2)
    by (auto simp: huff_code_def e)
  let ?b = "b OR push_bit (bl - n) (of_nat v)"
  have "enc_inv len (X @ huff_code (unat c)) ?b (bl - n) dst"
    using Cons.prems(1) window_add [OF _ r] by (auto simp: enc_inv_def code)
  note flush = huff_flush_cases [OF this]
  show ?case
  proof (cases "huff_flush len ?b (bl - n) dst")
    case None
    with flush show ?thesis by (simp add: e)
  next
    case (Some r)
    obtain b' bl' dst' where "r = (b', bl', dst')" by (metis surj_pair)
    moreover have "X @ huff_codes (c # src) = (X @ huff_code (unat c)) @ huff_codes src"
      by simp
    ultimately show ?thesis
      using flush Some Cons.IH [of "X @ huff_code (unat c)" b' bl' dst'] by (simp only:) (simp add: e)
  qed
qed

lemma encode_huffman_cases:
  "case encode_huffman src of
     None \<Rightarrow> length src \<le> (length (huff_codes src) + 7) div 8
   | Some dst \<Rightarrow> (\<exists>k < 8. octets_bits dst = huff_codes src @ replicate k True) \<and> length dst < length src"
proof (cases "src = []")
  case True
  then show ?thesis by (simp add: encode_huffman_def)
next
  case False
  then have inv: "enc_inv (length src) [] 0 40 []"
    by (simp add: enc_inv_def window_ok_def window_def)
  note loop = encode_huffman_loop_cases [OF inv, of src]
  show ?thesis
  proof (cases "encode_huffman_loop (length src) 0 40 [] src")
    case None
    with loop show ?thesis by (simp add: encode_huffman_def)
  next
    case (Some r)
    obtain b bl dst where r: "r = (b, bl, dst)" by (metis surj_pair)
    have ok: "window_ok b bl" and X: "huff_codes src = octets_bits dst @ window b bl"
      and len: "length dst < length src" and bl: "32 < bl"
      using loop Some r by (auto simp: enc_inv_def)
    have bl40: "bl \<le> 40" using ok by (simp add: window_ok_def)
    show ?thesis
    proof (cases "bl = 40")
      case True
      then have "encode_huffman src = Some dst"
        using Some r len by (simp add: encode_huffman_def)
      moreover have "octets_bits dst = huff_codes src @ replicate 0 True"
        using X True by (simp add: window_def)
      ultimately show ?thesis
        using len by auto
    next
      case False
      let ?dst = "dst @ [ucast (drop_bit 32 (b OR (push_bit bl 1 - 1)))]"
      have "encode_huffman src = (if length ?dst = length src then None else Some ?dst)"
        using Some r False by (simp add: encode_huffman_def Let_def)
      moreover have eq: "octets_bits ?dst = huff_codes src @ replicate (bl - 32) True"
        using window_pad [OF ok] bl X by simp
      moreover have "bl - 32 < 8" using False bl40 by simp
      ultimately show ?thesis
        using len bl arg_cong [OF X, of length] False bl40 by auto
    qed
  qed
qed

section \<open>Correctness of the Huffman coder\<close>

lemma decode_huffman_result:
  assumes "decode_huffman se src is_name = Inr (out, se')"
  obtains st where "huff_loop huff_init src = Some st" "hs_maybe_eos st" "hs_out st = out"
    "huff_inv (octets_bits src) st"
  using assms huff_loop_inv [OF huff_init_inv, of src]
  by (auto simp: decode_huffman_def split: option.splits if_splits)

lemma decode_huffman_iff_loop:
  "(\<exists>se'. decode_huffman se src is_name = Inr (out, se')) \<longleftrightarrow>
    (\<exists>st. huff_loop huff_init src = Some st \<and> hs_maybe_eos st \<and> hs_out st = out)"
proof
  assume "\<exists>st. huff_loop huff_init src = Some st \<and> hs_maybe_eos st \<and> hs_out st = out"
  then obtain st where st: "huff_loop huff_init src = Some st" "hs_maybe_eos st" "hs_out st = out"
    by blast
  moreover have "hs_seen st AND 32 = 0"
    using huff_loop_inv [OF huff_init_inv st(1)] by (simp add: huff_inv_def)
  ultimately show "\<exists>se'. decode_huffman se src is_name = Inr (out, se')"
    by (simp add: decode_huffman_def huff_flag_defs)
qed (auto elim: decode_huffman_result)

lemma huffdecode4_written: "huffdecode4 st i = Some st' \<Longrightarrow> length (hs_out st') \<le> Suc (length (hs_out st))"
  by (auto simp: huffdecode4_def Let_def split: prod.splits if_splits)

lemma huff_written_le: "huff_written st src \<le> length (hs_out st) + 2 * length src"
proof (induction st src rule: huff_written.induct)
  case (2 st b src)
  show ?case
  proof (cases "huffdecode4 st (unat (drop_bit 4 b))")
    case (Some st1)
    note le1 = huffdecode4_written [OF Some]
    show ?thesis
    proof (cases "huffdecode4 st1 (unat (b AND 0xf))")
      case None
      then show ?thesis using Some le1 by simp
    next
      case s2: (Some st2)
      show ?thesis using 2 [OF Some s2] huffdecode4_written [OF s2] le1 Some s2 by simp
    qed
  qed simp
qed simp

lemma huff_written_out: "huff_loop st src = Some st' \<Longrightarrow> huff_written st src = length (hs_out st')"
  by (induction st src rule: huff_loop.induct) (auto split: option.splits)

lemma huff_written_decoded:
  assumes "decode_huffman se src is_name = Inr (out, se')"
  shows "huff_written huff_init src = length out"
proof -
  obtain st where "huff_loop huff_init src = Some st" "hs_out st = out" by (rule decode_huffman_result [OF assms])
  then show ?thesis using huff_written_out by blast
qed

lemma encode_huffman_decodes:
  assumes "encode_huffman src = Some dst"
  shows "\<exists>se'. decode_huffman se dst is_name = Inr (src, se')"
  using encode_huffman_cases [of src] assms
  by (simp add: decode_huffman_iff_loop huff_loop_accepts_iff)

text \<open>
  C13. \<^verbatim>\<open>h2o_hpack_decode_huffman\<close> accepts exactly the Huffman encodings: the input is decoded to
  \<open>out\<close> if and only if its bits are the code words of \<open>out\<close>, by the code table of the RFC, followed
  by fewer than eight one bits of padding. An input that holds the code word of EOS, or that is
  padded with zero bits or with a whole octet, is rejected.
\<close>

theorem decode_huffman_correct:
  "(\<exists>soft. decode_huffman soft_errors src is_name = Inr (out, soft)) \<longleftrightarrow>
    (\<exists>k < 8. octets_bits src = huff_codes out @ replicate k True)"
  by (simp only: decode_huffman_iff_loop huff_loop_accepts_iff)

text \<open>
  C21. \<^verbatim>\<open>h2o_hpack_encode_huffman\<close> gives up exactly when the Huffman form is not shorter than the
  input, also when both are equally long, where the comment in \<^verbatim>\<open>hpack.h\<close> speaks of a longer result only; otherwise its output is the code
  words of the input and fewer than eight one bits.
\<close>

theorem encode_huffman_correct:
  "case encode_huffman src of
     None \<Rightarrow> length src \<le> (length (huff_codes src) + 7) div 8
   | Some dst \<Rightarrow> (\<exists>k < 8. octets_bits dst = huff_codes src @ replicate k True) \<and> length dst < length src"
  by (rule encode_huffman_cases)

text \<open>
  Round trip: what \<^verbatim>\<open>h2o_hpack_encode_huffman\<close> produces is decoded to the input.
\<close>

theorem huffman_roundtrip:
  assumes "encode_huffman src = Some dst"
  shows "\<exists>soft. decode_huffman soft_errors dst is_name = Inr (src, soft)"
  using assms by (rule encode_huffman_decodes)

theorem huffman_roundtrip_witness:
  "\<exists>soft. decode_huffman 0 [0x18, 0xc7] True = Inr ([0x61, 0x61, 0x61], soft)"
  by (rule huffman_roundtrip)
    (simp add: encode_huffman_def huff_flush.simps huff_sym_table_nth)

end
