(* ===== verification/Hpack_String.thy ===== *)
theory Hpack_String
  imports Hpack_Int Hpack_Huffman
begin

text \<open>
  String literals of HPACK: validation of header names and values, \<^verbatim>\<open>decode_string\<close>,
  \<^verbatim>\<open>encode_as_is\<close> and \<^verbatim>\<open>h2o_hpack_encode_string\<close> of \<^verbatim>\<open>lib/http2/hpack.c\<close>. The theorems compare the
  two ways in which a string can arrive, Huffman-coded and raw, and show the round trip.
\<close>

section \<open>Validation\<close>

definition valid_h2_header_name_char :: "nat list" where
  "valid_h2_header_name_char =
    replicate 32 0 @
    [0, 1, 0, 1, 1, 1, 1, 1, 0, 0, 1, 1, 0, 1, 1, 0, 1, 1, 1, 1, 1, 1, 1, 1, 1, 1, 0, 0, 0, 0, 0, 0] @
    [0, 0, 0, 0, 0, 0, 0, 0, 0, 0, 0, 0, 0, 0, 0, 0, 0, 0, 0, 0, 0, 0, 0, 0, 0, 0, 0, 0, 0, 0, 1, 1] @
    [1, 1, 1, 1, 1, 1, 1, 1, 1, 1, 1, 1, 1, 1, 1, 1, 1, 1, 1, 1, 1, 1, 1, 1, 1, 1, 1, 0, 1, 0, 1, 0] @
    replicate 32 0 @
    replicate 32 0 @
    replicate 32 0 @
    replicate 32 0"

definition valid_h2_field_value_char :: "nat list" where
  "valid_h2_field_value_char =
    [0, 0, 0, 0, 0, 0, 0, 0, 0, 1, 0, 0, 0, 0, 0, 0, 0, 0, 0, 0, 0, 0, 0, 0, 0, 0, 0, 0, 0, 0, 0, 0] @
    replicate 32 1 @
    replicate 32 1 @
    [1, 1, 1, 1, 1, 1, 1, 1, 1, 1, 1, 1, 1, 1, 1, 1, 1, 1, 1, 1, 1, 1, 1, 1, 1, 1, 1, 1, 1, 1, 1, 0] @
    replicate 32 1 @
    replicate 32 1 @
    replicate 32 1 @
    replicate 32 1"

text \<open>
  \<^term>\<open>Inl d\<close>: the function returns 0 and \<^verbatim>\<open>err_desc\<close> is \<open>d\<close>; otherwise the updated soft errors.
\<close>

fun validate_name_loop :: "nat \<Rightarrow> octets \<Rightarrow> string + nat" where
  "validate_name_loop soft_errors [] = Inr soft_errors"
| "validate_name_loop soft_errors (ch # s) =
     (if valid_h2_header_name_char ! unat ch = 0 then
        if (ucast ch - 65 :: u32) < 26 then Inl h2o_hpack_err_found_upper_case_in_header_name
        else validate_name_loop (soft_errors OR H2O_HPACK_SOFT_ERROR_BIT_INVALID_NAME) s
      else validate_name_loop soft_errors s)"

definition validate_header_name :: "nat \<Rightarrow> octets \<Rightarrow> string + nat" where
  "validate_header_name soft_errors s =
    (if s = [] then Inr (soft_errors OR H2O_HPACK_SOFT_ERROR_BIT_INVALID_NAME)
     else validate_name_loop soft_errors s)"

fun validate_value_loop :: "octets \<Rightarrow> bool" where
  "validate_value_loop [] = True"
| "validate_value_loop (ch # s) =
     (if valid_h2_field_value_char ! unat ch = 0 then False else validate_value_loop s)"

definition validate_header_value :: "nat \<Rightarrow> octets \<Rightarrow> nat" where
  "validate_header_value soft_errors s =
    (if \<not> header_value_valid_as_whole s then soft_errors OR H2O_HPACK_SOFT_ERROR_BIT_INVALID_VALUE
     else if validate_value_loop s then soft_errors
     else soft_errors OR H2O_HPACK_SOFT_ERROR_BIT_INVALID_VALUE)"

section \<open>String literals\<close>

text \<open>
  A failing call returns \<^verbatim>\<open>NULL\<close>; the argument of \<open>NULL\<close> is what was stored through \<^verbatim>\<open>err_desc\<close>. \<open>OUT_OF_BOUNDS\<close> marks a read behind the input or
  a write behind the allocated buffer; it is shown never to occur.
\<close>

datatype string_failure = NULL "string option" | OUT_OF_BOUNDS

text \<open>Reading \<open>n\<close> octets.\<close>

definition read_octets :: "nat \<Rightarrow> octets \<Rightarrow> (octets \<times> octets) option" where
  "read_octets n src = (if n \<le> length src then Some (take n src, drop n src) else None)"

text \<open>The size of the buffer that \<^verbatim>\<open>alloc_buf\<close> provides.\<close>

definition alloc_buf :: "nat \<Rightarrow> nat" where
  "alloc_buf len = len + 1"

text \<open>
  The two kinds of strings, \<open>src\<close> being the input behind the length field. The Huffman decoder writes into the buffer, then the octet behind the string
  is cleared; a raw string is copied. The result is the string, the soft errors and the octets that remain.
\<close>

definition decode_huffman_string :: "nat \<Rightarrow> nat \<Rightarrow> octets \<Rightarrow> bool \<Rightarrow> string_failure + (octets \<times> nat \<times> octets)" where
  "decode_huffman_string soft_errors len src is_header_name =
    (if len > length src then Inl (NULL None)
     else
       (case read_octets len src of
          None \<Rightarrow> Inl OUT_OF_BOUNDS
        | Some (s, rest) \<Rightarrow>
            (let size = alloc_buf (len * 2)
             in if huff_written huff_init s > size then Inl OUT_OF_BOUNDS
                else
                  (case decode_huffman soft_errors s is_header_name of
                     Inl d \<Rightarrow> Inl (NULL d)
                   | Inr (out, soft_errors') \<Rightarrow>
                       if length out < size then Inr (out, soft_errors', rest) else Inl OUT_OF_BOUNDS))))"

definition decode_raw_string :: "nat \<Rightarrow> nat \<Rightarrow> octets \<Rightarrow> bool \<Rightarrow> string_failure + (octets \<times> nat \<times> octets)" where
  "decode_raw_string soft_errors len src is_header_name =
    (if len > length src then Inl (NULL None)
     else
       (case read_octets len src of
          None \<Rightarrow> Inl OUT_OF_BOUNDS
        | Some (s, rest) \<Rightarrow>
            (case (if is_header_name then
                     (if len = 0 \<or> hd s \<noteq> of_char CHR '':'' then validate_header_name soft_errors s else Inr soft_errors)
                   else Inr (validate_header_value soft_errors s)) of
               Inl d \<Rightarrow> Inl (NULL (Some d))
             | Inr soft_errors' \<Rightarrow>
                 if length s < alloc_buf len then Inr (s, soft_errors', rest) else Inl OUT_OF_BOUNDS)))"

definition decode_string :: "nat \<Rightarrow> octets \<Rightarrow> bool \<Rightarrow> string_failure + (octets \<times> nat \<times> octets)" where
  "decode_string soft_errors src is_header_name =
    (if src = [] then Inl (NULL None)
     else
       (case read_octet src of
          Inl e \<Rightarrow> Inl OUT_OF_BOUNDS
        | Inr (b, _) \<Rightarrow>
            (case decode_int src 7 of
               Inl (e, _) \<Rightarrow> if e = READ_PAST_END then Inl OUT_OF_BOUNDS else Inl (NULL None)
             | Inr (len, src') \<Rightarrow>
                 if b AND 0x80 \<noteq> 0 then decode_huffman_string soft_errors (unat len) src' is_header_name
                 else decode_raw_string soft_errors (unat len) src' is_header_name)))"

definition encode_as_is :: "octets \<Rightarrow> octets" where
  "encode_as_is s = encode_int 0 (int (length s)) 7 @ s"

text \<open>The one-octet test of the C function casts the length to \<^verbatim>\<open>uint32_t\<close>.\<close>

definition encode_string :: "octets \<Rightarrow> octets" where
  "encode_string s =
    (if s \<noteq> [] then
       (case encode_huffman s of
          None \<Rightarrow> encode_as_is s
        | Some h \<Rightarrow>
            (if encode_int_is_onebyte (int (length h) mod 2 ^ 32) 7
             then [0x80 OR of_nat (length h)]
             else encode_int 0x80 (int (length h)) 7) @ h)
     else encode_as_is s)"

section \<open>What validation computes\<close>

fun table_of :: "(nat \<Rightarrow> bool) \<Rightarrow> nat \<Rightarrow> nat list \<Rightarrow> bool" where
  "table_of P i [] = True"
| "table_of P i (x # xs) = ((x = 0 \<longleftrightarrow> \<not> P i) \<and> table_of P (i + 1) xs)"

lemma table_ofD: "table_of P i xs \<Longrightarrow> k < length xs \<Longrightarrow> xs ! k = 0 \<longleftrightarrow> \<not> P (i + k)"
proof (induction P i xs arbitrary: k rule: table_of.induct)
  case (2 P i x xs)
  then show ?case by (cases k) auto
qed simp

lemma replicate_32: "replicate 32 x =
    [x, x, x, x, x, x, x, x, x, x, x, x, x, x, x, x, x, x, x, x, x, x, x, x, x, x, x, x, x, x, x, x]"
  by (simp add: numeral_eq_Suc)

lemma valid_name_nth: "n < 256 \<Longrightarrow> valid_h2_header_name_char ! n = 0 \<longleftrightarrow> \<not> name_char n"
proof -
  have "table_of name_char 0 valid_h2_header_name_char"
    by (simp add: valid_h2_header_name_char_def name_char_def replicate_32 flip: numeral_2_eq_2)
  moreover have "length valid_h2_header_name_char = 256"
    by (simp add: valid_h2_header_name_char_def)
  ultimately show "n < 256 \<Longrightarrow> ?thesis"
    using table_ofD [of name_char 0 valid_h2_header_name_char n] by simp
qed

lemma valid_value_nth: "n < 256 \<Longrightarrow> valid_h2_field_value_char ! n = 0 \<longleftrightarrow> \<not> value_char n"
proof -
  have "table_of value_char 0 valid_h2_field_value_char"
    by (simp add: valid_h2_field_value_char_def value_char_def replicate_32 flip: numeral_2_eq_2)
  moreover have "length valid_h2_field_value_char = 256"
    by (simp add: valid_h2_field_value_char_def)
  ultimately show "n < 256 \<Longrightarrow> ?thesis"
    using table_ofD [of value_char 0 valid_h2_field_value_char n] by simp
qed

abbreviation is_upper :: "u8 \<Rightarrow> bool" where
  "is_upper ch \<equiv> 65 \<le> unat ch \<and> unat ch \<le> 90"

lemma upper_case_test: "(ucast ch - 65 :: u32) < 26 \<longleftrightarrow> is_upper ch" for ch :: u8
proof -
  have u: "unat (ucast ch :: u32) = unat ch"
    by (rule unat_ucast_up) simp
  have "unat (ucast ch - 65 :: u32) = (if 65 \<le> unat ch then unat ch - 65 else unat ch + 2 ^ 32 - 65)"
  proof (cases "65 \<le> unat ch")
    case True
    then show ?thesis
      using unat_sub [of 65 "ucast ch :: u32"] by (simp add: u word_le_nat_alt)
  next
    case False
    then have "unat (ucast ch - 65 :: u32) = unat (ucast ch :: u32) + 2 ^ 32 - 65"
      by (simp add: unat_sub_if' u word_le_nat_alt)
    with False show ?thesis by (simp add: u)
  qed
  then show ?thesis
    by (auto simp: word_less_nat_alt)
qed

lemma upper_not_name_char: "is_upper ch \<Longrightarrow> \<not> name_char (unat ch)"
  by (auto simp: name_char_def)

lemma validate_value_loop_iff: "validate_value_loop s \<longleftrightarrow> (\<forall>c \<in> set s. value_char (unat c))"
  by (induction s) (auto simp: valid_value_nth unat_u8_less)

lemma or_absorb: "((x :: nat) OR y) OR y = x OR y"
  by (simp add: or.assoc)

lemma validate_name_loop_eq:
  "validate_name_loop se s =
    (if \<exists>c \<in> set s. is_upper c then Inl h2o_hpack_err_found_upper_case_in_header_name
     else if \<forall>c \<in> set s. name_char (unat c) then Inr se
     else Inr (se OR H2O_HPACK_SOFT_ERROR_BIT_INVALID_NAME))"
proof (induction s arbitrary: se)
  case (Cons c s)
  show ?case
    using upper_not_name_char [of c]
    by (simp add: Cons.IH valid_name_nth unat_u8_less upper_case_test or_absorb del: numeral_le_iff) auto
qed simp

text \<open>The soft errors that a string leaves, in whatever form it was sent.\<close>

definition string_soft_errors :: "nat \<Rightarrow> octets \<Rightarrow> bool \<Rightarrow> nat" where
  "string_soft_errors se s is_name =
    (if is_name then
       (if s \<noteq> [] \<and> (hd s = of_char CHR '':'' \<or> (\<forall>c \<in> set s. name_char (unat c))) then se
        else se OR H2O_HPACK_SOFT_ERROR_BIT_INVALID_NAME)
     else validate_header_value se s)"

lemma decode_huffman_soft_errors:
  assumes "decode_huffman se src is_name = Inr (out, se')"
  shows "se' = string_soft_errors se out is_name"
proof -
  obtain st where st: "huff_loop huff_init src = Some st" "hs_maybe_eos st" "hs_out st = out"
    and inv: "huff_inv (octets_bits src) st"
    using assms by (rule decode_huffman_result)
  have seen: "hs_seen st AND 8 = 0 \<longleftrightarrow> (\<forall>c \<in> set out. name_char (unat c))"
    "hs_seen st AND 16 = 0 \<longleftrightarrow> (\<forall>c \<in> set out. value_char (unat c))" "hs_seen st AND 32 = 0"
    using inv st(3) by (simp_all add: huff_inv_def)
  show ?thesis
  proof (cases is_name)
    case True
    with assms seen show ?thesis
      unfolding decode_huffman_def st(1) option.case huff_flag_defs
      by (auto simp: st(2,3) string_soft_errors_def split: if_splits)
  next
    case False
    with assms seen show ?thesis
      unfolding decode_huffman_def st(1) option.case huff_flag_defs
      by (auto simp: st(2,3) string_soft_errors_def validate_header_value_def validate_value_loop_iff
          split: if_splits)
  qed
qed

section \<open>Round trip of string literals\<close>

lemma encode_int_first:
  assumes "0 \<le> v"
  shows "\<exists>w bs. encode_int first v 7 = (first OR w) # bs \<and> w AND 0x80 = 0"
proof (cases "v < 127")
  case True
  with assms have "unat (word_of_int v :: u8) < 128"
    by (simp add: unsigned_of_int take_bit_int_eq_self)
  then show ?thesis
    using True by (auto simp: encode_int_def encode_int_is_onebyte_def u8_and_128)
next
  case False
  then show ?thesis
    by (auto simp: encode_int_def encode_int_is_onebyte_def)
qed

lemma length_field:
  assumes "first = 0 \<or> first = 0x80" "n < 2 ^ 63"
  shows "\<exists>b bs. encode_int first (int n) 7 = b # bs \<and> (b AND 0x80 \<noteq> 0 \<longleftrightarrow> first \<noteq> 0)"
    and "decode_int (encode_int first (int n) 7 @ rest) 7 = Inr (of_nat n, rest)"
proof -
  obtain w bs where "encode_int first (int n) 7 = (first OR w) # bs" "w AND 0x80 = 0"
    using encode_int_first [of "int n" first] by auto
  with assms(1) show "\<exists>b bs. encode_int first (int n) 7 = b # bs \<and> (b AND 0x80 \<noteq> 0 \<longleftrightarrow> first \<noteq> 0)"
    by (auto simp: bit.conj_disj_distrib2)
  have "first AND prefix_max 7 = 0"
    using assms(1) by (auto simp: prefix_max_def)
  moreover have "int n < 2 ^ 63"
    using assms(2) by simp
  ultimately have "decode_int (encode_int first (int n) 7 @ rest) 7 = Inr (word_of_int (int n), rest)"
    by (intro decode_encode_int) simp_all
  then show "decode_int (encode_int first (int n) 7 @ rest) 7 = Inr (of_nat n, rest)"
    by simp
qed

lemma decode_int_loop_suffix: "decode_int_loop v sh src = Inr (r, src') \<Longrightarrow> \<exists>used. src = used @ src' \<and> used \<noteq> []"
proof (induction v sh src rule: decode_int_loop.induct)
  case (1 v sh src)
  show ?case
  proof (cases src)
    case Nil
    then show ?thesis using "1.prems" by (simp add: decode_int_loop.simps split: if_splits)
  next
    case (Cons b bs)
    then have ne: "src \<noteq> []" and rd: "Inr (b, bs) = read_octet src" by simp_all
    have "src' = bs \<or> (\<exists>used. bs = used @ src' \<and> used \<noteq> [])"
    proof (cases "sh < 56 \<and> b AND 128 \<noteq> 0")
      case True
      then have "decode_int_loop (v + push_bit sh (ucast (b AND 127))) (sh + 7) bs = Inr (r, src')"
        using "1.prems" ne Cons by (subst (asm) decode_int_loop.simps) (simp add: Let_def)
      then show ?thesis using "1.IH" [OF _ ne rd [symmetric] refl refl] True by auto
    next
      case False
      then show ?thesis using "1.prems" ne Cons by (subst (asm) decode_int_loop.simps) (auto simp: Let_def split: if_splits)
    qed
    then show ?thesis using Cons by (metis append_Cons append_Nil list.distinct(1))
  qed
qed

lemma decode_int_suffix: "decode_int src p = Inr (r, src') \<Longrightarrow> \<exists>used. src = used @ src' \<and> used \<noteq> []"
proof (cases src)
  case (Cons b bs)
  assume d: "decode_int src p = Inr (r, src')"
  then have "src' = bs \<or> (\<exists>used. bs = used @ src' \<and> used \<noteq> [])"
    using Cons by (auto simp: decode_int_def Let_def split: if_splits dest!: decode_int_loop_suffix)
  then show ?thesis using Cons by (metis append_Cons append_Nil list.distinct(1))
qed (simp add: decode_int_def)

text \<open>A string in front of which stands the length field with the Huffman bit \<open>first\<close>.\<close>

lemma decode_huffman_string_eq:
  "decode_huffman_string se len src is_name =
    (if len > length src then Inl (NULL None)
     else (case decode_huffman se (take len src) is_name of
       Inl d \<Rightarrow> Inl (NULL d) | Inr (out, se') \<Rightarrow> Inr (out, se', drop len src)))"
proof (cases "len > length src")
  case False
  then have w: "huff_written huff_init (take len src) \<le> 2 * len"
    using huff_written_le [of huff_init "take len src"] by (simp add: huff_init_def)
  show ?thesis
  proof (cases "decode_huffman se (take len src) is_name")
    case (Inr p)
    then obtain out se' where "decode_huffman se (take len src) is_name = Inr (out, se')" by (cases p) auto
    then show ?thesis using w huff_written_decoded False by (auto simp: decode_huffman_string_def read_octets_def alloc_buf_def Let_def)
  qed (use w False in \<open>auto simp: decode_huffman_string_def read_octets_def alloc_buf_def Let_def\<close>)
qed (simp add: decode_huffman_string_def)

lemma decode_raw_string_eq:
  "decode_raw_string se len src is_name =
    (if len > length src then Inl (NULL None)
     else if is_name then
       (if len = 0 \<or> hd src \<noteq> of_char CHR '':'' then
          (case validate_header_name se (take len src) of
             Inl d \<Rightarrow> Inl (NULL (Some d)) | Inr se' \<Rightarrow> Inr (take len src, se', drop len src))
        else Inr (take len src, se, drop len src))
     else Inr (take len src, validate_header_value se (take len src), drop len src))"
  by (auto simp: decode_raw_string_def read_octets_def alloc_buf_def split: sum.splits)

lemma decode_int_no_crash: "1 \<le> p \<Longrightarrow> p \<le> 8 \<Longrightarrow> decode_int src p \<noteq> Inl (READ_PAST_END, d)"
  using decode_int_errors [of p src "(READ_PAST_END, d)"] by auto

lemma string_part_no_overrun:
  "decode_huffman_string se len src is_name \<noteq> Inl OUT_OF_BOUNDS" "decode_raw_string se len src is_name \<noteq> Inl OUT_OF_BOUNDS"
  unfolding decode_huffman_string_eq decode_raw_string_eq by (simp_all split: sum.splits prod.splits)

lemma decode_string_no_overrun: "decode_string se src is_name \<noteq> Inl OUT_OF_BOUNDS"
proof (cases src)
  case (Cons b bs)
  then show ?thesis
    using decode_int_no_crash [of 7 src] by (simp add: decode_string_def string_part_no_overrun split: sum.splits)
qed (simp add: decode_string_def)

lemma huffman_string_result:
  assumes "decode_huffman_string se len src is_name = Inr (s, soft, rest)"
  shows "len \<le> length src" "rest = drop len src" "length s \<le> 2 * len"
proof -
  show len: "len \<le> length src" using assms by (simp add: decode_huffman_string_eq split: if_splits)
  then obtain se' where d: "decode_huffman se (take len src) is_name = Inr (s, se')" and r: "rest = drop len src"
    using assms by (simp add: decode_huffman_string_eq split: sum.splits prod.splits)
  show "rest = drop len src" by (rule r)
  show "length s \<le> 2 * len"
    using huff_written_decoded [OF d] huff_written_le [of huff_init "take len src"] len by (simp add: huff_init_def)
qed

lemma raw_string_result:
  assumes "decode_raw_string se len src is_name = Inr (s, soft, rest)"
  shows "len \<le> length src" "rest = drop len src" "length s \<le> 2 * len"
  using assms by (auto simp: decode_raw_string_eq split: if_splits sum.splits)

lemma decode_string_result:
  assumes "decode_string se src is_name = Inr (s, soft, rest)"
  obtains len src' where "decode_int src 7 = Inr (len, src')" "unat len \<le> length src'" "rest = drop (unat len) src'"
    "length s \<le> 2 * unat len"
proof (cases src)
  case (Cons b bs)
  then obtain len src' where d: "decode_int src 7 = Inr (len, src')"
    and r: "(if b AND 0x80 \<noteq> 0 then decode_huffman_string se (unat len) src' is_name
      else decode_raw_string se (unat len) src' is_name) = Inr (s, soft, rest)"
    using assms by (auto simp: decode_string_def split: sum.splits if_splits)
  show ?thesis
  proof (cases "b AND 0x80 \<noteq> 0")
    case True
    then show ?thesis using that [OF d] r huffman_string_result [of se "unat len" src' is_name s soft rest] by simp
  next
    case False
    then show ?thesis using that [OF d] r raw_string_result [of se "unat len" src' is_name s soft rest] by simp
  qed
qed (use assms in \<open>simp add: decode_string_def\<close>)

lemma decode_string_field:
  assumes "first = 0 \<or> first = 0x80" "length h < 2 ^ 63"
  shows "decode_string se (encode_int first (int (length h)) 7 @ h @ rest) is_name =
    (if first \<noteq> 0 then
       (case decode_huffman se h is_name of
          Inl d \<Rightarrow> Inl (NULL d)
        | Inr (out, se') \<Rightarrow> Inr (out, se', rest))
     else if is_name then
       (if h = [] \<or> hd h \<noteq> of_char CHR '':'' then
          (case validate_header_name se h of
             Inl d \<Rightarrow> Inl (NULL (Some d))
           | Inr se' \<Rightarrow> Inr (h, se', rest))
        else Inr (h, se, rest))
     else Inr (h, validate_header_value se h, rest))"
proof -
  obtain b bs where b: "encode_int first (int (length h)) 7 = b # bs" "b AND 0x80 \<noteq> 0 \<longleftrightarrow> first \<noteq> 0"
    using length_field(1) [OF assms] by auto
  have "decode_int (b # bs @ h @ rest) 7 = Inr (of_nat (length h), h @ rest)"
    using length_field(2) [OF assms, of "h @ rest"] b(1) by simp
  moreover have "unat (of_nat (length h) :: u64) = length h"
    using assms(2) by (intro unat_of_nat_eq) simp
  ultimately show ?thesis
    using b by (cases h) (auto simp: decode_string_def decode_huffman_string_eq decode_raw_string_eq split: sum.splits)
qed

lemma decode_encode_as_is [codec_simps]:
  assumes "length s < 2 ^ 63"
    and "is_name \<Longrightarrow> s = [] \<or> hd s = of_char CHR '':'' \<or> (\<forall>c \<in> set s. \<not> is_upper c)"
  shows "decode_string se (encode_as_is s @ rest) is_name = Inr (s, string_soft_errors se s is_name, rest)"
  using assms(2) unfolding encode_as_is_def append_assoc
  by (subst decode_string_field [OF disjI1 [OF refl] assms(1)])
    (auto simp: string_soft_errors_def validate_header_name_def validate_name_loop_eq)

lemma encode_string_eq:
  assumes "length s < 2 ^ 32"
  shows "encode_string s = (case encode_huffman s of
      None \<Rightarrow> encode_as_is s | Some h \<Rightarrow> encode_int 0x80 (int (length h)) 7 @ h)"
proof (cases "s = []")
  case True
  then show ?thesis by (simp add: encode_string_def encode_huffman_def)
next
  case False
  show ?thesis
  proof (cases "encode_huffman s")
    case None
    with False show ?thesis by (simp add: encode_string_def)
  next
    case (Some h)
    with encode_huffman_cases [of s] assms have "length h < 2 ^ 32"
      by simp
    then have "int (length h) mod 2 ^ 32 = int (length h)"
      by simp
    with Some False show ?thesis
      by (simp add: encode_string_def encode_int_def encode_int_is_onebyte_def)
  qed
qed

lemma decode_encode_string [codec_simps]:
  assumes "length s < 2 ^ 32"
    and "is_name \<Longrightarrow> s = [] \<or> hd s = of_char CHR '':'' \<or> (\<forall>c \<in> set s. \<not> is_upper c)"
  shows "decode_string se (encode_string s @ rest) is_name = Inr (s, string_soft_errors se s is_name, rest)"
proof (cases "encode_huffman s")
  case None
  with assms show ?thesis
    by (simp add: encode_string_eq decode_encode_as_is)
next
  case (Some h)
  have "length h < 2 ^ 63"
    using encode_huffman_cases [of s] Some assms(1) by simp
  moreover obtain se' where "decode_huffman se h is_name = Inr (s, se')"
    using encode_huffman_decodes [OF Some] by blast
  ultimately show ?thesis
    using decode_huffman_soft_errors decode_string_field [of "0x80" h se rest is_name] assms(1) Some
    by (auto simp: encode_string_eq)
qed

section \<open>Properties\<close>

text \<open>
  Header values are validated alike in both forms: the soft errors that
  \<^verbatim>\<open>h2o_hpack_decode_huffman\<close> collects from the flags of its automaton are those that
  \<^verbatim>\<open>h2o_hpack_validate_header_value\<close> computes from the decoded octets.
\<close>

theorem huffman_value_validation:
  assumes "decode_huffman soft_errors src False = Inr (v, soft)"
  shows "soft = validate_header_value soft_errors v"
  using decode_huffman_soft_errors [OF assms] by (simp add: string_soft_errors_def)

theorem huffman_value_validation_witness:
  "\<exists>soft. decode_huffman 0 [0x18, 0xc7] False = Inr ([0x61, 0x61, 0x61], soft) \<and>
    soft = validate_header_value 0 [0x61, 0x61, 0x61]"
proof -
  have "encode_huffman [0x61, 0x61, 0x61] = Some [0x18, 0xc7]"
    by (simp add: encode_huffman_def huff_flush.simps huff_sym_table_nth)
  then obtain soft where "decode_huffman 0 [0x18, 0xc7] False = Inr ([0x61, 0x61, 0x61], soft)"
    using encode_huffman_decodes by blast
  with huffman_value_validation [OF this] show ?thesis by blast
qed

text \<open>
  C23. Header names are not: an upper-case letter in a name sent raw is the error
  \<^verbatim>\<open>h2o_hpack_err_found_upper_case_in_header_name\<close>, but the same name sent Huffman-coded is
  decoded, with only a soft error. \<^verbatim>\<open>huffdecode4\<close> masks the flags it collects with
  \<^verbatim>\<open>NGHTTP2_HUFF_INVALID_CHARS\<close>, which leaves out \<^verbatim>\<open>NGHTTP2_HUFF_UPPER_CASE_CHAR\<close>, so the test for
  that flag at the end of \<^verbatim>\<open>h2o_hpack_decode_huffman\<close> never succeeds.
\<close>

theorem upper_case_name_depends_on_coding:
  assumes "name \<noteq> []" "hd name \<noteq> of_char CHR '':''" "\<exists>c \<in> set name. is_upper c" "length name < 2 ^ 63"
    and "length src < 2 ^ 63" "k < 8" "octets_bits src = huff_codes name @ replicate k True"
  shows "decode_string soft_errors (encode_as_is name @ rest) True =
      Inl (NULL (Some h2o_hpack_err_found_upper_case_in_header_name)) \<and>
    decode_string soft_errors (encode_int 0x80 (int (length src)) 7 @ src @ rest) True =
      Inr (name, soft_errors OR H2O_HPACK_SOFT_ERROR_BIT_INVALID_NAME, rest)"
proof -
  obtain se' where d: "decode_huffman soft_errors src True = Inr (name, se')"
    using assms(6,7) decode_huffman_iff_loop huff_loop_accepts_iff by blast
  have "se' = soft_errors OR H2O_HPACK_SOFT_ERROR_BIT_INVALID_NAME"
    using decode_huffman_soft_errors [OF d] assms(1-3) upper_not_name_char
    by (auto simp: string_soft_errors_def)
  with d decode_string_field [of "0x80" src soft_errors rest True]
    decode_string_field [of 0 name soft_errors rest True] assms show ?thesis
    by (auto simp: encode_as_is_def validate_header_name_def validate_name_loop_eq)
qed

theorem upper_case_name_depends_on_coding_witness:
  "decode_string 0 (encode_as_is [0x41] @ []) True = Inl (NULL (Some h2o_hpack_err_found_upper_case_in_header_name)) \<and>
   decode_string 0 (encode_int 0x80 1 7 @ [0x87] @ []) True = Inr ([0x41], 1, [])"
proof -
  have "huff_codes [0x41] @ replicate 2 True = octets_bits [0x87]"
    using bits_append [of 3 2 6 33] bits_ones [of 2] by (simp add: huff_code_def huff_sym_table_nth)
  then show ?thesis
    using upper_case_name_depends_on_coding [of "[0x41]" "[0x87]" 2 0 "[]"]
    by (simp add: soft_error_defs)
qed

text \<open>
  C15. Reading a string literal never reads behind the input and never writes behind the buffer it allocates, which for a Huffman-coded string has
  twice the length of the input, whether the string is accepted or not; the octet behind the string is cleared within the buffer too. What an
  accepted string leaves is the end of the input, and the string has at most twice as many octets as were read.
\<close>

theorem decode_string_in_bounds:
  "decode_string soft_errors src is_name \<noteq> Inl OUT_OF_BOUNDS \<and>
   (\<forall>s soft rest. decode_string soft_errors src is_name = Inr (s, soft, rest) \<longrightarrow>
     (\<exists>used. src = used @ rest \<and> used \<noteq> [] \<and> length s \<le> 2 * length used))"
proof (intro conjI allI impI)
  show "decode_string soft_errors src is_name \<noteq> Inl OUT_OF_BOUNDS" by (rule decode_string_no_overrun)
next
  fix s soft rest
  assume "decode_string soft_errors src is_name = Inr (s, soft, rest)"
  then obtain len src' where d: "decode_int src 7 = Inr (len, src')" and n: "unat len \<le> length src'"
      "rest = drop (unat len) src'" "length s \<le> 2 * unat len"
    by (rule decode_string_result)
  obtain used where "src = used @ src'" "used \<noteq> []" using decode_int_suffix [OF d] by blast
  then show "\<exists>used. src = used @ rest \<and> used \<noteq> [] \<and> length s \<le> 2 * length used"
    using n by (intro exI [of _ "used @ take (unat len) src'"]) auto
qed

theorem decode_string_in_bounds_witness:
  "\<exists>used. [0x02, 0x61, 0x62, 0x07 :: u8] = used @ [0x07] \<and> length [0x61, 0x62 :: u8] \<le> 2 * length used"
proof -
  have "decode_string 0 [0x02, 0x61, 0x62, 0x07] False = Inr ([0x61, 0x62], 0, [0x07])"
    by (simp add: decode_string_def decode_int_def prefix_max_def decode_raw_string_eq validate_header_value_def header_value_valid_as_whole_def
      valid_value_nth value_char_def)
  then show ?thesis using decode_string_in_bounds [of 0 "[0x02, 0x61, 0x62, 0x07]" False] by blast
qed

text \<open>
  C24. Round trip of string literals: \<^verbatim>\<open>decode_string\<close> returns what \<^verbatim>\<open>h2o_hpack_encode_string\<close> or
  \<^verbatim>\<open>encode_as_is\<close> wrote, leaves the octets that follow, and reports the soft errors of the string
  itself, whichever form the encoder chose. A header name must not hold upper-case letters.
\<close>

theorem string_literal_roundtrip:
  assumes "length s < 2 ^ 32"
    and "is_name \<Longrightarrow> s = [] \<or> hd s = of_char CHR '':'' \<or> (\<forall>c \<in> set s. \<not> is_upper c)"
  shows "decode_string soft_errors (encode_string s @ rest) is_name =
      Inr (s, string_soft_errors soft_errors s is_name, rest) \<and>
    decode_string soft_errors (encode_as_is s @ rest) is_name =
      Inr (s, string_soft_errors soft_errors s is_name, rest)"
  using decode_encode_string [OF assms] decode_encode_as_is [of s is_name] assms by simp

theorem string_literal_roundtrip_witness:
  "decode_string 0 (encode_string [0x61, 0x61, 0x61] @ [7]) True = Inr ([0x61, 0x61, 0x61], 0, [7])"
  using string_literal_roundtrip [of "[0x61, 0x61, 0x61]" True 0 "[7]"]
  by (simp add: string_soft_errors_def name_char_def)

end
