(* ===== verification/Tokens.thy ===== *)
theory Tokens
  imports Prelude
begin

text \<open>
  The interned header names of \<^verbatim>\<open>lib/common/token_table.h\<close>, the static table of HPACK, and the
  lookup of a name among the tokens. A token is represented by its index in \<^verbatim>\<open>h2o__tokens\<close>, the
  way the macros of \<^verbatim>\<open>include/h2o/token_table.h\<close> name it. The generated \<^verbatim>\<open>switch\<close> of
  \<^verbatim>\<open>h2o_lookup_token\<close> is kept as data, one table per length; the theorem at the end shows that
  it finds exactly the tokens.
\<close>

section \<open>Tokens\<close>

record h2o_token =
  tok_buf :: octets
  http2_static_table_name_index :: nat
  proxy_should_drop_for_req :: bool
  proxy_should_drop_for_res :: bool
  is_init_header_special :: bool
  is_hpack_special :: bool
  copy_for_push_request :: bool
  tok_dont_compress :: bool
  likely_to_repeat :: bool

definition token :: "string \<Rightarrow> nat \<Rightarrow> nat list \<Rightarrow> h2o_token" where
  "token name idx fl = \<lparr>tok_buf = str name, http2_static_table_name_index = idx,
     proxy_should_drop_for_req = (fl ! 0 = 1), proxy_should_drop_for_res = (fl ! 1 = 1),
     is_init_header_special = (fl ! 2 = 1), is_hpack_special = (fl ! 3 = 1),
     copy_for_push_request = (fl ! 4 = 1), tok_dont_compress = (fl ! 5 = 1),
     likely_to_repeat = (fl ! 6 = 1)\<rparr>"

definition h2o__tokens :: "h2o_token list" where
  "h2o__tokens = [
     token '':authority'' 1 [0, 0, 0, 0, 0, 0, 1],
     token '':method'' 2 [0, 0, 0, 0, 0, 0, 0],
     token '':path'' 4 [0, 0, 0, 0, 0, 0, 0],
     token '':protocol'' 0 [0, 0, 0, 0, 0, 0, 1],
     token '':scheme'' 6 [0, 0, 0, 0, 0, 0, 0],
     token '':status'' 8 [0, 0, 0, 0, 0, 0, 0],
     token ''accept'' 19 [0, 0, 0, 0, 1, 0, 1],
     token ''accept-charset'' 15 [0, 0, 0, 0, 1, 0, 1],
     token ''accept-encoding'' 16 [0, 0, 0, 0, 1, 0, 1],
     token ''accept-language'' 17 [0, 0, 0, 0, 1, 0, 1],
     token ''accept-ranges'' 18 [0, 0, 0, 0, 0, 0, 1],
     token ''access-control-allow-credentials'' 0 [0, 0, 0, 0, 0, 0, 0],
     token ''access-control-allow-headers'' 0 [0, 0, 0, 0, 0, 0, 1],
     token ''access-control-allow-methods'' 0 [0, 0, 0, 0, 0, 0, 1],
     token ''access-control-allow-origin'' 20 [0, 0, 0, 0, 0, 0, 1],
     token ''access-control-expose-headers'' 0 [0, 0, 0, 0, 0, 0, 1],
     token ''access-control-request-headers'' 0 [0, 0, 0, 0, 0, 0, 1],
     token ''access-control-request-method'' 0 [0, 0, 0, 0, 0, 0, 1],
     token ''age'' 21 [0, 0, 0, 0, 0, 0, 0],
     token ''allow'' 22 [0, 0, 0, 0, 0, 0, 1],
     token ''alt-svc'' 0 [0, 0, 0, 0, 0, 0, 1],
     token ''authorization'' 23 [0, 0, 0, 0, 0, 0, 0],
     token ''cache-control'' 24 [0, 0, 0, 0, 0, 0, 1],
     token ''cache-digest'' 0 [0, 0, 0, 1, 0, 0, 0],
     token ''connection'' 0 [1, 1, 0, 1, 0, 0, 0],
     token ''content-disposition'' 25 [0, 0, 0, 0, 0, 0, 1],
     token ''content-encoding'' 26 [0, 0, 0, 0, 0, 0, 1],
     token ''content-language'' 27 [0, 0, 0, 0, 0, 0, 1],
     token ''content-length'' 28 [0, 0, 1, 1, 0, 0, 0],
     token ''content-location'' 29 [0, 0, 0, 0, 0, 0, 0],
     token ''content-range'' 30 [0, 0, 0, 0, 0, 0, 0],
     token ''content-security-policy'' 0 [0, 0, 0, 0, 0, 0, 1],
     token ''content-type'' 31 [0, 0, 0, 0, 0, 0, 1],
     token ''cookie'' 32 [0, 0, 0, 0, 0, 1, 0],
     token ''datagram-flow-id'' 0 [1, 1, 0, 1, 0, 0, 0],
     token ''date'' 33 [0, 0, 0, 0, 0, 0, 1],
     token ''early-data'' 0 [0, 0, 0, 0, 0, 0, 0],
     token ''etag'' 34 [0, 0, 0, 0, 0, 0, 0],
     token ''expect'' 35 [0, 0, 1, 1, 0, 0, 1],
     token ''expect-ct'' 0 [0, 0, 0, 0, 0, 0, 1],
     token ''expires'' 36 [0, 0, 0, 0, 0, 0, 0],
     token ''forwarded'' 0 [0, 0, 0, 0, 0, 0, 1],
     token ''from'' 37 [0, 0, 0, 0, 0, 0, 1],
     token ''host'' 38 [0, 0, 1, 1, 0, 0, 0],
     token ''http2-settings'' 0 [1, 0, 0, 1, 0, 0, 0],
     token ''if-match'' 39 [0, 0, 0, 0, 0, 0, 0],
     token ''if-modified-since'' 40 [0, 0, 0, 0, 0, 0, 0],
     token ''if-none-match'' 41 [0, 0, 0, 0, 0, 0, 0],
     token ''if-range'' 42 [0, 0, 0, 0, 0, 0, 0],
     token ''if-unmodified-since'' 43 [0, 0, 0, 0, 0, 0, 0],
     token ''keep-alive'' 0 [1, 1, 0, 0, 0, 0, 0],
     token ''last-modified'' 44 [0, 0, 0, 0, 0, 0, 0],
     token ''link'' 45 [0, 0, 0, 0, 0, 0, 1],
     token ''location'' 46 [0, 0, 0, 0, 0, 0, 0],
     token ''max-forwards'' 47 [0, 0, 0, 0, 0, 0, 0],
     token ''no-early-hints'' 0 [0, 0, 0, 0, 0, 0, 1],
     token ''origin'' 0 [0, 0, 0, 0, 0, 0, 1],
     token ''priority'' 0 [0, 0, 0, 0, 0, 0, 1],
     token ''proxy-authenticate'' 48 [1, 0, 0, 0, 0, 0, 0],
     token ''proxy-authorization'' 49 [1, 0, 0, 0, 0, 0, 0],
     token ''proxy-connection'' 0 [1, 1, 0, 0, 0, 0, 0],
     token ''purpose'' 0 [0, 0, 0, 0, 0, 0, 1],
     token ''range'' 50 [0, 0, 0, 0, 0, 0, 0],
     token ''referer'' 51 [0, 0, 0, 0, 0, 0, 1],
     token ''refresh'' 52 [0, 0, 0, 0, 0, 0, 0],
     token ''retry-after'' 53 [0, 0, 0, 0, 0, 0, 1],
     token ''server'' 54 [0, 0, 0, 0, 0, 0, 1],
     token ''set-cookie'' 55 [0, 0, 0, 0, 0, 1, 0],
     token ''strict-transport-security'' 56 [0, 0, 0, 0, 0, 0, 1],
     token ''te'' 0 [1, 0, 0, 1, 0, 0, 1],
     token ''timing-allow-origin'' 0 [0, 0, 0, 0, 0, 0, 1],
     token ''transfer-encoding'' 57 [1, 1, 1, 1, 0, 0, 0],
     token ''upgrade'' 0 [1, 1, 1, 1, 0, 0, 0],
     token ''upgrade-insecure-requests'' 0 [0, 0, 0, 0, 0, 0, 1],
     token ''user-agent'' 58 [0, 0, 0, 0, 1, 0, 1],
     token ''vary'' 59 [0, 0, 0, 0, 0, 0, 1],
     token ''via'' 60 [0, 0, 0, 0, 0, 0, 0],
     token ''www-authenticate'' 61 [0, 0, 0, 0, 0, 0, 0],
     token ''x-compress-hint'' 0 [0, 0, 0, 0, 0, 0, 0],
     token ''x-content-type-options'' 0 [0, 0, 0, 0, 0, 0, 1],
     token ''x-forwarded-for'' 0 [0, 0, 0, 0, 0, 0, 1],
     token ''x-frame-options'' 0 [0, 0, 0, 0, 0, 0, 1],
     token ''x-reproxy-url'' 0 [0, 0, 0, 0, 0, 0, 0],
     token ''x-traffic'' 0 [0, 0, 0, 0, 0, 0, 0],
     token ''x-xss-protection'' 0 [0, 0, 0, 0, 0, 0, 1]]"

definition h2o__num_tokens :: nat where
  "h2o__num_tokens = 85"

text \<open>The macros that name the tokens.\<close>

definition H2O_TOKEN_AUTHORITY :: nat where "H2O_TOKEN_AUTHORITY = 0"
definition H2O_TOKEN_METHOD :: nat where "H2O_TOKEN_METHOD = 1"
definition H2O_TOKEN_PATH :: nat where "H2O_TOKEN_PATH = 2"
definition H2O_TOKEN_PROTOCOL :: nat where "H2O_TOKEN_PROTOCOL = 3"
definition H2O_TOKEN_SCHEME :: nat where "H2O_TOKEN_SCHEME = 4"
definition H2O_TOKEN_STATUS :: nat where "H2O_TOKEN_STATUS = 5"
definition H2O_TOKEN_ACCEPT :: nat where "H2O_TOKEN_ACCEPT = 6"
definition H2O_TOKEN_ACCEPT_CHARSET :: nat where "H2O_TOKEN_ACCEPT_CHARSET = 7"
definition H2O_TOKEN_ACCEPT_ENCODING :: nat where "H2O_TOKEN_ACCEPT_ENCODING = 8"
definition H2O_TOKEN_ACCEPT_LANGUAGE :: nat where "H2O_TOKEN_ACCEPT_LANGUAGE = 9"
definition H2O_TOKEN_ACCEPT_RANGES :: nat where "H2O_TOKEN_ACCEPT_RANGES = 10"
definition H2O_TOKEN_ACCESS_CONTROL_ALLOW_CREDENTIALS :: nat where "H2O_TOKEN_ACCESS_CONTROL_ALLOW_CREDENTIALS = 11"
definition H2O_TOKEN_ACCESS_CONTROL_ALLOW_HEADERS :: nat where "H2O_TOKEN_ACCESS_CONTROL_ALLOW_HEADERS = 12"
definition H2O_TOKEN_ACCESS_CONTROL_ALLOW_METHODS :: nat where "H2O_TOKEN_ACCESS_CONTROL_ALLOW_METHODS = 13"
definition H2O_TOKEN_ACCESS_CONTROL_ALLOW_ORIGIN :: nat where "H2O_TOKEN_ACCESS_CONTROL_ALLOW_ORIGIN = 14"
definition H2O_TOKEN_ACCESS_CONTROL_EXPOSE_HEADERS :: nat where "H2O_TOKEN_ACCESS_CONTROL_EXPOSE_HEADERS = 15"
definition H2O_TOKEN_ACCESS_CONTROL_REQUEST_HEADERS :: nat where "H2O_TOKEN_ACCESS_CONTROL_REQUEST_HEADERS = 16"
definition H2O_TOKEN_ACCESS_CONTROL_REQUEST_METHOD :: nat where "H2O_TOKEN_ACCESS_CONTROL_REQUEST_METHOD = 17"
definition H2O_TOKEN_AGE :: nat where "H2O_TOKEN_AGE = 18"
definition H2O_TOKEN_ALLOW :: nat where "H2O_TOKEN_ALLOW = 19"
definition H2O_TOKEN_ALT_SVC :: nat where "H2O_TOKEN_ALT_SVC = 20"
definition H2O_TOKEN_AUTHORIZATION :: nat where "H2O_TOKEN_AUTHORIZATION = 21"
definition H2O_TOKEN_CACHE_CONTROL :: nat where "H2O_TOKEN_CACHE_CONTROL = 22"
definition H2O_TOKEN_CACHE_DIGEST :: nat where "H2O_TOKEN_CACHE_DIGEST = 23"
definition H2O_TOKEN_CONNECTION :: nat where "H2O_TOKEN_CONNECTION = 24"
definition H2O_TOKEN_CONTENT_DISPOSITION :: nat where "H2O_TOKEN_CONTENT_DISPOSITION = 25"
definition H2O_TOKEN_CONTENT_ENCODING :: nat where "H2O_TOKEN_CONTENT_ENCODING = 26"
definition H2O_TOKEN_CONTENT_LANGUAGE :: nat where "H2O_TOKEN_CONTENT_LANGUAGE = 27"
definition H2O_TOKEN_CONTENT_LENGTH :: nat where "H2O_TOKEN_CONTENT_LENGTH = 28"
definition H2O_TOKEN_CONTENT_LOCATION :: nat where "H2O_TOKEN_CONTENT_LOCATION = 29"
definition H2O_TOKEN_CONTENT_RANGE :: nat where "H2O_TOKEN_CONTENT_RANGE = 30"
definition H2O_TOKEN_CONTENT_SECURITY_POLICY :: nat where "H2O_TOKEN_CONTENT_SECURITY_POLICY = 31"
definition H2O_TOKEN_CONTENT_TYPE :: nat where "H2O_TOKEN_CONTENT_TYPE = 32"
definition H2O_TOKEN_COOKIE :: nat where "H2O_TOKEN_COOKIE = 33"
definition H2O_TOKEN_DATAGRAM_FLOW_ID :: nat where "H2O_TOKEN_DATAGRAM_FLOW_ID = 34"
definition H2O_TOKEN_DATE :: nat where "H2O_TOKEN_DATE = 35"
definition H2O_TOKEN_EARLY_DATA :: nat where "H2O_TOKEN_EARLY_DATA = 36"
definition H2O_TOKEN_ETAG :: nat where "H2O_TOKEN_ETAG = 37"
definition H2O_TOKEN_EXPECT :: nat where "H2O_TOKEN_EXPECT = 38"
definition H2O_TOKEN_EXPECT_CT :: nat where "H2O_TOKEN_EXPECT_CT = 39"
definition H2O_TOKEN_EXPIRES :: nat where "H2O_TOKEN_EXPIRES = 40"
definition H2O_TOKEN_FORWARDED :: nat where "H2O_TOKEN_FORWARDED = 41"
definition H2O_TOKEN_FROM :: nat where "H2O_TOKEN_FROM = 42"
definition H2O_TOKEN_HOST :: nat where "H2O_TOKEN_HOST = 43"
definition H2O_TOKEN_HTTP2_SETTINGS :: nat where "H2O_TOKEN_HTTP2_SETTINGS = 44"
definition H2O_TOKEN_IF_MATCH :: nat where "H2O_TOKEN_IF_MATCH = 45"
definition H2O_TOKEN_IF_MODIFIED_SINCE :: nat where "H2O_TOKEN_IF_MODIFIED_SINCE = 46"
definition H2O_TOKEN_IF_NONE_MATCH :: nat where "H2O_TOKEN_IF_NONE_MATCH = 47"
definition H2O_TOKEN_IF_RANGE :: nat where "H2O_TOKEN_IF_RANGE = 48"
definition H2O_TOKEN_IF_UNMODIFIED_SINCE :: nat where "H2O_TOKEN_IF_UNMODIFIED_SINCE = 49"
definition H2O_TOKEN_KEEP_ALIVE :: nat where "H2O_TOKEN_KEEP_ALIVE = 50"
definition H2O_TOKEN_LAST_MODIFIED :: nat where "H2O_TOKEN_LAST_MODIFIED = 51"
definition H2O_TOKEN_LINK :: nat where "H2O_TOKEN_LINK = 52"
definition H2O_TOKEN_LOCATION :: nat where "H2O_TOKEN_LOCATION = 53"
definition H2O_TOKEN_MAX_FORWARDS :: nat where "H2O_TOKEN_MAX_FORWARDS = 54"
definition H2O_TOKEN_NO_EARLY_HINTS :: nat where "H2O_TOKEN_NO_EARLY_HINTS = 55"
definition H2O_TOKEN_ORIGIN :: nat where "H2O_TOKEN_ORIGIN = 56"
definition H2O_TOKEN_PRIORITY :: nat where "H2O_TOKEN_PRIORITY = 57"
definition H2O_TOKEN_PROXY_AUTHENTICATE :: nat where "H2O_TOKEN_PROXY_AUTHENTICATE = 58"
definition H2O_TOKEN_PROXY_AUTHORIZATION :: nat where "H2O_TOKEN_PROXY_AUTHORIZATION = 59"
definition H2O_TOKEN_PROXY_CONNECTION :: nat where "H2O_TOKEN_PROXY_CONNECTION = 60"
definition H2O_TOKEN_PURPOSE :: nat where "H2O_TOKEN_PURPOSE = 61"
definition H2O_TOKEN_RANGE :: nat where "H2O_TOKEN_RANGE = 62"
definition H2O_TOKEN_REFERER :: nat where "H2O_TOKEN_REFERER = 63"
definition H2O_TOKEN_REFRESH :: nat where "H2O_TOKEN_REFRESH = 64"
definition H2O_TOKEN_RETRY_AFTER :: nat where "H2O_TOKEN_RETRY_AFTER = 65"
definition H2O_TOKEN_SERVER :: nat where "H2O_TOKEN_SERVER = 66"
definition H2O_TOKEN_SET_COOKIE :: nat where "H2O_TOKEN_SET_COOKIE = 67"
definition H2O_TOKEN_STRICT_TRANSPORT_SECURITY :: nat where "H2O_TOKEN_STRICT_TRANSPORT_SECURITY = 68"
definition H2O_TOKEN_TE :: nat where "H2O_TOKEN_TE = 69"
definition H2O_TOKEN_TIMING_ALLOW_ORIGIN :: nat where "H2O_TOKEN_TIMING_ALLOW_ORIGIN = 70"
definition H2O_TOKEN_TRANSFER_ENCODING :: nat where "H2O_TOKEN_TRANSFER_ENCODING = 71"
definition H2O_TOKEN_UPGRADE :: nat where "H2O_TOKEN_UPGRADE = 72"
definition H2O_TOKEN_UPGRADE_INSECURE_REQUESTS :: nat where "H2O_TOKEN_UPGRADE_INSECURE_REQUESTS = 73"
definition H2O_TOKEN_USER_AGENT :: nat where "H2O_TOKEN_USER_AGENT = 74"
definition H2O_TOKEN_VARY :: nat where "H2O_TOKEN_VARY = 75"
definition H2O_TOKEN_VIA :: nat where "H2O_TOKEN_VIA = 76"
definition H2O_TOKEN_WWW_AUTHENTICATE :: nat where "H2O_TOKEN_WWW_AUTHENTICATE = 77"
definition H2O_TOKEN_X_COMPRESS_HINT :: nat where "H2O_TOKEN_X_COMPRESS_HINT = 78"
definition H2O_TOKEN_X_CONTENT_TYPE_OPTIONS :: nat where "H2O_TOKEN_X_CONTENT_TYPE_OPTIONS = 79"
definition H2O_TOKEN_X_FORWARDED_FOR :: nat where "H2O_TOKEN_X_FORWARDED_FOR = 80"
definition H2O_TOKEN_X_FRAME_OPTIONS :: nat where "H2O_TOKEN_X_FRAME_OPTIONS = 81"
definition H2O_TOKEN_X_REPROXY_URL :: nat where "H2O_TOKEN_X_REPROXY_URL = 82"
definition H2O_TOKEN_X_TRAFFIC :: nat where "H2O_TOKEN_X_TRAFFIC = 83"
definition H2O_TOKEN_X_XSS_PROTECTION :: nat where "H2O_TOKEN_X_XSS_PROTECTION = 84"

lemmas token_index_defs =
  H2O_TOKEN_AUTHORITY_def H2O_TOKEN_METHOD_def H2O_TOKEN_PATH_def H2O_TOKEN_PROTOCOL_def
  H2O_TOKEN_SCHEME_def H2O_TOKEN_STATUS_def H2O_TOKEN_ACCEPT_def H2O_TOKEN_ACCEPT_CHARSET_def
  H2O_TOKEN_ACCEPT_ENCODING_def H2O_TOKEN_ACCEPT_LANGUAGE_def H2O_TOKEN_ACCEPT_RANGES_def
  H2O_TOKEN_ACCESS_CONTROL_ALLOW_CREDENTIALS_def H2O_TOKEN_ACCESS_CONTROL_ALLOW_HEADERS_def
  H2O_TOKEN_ACCESS_CONTROL_ALLOW_METHODS_def H2O_TOKEN_ACCESS_CONTROL_ALLOW_ORIGIN_def
  H2O_TOKEN_ACCESS_CONTROL_EXPOSE_HEADERS_def H2O_TOKEN_ACCESS_CONTROL_REQUEST_HEADERS_def
  H2O_TOKEN_ACCESS_CONTROL_REQUEST_METHOD_def H2O_TOKEN_AGE_def H2O_TOKEN_ALLOW_def
  H2O_TOKEN_ALT_SVC_def H2O_TOKEN_AUTHORIZATION_def H2O_TOKEN_CACHE_CONTROL_def
  H2O_TOKEN_CACHE_DIGEST_def H2O_TOKEN_CONNECTION_def H2O_TOKEN_CONTENT_DISPOSITION_def
  H2O_TOKEN_CONTENT_ENCODING_def H2O_TOKEN_CONTENT_LANGUAGE_def H2O_TOKEN_CONTENT_LENGTH_def
  H2O_TOKEN_CONTENT_LOCATION_def H2O_TOKEN_CONTENT_RANGE_def H2O_TOKEN_CONTENT_SECURITY_POLICY_def
  H2O_TOKEN_CONTENT_TYPE_def H2O_TOKEN_COOKIE_def H2O_TOKEN_DATAGRAM_FLOW_ID_def H2O_TOKEN_DATE_def
  H2O_TOKEN_EARLY_DATA_def H2O_TOKEN_ETAG_def H2O_TOKEN_EXPECT_def H2O_TOKEN_EXPECT_CT_def
  H2O_TOKEN_EXPIRES_def H2O_TOKEN_FORWARDED_def H2O_TOKEN_FROM_def H2O_TOKEN_HOST_def
  H2O_TOKEN_HTTP2_SETTINGS_def H2O_TOKEN_IF_MATCH_def H2O_TOKEN_IF_MODIFIED_SINCE_def
  H2O_TOKEN_IF_NONE_MATCH_def H2O_TOKEN_IF_RANGE_def H2O_TOKEN_IF_UNMODIFIED_SINCE_def
  H2O_TOKEN_KEEP_ALIVE_def H2O_TOKEN_LAST_MODIFIED_def H2O_TOKEN_LINK_def H2O_TOKEN_LOCATION_def
  H2O_TOKEN_MAX_FORWARDS_def H2O_TOKEN_NO_EARLY_HINTS_def H2O_TOKEN_ORIGIN_def
  H2O_TOKEN_PRIORITY_def H2O_TOKEN_PROXY_AUTHENTICATE_def H2O_TOKEN_PROXY_AUTHORIZATION_def
  H2O_TOKEN_PROXY_CONNECTION_def H2O_TOKEN_PURPOSE_def H2O_TOKEN_RANGE_def H2O_TOKEN_REFERER_def
  H2O_TOKEN_REFRESH_def H2O_TOKEN_RETRY_AFTER_def H2O_TOKEN_SERVER_def H2O_TOKEN_SET_COOKIE_def
  H2O_TOKEN_STRICT_TRANSPORT_SECURITY_def H2O_TOKEN_TE_def H2O_TOKEN_TIMING_ALLOW_ORIGIN_def
  H2O_TOKEN_TRANSFER_ENCODING_def H2O_TOKEN_UPGRADE_def H2O_TOKEN_UPGRADE_INSECURE_REQUESTS_def
  H2O_TOKEN_USER_AGENT_def H2O_TOKEN_VARY_def H2O_TOKEN_VIA_def H2O_TOKEN_WWW_AUTHENTICATE_def
  H2O_TOKEN_X_COMPRESS_HINT_def H2O_TOKEN_X_CONTENT_TYPE_OPTIONS_def H2O_TOKEN_X_FORWARDED_FOR_def
  H2O_TOKEN_X_FRAME_OPTIONS_def H2O_TOKEN_X_REPROXY_URL_def H2O_TOKEN_X_TRAFFIC_def
  H2O_TOKEN_X_XSS_PROTECTION_def

section \<open>Static table of HPACK\<close>

definition h2o_hpack_static_table :: "(nat \<times> octets) list" where
  "h2o_hpack_static_table = [
     (H2O_TOKEN_AUTHORITY, str ''''),
     (H2O_TOKEN_METHOD, str ''GET''),
     (H2O_TOKEN_METHOD, str ''POST''),
     (H2O_TOKEN_PATH, str ''/''),
     (H2O_TOKEN_PATH, str ''/index.html''),
     (H2O_TOKEN_SCHEME, str ''http''),
     (H2O_TOKEN_SCHEME, str ''https''),
     (H2O_TOKEN_STATUS, str ''200''),
     (H2O_TOKEN_STATUS, str ''204''),
     (H2O_TOKEN_STATUS, str ''206''),
     (H2O_TOKEN_STATUS, str ''304''),
     (H2O_TOKEN_STATUS, str ''400''),
     (H2O_TOKEN_STATUS, str ''404''),
     (H2O_TOKEN_STATUS, str ''500''),
     (H2O_TOKEN_ACCEPT_CHARSET, str ''''),
     (H2O_TOKEN_ACCEPT_ENCODING, str ''gzip, deflate''),
     (H2O_TOKEN_ACCEPT_LANGUAGE, str ''''),
     (H2O_TOKEN_ACCEPT_RANGES, str ''''),
     (H2O_TOKEN_ACCEPT, str ''''),
     (H2O_TOKEN_ACCESS_CONTROL_ALLOW_ORIGIN, str ''''),
     (H2O_TOKEN_AGE, str ''''),
     (H2O_TOKEN_ALLOW, str ''''),
     (H2O_TOKEN_AUTHORIZATION, str ''''),
     (H2O_TOKEN_CACHE_CONTROL, str ''''),
     (H2O_TOKEN_CONTENT_DISPOSITION, str ''''),
     (H2O_TOKEN_CONTENT_ENCODING, str ''''),
     (H2O_TOKEN_CONTENT_LANGUAGE, str ''''),
     (H2O_TOKEN_CONTENT_LENGTH, str ''''),
     (H2O_TOKEN_CONTENT_LOCATION, str ''''),
     (H2O_TOKEN_CONTENT_RANGE, str ''''),
     (H2O_TOKEN_CONTENT_TYPE, str ''''),
     (H2O_TOKEN_COOKIE, str ''''),
     (H2O_TOKEN_DATE, str ''''),
     (H2O_TOKEN_ETAG, str ''''),
     (H2O_TOKEN_EXPECT, str ''''),
     (H2O_TOKEN_EXPIRES, str ''''),
     (H2O_TOKEN_FROM, str ''''),
     (H2O_TOKEN_HOST, str ''''),
     (H2O_TOKEN_IF_MATCH, str ''''),
     (H2O_TOKEN_IF_MODIFIED_SINCE, str ''''),
     (H2O_TOKEN_IF_NONE_MATCH, str ''''),
     (H2O_TOKEN_IF_RANGE, str ''''),
     (H2O_TOKEN_IF_UNMODIFIED_SINCE, str ''''),
     (H2O_TOKEN_LAST_MODIFIED, str ''''),
     (H2O_TOKEN_LINK, str ''''),
     (H2O_TOKEN_LOCATION, str ''''),
     (H2O_TOKEN_MAX_FORWARDS, str ''''),
     (H2O_TOKEN_PROXY_AUTHENTICATE, str ''''),
     (H2O_TOKEN_PROXY_AUTHORIZATION, str ''''),
     (H2O_TOKEN_RANGE, str ''''),
     (H2O_TOKEN_REFERER, str ''''),
     (H2O_TOKEN_REFRESH, str ''''),
     (H2O_TOKEN_RETRY_AFTER, str ''''),
     (H2O_TOKEN_SERVER, str ''''),
     (H2O_TOKEN_SET_COOKIE, str ''''),
     (H2O_TOKEN_STRICT_TRANSPORT_SECURITY, str ''''),
     (H2O_TOKEN_TRANSFER_ENCODING, str ''''),
     (H2O_TOKEN_USER_AGENT, str ''''),
     (H2O_TOKEN_VARY, str ''''),
     (H2O_TOKEN_VIA, str ''''),
     (H2O_TOKEN_WWW_AUTHENTICATE, str '''')]"

section \<open>Lookup of a name\<close>

text \<open>
  One table per \<^verbatim>\<open>case\<close> of the outer \<^verbatim>\<open>switch (len)\<close>: the last octet of the name, and for each
  the octets before it that are compared by \<^verbatim>\<open>memcmp\<close> with the token that is returned.
\<close>

definition token_cases_2 :: "(char \<times> (string \<times> nat) list) list" where
  "token_cases_2 = [
     (CHR ''e'', [(''t'', H2O_TOKEN_TE)])]"

definition token_cases_3 :: "(char \<times> (string \<times> nat) list) list" where
  "token_cases_3 = [
     (CHR ''a'', [(''vi'', H2O_TOKEN_VIA)]),
     (CHR ''e'', [(''ag'', H2O_TOKEN_AGE)])]"

definition token_cases_4 :: "(char \<times> (string \<times> nat) list) list" where
  "token_cases_4 = [
     (CHR ''e'', [(''dat'', H2O_TOKEN_DATE)]),
     (CHR ''g'', [(''eta'', H2O_TOKEN_ETAG)]),
     (CHR ''k'', [(''lin'', H2O_TOKEN_LINK)]),
     (CHR ''m'', [(''fro'', H2O_TOKEN_FROM)]),
     (CHR ''t'', [(''hos'', H2O_TOKEN_HOST)]),
     (CHR ''y'', [(''var'', H2O_TOKEN_VARY)])]"

definition token_cases_5 :: "(char \<times> (string \<times> nat) list) list" where
  "token_cases_5 = [
     (CHR ''e'', [(''rang'', H2O_TOKEN_RANGE)]),
     (CHR ''h'', [('':pat'', H2O_TOKEN_PATH)]),
     (CHR ''w'', [(''allo'', H2O_TOKEN_ALLOW)])]"

definition token_cases_6 :: "(char \<times> (string \<times> nat) list) list" where
  "token_cases_6 = [
     (CHR ''e'', [(''cooki'', H2O_TOKEN_COOKIE)]),
     (CHR ''n'', [(''origi'', H2O_TOKEN_ORIGIN)]),
     (CHR ''r'', [(''serve'', H2O_TOKEN_SERVER)]),
     (CHR ''t'', [(''accep'', H2O_TOKEN_ACCEPT), (''expec'', H2O_TOKEN_EXPECT)])]"

definition token_cases_7 :: "(char \<times> (string \<times> nat) list) list" where
  "token_cases_7 = [
     (CHR ''c'', [(''alt-sv'', H2O_TOKEN_ALT_SVC)]),
     (CHR ''d'', [('':metho'', H2O_TOKEN_METHOD)]),
     (CHR ''e'', [('':schem'', H2O_TOKEN_SCHEME), (''purpos'', H2O_TOKEN_PURPOSE), (''upgrad'', H2O_TOKEN_UPGRADE)]),
     (CHR ''h'', [(''refres'', H2O_TOKEN_REFRESH)]),
     (CHR ''r'', [(''refere'', H2O_TOKEN_REFERER)]),
     (CHR ''s'', [('':statu'', H2O_TOKEN_STATUS), (''expire'', H2O_TOKEN_EXPIRES)])]"

definition token_cases_8 :: "(char \<times> (string \<times> nat) list) list" where
  "token_cases_8 = [
     (CHR ''e'', [(''if-rang'', H2O_TOKEN_IF_RANGE)]),
     (CHR ''h'', [(''if-matc'', H2O_TOKEN_IF_MATCH)]),
     (CHR ''n'', [(''locatio'', H2O_TOKEN_LOCATION)]),
     (CHR ''y'', [(''priorit'', H2O_TOKEN_PRIORITY)])]"

definition token_cases_9 :: "(char \<times> (string \<times> nat) list) list" where
  "token_cases_9 = [
     (CHR ''c'', [(''x-traffi'', H2O_TOKEN_X_TRAFFIC)]),
     (CHR ''d'', [(''forwarde'', H2O_TOKEN_FORWARDED)]),
     (CHR ''l'', [('':protoco'', H2O_TOKEN_PROTOCOL)]),
     (CHR ''t'', [(''expect-c'', H2O_TOKEN_EXPECT_CT)])]"

definition token_cases_10 :: "(char \<times> (string \<times> nat) list) list" where
  "token_cases_10 = [
     (CHR ''a'', [(''early-dat'', H2O_TOKEN_EARLY_DATA)]),
     (CHR ''e'', [(''keep-aliv'', H2O_TOKEN_KEEP_ALIVE), (''set-cooki'', H2O_TOKEN_SET_COOKIE)]),
     (CHR ''n'', [(''connectio'', H2O_TOKEN_CONNECTION)]),
     (CHR ''t'', [(''user-agen'', H2O_TOKEN_USER_AGENT)]),
     (CHR ''y'', [('':authorit'', H2O_TOKEN_AUTHORITY)])]"

definition token_cases_11 :: "(char \<times> (string \<times> nat) list) list" where
  "token_cases_11 = [
     (CHR ''r'', [(''retry-afte'', H2O_TOKEN_RETRY_AFTER)])]"

definition token_cases_12 :: "(char \<times> (string \<times> nat) list) list" where
  "token_cases_12 = [
     (CHR ''e'', [(''content-typ'', H2O_TOKEN_CONTENT_TYPE)]),
     (CHR ''s'', [(''max-forward'', H2O_TOKEN_MAX_FORWARDS)]),
     (CHR ''t'', [(''cache-diges'', H2O_TOKEN_CACHE_DIGEST)])]"

definition token_cases_13 :: "(char \<times> (string \<times> nat) list) list" where
  "token_cases_13 = [
     (CHR ''d'', [(''last-modifie'', H2O_TOKEN_LAST_MODIFIED)]),
     (CHR ''e'', [(''content-rang'', H2O_TOKEN_CONTENT_RANGE)]),
     (CHR ''h'', [(''if-none-matc'', H2O_TOKEN_IF_NONE_MATCH)]),
     (CHR ''l'', [(''cache-contro'', H2O_TOKEN_CACHE_CONTROL), (''x-reproxy-ur'', H2O_TOKEN_X_REPROXY_URL)]),
     (CHR ''n'', [(''authorizatio'', H2O_TOKEN_AUTHORIZATION)]),
     (CHR ''s'', [(''accept-range'', H2O_TOKEN_ACCEPT_RANGES)])]"

definition token_cases_14 :: "(char \<times> (string \<times> nat) list) list" where
  "token_cases_14 = [
     (CHR ''h'', [(''content-lengt'', H2O_TOKEN_CONTENT_LENGTH)]),
     (CHR ''s'', [(''http2-setting'', H2O_TOKEN_HTTP2_SETTINGS), (''no-early-hint'', H2O_TOKEN_NO_EARLY_HINTS)]),
     (CHR ''t'', [(''accept-charse'', H2O_TOKEN_ACCEPT_CHARSET)])]"

definition token_cases_15 :: "(char \<times> (string \<times> nat) list) list" where
  "token_cases_15 = [
     (CHR ''e'', [(''accept-languag'', H2O_TOKEN_ACCEPT_LANGUAGE)]),
     (CHR ''g'', [(''accept-encodin'', H2O_TOKEN_ACCEPT_ENCODING)]),
     (CHR ''r'', [(''x-forwarded-fo'', H2O_TOKEN_X_FORWARDED_FOR)]),
     (CHR ''s'', [(''x-frame-option'', H2O_TOKEN_X_FRAME_OPTIONS)]),
     (CHR ''t'', [(''x-compress-hin'', H2O_TOKEN_X_COMPRESS_HINT)])]"

definition token_cases_16 :: "(char \<times> (string \<times> nat) list) list" where
  "token_cases_16 = [
     (CHR ''d'', [(''datagram-flow-i'', H2O_TOKEN_DATAGRAM_FLOW_ID)]),
     (CHR ''e'', [(''content-languag'', H2O_TOKEN_CONTENT_LANGUAGE), (''www-authenticat'', H2O_TOKEN_WWW_AUTHENTICATE)]),
     (CHR ''g'', [(''content-encodin'', H2O_TOKEN_CONTENT_ENCODING)]),
     (CHR ''n'', [(''content-locatio'', H2O_TOKEN_CONTENT_LOCATION), (''proxy-connectio'', H2O_TOKEN_PROXY_CONNECTION), (''x-xss-protectio'', H2O_TOKEN_X_XSS_PROTECTION)])]"

definition token_cases_17 :: "(char \<times> (string \<times> nat) list) list" where
  "token_cases_17 = [
     (CHR ''e'', [(''if-modified-sinc'', H2O_TOKEN_IF_MODIFIED_SINCE)]),
     (CHR ''g'', [(''transfer-encodin'', H2O_TOKEN_TRANSFER_ENCODING)])]"

definition token_cases_18 :: "(char \<times> (string \<times> nat) list) list" where
  "token_cases_18 = [
     (CHR ''e'', [(''proxy-authenticat'', H2O_TOKEN_PROXY_AUTHENTICATE)])]"

definition token_cases_19 :: "(char \<times> (string \<times> nat) list) list" where
  "token_cases_19 = [
     (CHR ''e'', [(''if-unmodified-sinc'', H2O_TOKEN_IF_UNMODIFIED_SINCE)]),
     (CHR ''n'', [(''content-dispositio'', H2O_TOKEN_CONTENT_DISPOSITION), (''proxy-authorizatio'', H2O_TOKEN_PROXY_AUTHORIZATION), (''timing-allow-origi'', H2O_TOKEN_TIMING_ALLOW_ORIGIN)])]"

definition token_cases_22 :: "(char \<times> (string \<times> nat) list) list" where
  "token_cases_22 = [
     (CHR ''s'', [(''x-content-type-option'', H2O_TOKEN_X_CONTENT_TYPE_OPTIONS)])]"

definition token_cases_23 :: "(char \<times> (string \<times> nat) list) list" where
  "token_cases_23 = [
     (CHR ''y'', [(''content-security-polic'', H2O_TOKEN_CONTENT_SECURITY_POLICY)])]"

definition token_cases_25 :: "(char \<times> (string \<times> nat) list) list" where
  "token_cases_25 = [
     (CHR ''s'', [(''upgrade-insecure-request'', H2O_TOKEN_UPGRADE_INSECURE_REQUESTS)]),
     (CHR ''y'', [(''strict-transport-securit'', H2O_TOKEN_STRICT_TRANSPORT_SECURITY)])]"

definition token_cases_27 :: "(char \<times> (string \<times> nat) list) list" where
  "token_cases_27 = [
     (CHR ''n'', [(''access-control-allow-origi'', H2O_TOKEN_ACCESS_CONTROL_ALLOW_ORIGIN)])]"

definition token_cases_28 :: "(char \<times> (string \<times> nat) list) list" where
  "token_cases_28 = [
     (CHR ''s'', [(''access-control-allow-header'', H2O_TOKEN_ACCESS_CONTROL_ALLOW_HEADERS), (''access-control-allow-method'', H2O_TOKEN_ACCESS_CONTROL_ALLOW_METHODS)])]"

definition token_cases_29 :: "(char \<times> (string \<times> nat) list) list" where
  "token_cases_29 = [
     (CHR ''d'', [(''access-control-request-metho'', H2O_TOKEN_ACCESS_CONTROL_REQUEST_METHOD)]),
     (CHR ''s'', [(''access-control-expose-header'', H2O_TOKEN_ACCESS_CONTROL_EXPOSE_HEADERS)])]"

definition token_cases_30 :: "(char \<times> (string \<times> nat) list) list" where
  "token_cases_30 = [
     (CHR ''s'', [(''access-control-request-header'', H2O_TOKEN_ACCESS_CONTROL_REQUEST_HEADERS)])]"

definition token_cases_32 :: "(char \<times> (string \<times> nat) list) list" where
  "token_cases_32 = [
     (CHR ''s'', [(''access-control-allow-credential'', H2O_TOKEN_ACCESS_CONTROL_ALLOW_CREDENTIALS)])]"

definition token_switch :: "(nat \<times> (char \<times> (string \<times> nat) list) list) list" where
  "token_switch = [
     (2, token_cases_2),
     (3, token_cases_3),
     (4, token_cases_4),
     (5, token_cases_5),
     (6, token_cases_6),
     (7, token_cases_7),
     (8, token_cases_8),
     (9, token_cases_9),
     (10, token_cases_10),
     (11, token_cases_11),
     (12, token_cases_12),
     (13, token_cases_13),
     (14, token_cases_14),
     (15, token_cases_15),
     (16, token_cases_16),
     (17, token_cases_17),
     (18, token_cases_18),
     (19, token_cases_19),
     (22, token_cases_22),
     (23, token_cases_23),
     (25, token_cases_25),
     (27, token_cases_27),
     (28, token_cases_28),
     (29, token_cases_29),
     (30, token_cases_30),
     (32, token_cases_32)]"

lemmas token_cases_defs =
  token_cases_2_def token_cases_3_def token_cases_4_def token_cases_5_def token_cases_6_def
  token_cases_7_def token_cases_8_def token_cases_9_def token_cases_10_def token_cases_11_def
  token_cases_12_def token_cases_13_def token_cases_14_def token_cases_15_def token_cases_16_def
  token_cases_17_def token_cases_18_def token_cases_19_def token_cases_22_def token_cases_23_def
  token_cases_25_def token_cases_27_def token_cases_28_def token_cases_29_def token_cases_30_def
  token_cases_32_def

fun memcmp_chain :: "(string \<times> nat) list \<Rightarrow> octets \<Rightarrow> nat option" where
  "memcmp_chain [] name = None"
| "memcmp_chain ((p, t) # ps) name =
     (if take (length p) name = str p then Some t else memcmp_chain ps name)"

fun switch_octet :: "(char \<times> (string \<times> nat) list) list \<Rightarrow> u8 \<Rightarrow> octets \<Rightarrow> nat option" where
  "switch_octet [] c name = None"
| "switch_octet ((l, ps) # cs) c name =
     (if c = of_char l then memcmp_chain ps name else switch_octet cs c name)"

definition h2o_lookup_token :: "octets \<Rightarrow> nat option" where
  "h2o_lookup_token name =
    (case map_of token_switch (length name) of
       None \<Rightarrow> None
     | Some cs \<Rightarrow> switch_octet cs (name ! (length name - 1)) name)"

section \<open>Octets of characters\<close>

lemma unat_of_char: "unat (of_char c :: u8) = of_char c"
proof -
  have "(of_char c :: u8) = of_nat (of_char c)"
    by (simp add: of_nat_of_char)
  then show ?thesis
    using nat_of_char_less_256 [of c] by (simp add: unat_of_nat_eq del: of_nat_of_char)
qed

lemma octet_of_char_eq: "of_char c = (of_char d :: u8) \<longleftrightarrow> c = d"
proof
  assume eq: "of_char c = (of_char d :: u8)"
  with eq show "c = d"
    by (metis char_of_char unat_of_char)
qed simp

lemma str_eq_iff: "str s = str t \<longleftrightarrow> s = t"
  by (simp add: str_def inj_map_eq_map inj_def octet_of_char_eq)

lemma take_str: "take n (str s) = str (take n s)"
  by (simp add: str_def take_map)

lemma nth_str: "n < length s \<Longrightarrow> str s ! n = of_char (s ! n)"
  by (simp add: str_def)

lemmas str_compute = octet_of_char_eq str_eq_iff take_str nth_str

section \<open>The switch finds exactly the tokens\<close>

abbreviation tok_name :: "nat \<Rightarrow> octets" where
  "tok_name i \<equiv> tok_buf (h2o__tokens ! i)"

lemma length_tokens: "length h2o__tokens = 85"
  by (simp add: h2o__tokens_def)

definition token_names :: "string list" where
  "token_names = [
     '':authority'',
     '':method'',
     '':path'',
     '':protocol'',
     '':scheme'',
     '':status'',
     ''accept'',
     ''accept-charset'',
     ''accept-encoding'',
     ''accept-language'',
     ''accept-ranges'',
     ''access-control-allow-credentials'',
     ''access-control-allow-headers'',
     ''access-control-allow-methods'',
     ''access-control-allow-origin'',
     ''access-control-expose-headers'',
     ''access-control-request-headers'',
     ''access-control-request-method'',
     ''age'',
     ''allow'',
     ''alt-svc'',
     ''authorization'',
     ''cache-control'',
     ''cache-digest'',
     ''connection'',
     ''content-disposition'',
     ''content-encoding'',
     ''content-language'',
     ''content-length'',
     ''content-location'',
     ''content-range'',
     ''content-security-policy'',
     ''content-type'',
     ''cookie'',
     ''datagram-flow-id'',
     ''date'',
     ''early-data'',
     ''etag'',
     ''expect'',
     ''expect-ct'',
     ''expires'',
     ''forwarded'',
     ''from'',
     ''host'',
     ''http2-settings'',
     ''if-match'',
     ''if-modified-since'',
     ''if-none-match'',
     ''if-range'',
     ''if-unmodified-since'',
     ''keep-alive'',
     ''last-modified'',
     ''link'',
     ''location'',
     ''max-forwards'',
     ''no-early-hints'',
     ''origin'',
     ''priority'',
     ''proxy-authenticate'',
     ''proxy-authorization'',
     ''proxy-connection'',
     ''purpose'',
     ''range'',
     ''referer'',
     ''refresh'',
     ''retry-after'',
     ''server'',
     ''set-cookie'',
     ''strict-transport-security'',
     ''te'',
     ''timing-allow-origin'',
     ''transfer-encoding'',
     ''upgrade'',
     ''upgrade-insecure-requests'',
     ''user-agent'',
     ''vary'',
     ''via'',
     ''www-authenticate'',
     ''x-compress-hint'',
     ''x-content-type-options'',
     ''x-forwarded-for'',
     ''x-frame-options'',
     ''x-reproxy-url'',
     ''x-traffic'',
     ''x-xss-protection'']"

lemma token_names_nth:
  "token_names ! 0 = '':authority''"
  "token_names ! 1 = '':method''"
  "token_names ! 2 = '':path''"
  "token_names ! 3 = '':protocol''"
  "token_names ! 4 = '':scheme''"
  "token_names ! 5 = '':status''"
  "token_names ! 6 = ''accept''"
  "token_names ! 7 = ''accept-charset''"
  "token_names ! 8 = ''accept-encoding''"
  "token_names ! 9 = ''accept-language''"
  "token_names ! 10 = ''accept-ranges''"
  "token_names ! 11 = ''access-control-allow-credentials''"
  "token_names ! 12 = ''access-control-allow-headers''"
  "token_names ! 13 = ''access-control-allow-methods''"
  "token_names ! 14 = ''access-control-allow-origin''"
  "token_names ! 15 = ''access-control-expose-headers''"
  "token_names ! 16 = ''access-control-request-headers''"
  "token_names ! 17 = ''access-control-request-method''"
  "token_names ! 18 = ''age''"
  "token_names ! 19 = ''allow''"
  "token_names ! 20 = ''alt-svc''"
  "token_names ! 21 = ''authorization''"
  "token_names ! 22 = ''cache-control''"
  "token_names ! 23 = ''cache-digest''"
  "token_names ! 24 = ''connection''"
  "token_names ! 25 = ''content-disposition''"
  "token_names ! 26 = ''content-encoding''"
  "token_names ! 27 = ''content-language''"
  "token_names ! 28 = ''content-length''"
  "token_names ! 29 = ''content-location''"
  "token_names ! 30 = ''content-range''"
  "token_names ! 31 = ''content-security-policy''"
  "token_names ! 32 = ''content-type''"
  "token_names ! 33 = ''cookie''"
  "token_names ! 34 = ''datagram-flow-id''"
  "token_names ! 35 = ''date''"
  "token_names ! 36 = ''early-data''"
  "token_names ! 37 = ''etag''"
  "token_names ! 38 = ''expect''"
  "token_names ! 39 = ''expect-ct''"
  "token_names ! 40 = ''expires''"
  "token_names ! 41 = ''forwarded''"
  "token_names ! 42 = ''from''"
  "token_names ! 43 = ''host''"
  "token_names ! 44 = ''http2-settings''"
  "token_names ! 45 = ''if-match''"
  "token_names ! 46 = ''if-modified-since''"
  "token_names ! 47 = ''if-none-match''"
  "token_names ! 48 = ''if-range''"
  "token_names ! 49 = ''if-unmodified-since''"
  "token_names ! 50 = ''keep-alive''"
  "token_names ! 51 = ''last-modified''"
  "token_names ! 52 = ''link''"
  "token_names ! 53 = ''location''"
  "token_names ! 54 = ''max-forwards''"
  "token_names ! 55 = ''no-early-hints''"
  "token_names ! 56 = ''origin''"
  "token_names ! 57 = ''priority''"
  "token_names ! 58 = ''proxy-authenticate''"
  "token_names ! 59 = ''proxy-authorization''"
  "token_names ! 60 = ''proxy-connection''"
  "token_names ! 61 = ''purpose''"
  "token_names ! 62 = ''range''"
  "token_names ! 63 = ''referer''"
  "token_names ! 64 = ''refresh''"
  "token_names ! 65 = ''retry-after''"
  "token_names ! 66 = ''server''"
  "token_names ! 67 = ''set-cookie''"
  "token_names ! 68 = ''strict-transport-security''"
  "token_names ! 69 = ''te''"
  "token_names ! 70 = ''timing-allow-origin''"
  "token_names ! 71 = ''transfer-encoding''"
  "token_names ! 72 = ''upgrade''"
  "token_names ! 73 = ''upgrade-insecure-requests''"
  "token_names ! 74 = ''user-agent''"
  "token_names ! 75 = ''vary''"
  "token_names ! 76 = ''via''"
  "token_names ! 77 = ''www-authenticate''"
  "token_names ! 78 = ''x-compress-hint''"
  "token_names ! 79 = ''x-content-type-options''"
  "token_names ! 80 = ''x-forwarded-for''"
  "token_names ! 81 = ''x-frame-options''"
  "token_names ! 82 = ''x-reproxy-url''"
  "token_names ! 83 = ''x-traffic''"
  "token_names ! 84 = ''x-xss-protection''"
  by (simp_all add: token_names_def)

lemma tok_name_map: "map tok_buf h2o__tokens = map str token_names"
  by (simp add: h2o__tokens_def token_def token_names_def del: str_Cons of_char_Char)

lemma less_85_list: "i < 85 \<longleftrightarrow> i \<in> set [
     0, 1, 2, 3, 4, 5, 6, 7, 8, 9, 10, 11, 12, 13, 14, 15, 16, 17, 18, 19, 20, 21, 22, 23, 24, 25,
     26, 27, 28, 29, 30, 31, 32, 33, 34, 35, 36, 37, 38, 39, 40, 41, 42, 43, 44, 45, 46, 47, 48,
     49, 50, 51, 52, 53, 54, 55, 56, 57, 58, 59, 60, 61, 62, 63, 64, 65, 66, 67, 68, 69, 70, 71,
     72, 73, 74, 75, 76, 77, 78, 79, 80, 81, 82, 83, 84]"
  for i :: nat
proof -
  have "[0..<85] = [
     0, 1, 2, 3, 4, 5, 6, 7, 8, 9, 10, 11, 12, 13, 14, 15, 16, 17, 18, 19, 20, 21, 22, 23, 24, 25,
     26, 27, 28, 29, 30, 31, 32, 33, 34, 35, 36, 37, 38, 39, 40, 41, 42, 43, 44, 45, 46, 47, 48,
     49, 50, 51, 52, 53, 54, 55, 56, 57, 58, 59, 60, 61, 62, 63, 64, 65, 66, 67, 68, 69, 70, 71,
     72, 73, 74, 75, 76, 77, 78, 79, 80, 81, 82, 83, 84]"
    by (simp add: upt_rec)
  then show ?thesis
    by (metis atLeast_upt lessThan_iff)
qed

lemma tok_name_eq: "i < 85 \<Longrightarrow> tok_name i = str (token_names ! i)"
proof -
  assume "i < 85"
  then have "map tok_buf h2o__tokens ! i = map str token_names ! i"
    by (simp only: tok_name_map)
  moreover have "length token_names = 85"
    by (simp add: token_names_def)
  ultimately show ?thesis
    using \<open>i < 85\<close> by (simp add: length_tokens)
qed

text \<open>Every leaf of the switch returns the token of the name that leads there.\<close>

definition switch_ok :: "(nat \<times> (char \<times> (string \<times> nat) list) list) list \<Rightarrow> bool" where
  "switch_ok sw \<longleftrightarrow> list_all (\<lambda>(n, cs). list_all (\<lambda>(c, ps). list_all (\<lambda>(p, t).
     Suc (length p) = n \<and> t < 85 \<and> token_names ! t = p @ [c]) ps) cs) sw"

lemma token_switch_ok: "switch_ok token_switch"
  by (simp add: switch_ok_def token_switch_def token_cases_defs token_index_defs token_names_nth
      token_names_nth(2) [unfolded One_nat_def])

lemma lookup_token_names:
  "h2o_lookup_token (str '':authority'') = Some 0"
  "h2o_lookup_token (str '':method'') = Some 1"
  "h2o_lookup_token (str '':path'') = Some 2"
  "h2o_lookup_token (str '':protocol'') = Some 3"
  "h2o_lookup_token (str '':scheme'') = Some 4"
  "h2o_lookup_token (str '':status'') = Some 5"
  "h2o_lookup_token (str ''accept'') = Some 6"
  "h2o_lookup_token (str ''accept-charset'') = Some 7"
  "h2o_lookup_token (str ''accept-encoding'') = Some 8"
  "h2o_lookup_token (str ''accept-language'') = Some 9"
  "h2o_lookup_token (str ''accept-ranges'') = Some 10"
  "h2o_lookup_token (str ''access-control-allow-credentials'') = Some 11"
  "h2o_lookup_token (str ''access-control-allow-headers'') = Some 12"
  "h2o_lookup_token (str ''access-control-allow-methods'') = Some 13"
  "h2o_lookup_token (str ''access-control-allow-origin'') = Some 14"
  "h2o_lookup_token (str ''access-control-expose-headers'') = Some 15"
  "h2o_lookup_token (str ''access-control-request-headers'') = Some 16"
  "h2o_lookup_token (str ''access-control-request-method'') = Some 17"
  "h2o_lookup_token (str ''age'') = Some 18"
  "h2o_lookup_token (str ''allow'') = Some 19"
  "h2o_lookup_token (str ''alt-svc'') = Some 20"
  "h2o_lookup_token (str ''authorization'') = Some 21"
  "h2o_lookup_token (str ''cache-control'') = Some 22"
  "h2o_lookup_token (str ''cache-digest'') = Some 23"
  "h2o_lookup_token (str ''connection'') = Some 24"
  "h2o_lookup_token (str ''content-disposition'') = Some 25"
  "h2o_lookup_token (str ''content-encoding'') = Some 26"
  "h2o_lookup_token (str ''content-language'') = Some 27"
  "h2o_lookup_token (str ''content-length'') = Some 28"
  "h2o_lookup_token (str ''content-location'') = Some 29"
  "h2o_lookup_token (str ''content-range'') = Some 30"
  "h2o_lookup_token (str ''content-security-policy'') = Some 31"
  "h2o_lookup_token (str ''content-type'') = Some 32"
  "h2o_lookup_token (str ''cookie'') = Some 33"
  "h2o_lookup_token (str ''datagram-flow-id'') = Some 34"
  "h2o_lookup_token (str ''date'') = Some 35"
  "h2o_lookup_token (str ''early-data'') = Some 36"
  "h2o_lookup_token (str ''etag'') = Some 37"
  "h2o_lookup_token (str ''expect'') = Some 38"
  "h2o_lookup_token (str ''expect-ct'') = Some 39"
  "h2o_lookup_token (str ''expires'') = Some 40"
  "h2o_lookup_token (str ''forwarded'') = Some 41"
  "h2o_lookup_token (str ''from'') = Some 42"
  "h2o_lookup_token (str ''host'') = Some 43"
  "h2o_lookup_token (str ''http2-settings'') = Some 44"
  "h2o_lookup_token (str ''if-match'') = Some 45"
  "h2o_lookup_token (str ''if-modified-since'') = Some 46"
  "h2o_lookup_token (str ''if-none-match'') = Some 47"
  "h2o_lookup_token (str ''if-range'') = Some 48"
  "h2o_lookup_token (str ''if-unmodified-since'') = Some 49"
  "h2o_lookup_token (str ''keep-alive'') = Some 50"
  "h2o_lookup_token (str ''last-modified'') = Some 51"
  "h2o_lookup_token (str ''link'') = Some 52"
  "h2o_lookup_token (str ''location'') = Some 53"
  "h2o_lookup_token (str ''max-forwards'') = Some 54"
  "h2o_lookup_token (str ''no-early-hints'') = Some 55"
  "h2o_lookup_token (str ''origin'') = Some 56"
  "h2o_lookup_token (str ''priority'') = Some 57"
  "h2o_lookup_token (str ''proxy-authenticate'') = Some 58"
  "h2o_lookup_token (str ''proxy-authorization'') = Some 59"
  "h2o_lookup_token (str ''proxy-connection'') = Some 60"
  "h2o_lookup_token (str ''purpose'') = Some 61"
  "h2o_lookup_token (str ''range'') = Some 62"
  "h2o_lookup_token (str ''referer'') = Some 63"
  "h2o_lookup_token (str ''refresh'') = Some 64"
  "h2o_lookup_token (str ''retry-after'') = Some 65"
  "h2o_lookup_token (str ''server'') = Some 66"
  "h2o_lookup_token (str ''set-cookie'') = Some 67"
  "h2o_lookup_token (str ''strict-transport-security'') = Some 68"
  "h2o_lookup_token (str ''te'') = Some 69"
  "h2o_lookup_token (str ''timing-allow-origin'') = Some 70"
  "h2o_lookup_token (str ''transfer-encoding'') = Some 71"
  "h2o_lookup_token (str ''upgrade'') = Some 72"
  "h2o_lookup_token (str ''upgrade-insecure-requests'') = Some 73"
  "h2o_lookup_token (str ''user-agent'') = Some 74"
  "h2o_lookup_token (str ''vary'') = Some 75"
  "h2o_lookup_token (str ''via'') = Some 76"
  "h2o_lookup_token (str ''www-authenticate'') = Some 77"
  "h2o_lookup_token (str ''x-compress-hint'') = Some 78"
  "h2o_lookup_token (str ''x-content-type-options'') = Some 79"
  "h2o_lookup_token (str ''x-forwarded-for'') = Some 80"
  "h2o_lookup_token (str ''x-frame-options'') = Some 81"
  "h2o_lookup_token (str ''x-reproxy-url'') = Some 82"
  "h2o_lookup_token (str ''x-traffic'') = Some 83"
  "h2o_lookup_token (str ''x-xss-protection'') = Some 84"
  by (simp_all add: h2o_lookup_token_def token_switch_def token_cases_defs token_index_defs str_compute
      del: str_Cons of_char_Char)

lemma memcmp_chain_sound:
  assumes "memcmp_chain ps name = Some t"
    and "list_all (\<lambda>(p, t). Suc (length p) = length name \<and> t < 85 \<and> token_names ! t = p @ [c]) ps"
    and "name ! (length name - 1) = of_char c"
  shows "t < 85 \<and> tok_name t = name"
  using assms
proof (induction ps)
  case (Cons e ps)
  obtain p u where e: "e = (p, u)" by (metis surj_pair)
  show ?case
  proof (cases "take (length p) name = str p")
    case True
    with Cons.prems e have t: "t = u" "Suc (length p) = length name" "t < 85" "token_names ! t = p @ [c]"
      by auto
    then have len: "length name = Suc (length p)" by simp
    then have "name = take (length p) name @ [name ! length p]"
      by (metis lessI take_Suc_conv_app_nth take_all_iff order_refl)
    also have "\<dots> = str (p @ [c])"
      using True Cons.prems(3) len by (simp add: str_def)
    finally show ?thesis
      using t by (simp add: tok_name_eq)
  next
    case False
    with Cons e show ?thesis by simp
  qed
qed simp

lemma switch_octet_sound:
  assumes "switch_octet cs (name ! (length name - 1)) name = Some t"
    and "list_all (\<lambda>(c, ps). list_all (\<lambda>(p, t). Suc (length p) = length name \<and> t < 85 \<and> token_names ! t = p @ [c]) ps) cs"
  shows "t < 85 \<and> tok_name t = name"
  using assms
proof (induction cs)
  case (Cons e cs)
  obtain c ps where "e = (c, ps)" by (metis surj_pair)
  with Cons memcmp_chain_sound [of ps name t c] show ?case
    by (auto split: if_splits)
qed simp

lemma lookup_token_sound:
  assumes "h2o_lookup_token name = Some t"
  shows "t < 85 \<and> tok_name t = name"
proof -
  obtain cs where cs: "map_of token_switch (length name) = Some cs"
    "switch_octet cs (name ! (length name - 1)) name = Some t"
    using assms by (auto simp: h2o_lookup_token_def split: option.splits)
  then have "(length name, cs) \<in> set token_switch"
    by (simp add: map_of_SomeD)
  from bspec [OF token_switch_ok [unfolded switch_ok_def list_all_iff [of _ token_switch]] this] cs(2)
  show ?thesis
    by (intro switch_octet_sound) simp_all
qed

lemma lookup_token_complete:
  assumes "i < 85"
  shows "h2o_lookup_token (tok_name i) = Some i"
proof -
  have "h2o_lookup_token (str (token_names ! i)) = Some i"
    using assms unfolding less_85_list set_simps insert_iff empty_iff
    by (elim disjE) (simp_all add: token_names_nth lookup_token_names del: str_Cons One_nat_def)
  with assms show ?thesis
    by (simp add: tok_name_eq)
qed

lemma lookup_token_iff: "h2o_lookup_token name = Some t \<longleftrightarrow> t < 85 \<and> tok_name t = name"
  using lookup_token_sound lookup_token_complete by blast

text \<open>
  C22. \<^verbatim>\<open>h2o_lookup_token\<close>, a generated \<^verbatim>\<open>switch\<close> over the length and the last octet, finds a name
  if and only if it is the name of an entry of \<^verbatim>\<open>h2o__tokens\<close>, and returns that entry.
\<close>

theorem lookup_token_correct:
  "h2o_lookup_token name = Some t \<longleftrightarrow> t < h2o__num_tokens \<and> tok_buf (h2o__tokens ! t) = name"
  by (simp add: lookup_token_iff h2o__num_tokens_def)

section \<open>Static table and tokens\<close>

lemma length_static_table: "length h2o_hpack_static_table = 61"
  by (simp add: h2o_hpack_static_table_def)

lemma static_table_tokens: "(t, v) \<in> set h2o_hpack_static_table \<Longrightarrow> t < 85"
proof -
  have "list_all (\<lambda>(t, v). t < 85) h2o_hpack_static_table"
    by (simp add: h2o_hpack_static_table_def token_index_defs)
  then show "(t, v) \<in> set h2o_hpack_static_table \<Longrightarrow> t < 85"
    by (auto simp: list_all_iff)
qed

definition static_name_indices :: "nat list" where
  "static_name_indices = [
     1, 2, 4, 0, 6, 8, 19, 15, 16, 17, 18, 0, 0, 0, 20, 0, 0, 0, 21, 22, 0, 23, 24, 0, 0, 25, 26,
     27, 28, 29, 30, 0, 31, 32, 0, 33, 0, 34, 35, 0, 36, 0, 37, 38, 0, 39, 40, 41, 42, 43, 0, 44,
     45, 46, 47, 0, 0, 0, 48, 49, 0, 0, 50, 51, 52, 53, 54, 55, 56, 0, 0, 57, 0, 0, 58, 59, 60, 61,
     0, 0, 0, 0, 0, 0, 0]"

definition static_names :: "nat list" where
  "static_names = [
     0, 1, 1, 2, 2, 4, 4, 5, 5, 5, 5, 5, 5, 5, 7, 8, 9, 10, 6, 14, 18, 19, 21, 22, 25, 26, 27, 28,
     29, 30, 32, 33, 35, 37, 38, 40, 42, 43, 45, 46, 47, 48, 49, 51, 52, 53, 54, 58, 59, 62, 63,
     64, 65, 66, 67, 68, 71, 74, 75, 76, 77]"

lemma static_name_indices: "map http2_static_table_name_index h2o__tokens = static_name_indices"
  by (simp add: h2o__tokens_def token_def static_name_indices_def)

lemma static_names: "map fst h2o_hpack_static_table = static_names"
  by (simp add: h2o_hpack_static_table_def token_index_defs static_names_def)

fun chk_name_indices :: "nat \<Rightarrow> nat list \<Rightarrow> bool" where
  "chk_name_indices t [] = True"
| "chk_name_indices t (k # ks) =
     ((k = 0 \<or> k \<le> 61 \<and> static_names ! (k - 1) = t) \<and> chk_name_indices (t + 1) ks)"

lemma chk_name_indicesD:
  "chk_name_indices t ks \<Longrightarrow> i < length ks \<Longrightarrow>
    ks ! i = 0 \<or> ks ! i \<le> 61 \<and> static_names ! (ks ! i - 1) = t + i"
proof (induction t ks arbitrary: i rule: chk_name_indices.induct)
  case (2 t k ks)
  then show ?case by (cases i) auto
qed simp

lemma static_name_index:
  assumes "t < 85" and "k = http2_static_table_name_index (h2o__tokens ! t)" "k \<noteq> 0"
  shows "k \<le> 61 \<and> fst (h2o_hpack_static_table ! (k - 1)) = t"
proof -
  have "chk_name_indices 0 static_name_indices"
    by (simp add: static_name_indices_def static_names_def)
  moreover have "static_name_indices ! t = k" "t < length static_name_indices"
    using assms(1,2) by (simp_all add: length_tokens flip: static_name_indices)
  ultimately have "k \<le> 61 \<and> static_names ! (k - 1) = t"
    using chk_name_indicesD [of 0 static_name_indices t] assms(3) by simp
  moreover from this assms(3) have "k - 1 < length h2o_hpack_static_table"
    unfolding length_static_table by linarith
  ultimately show ?thesis
    by (metis nth_map static_names)
qed

end
