(* ===== verification/Hpack_Table.thy ===== *)
theory Hpack_Table
  imports Tokens
begin

text \<open>
  The dynamic table of HPACK: the ring buffer \<^verbatim>\<open>h2o_hpack_header_table_t\<close> of
  \<^verbatim>\<open>include/h2o/http2_common.h\<close> with the functions \<^verbatim>\<open>h2o_hpack_header_table_get\<close>,
  \<^verbatim>\<open>header_table_evict_one\<close> and \<^verbatim>\<open>header_table_add\<close> of \<^verbatim>\<open>lib/http2/hpack.c\<close>, and the first-in
  first-out table of RFC 7541 that it implements. The locale \<open>dynamic_table\<close> is the contract that
  the header decoder and encoder rely on.
\<close>

section \<open>Names and entries\<close>

text \<open>
  A header name is a pointer either into \<^verbatim>\<open>h2o__tokens\<close> or to a buffer;
  \<^verbatim>\<open>h2o_iovec_is_token\<close> tells them apart.
\<close>

datatype hname = Token nat | Buf octets

fun h2o_iovec_is_token :: "hname \<Rightarrow> bool" where
  "h2o_iovec_is_token (Token t) = True"
| "h2o_iovec_is_token (Buf s) = False"

fun name_octets :: "hname \<Rightarrow> octets" where
  "name_octets (Token t) = tok_name t"
| "name_octets (Buf s) = s"

record header_table_entry =
  ent_name :: hname
  ent_value :: octets
  ent_soft_errors :: nat

definition HEADER_TABLE_ENTRY_SIZE_OFFSET :: nat where
  "HEADER_TABLE_ENTRY_SIZE_OFFSET = 32"

definition entry_size :: "hname \<Rightarrow> octets \<Rightarrow> nat" where
  "entry_size name v = length (name_octets name) + length v + HEADER_TABLE_ENTRY_SIZE_OFFSET"

abbreviation ent_size :: "header_table_entry \<Rightarrow> nat" where
  "ent_size e \<equiv> entry_size (ent_name e) (ent_value e)"

section \<open>The ring buffer\<close>

text \<open>
  A slot that was zeroed by \<^verbatim>\<open>memset\<close> is \<^term>\<open>None\<close>.
\<close>

record header_table =
  entries :: "header_table_entry option list"
  num_entries :: nat
  entry_capacity :: nat
  entry_start_index :: nat
  hpack_size :: nat
  hpack_capacity :: nat
  hpack_max_capacity :: nat

text \<open>
  The index of slot number \<open>index\<close>. The C function asserts that the slot is in use and returns its
  address; reading it gives \<^term>\<open>None\<close> when that assertion would fail.
\<close>

definition header_table_slot :: "header_table \<Rightarrow> nat \<Rightarrow> nat" where
  "header_table_slot table index = (index + entry_start_index table) mod entry_capacity table"

definition header_table_get :: "header_table \<Rightarrow> nat \<Rightarrow> header_table_entry option" where
  "header_table_get table index =
    (let i = header_table_slot table index
     in if i < length (entries table) then entries table ! i else None)"

text \<open>\<^term>\<open>None\<close>: an assertion fails.\<close>

definition header_table_evict_one :: "header_table \<Rightarrow> header_table option" where
  "header_table_evict_one table =
    (if num_entries table = 0 then None
     else
       (let n = num_entries table - 1
        in case header_table_get table n of
             None \<Rightarrow> None
           | Some entry \<Rightarrow>
               Some (table\<lparr>num_entries := n,
                           hpack_size := hpack_size table - ent_size entry,
                           entries := (entries table)[header_table_slot table n := None]\<rparr>)))"

text \<open>The two \<^verbatim>\<open>while\<close> loops; the fuel is the number of entries, one is removed per round.\<close>

fun evict_while :: "nat \<Rightarrow> (header_table \<Rightarrow> bool) \<Rightarrow> header_table \<Rightarrow> header_table option" where
  "evict_while fuel cond table =
    (if cond table then
       (case fuel of
          0 \<Rightarrow> None
        | Suc fuel' \<Rightarrow>
            (case header_table_evict_one table of
               None \<Rightarrow> None
             | Some table' \<Rightarrow> evict_while fuel' cond table'))
     else Some table)"

declare evict_while.simps [simp del]

definition header_table_grow :: "header_table \<Rightarrow> header_table" where
  "header_table_grow table =
    (if num_entries table = entry_capacity table then
       (let new_capacity = max 16 (num_entries table * 2);
            copied = map (\<lambda>i. entries table ! header_table_slot table i) [0..<num_entries table]
        in table\<lparr>entries := copied @ replicate (new_capacity - num_entries table) None,
                 entry_capacity := new_capacity, entry_start_index := 0\<rparr>)
     else table)"

text \<open>
  The outer \<^term>\<open>None\<close> is a failed assertion. The second component is the index of the slot whose
  address the C function returns, \<^term>\<open>None\<close> for \<^verbatim>\<open>NULL\<close>.
\<close>

definition header_table_add ::
  "header_table \<Rightarrow> nat \<Rightarrow> nat option \<Rightarrow> (header_table \<times> nat option) option" where
  "header_table_add table size_add max_num_entries =
    (case evict_while (num_entries table)
            (\<lambda>t. num_entries t \<noteq> 0 \<and> hpack_size t + size_add > hpack_capacity t) table of
       None \<Rightarrow> None
     | Some t1 \<Rightarrow>
         (case evict_while (num_entries t1)
                 (\<lambda>t. case max_num_entries of None \<Rightarrow> False | Some m \<Rightarrow> m \<le> num_entries t) t1 of
            None \<Rightarrow> None
          | Some t2 \<Rightarrow>
              if num_entries t2 = 0 \<and> hpack_size t2 \<noteq> 0 then None
              else if num_entries t2 = 0 \<and> size_add > hpack_capacity t2 then Some (t2, None)
              else
                (let t3 = header_table_grow (t2\<lparr>hpack_size := hpack_size t2 + size_add\<rparr>);
                     i = (entry_start_index t3 + entry_capacity t3 - 1) mod entry_capacity t3
                 in Some (t3\<lparr>num_entries := num_entries t3 + 1, entry_start_index := i\<rparr>, Some i))))"

text \<open>What the callers of \<^verbatim>\<open>header_table_add\<close> do: fill the slot, if there is one.\<close>

definition header_table_insert ::
  "header_table \<Rightarrow> header_table_entry \<Rightarrow> nat option \<Rightarrow> header_table option" where
  "header_table_insert table e max_num_entries =
    (case header_table_add table (ent_size e) max_num_entries of
       None \<Rightarrow> None
     | Some (table', None) \<Rightarrow> Some table'
     | Some (table', Some i) \<Rightarrow> Some (table'\<lparr>entries := (entries table')[i := Some e]\<rparr>))"

text \<open>
  A change of the capacity: the loop of the size update in \<^verbatim>\<open>h2o_hpack_decode_header\<close>, and the
  same loop in \<^verbatim>\<open>header_table_adjust_size\<close>.
\<close>

definition header_table_resize :: "header_table \<Rightarrow> nat \<Rightarrow> header_table option" where
  "header_table_resize table new_capacity =
    evict_while (num_entries table) (\<lambda>t. num_entries t \<noteq> 0 \<and> hpack_size t > hpack_capacity t)
      (table\<lparr>hpack_capacity := new_capacity\<rparr>)"

section \<open>The first-in first-out table of RFC 7541\<close>

text \<open>
  The table is the list of its entries, newest first. \<open>fitting\<close> keeps the newest entries that fit
  into a number of octets, \<open>fifo_insert\<close> is the insertion of RFC 7541, 4.4, with an optional bound
  on the number of entries.
\<close>

fun fitting :: "('e \<Rightarrow> nat) \<Rightarrow> nat \<Rightarrow> 'e list \<Rightarrow> 'e list" where
  "fitting sz b [] = []"
| "fitting sz b (e # es) = (if sz e \<le> b then e # fitting sz (b - sz e) es else [])"

definition at_most :: "nat option \<Rightarrow> 'e list \<Rightarrow> 'e list" where
  "at_most m es = (case m of None \<Rightarrow> es | Some n \<Rightarrow> take n es)"

definition fifo_insert :: "('e \<Rightarrow> nat) \<Rightarrow> nat \<Rightarrow> nat option \<Rightarrow> 'e \<Rightarrow> 'e list \<Rightarrow> 'e list" where
  "fifo_insert sz cap m e es =
    (if sz e \<le> cap then at_most m (e # fitting sz (cap - sz e) es) else [])"

abbreviation total :: "('e \<Rightarrow> nat) \<Rightarrow> 'e list \<Rightarrow> nat" where
  "total sz es \<equiv> sum_list (map sz es)"

lemma fitting_total: "total sz (fitting sz b es) \<le> b"
  by (induction sz b es rule: fitting.induct) auto

lemma fitting_id: "total sz es \<le> b \<Longrightarrow> fitting sz b es = es"
  by (induction sz b es rule: fitting.induct) auto

lemma fitting_prefix: "\<exists>n. fitting sz b es = take n es"
proof (induction sz b es rule: fitting.induct)
  case (2 sz b e es)
  then show ?case
  proof (cases "sz e \<le> b")
    case True
    with 2 obtain n where "fitting sz (b - sz e) es = take n es" by auto
    then have "fitting sz b (e # es) = take (Suc n) (e # es)"
      using True by simp
    then show ?thesis by blast
  next
    case False
    then have "fitting sz b (e # es) = take 0 (e # es)" by simp
    then show ?thesis by blast
  qed
qed simp

lemma fifo_insert_total: "total sz (fifo_insert sz cap m e es) \<le> cap"
proof -
  have take_le: "total sz (take n xs) \<le> total sz xs" for n xs
    using sum_list_append [of "map sz (take n xs)" "map sz (drop n xs)"]
    by (simp flip: map_append)
  have "total sz (at_most m (e # fitting sz (cap - sz e) es)) \<le> cap" if "sz e \<le> cap"
  proof -
    have "total sz (at_most m (e # fitting sz (cap - sz e) es)) \<le> total sz (e # fitting sz (cap - sz e) es)"
      unfolding at_most_def by (cases m) (simp_all only: option.case order_refl take_le)
    also have "\<dots> \<le> cap"
      using fitting_total [of sz "cap - sz e" es] that by simp
    finally show ?thesis .
  qed
  then show ?thesis
    by (simp add: fifo_insert_def)
qed

text \<open>Evicting entries from the back as long as a condition holds.\<close>

function trim :: "('e list \<Rightarrow> bool) \<Rightarrow> 'e list \<Rightarrow> 'e list" where
  "trim P es = (if es \<noteq> [] \<and> P es then trim P (butlast es) else es)"
  by pat_completeness auto
termination
  by (relation "measure (\<lambda>(P, es). length es)") auto

declare trim.simps [simp del]

lemma trim_eq_take:
  assumes "k \<le> length es" "\<And>j. k < j \<Longrightarrow> j \<le> length es \<Longrightarrow> P (take j es)"
    and "k = 0 \<or> \<not> P (take k es)"
  shows "trim P es = take k es"
  using assms
proof (induction P es rule: trim.induct)
  case (1 P es)
  show ?case
  proof (cases "k = length es")
    case True
    with 1 show ?thesis by (subst trim.simps) auto
  next
    case False
    then have k: "k \<le> length (butlast es)" "es \<noteq> []" "P es"
      using 1(2) 1(3) [of "length es"] by auto
    have "take j (butlast es) = take j es" if "j \<le> length (butlast es)" for j
      using that by (simp add: butlast_conv_take)
    with 1 k have "trim P (butlast es) = take k (butlast es)"
      by (intro "1.IH") auto
    with k show ?thesis
      by (subst trim.simps) (simp add: butlast_conv_take)
  qed
qed

lemma fitting_maximal:
  assumes "fitting sz b es = take k es" "k \<le> length es" "k < j" "j \<le> length es"
  shows "b < total sz (take j es)"
  using assms
proof (induction sz b es arbitrary: k j rule: fitting.induct)
  case (2 sz b e es)
  then obtain j' where j: "j = Suc j'" by (cases j) auto
  show ?case
  proof (cases "sz e \<le> b")
    case True
    with 2 j obtain k' where k: "k = Suc k'" by (cases k) auto
    with 2 True j have "b - sz e < total sz (take j' es)"
      by (intro "2.IH" [OF True, of k']) simp_all
    with True j show ?thesis by simp
  next
    case False
    with j show ?thesis by simp
  qed
qed simp

lemma trim_to_capacity:
  "trim (\<lambda>es. cap < total sz es + b) es = (if b \<le> cap then fitting sz (cap - b) es else [])"
proof (cases "b \<le> cap")
  case True
  obtain k where k: "fitting sz (cap - b) es = take k es" "k \<le> length es"
    using fitting_prefix [of sz "cap - b" es] by (metis nat_le_linear order_refl take_all)
  have "trim (\<lambda>es. cap < total sz es + b) es = take k es"
  proof (rule trim_eq_take)
    show "cap < total sz (take j es) + b" if "k < j" "j \<le> length es" for j
      using fitting_maximal [OF k that] True by linarith
    show "k = 0 \<or> \<not> cap < total sz (take k es) + b"
      using fitting_total [of sz "cap - b" es] True unfolding k(1) by linarith
  qed (rule k(2))
  with True k show ?thesis by simp
next
  case False
  then have "trim (\<lambda>es. cap < total sz es + b) es = take 0 es"
    by (intro trim_eq_take) auto
  with False show ?thesis by simp
qed

lemma trim_to_length: "trim (\<lambda>es. Suc n \<le> length es) es = take n es"
proof (cases "n \<le> length es")
  case True
  then show ?thesis by (intro trim_eq_take) auto
next
  case False
  then show ?thesis by (subst trim.simps) simp
qed

section \<open>The contract of a dynamic table\<close>

text \<open>
  \<open>contents\<close> are the entries, newest first. \<open>R\<close> relates the entries of two tables; related entries
  have the same size.
\<close>

locale dynamic_table =
  fixes inv :: "'t \<Rightarrow> bool" and contents :: "'t \<Rightarrow> 'e list" and capacity :: "'t \<Rightarrow> nat"
    and lookup :: "'t \<Rightarrow> nat \<Rightarrow> 'e option" and insert :: "'t \<Rightarrow> 'e \<Rightarrow> nat option \<Rightarrow> 't option"
    and resize :: "'t \<Rightarrow> nat \<Rightarrow> 't option" and sz :: "'e \<Rightarrow> nat"
  assumes lookup: "inv t \<Longrightarrow> i < length (contents t) \<Longrightarrow> lookup t i = Some (contents t ! i)"
    and insert: "inv t \<Longrightarrow> m \<noteq> Some 0 \<Longrightarrow> \<exists>t'. insert t e m = Some t' \<and> inv t' \<and>
      contents t' = fifo_insert sz (capacity t) m e (contents t) \<and> capacity t' = capacity t"
    and resize: "inv t \<Longrightarrow> \<exists>t'. resize t c = Some t' \<and> inv t' \<and>
      contents t' = fitting sz c (contents t) \<and> capacity t' = c"
    and bounded: "inv t \<Longrightarrow> total sz (contents t) \<le> capacity t"
begin

text \<open>
  An encoder's table is in step with a decoder's when they have the same capacity and the entries
  of the encoder are the newest entries of the decoder.
\<close>

definition in_step :: "('e \<Rightarrow> 'e \<Rightarrow> bool) \<Rightarrow> 't \<Rightarrow> 't \<Rightarrow> bool" where
  "in_step R te td \<longleftrightarrow> inv te \<and> inv td \<and> capacity te = capacity td \<and>
    (\<exists>newest older. contents td = newest @ older \<and> list_all2 R (contents te) newest)"

lemma in_step_lookup:
  assumes "in_step R te td" "i < length (contents te)"
  shows "\<exists>e. lookup td i = Some e \<and> R (contents te ! i) e \<and> i < length (contents td)"
proof -
  obtain newest older where c: "contents td = newest @ older" "list_all2 R (contents te) newest"
    and inv: "inv td"
    using assms(1) by (auto simp: in_step_def)
  then have "i < length newest" "R (contents te ! i) (newest ! i)"
    using assms(2) list_all2_lengthD list_all2_nthD by fastforce+
  with c inv lookup [of td i] show ?thesis
    by (auto simp: nth_append)
qed

lemma fitting_in_step:
  assumes "list_all2 R xs ys" "\<And>x y. R x y \<Longrightarrow> sz x = sz y"
  shows "\<exists>ys' zs'. fitting sz b (ys @ zs) = ys' @ zs' \<and> list_all2 R (fitting sz b xs) ys'"
  using assms(1)
proof (induction xs ys arbitrary: b rule: list_all2_induct)
  case Nil
  then show ?case by auto
next
  case (Cons x xs y ys)
  show ?case
  proof (cases "sz x \<le> b")
    case True
    obtain ys' zs' where "fitting sz (b - sz x) (ys @ zs) = ys' @ zs'"
      "list_all2 R (fitting sz (b - sz x) xs) ys'"
      using Cons.IH by blast
    with True Cons assms(2) [OF \<open>R x y\<close>] show ?thesis
      by (intro exI [of _ "y # ys'"] exI [of _ zs']) simp
  next
    case False
    with assms(2) [OF \<open>R x y\<close>] show ?thesis by auto
  qed
qed

text \<open>
  Both sides insert related entries: they stay in step, also when the encoder bounds the number of
  its entries and the decoder does not.
\<close>

lemma in_step_insert:
  assumes st: "in_step R te td" and R: "R e e'" "\<And>x y. R x y \<Longrightarrow> sz x = sz y" and m: "m \<noteq> Some 0"
    and te': "insert te e m = Some te'" and td': "insert td e' None = Some td'"
  shows "in_step R te' td'"
proof -
  obtain newest older where inv: "inv te" "inv td" "capacity te = capacity td"
    and c: "contents td = newest @ older" "list_all2 R (contents te) newest"
    using st by (auto simp: in_step_def)
  let ?cap = "capacity td"
  have e: "inv te'" "contents te' = fifo_insert sz ?cap m e (contents te)" "capacity te' = ?cap"
    using insert [OF inv(1) m, of e] te' inv(3) by auto
  have d: "inv td'" "contents td' = fifo_insert sz ?cap None e' (contents td)" "capacity td' = ?cap"
    using insert [OF inv(2), of None e'] td' by auto
  have size: "sz e = sz e'"
    by (rule R(2) [OF R(1)])
  show ?thesis
  proof (cases "sz e \<le> ?cap")
    case True
    obtain ys zs where f: "fitting sz (?cap - sz e) (newest @ older) = ys @ zs"
      "list_all2 R (fitting sz (?cap - sz e) (contents te)) ys"
      using fitting_in_step [OF c(2) R(2)] by blast
    then have all: "list_all2 R (e # fitting sz (?cap - sz e) (contents te)) (e' # ys)"
      using R(1) by simp
    have d': "contents td' = (e' # ys) @ zs"
      using d(2) True size f(1) c(1) by (simp add: fifo_insert_def at_most_def)
    show ?thesis
    proof (cases m)
      case None
      then have "list_all2 R (contents te') (e' # ys)"
        using all e(2) True by (simp add: fifo_insert_def at_most_def)
      with d' e(1,3) d(1,3) show ?thesis
        unfolding in_step_def by (intro conjI exI [of _ "e' # ys"] exI [of _ zs]) simp_all
    next
      case (Some n)
      have "contents td' = take n (e' # ys) @ drop n (e' # ys) @ zs"
        unfolding d' by (metis append_assoc append_take_drop_id)
      moreover have "list_all2 R (contents te') (take n (e' # ys))"
        using all e(2) True Some by (simp add: fifo_insert_def at_most_def list_all2_takeI del: take_Suc_Cons)
      ultimately show ?thesis
        unfolding in_step_def using e(1,3) d(1,3)
        by (intro conjI exI [of _ "take n (e' # ys)"] exI [of _ "drop n (e' # ys) @ zs"]) (simp_all only:)
    qed
  next
    case False
    with e d size show ?thesis
      unfolding in_step_def by (auto simp: fifo_insert_def)
  qed
qed

lemma in_step_resize:
  assumes st: "in_step R te td" and R: "\<And>x y. R x y \<Longrightarrow> sz x = sz y"
    and te': "resize te c = Some te'" and td': "resize td c = Some td'"
  shows "in_step R te' td'"
proof -
  obtain newest older where inv: "inv te" "inv td"
    and c: "contents td = newest @ older" "list_all2 R (contents te) newest"
    using st by (auto simp: in_step_def)
  have "inv te'" "contents te' = fitting sz c (contents te)" "capacity te' = c"
    using resize [OF inv(1), of c] te' by auto
  moreover have "inv td'" "contents td' = fitting sz c (contents td)" "capacity td' = c"
    using resize [OF inv(2), of c] td' by auto
  moreover obtain ys zs where "fitting sz c (newest @ older) = ys @ zs"
    "list_all2 R (fitting sz c (contents te)) ys"
    using fitting_in_step [OF c(2) R] by blast
  ultimately show ?thesis
    unfolding in_step_def by (simp add: c(1)) blast
qed

end

section \<open>The ring buffer implements the table\<close>

definition table_list :: "header_table \<Rightarrow> header_table_entry list" where
  "table_list t = map (\<lambda>i. the (header_table_get t i)) [0..<num_entries t]"

text \<open>
  \<open>ring_inv\<close> holds also while entries are being evicted; \<open>table_inv\<close> between operations.
\<close>

definition ring_inv :: "header_table \<Rightarrow> bool" where
  "ring_inv t \<longleftrightarrow> length (entries t) = entry_capacity t \<and> num_entries t \<le> entry_capacity t \<and>
    (entry_capacity t = 0 \<or> entry_start_index t < entry_capacity t) \<and>
    (\<forall>i < num_entries t. header_table_get t i \<noteq> None) \<and>
    hpack_size t = total ent_size (table_list t)"

definition table_inv :: "header_table \<Rightarrow> bool" where
  "table_inv t \<longleftrightarrow> ring_inv t \<and> hpack_size t \<le> hpack_capacity t"

lemma header_table_slot_simps [simp]:
  "header_table_slot (t\<lparr>num_entries := n\<rparr>) = header_table_slot t"
  "header_table_slot (t\<lparr>hpack_size := n\<rparr>) = header_table_slot t"
  "header_table_slot (t\<lparr>hpack_capacity := n\<rparr>) = header_table_slot t"
  "header_table_slot (t\<lparr>entries := es\<rparr>) = header_table_slot t"
  by (simp_all add: header_table_slot_def fun_eq_iff)

lemma header_table_get_simps [simp]:
  "header_table_get (t\<lparr>num_entries := n\<rparr>) = header_table_get t"
  "header_table_get (t\<lparr>hpack_size := n\<rparr>) = header_table_get t"
  "header_table_get (t\<lparr>hpack_capacity := n\<rparr>) = header_table_get t"
  by (simp_all add: header_table_get_def fun_eq_iff Let_def)

lemma length_table_list [simp]: "length (table_list t) = num_entries t"
  by (simp add: table_list_def)

lemma table_list_nth:
  "ring_inv t \<Longrightarrow> i < num_entries t \<Longrightarrow> header_table_get t i = Some (table_list t ! i)"
  by (auto simp: table_list_def ring_inv_def)

lemma slot_less: "ring_inv t \<Longrightarrow> i < num_entries t \<Longrightarrow> header_table_slot t i < entry_capacity t"
  by (auto simp: header_table_slot_def ring_inv_def)

lemma slot_inj:
  "ring_inv t \<Longrightarrow> i < entry_capacity t \<Longrightarrow> j < entry_capacity t \<Longrightarrow>
    header_table_slot t i = header_table_slot t j \<Longrightarrow> i = j"
  unfolding header_table_slot_def by (rule add_mod_inj)

lemma get_eq_nth:
  "ring_inv t \<Longrightarrow> i < num_entries t \<Longrightarrow> header_table_get t i = entries t ! header_table_slot t i"
proof -
  assume inv: "ring_inv t" and i: "i < num_entries t"
  then have "header_table_slot t i < length (entries t)"
    using slot_less [OF inv i] by (simp add: ring_inv_def)
  then show ?thesis
    by (simp add: header_table_get_def Let_def)
qed

lemma evict_one:
  assumes inv: "ring_inv t" and n: "num_entries t \<noteq> 0"
  shows "\<exists>t'. header_table_evict_one t = Some t' \<and> ring_inv t' \<and> table_list t' = butlast (table_list t) \<and>
    num_entries t' = num_entries t - 1 \<and> hpack_capacity t' = hpack_capacity t \<and>
    hpack_max_capacity t' = hpack_max_capacity t"
proof -
  let ?n = "num_entries t - 1"
  let ?e = "table_list t ! ?n"
  let ?t = "t\<lparr>num_entries := ?n, hpack_size := hpack_size t - ent_size ?e,
    entries := (entries t)[header_table_slot t ?n := None]\<rparr>"
  have cap: "num_entries t \<le> entry_capacity t"
    using inv by (simp add: ring_inv_def)
  have get: "header_table_get t ?n = Some ?e"
    using n by (intro table_list_nth [OF inv]) simp
  then have t': "header_table_evict_one t = Some ?t"
    using n by (simp add: header_table_evict_one_def Let_def)
  have same: "header_table_get ?t i = header_table_get t i" if "i < ?n" for i
  proof -
    have "header_table_slot t i \<noteq> header_table_slot t ?n"
    proof
      assume "header_table_slot t i = header_table_slot t ?n"
      moreover have "i < entry_capacity t" "?n < entry_capacity t"
        using that n cap by linarith+
      ultimately have "i = ?n"
        using slot_inj [OF inv] by blast
      with that show False by simp
    qed
    then show ?thesis
      by (simp add: header_table_get_def Let_def)
  qed
  have list: "table_list ?t = butlast (table_list t)"
    using same by (simp add: table_list_def butlast_conv_take take_map)
  have "table_list t \<noteq> []"
    using n by (simp flip: length_0_conv)
  then have "butlast (table_list t) @ [?e] = table_list t"
    using append_butlast_last_id [of "table_list t"] by (simp add: last_conv_nth)
  then have "total ent_size (butlast (table_list t) @ [?e]) = total ent_size (table_list t)"
    by (rule arg_cong)
  then have "total ent_size (table_list t) = total ent_size (butlast (table_list t)) + ent_size ?e"
    by simp
  with inv list same have "ring_inv ?t"
    by (auto simp: ring_inv_def)
  with t' list n show ?thesis by simp
qed

lemma evict_while_trim:
  assumes "ring_inv t" "hpack_capacity t = c" "num_entries t \<le> fuel"
    and cond: "\<And>t. ring_inv t \<Longrightarrow> hpack_capacity t = c \<Longrightarrow>
      cond t \<longleftrightarrow> table_list t \<noteq> [] \<and> P (table_list t)"
  shows "\<exists>t'. evict_while fuel cond t = Some t' \<and> ring_inv t' \<and> table_list t' = trim P (table_list t) \<and>
    hpack_capacity t' = c \<and> hpack_max_capacity t' = hpack_max_capacity t"
  using assms(1-3)
proof (induction fuel arbitrary: t)
  case 0
  then have "table_list t = []"
    by (simp flip: length_0_conv)
  with 0 cond [of t] show ?case
    by (subst evict_while.simps, subst trim.simps) simp
next
  case (Suc fuel)
  show ?case
  proof (cases "cond t")
    case True
    with cond [OF Suc.prems(1,2)] have ne: "table_list t \<noteq> []" "P (table_list t)"
      by simp_all
    then have "num_entries t \<noteq> 0"
      by (metis length_0_conv length_table_list)
    then obtain t1 where t1: "header_table_evict_one t = Some t1" "ring_inv t1"
      "table_list t1 = butlast (table_list t)" "num_entries t1 = num_entries t - 1"
      "hpack_capacity t1 = c" "hpack_max_capacity t1 = hpack_max_capacity t"
      using evict_one [OF Suc.prems(1)] Suc.prems(2) by auto
    have "trim P (table_list t) = trim P (table_list t1)"
      using ne by (subst trim.simps) (simp add: t1(3))
    moreover have "evict_while (Suc fuel) cond t = evict_while fuel cond t1"
      using True by (subst evict_while.simps) (simp add: t1(1))
    ultimately show ?thesis
      using Suc.IH [OF t1(2,5)] Suc.prems(3) t1(4,6) by simp
  next
    case False
    with cond [OF Suc.prems(1,2)] Suc.prems show ?thesis
      by (subst evict_while.simps, subst trim.simps) auto
  qed
qed

lemma ring_inv_size: "ring_inv t \<Longrightarrow> hpack_size t = total ent_size (table_list t)"
  by (simp add: ring_inv_def)

lemma table_list_Nil_iff: "table_list t = [] \<longleftrightarrow> num_entries t = 0"
  by (simp flip: length_0_conv)

lemma resize_ok:
  assumes "table_inv t"
  shows "\<exists>t'. header_table_resize t c = Some t' \<and> table_inv t' \<and>
    table_list t' = fitting ent_size c (table_list t) \<and> hpack_capacity t' = c \<and>
    hpack_max_capacity t' = hpack_max_capacity t"
proof -
  let ?t = "t\<lparr>hpack_capacity := c\<rparr>"
  have tl: "table_list ?t = table_list t"
    by (simp add: table_list_def)
  have "ring_inv ?t"
    using assms tl by (simp add: table_inv_def ring_inv_def)
  then obtain t' where t': "header_table_resize t c = Some t'" "ring_inv t'"
    "table_list t' = trim (\<lambda>es. c < total ent_size es + 0) (table_list t)" "hpack_capacity t' = c"
    "hpack_max_capacity t' = hpack_max_capacity t"
    using evict_while_trim [of ?t c "num_entries t"
        "\<lambda>t. num_entries t \<noteq> 0 \<and> hpack_size t > hpack_capacity t" "\<lambda>es. c < total ent_size es + 0"]
    by (auto simp: header_table_resize_def tl ring_inv_size table_list_Nil_iff)
  moreover from this have "table_list t' = fitting ent_size c (table_list t)"
    using trim_to_capacity [of c ent_size 0 "table_list t"] by simp
  moreover from this t' have "hpack_size t' \<le> c"
    by (simp add: ring_inv_size fitting_total)
  ultimately show ?thesis
    by (simp add: table_inv_def)
qed

text \<open>A full ring is copied to a larger one, starting at slot 0.\<close>

lemma grow_ok:
  assumes inv: "ring_inv t"
  shows "ring_inv (header_table_grow t) \<and> table_list (header_table_grow t) = table_list t \<and>
    num_entries (header_table_grow t) < entry_capacity (header_table_grow t) \<and>
    num_entries (header_table_grow t) = num_entries t \<and>
    hpack_size (header_table_grow t) = hpack_size t \<and>
    hpack_capacity (header_table_grow t) = hpack_capacity t \<and>
    hpack_max_capacity (header_table_grow t) = hpack_max_capacity t"
proof (cases "num_entries t = entry_capacity t")
  case True
  let ?g = "header_table_grow t"
  let ?cap = "max 16 (num_entries t * 2)"
  have g: "entries ?g = map (\<lambda>i. entries t ! header_table_slot t i) [0..<num_entries t] @
      replicate (?cap - num_entries t) None"
    "entry_capacity ?g = ?cap" "entry_start_index ?g = 0" "num_entries ?g = num_entries t"
    "hpack_size ?g = hpack_size t" "hpack_capacity ?g = hpack_capacity t"
    "hpack_max_capacity ?g = hpack_max_capacity t"
    using True by (simp_all add: header_table_grow_def Let_def)
  have less: "num_entries t < ?cap" by simp
  have get: "header_table_get ?g i = header_table_get t i" if "i < num_entries t" for i
  proof -
    have less: "i < ?cap"
      using that less by linarith
    then have "header_table_slot ?g i = i"
      by (simp add: header_table_slot_def g)
    then show ?thesis
      using that less by (simp add: header_table_get_def [of ?g] g nth_append get_eq_nth [OF inv that] Let_def)
  qed
  have list: "table_list ?g = table_list t"
    using get by (simp add: table_list_def g)
  have "ring_inv ?g"
    using inv get less by (auto simp: ring_inv_def g list)
  with list g less show ?thesis by simp
next
  case False
  with inv show ?thesis
    by (auto simp: header_table_grow_def ring_inv_def)
qed

text \<open>Taking the slot before the first one and storing an entry there puts it in front.\<close>

lemma store_ok:
  fixes e :: header_table_entry
  assumes inv: "ring_inv t" and room: "num_entries t < entry_capacity t"
  defines "i \<equiv> (entry_start_index t + entry_capacity t - 1) mod entry_capacity t"
  defines "t' \<equiv> t\<lparr>hpack_size := hpack_size t + ent_size e, num_entries := num_entries t + 1,
    entry_start_index := i, entries := (entries t)[i := Some e]\<rparr>"
  shows "ring_inv t' \<and> table_list t' = e # table_list t"
proof -
  let ?c = "entry_capacity t" and ?s = "entry_start_index t"
  have c: "length (entries t) = ?c" "?s < ?c"
    using inv room by (auto simp: ring_inv_def)
  have i: "i < ?c"
    using c by (simp add: i_def)
  have slot0: "header_table_slot t' 0 = i"
    using i by (simp add: header_table_slot_def t'_def)
  have slotS: "header_table_slot t' (Suc k) = header_table_slot t k" for k
  proof -
    have "header_table_slot t' (Suc k) = (Suc k + (?s + ?c - 1)) mod ?c"
      using mod_add_right_eq [of "Suc k" "?s + ?c - 1" ?c] by (simp add: header_table_slot_def t'_def i_def)
    also have "Suc k + (?s + ?c - 1) = (k + ?s) + ?c"
      using c by simp
    finally show ?thesis
      by (simp add: header_table_slot_def)
  qed
  have get0: "header_table_get t' 0 = Some e"
    unfolding header_table_get_def slot0 using i c by (simp add: t'_def)
  have getS: "header_table_get t' (Suc k) = header_table_get t k" if "k < num_entries t" for k
  proof -
    have "header_table_slot t k \<noteq> i"
    proof
      assume "header_table_slot t k = i"
      then have "(k + ?s) mod ?c = ((?c - 1) + ?s) mod ?c"
        using c by (simp add: header_table_slot_def i_def add.commute)
      then have "k = ?c - 1"
        using that room by (intro add_mod_inj [of k ?c "?c - 1" ?s]) auto
      with that room show False by simp
    qed
    then show ?thesis
      unfolding header_table_get_def slotS by (simp add: t'_def Let_def)
  qed
  have "[0..<num_entries t'] = 0 # map Suc [0..<num_entries t]"
    by (simp add: t'_def map_Suc_upt upt_conv_Cons)
  then have list: "table_list t' = e # table_list t"
    using get0 getS by (simp add: table_list_def)
  have "\<forall>k < num_entries t'. header_table_get t' k \<noteq> None"
  proof (intro allI impI)
    fix k
    assume "k < num_entries t'"
    then show "header_table_get t' k \<noteq> None"
      using get0 getS inv by (cases k) (auto simp: t'_def ring_inv_def)
  qed
  moreover have "hpack_size t' = total ent_size (table_list t')"
    unfolding list using inv by (simp add: t'_def ring_inv_size)
  moreover have "length (entries t') = entry_capacity t'" "num_entries t' \<le> entry_capacity t'"
    "entry_start_index t' < entry_capacity t'"
    using c room i by (simp_all add: t'_def)
  ultimately show ?thesis
    using list by (simp add: ring_inv_def)
qed

definition max_reached :: "nat option \<Rightarrow> 'e list \<Rightarrow> bool" where
  "max_reached m es \<longleftrightarrow> (case m of None \<Rightarrow> False | Some k \<Rightarrow> k \<le> length es)"

lemma trim_max_reached: "m \<noteq> Some 0 \<Longrightarrow> e # trim (max_reached m) es = at_most m (e # es)"
proof (cases m)
  case None
  then show ?thesis
    by (subst trim.simps) (simp add: max_reached_def at_most_def)
next
  case (Some k)
  assume "m \<noteq> Some 0"
  with Some obtain n where "k = Suc n" by (cases k) auto
  with Some trim_to_length [of n es] show ?thesis
    by (simp add: max_reached_def [abs_def] at_most_def)
qed

lemma trim_Nil [simp]: "trim P [] = []"
  by (subst trim.simps) simp

lemma insert_ok:
  assumes inv: "table_inv t" and m: "m \<noteq> Some 0"
  shows "\<exists>t'. header_table_insert t e m = Some t' \<and> table_inv t' \<and>
    table_list t' = fifo_insert ent_size (hpack_capacity t) m e (table_list t) \<and>
    hpack_capacity t' = hpack_capacity t \<and> hpack_max_capacity t' = hpack_max_capacity t"
proof -
  let ?c = "hpack_capacity t" and ?s = "ent_size e"
  obtain t1 where t1: "evict_while (num_entries t)
      (\<lambda>t. num_entries t \<noteq> 0 \<and> hpack_size t + ?s > hpack_capacity t) t = Some t1" "ring_inv t1"
    "table_list t1 = trim (\<lambda>es. ?c < total ent_size es + ?s) (table_list t)" "hpack_capacity t1 = ?c"
    "hpack_max_capacity t1 = hpack_max_capacity t"
    using evict_while_trim [of t ?c "num_entries t"
        "\<lambda>t. num_entries t \<noteq> 0 \<and> hpack_size t + ?s > hpack_capacity t" "\<lambda>es. ?c < total ent_size es + ?s"] inv
    by (auto simp: table_inv_def ring_inv_size table_list_Nil_iff)
  obtain t2 where t2: "evict_while (num_entries t1)
      (\<lambda>t. case m of None \<Rightarrow> False | Some m \<Rightarrow> m \<le> num_entries t) t1 = Some t2" "ring_inv t2"
    "table_list t2 = trim (max_reached m) (table_list t1)" "hpack_capacity t2 = ?c"
    "hpack_max_capacity t2 = hpack_max_capacity t"
  proof -
    have "(case m of None \<Rightarrow> False | Some m \<Rightarrow> m \<le> num_entries t) \<longleftrightarrow>
        table_list t \<noteq> [] \<and> max_reached m (table_list t)" for t
      using m by (auto simp: max_reached_def table_list_Nil_iff split: option.splits)
    with evict_while_trim [of t1 ?c "num_entries t1"
        "\<lambda>t. case m of None \<Rightarrow> False | Some m \<Rightarrow> m \<le> num_entries t" "max_reached m"] t1(2,4,5) that
    show ?thesis by auto
  qed
  have zero: "num_entries t2 = 0 \<Longrightarrow> hpack_size t2 = 0"
    using t2(2) by (simp add: ring_inv_size flip: table_list_Nil_iff)
  show ?thesis
  proof (cases "?s \<le> ?c")
    case False
    then have nil: "table_list t1 = []"
      unfolding t1(3) trim_to_capacity by simp
    then have empty: "table_list t2 = []" "num_entries t2 = 0"
      using t2(3) by (simp_all flip: table_list_Nil_iff)
    have "header_table_add t ?s m = Some (t2, None)"
      unfolding header_table_add_def t1(1) option.case t2(1) using False zero empty by (simp add: t2(4))
    then have "header_table_insert t e m = Some t2"
      by (simp add: header_table_insert_def)
    moreover have "table_inv t2"
      using t2 zero empty by (simp add: table_inv_def)
    ultimately show ?thesis
      using False t2 empty by (simp add: fifo_insert_def)
  next
    case True
    define g where "g = header_table_grow t2"
    have g: "ring_inv g" "table_list g = table_list t2" "num_entries g < entry_capacity g"
      "hpack_capacity g = ?c" "hpack_max_capacity g = hpack_max_capacity t" "hpack_size g = hpack_size t2"
      using grow_ok [OF t2(2)] t2(4,5) by (simp_all add: g_def)
    have grow: "header_table_grow (t2\<lparr>hpack_size := n\<rparr>) = g\<lparr>hpack_size := n\<rparr>" for n
      by (simp add: g_def header_table_grow_def Let_def)
    let ?i = "(entry_start_index g + entry_capacity g - 1) mod entry_capacity g"
    let ?t = "g\<lparr>hpack_size := hpack_size g + ?s, num_entries := num_entries g + 1,
      entry_start_index := ?i, entries := (entries g)[?i := Some e]\<rparr>"
    have ins: "header_table_insert t e m = Some ?t"
      unfolding header_table_insert_def header_table_add_def t1(1) option.case t2(1)
      using True zero by (cases "num_entries t2 = 0") (simp_all add: t2(4) grow Let_def g(6))
    have st: "ring_inv ?t" "table_list ?t = e # table_list g"
      using store_ok [OF g(1,3), of e] by simp_all
    have list: "table_list ?t = fifo_insert ent_size ?c m e (table_list t)"
      unfolding st(2) g(2) t2(3) t1(3) trim_to_capacity using True m
      by (simp add: fifo_insert_def trim_max_reached)
    have "hpack_size ?t \<le> ?c"
      using ring_inv_size [OF st(1)] fifo_insert_total [of ent_size ?c m e "table_list t"] list by simp
    with st(1) g(4) have "table_inv ?t"
      by (simp add: table_inv_def)
    with ins list g(4,5) show ?thesis
      by simp
  qed
qed

text \<open>The ring buffer of the program satisfies the contract.\<close>

interpretation ht: dynamic_table table_inv table_list hpack_capacity header_table_get
  header_table_insert header_table_resize ent_size
proof
  show "header_table_get t i = Some (table_list t ! i)" if "table_inv t" "i < length (table_list t)" for t i
    using that by (simp add: table_inv_def table_list_nth)
  show "total ent_size (table_list t) \<le> hpack_capacity t" if "table_inv t" for t
    using that ring_inv_size [of t] by (simp add: table_inv_def)
qed (use insert_ok resize_ok in blast)+

text \<open>A table that was zeroed and given its capacities, as the connections set it up.\<close>

definition empty_table :: "nat \<Rightarrow> header_table" where
  "empty_table cap = \<lparr>entries = [], num_entries = 0, entry_capacity = 0, entry_start_index = 0,
    hpack_size = 0, hpack_capacity = cap, hpack_max_capacity = cap\<rparr>"

lemma empty_table_inv [simp]: "table_inv (empty_table cap)" "table_list (empty_table cap) = []"
  "hpack_capacity (empty_table cap) = cap"
  by (simp_all add: table_inv_def ring_inv_def empty_table_def table_list_def)

text \<open>
  C10. The ring buffer implements the dynamic table of RFC 7541: on every table that satisfies the
  invariant, inserting an entry and changing the capacity run without a failing assertion, keep the
  invariant (in particular the recorded size is the sum of the entry sizes and within the
  capacity), and change the list of entries, newest first, the way the RFC prescribes: the oldest
  entries are evicted until the new one fits, an entry larger than the table empties it.
\<close>

theorem header_table_refines_fifo:
  assumes "table_inv t" "m \<noteq> Some 0"
  shows "(\<exists>t'. header_table_insert t e m = Some t' \<and> table_inv t' \<and>
      table_list t' = fifo_insert ent_size (hpack_capacity t) m e (table_list t) \<and>
      hpack_capacity t' = hpack_capacity t) \<and>
    (\<exists>t'. header_table_resize t c = Some t' \<and> table_inv t' \<and>
      table_list t' = fitting ent_size c (table_list t) \<and> hpack_capacity t' = c) \<and>
    (\<forall>i < num_entries t. header_table_get t i = Some (table_list t ! i))"
  using ht.insert [OF assms, of e] ht.resize [OF assms(1), of c] ht.lookup [OF assms(1)] by simp

theorem header_table_refines_fifo_witness:
  "\<exists>t'. header_table_insert (empty_table 4096) \<lparr>ent_name = Token 84, ent_value = str ''1'', ent_soft_errors = 0\<rparr>
      (Some 32) = Some t' \<and> table_inv t' \<and>
    table_list t' = fifo_insert ent_size 4096 (Some 32)
      \<lparr>ent_name = Token 84, ent_value = str ''1'', ent_soft_errors = 0\<rparr> []"
  using header_table_refines_fifo [OF empty_table_inv(1) [of 4096], of "Some 32",
      where e = "\<lparr>ent_name = Token 84, ent_value = str ''1'', ent_soft_errors = 0\<rparr>"]
  by auto

end
