(* ===== verification/Hpack_Header.thy ===== *)
theory Hpack_Header
  imports Hpack_String Hpack_Table
begin

text \<open>
  Decoding and encoding of one header field: \<^verbatim>\<open>h2o_hpack_decode_header\<close>,
  \<^verbatim>\<open>header_table_adjust_size\<close>, \<^verbatim>\<open>do_encode_header\<close> and its callers in \<^verbatim>\<open>lib/http2/hpack.c\<close>. The
  main theorem is that a decoder whose table is in step with the encoder's reads back what was
  encoded and stays in step.
\<close>

definition HEADER_TABLE_OFFSET :: nat where
  "HEADER_TABLE_OFFSET = 62"

section \<open>Decoder\<close>

definition h2o_hpack_soft_err_found_invalid_char_in_header_name :: string where
  "h2o_hpack_soft_err_found_invalid_char_in_header_name = ''found an invalid character in header name''"

definition h2o_hpack_soft_err_found_invalid_char_in_header_value :: string where
  "h2o_hpack_soft_err_found_invalid_char_in_header_value = ''found an invalid character in header value''"

text \<open>The return value and \<^verbatim>\<open>err_desc\<close> when a header was decoded.\<close>

definition soft_error_result :: "nat \<Rightarrow> h2err \<times> string option" where
  "soft_error_result soft_errors =
    (if soft_errors \<noteq> 0 then
       (H2O_HTTP2_ERROR_INVALID_HEADER_CHAR,
        Some (if soft_errors AND H2O_HPACK_SOFT_ERROR_BIT_INVALID_NAME \<noteq> 0
              then h2o_hpack_soft_err_found_invalid_char_in_header_name
              else h2o_hpack_soft_err_found_invalid_char_in_header_value))
     else (H2O_HTTP2_ERROR_NONE, None))"

record decoded_header =
  dh_ret :: "h2err \<times> string option"
  dh_name :: hname
  dh_value :: octets

text \<open>The name, and the value if it is indexed too, that an index refers to.\<close>

definition indexed_header ::
  "header_table \<Rightarrow> nat \<Rightarrow> (hname \<times> octets \<times> nat) h2res" where
  "indexed_header table index =
    (if index < HEADER_TABLE_OFFSET then
       (if index - 1 < length h2o_hpack_static_table then
          (case h2o_hpack_static_table ! (index - 1) of
             (t, v) \<Rightarrow> Inr (Token t, v, 0))
        else Inl (READ_PAST_END, None))
     else if index - HEADER_TABLE_OFFSET < num_entries table then
       (case header_table_get table (index - HEADER_TABLE_OFFSET) of
          None \<Rightarrow> Inl (ASSERTION_FAILED, None)
        | Some entry \<Rightarrow> Inr (ent_name entry, ent_value entry, ent_soft_errors entry))
     else Inl (H2O_HTTP2_ERROR_COMPRESSION, None))"

definition literal_name :: "octets \<Rightarrow> (hname \<times> nat \<times> octets) h2res" where
  "literal_name src =
    (case decode_string 0 src True of
       Inl OUT_OF_BOUNDS \<Rightarrow> Inl (READ_PAST_END, None)
     | Inl (NULL d) \<Rightarrow>
         (if d = Some h2o_hpack_err_found_upper_case_in_header_name
          then Inl (H2O_HTTP2_ERROR_PROTOCOL, d) else Inl (H2O_HTTP2_ERROR_COMPRESSION, d))
     | Inr (s, soft_errors, src') \<Rightarrow>
         Inr (case h2o_lookup_token s of Some t \<Rightarrow> Token t | None \<Rightarrow> Buf s, soft_errors, src'))"

text \<open>
  The part of the C function after the mode has been determined. Clearing the bit of
  \<^verbatim>\<open>H2O_HPACK_SOFT_ERROR_BIT_INVALID_VALUE\<close> in an \<^verbatim>\<open>unsigned\<close> is a conjunction with the other bits.
\<close>

definition decode_header_field ::
  "header_table \<Rightarrow> octets \<Rightarrow> nat \<Rightarrow> bool \<Rightarrow> bool \<Rightarrow> (decoded_header \<times> header_table \<times> octets) h2res" where
  "decode_header_field table src index value_is_indexed do_index =
    (case (if index > 0 then
             (case indexed_header table index of
                Inl e \<Rightarrow> Inl e
              | Inr (name, v, soft_errors) \<Rightarrow> Inr (name, v, soft_errors, src))
           else
             (case literal_name src of
                Inl e \<Rightarrow> Inl e
              | Inr (name, soft_errors, src') \<Rightarrow> Inr (name, [], soft_errors, src'))) of
       Inl e \<Rightarrow> Inl e
     | Inr (name, v, soft_errors, src1) \<Rightarrow>
         (case (if value_is_indexed then Inr (v, soft_errors, src1)
                else
                  (case decode_string (soft_errors AND 0xfffffffd) src1 False of
                     Inl OUT_OF_BOUNDS \<Rightarrow> Inl (READ_PAST_END, None)
                   | Inl (NULL d) \<Rightarrow> Inl (H2O_HTTP2_ERROR_COMPRESSION, d)
                   | Inr r \<Rightarrow> Inr r)) of
            Inl e \<Rightarrow> Inl e
          | Inr (v', soft_errors', src2) \<Rightarrow>
              (case (if do_index then
                       header_table_insert table
                         \<lparr>ent_name = name, ent_value = v', ent_soft_errors = soft_errors'\<rparr> None
                     else Some table) of
                 None \<Rightarrow> Inl (ASSERTION_FAILED, None)
               | Some table' \<Rightarrow>
                   Inr (\<lparr>dh_ret = soft_error_result soft_errors', dh_name = name, dh_value = v'\<rparr>,
                        table', src2))))"

lemma decode_int_shorter: "decode_int src p = Inr (r, src') \<Longrightarrow> length src' < length src"
  using decode_int_suffix [of src p r src'] by auto

text \<open>A negative result of \<^verbatim>\<open>h2o_hpack_decode_int\<close> is reported as a compression error.\<close>

definition int_error :: "h2err \<times> string option \<Rightarrow> h2err \<times> string option" where
  "int_error e = (if fst e = READ_PAST_END then e else (H2O_HTTP2_ERROR_COMPRESSION, None))"

function decode_header :: "header_table \<Rightarrow> octets \<Rightarrow> (decoded_header \<times> header_table \<times> octets) h2res" where
  "decode_header table src =
    (if src = [] then Inl (H2O_HTTP2_ERROR_COMPRESSION, None)
     else (case read_octet src of
       Inl e \<Rightarrow> Inl e
     | Inr (b, src') \<Rightarrow>
         if b \<ge> 128 then
           (case decode_int src 7 of
              Inl e \<Rightarrow> Inl (int_error e)
            | Inr (index, src1) \<Rightarrow>
                if index = 0 then Inl (H2O_HTTP2_ERROR_COMPRESSION, None)
                else decode_header_field table src1 (unat index) True False)
         else if b \<ge> 64 then
           (if b = 64 then decode_header_field table src' 0 False True
            else
              (case decode_int src 6 of
                 Inl e \<Rightarrow> Inl (int_error e)
               | Inr (index, src1) \<Rightarrow>
                   if index = 0 then Inl (H2O_HTTP2_ERROR_COMPRESSION, None)
                   else decode_header_field table src1 (unat index) False True))
         else if b < 32 then
           (if b AND 0xf = 0 then decode_header_field table src' 0 False False
            else
              (case decode_int src 4 of
                 Inl e \<Rightarrow> Inl (int_error e)
               | Inr (index, src1) \<Rightarrow>
                   if index = 0 then Inl (H2O_HTTP2_ERROR_COMPRESSION, None)
                   else decode_header_field table src1 (unat index) False False))
         else
           (case decode_int src 5 of
              Inl e \<Rightarrow> Inl (int_error e)
            | Inr (new_capacity, src1) \<Rightarrow>
                if unat new_capacity > hpack_max_capacity table
                then Inl (H2O_HTTP2_ERROR_COMPRESSION, None)
                else
                  (case header_table_resize table (unat new_capacity) of
                     None \<Rightarrow> Inl (ASSERTION_FAILED, None)
                   | Some table' \<Rightarrow> decode_header table' src1))))"
  by pat_completeness auto
termination
  by (relation "measure (\<lambda>(table, src). length src)") (auto dest!: decode_int_shorter)

declare decode_header.simps [simp del]

section \<open>Encoder\<close>

text \<open>
  The octets written and the table; \<^term>\<open>None\<close> is a failing assertion or the use of an empty slot.
\<close>

definition header_table_adjust_size ::
  "header_table \<Rightarrow> nat \<Rightarrow> (octets \<times> header_table) option" where
  "header_table_adjust_size table new_capacity =
    (if new_capacity \<ge> hpack_capacity table then Some ([], table)
     else
       (case header_table_resize table new_capacity of
          None \<Rightarrow> None
        | Some table' \<Rightarrow> Some (encode_int 0x20 (int (hpack_capacity table')) 5, table')))"

text \<open>
  The search for an entry with the same name and value. \<open>n\<close> counts the entries that are left,
  \<open>i\<close> is the slot. Result: the index to send if the whole header was found, and \<^verbatim>\<open>name_index\<close>.
\<close>

fun search_entries ::
  "header_table \<Rightarrow> hname \<Rightarrow> octets \<Rightarrow> nat \<Rightarrow> nat \<Rightarrow> nat \<Rightarrow> (nat option \<times> nat) option" where
  "search_entries table name v 0 i name_index = Some (None, name_index)"
| "search_entries table name v (Suc n) i name_index =
     (case (if i < length (entries table) then entries table ! i else None) of
        None \<Rightarrow> None
      | Some entry \<Rightarrow>
          (let index = num_entries table - Suc n + HEADER_TABLE_OFFSET;
               i' = (if i + 1 = entry_capacity table then 0 else i + 1);
               matches = (if h2o_iovec_is_token name then name = ent_name entry
                          else name_octets name = name_octets (ent_name entry));
               name_index' = (if matches \<and> \<not> h2o_iovec_is_token name \<and> name_index = 0
                              then index else name_index)
           in if matches \<and> v = ent_value entry then Some (Some index, name_index')
              else search_entries table name v n i' name_index'))"

definition static_name_index_of :: "hname \<Rightarrow> nat" where
  "static_name_index_of name =
    (case name of Token t \<Rightarrow> http2_static_table_name_index (h2o__tokens ! t) | Buf s \<Rightarrow> 0)"

definition bypass_compression :: "hname \<Rightarrow> octets \<Rightarrow> bool \<Rightarrow> bool" where
  "bypass_compression name v dont_compress =
    (let dc = (if \<not> dont_compress \<and> h2o_iovec_is_token name
               then (case name of Token t \<Rightarrow> tok_dont_compress (h2o__tokens ! t) | Buf s \<Rightarrow> False)
               else dont_compress)
     in if dc then length v < 20 else dc)"

definition do_encode_header ::
  "header_table \<Rightarrow> hname \<Rightarrow> octets \<Rightarrow> bool \<Rightarrow> (octets \<times> header_table) option" where
  "do_encode_header table name v dont_compress =
    (case search_entries table name v (num_entries table) (entry_start_index table)
            (static_name_index_of name) of
       None \<Rightarrow> None
     | Some (Some index, _) \<Rightarrow> Some (encode_int 0x80 (int index) 7, table)
     | Some (None, name_index) \<Rightarrow>
         (let dc = bypass_compression name v dont_compress;
              head = (if name_index \<noteq> 0 then
                        (if dc then encode_int 0x10 (int name_index) 4
                         else encode_int 0x40 (int name_index) 6)
                      else 0x40 # encode_string (name_octets name))
          in if dc then Some (head @ encode_as_is v, table)
             else
               (case header_table_insert table \<lparr>ent_name = name, ent_value = v, ent_soft_errors = 0\<rparr> (Some 32) of
                  None \<Rightarrow> None
                | Some table' \<Rightarrow> Some (head @ encode_string v, table'))))"

record h2o_header =
  hdr_name :: hname
  hdr_value :: octets
  hdr_dont_compress :: bool

definition encode_header :: "header_table \<Rightarrow> h2o_header \<Rightarrow> (octets \<times> header_table) option" where
  "encode_header table h = do_encode_header table (hdr_name h) (hdr_value h) (hdr_dont_compress h)"

definition encode_header_token :: "header_table \<Rightarrow> nat \<Rightarrow> octets \<Rightarrow> (octets \<times> header_table) option" where
  "encode_header_token table t v =
    do_encode_header table (Token t) v (tok_dont_compress (h2o__tokens ! t))"

section \<open>Decoding is safe\<close>

abbreviation never_crashes :: "'a h2res \<Rightarrow> bool" where
  "never_crashes r \<equiv> (\<forall>d. r \<noteq> Inl (ASSERTION_FAILED, d) \<and> r \<noteq> Inl (READ_PAST_END, d))"

lemma indexed_header_safe:
  assumes "table_inv t" "0 < i"
  shows "never_crashes (indexed_header t i)"
  using assms ht.lookup [OF assms(1), of "i - HEADER_TABLE_OFFSET"]
  by (auto simp: indexed_header_def HEADER_TABLE_OFFSET_def length_static_table split: prod.splits)

lemma literal_name_safe: "never_crashes (literal_name src)"
  using decode_string_no_overrun [of 0 src True]
  by (auto simp: literal_name_def split: sum.splits prod.splits string_failure.splits)

text \<open>The table after a header was decoded, and the octets that remain.\<close>

definition decode_ok :: "header_table \<Rightarrow> octets \<Rightarrow> (decoded_header \<times> header_table \<times> octets) h2res \<Rightarrow> bool" where
  "decode_ok t src r \<longleftrightarrow> (case r of
     Inl (e, d) \<Rightarrow> e \<noteq> ASSERTION_FAILED \<and> e \<noteq> READ_PAST_END
   | Inr (h, t', src') \<Rightarrow> table_inv t' \<and> hpack_max_capacity t' = hpack_max_capacity t \<and>
       (hpack_capacity t \<le> hpack_max_capacity t \<longrightarrow> hpack_capacity t' \<le> hpack_max_capacity t) \<and>
       length src' \<le> length src)"

lemma decode_string_rest: "decode_string se src nm = Inr (s, se', src') \<Longrightarrow> length src' \<le> length src"
  by (erule decode_string_result) (auto dest!: decode_int_shorter)

lemma int_error_ok: "decode_int src p = Inl e \<Longrightarrow> 1 \<le> p \<Longrightarrow> p \<le> 8 \<Longrightarrow> int_error e = (H2O_HTTP2_ERROR_COMPRESSION, None)"
  using decode_int_no_crash [of p src "snd e"] by (cases e) (auto simp: int_error_def)

lemma decode_header_field_ok:
  assumes inv: "table_inv t"
  shows "decode_ok t src (decode_header_field t src i vi di)"
proof -
  define r1 where "r1 = (if i > 0 then
      (case indexed_header t i of Inl e \<Rightarrow> Inl e | Inr (name, v, se) \<Rightarrow> Inr (name, v, se, src))
    else (case literal_name src of Inl e \<Rightarrow> Inl e | Inr (name, se, src') \<Rightarrow> Inr (name, [], se, src')))"
  have r1: "never_crashes r1" "r1 = Inr (name, v, se, src1) \<Longrightarrow> length src1 \<le> length src" for name v se src1
    using indexed_header_safe [OF inv, of i] literal_name_safe [of src] decode_string_rest
    by (fastforce simp: r1_def literal_name_def split: sum.splits prod.splits if_splits string_failure.splits)+
  show ?thesis
  proof (cases r1)
    case (Inl e)
    with r1 show ?thesis
      by (cases e) (auto simp: decode_header_field_def decode_ok_def simp flip: r1_def)
  next
    case (Inr p)
    obtain name v se src1 where p: "p = (name, v, se, src1)" by (metis surj_pair)
    define r2 where "r2 = (if vi then Inr (v, se, src1)
      else (case decode_string (se AND 0xfffffffd) src1 False of
              Inl OUT_OF_BOUNDS \<Rightarrow> Inl (READ_PAST_END, None)
            | Inl (NULL d) \<Rightarrow> Inl (H2O_HTTP2_ERROR_COMPRESSION, d) | Inr r \<Rightarrow> Inr r))"
    have r2: "never_crashes r2" "r2 = Inr (v', se', src2) \<Longrightarrow> length src2 \<le> length src1" for v' se' src2
      using decode_string_rest decode_string_no_overrun [of _ src1 False]
      by (fastforce simp: r2_def split: sum.splits if_splits string_failure.splits)+
    show ?thesis
    proof (cases r2)
      case (Inl e)
      with r2 Inr p show ?thesis
        by (cases e) (auto simp: decode_header_field_def decode_ok_def simp flip: r1_def r2_def)
    next
      case i2: (Inr q)
      obtain v' se' src2 where q: "q = (v', se', src2)" by (metis surj_pair)
      have len: "length src2 \<le> length src"
        using r1(2) r2(2) Inr i2 p q by fastforce
      let ?e = "\<lparr>ent_name = name, ent_value = v', ent_soft_errors = se'\<rparr>"
      obtain t' where "header_table_insert t ?e None = Some t'" "table_inv t'"
        "hpack_capacity t' = hpack_capacity t" "hpack_max_capacity t' = hpack_max_capacity t"
        using insert_ok [OF inv, of None ?e] by auto
      with len inv Inr p i2 q show ?thesis
        by (auto simp: decode_header_field_def decode_ok_def simp flip: r1_def r2_def)
    qed
  qed
qed

lemma decode_header_ok:
  assumes "table_inv t"
  shows "decode_ok t src (decode_header t src)"
  using assms
proof (induction t src rule: decode_header.induct)
  case (1 t src)
  note field = decode_header_field_ok [OF "1.prems"]
  have shorter: "decode_ok t src r" if "decode_ok t src' r" "length src' \<le> length src" for r src'
    using that by (auto simp: decode_ok_def split: sum.splits)
  show ?case
  proof (cases src)
    case Nil
    then show ?thesis by (simp add: decode_header.simps decode_ok_def)
  next
    case (Cons b src')
    then have ne: "src \<noteq> []" and rd: "read_octet src = Inr (b, src')" by simp_all
    have err: "decode_ok t src (Inl (H2O_HTTP2_ERROR_COMPRESSION, None))"
      by (simp add: decode_ok_def)
    have len: "length src1 \<le> length src" if "decode_int src p = Inr (v, src1)" for p v src1
      using decode_int_shorter [OF that] by simp
    consider "b \<ge> 128" | "\<not> b \<ge> 128" "b \<ge> 64" | "\<not> b \<ge> 128" "\<not> b \<ge> 64" "b < 32"
      | "\<not> b \<ge> 128" "\<not> b \<ge> 64" "\<not> b < 32"
      by blast
    then show ?thesis
    proof cases
      case 4
      show ?thesis
      proof (cases "decode_int src 5")
        case (Inr p)
        obtain c src1 where p: "p = (c, src1)" by (metis surj_pair)
        show ?thesis
        proof (cases "unat c > hpack_max_capacity t")
          case False
          obtain t' where t': "header_table_resize t (unat c) = Some t'" "table_inv t'" "hpack_capacity t' = unat c"
            "hpack_max_capacity t' = hpack_max_capacity t"
            using resize_ok [OF "1.prems", of "unat c"] by auto
          have "decode_header t src = decode_header t' src1"
            using 4 False t'(1) Cons Inr p by (subst decode_header.simps) simp
          moreover have "decode_ok t' src1 (decode_header t' src1)"
            using 4 False t'(1,2) Inr p
            by (intro "1.IH" [OF ne rd refl _ _ _ _ _ _ t'(1)]) simp_all
          ultimately show ?thesis
            using t'(3,4) False len Inr p by (fastforce simp: decode_ok_def split: sum.splits)
        qed (use 4 Cons Inr p err in \<open>simp add: decode_header.simps [of t "b # src'"]\<close>)
      qed (use 4 Cons err int_error_ok [of src 5] in \<open>simp add: decode_header.simps [of t "b # src'"]\<close>)
    qed (use Cons err shorter [OF field] len int_error_ok [of src] in
        \<open>auto simp: decode_header.simps [of t "b # src'"] split: sum.splits\<close>)
  qed
qed

section \<open>How the decoder reads what the encoder writes\<close>

lemma encode_int_head:
  assumes "p \<le> 8" "first AND prefix_max p = 0"
  shows "\<exists>b bs. encode_int first (int n) p = b # bs \<and> unat b = unat first + min n (2 ^ p - 1)"
proof -
  define M :: nat where "M = 2 ^ p - 1"
  have M: "(2 ^ p - 1 :: int) = int M"
    by (simp add: M_def of_nat_diff)
  let ?m = "min n M"
  have "\<exists>bs. encode_int first (int n) p = (first OR of_nat ?m) # bs"
  proof (cases "n < M")
    case True
    then show ?thesis
      unfolding encode_int_def encode_int_is_onebyte_def M by simp
  next
    case False
    then show ?thesis
      unfolding encode_int_def encode_int_is_onebyte_def M by simp
  qed
  then obtain w bs where e: "encode_int first (int n) p = (first OR w) # bs" and w: "w = of_nat ?m"
    by blast
  have "(2::nat) ^ p \<le> 2 ^ 8"
    using assms(1) by (intro power_increasing) simp_all
  then have "?m < 2 ^ 8"
    by (simp add: M_def min.strict_coboundedI2 less_le_trans)
  then have uw: "unat w = ?m"
    unfolding w by (intro unat_of_nat_eq) simp
  have "w AND prefix_max p = w"
  proof -
    have "unat w mod 2 ^ p = unat w"
      unfolding uw by (intro mod_less) (simp add: M_def min.strict_coboundedI2)
    then show ?thesis
      using unat_and_prefix_max [of w p] by (simp add: word_unat_eq_iff)
  qed
  moreover have "first AND (w AND prefix_max p) = w AND (first AND prefix_max p)"
    by (rule bit_eqI) (auto simp: bit_and_iff)
  ultimately have "first AND w = 0"
    by (simp add: assms(2))
  then have "unat first AND unat w = 0"
    by (simp flip: unsigned_and_eq)
  then have "unat (first OR w) = unat first + unat w"
    by (simp add: unsigned_or_eq disjunctive_add_eq_or)
  with e uw show ?thesis by (simp add: M_def)
qed

text \<open>The four forms of a header field, and the size update.\<close>

lemma word_le_unat: "(a :: u8) \<le> b \<longleftrightarrow> unat a \<le> unat b" "(a :: u8) < b \<longleftrightarrow> unat a < unat b"
  by (simp_all add: word_le_nat_alt word_less_nat_alt)

lemma decode_int_field:
  assumes "1 \<le> p" "p \<le> 8" "first AND prefix_max p = 0" "n < 2 ^ 63"
  obtains b bs where "encode_int first (int n) p = b # bs" "unat b = unat first + min n (2 ^ p - 1)"
    "\<And>rest. decode_int (b # bs @ rest) p = Inr (of_nat n, rest)" "unat (of_nat n :: u64) = n"
proof -
  obtain b bs where b: "encode_int first (int n) p = b # bs" "unat b = unat first + min n (2 ^ p - 1)"
    using encode_int_head [OF assms(2,3), of n] by auto
  have "int n < 2 ^ 63"
    using assms(4) by simp
  then have "decode_int (b # bs @ rest) p = Inr (of_nat n, rest)" for rest
    using decode_encode_int [OF assms(1,2) _ _ assms(3), of "int n" rest] b(1) by simp
  moreover have "unat (of_nat n :: u64) = n"
    using assms(4) by (intro unat_of_nat_eq) simp
  ultimately show ?thesis
    using that b by blast
qed

lemma nonzero_index: "unat (of_nat n :: u64) = n \<Longrightarrow> 0 < n \<Longrightarrow> (of_nat n :: u64) \<noteq> 0"
  by (metis less_irrefl_nat unsigned_0)

lemma decode_header_indexed:
  assumes "0 < n" "n < 2 ^ 63"
  shows "decode_header t (encode_int 0x80 (int n) 7 @ rest) = decode_header_field t rest n True False"
proof -
  have "(0x80 :: u8) AND prefix_max 7 = 0" by (simp add: prefix_max_def)
  then obtain b bs where b: "encode_int 0x80 (int n) 7 = b # bs" "unat b = unat (0x80 :: u8) + min n (2 ^ 7 - 1)"
    "\<And>rest. decode_int (b # bs @ rest) 7 = Inr (of_nat n, rest)" "unat (of_nat n :: u64) = n"
    using decode_int_field [of 7 "0x80" n] assms(2) by auto
  then have "b \<ge> 128"
    by (simp add: word_le_unat)
  then show ?thesis
    using b nonzero_index [OF b(4) assms(1)] by (subst decode_header.simps) simp
qed

lemma decode_header_incremental:
  assumes "0 < n" "n < 2 ^ 63"
  shows "decode_header t (encode_int 0x40 (int n) 6 @ rest) = decode_header_field t rest n False True"
proof -
  have "(0x40 :: u8) AND prefix_max 6 = 0" by (simp add: prefix_max_def)
  then obtain b bs where b: "encode_int 0x40 (int n) 6 = b # bs" "unat b = unat (0x40 :: u8) + min n (2 ^ 6 - 1)"
    "\<And>rest. decode_int (b # bs @ rest) 6 = Inr (of_nat n, rest)" "unat (of_nat n :: u64) = n"
    using decode_int_field [of 6 "0x40" n] assms(2) by auto
  then have "\<not> b \<ge> 128" "b \<ge> 64" "b \<noteq> 64"
    using assms(1) by (auto simp: word_le_unat)
  then show ?thesis
    using b nonzero_index [OF b(4) assms(1)] by (subst decode_header.simps) simp
qed

lemma decode_header_unindexed:
  assumes "first = 0 \<or> first = 0x10" "0 < n" "n < 2 ^ 63"
  shows "decode_header t (encode_int first (int n) 4 @ rest) = decode_header_field t rest n False False"
proof -
  have "first AND prefix_max 4 = 0" using assms(1) by (auto simp: prefix_max_def)
  then obtain b bs where b: "encode_int first (int n) 4 = b # bs" "unat b = unat first + min n (2 ^ 4 - 1)"
    "\<And>rest. decode_int (b # bs @ rest) 4 = Inr (of_nat n, rest)" "unat (of_nat n :: u64) = n"
    using decode_int_field [of 4 first n] assms(3) by auto
  then have "\<not> b \<ge> 128" "\<not> b \<ge> 64" "b < 32"
    using assms(1) by (auto simp: word_le_unat)
  moreover have "b AND 0xf \<noteq> 0"
  proof -
    have "unat (b AND 0xf) = unat b mod 16"
      by (rule unat_nibbles)
    also have "\<dots> = min n 15"
      using b(2) assms(1) by auto
    finally show ?thesis
      using assms(2) by (metis min_less_iff_conj less_irrefl_nat unsigned_0 zero_less_numeral)
  qed
  ultimately show ?thesis
    using b nonzero_index [OF b(4) assms(2)] by (subst decode_header.simps) simp
qed

lemma decode_header_new_name:
  "decode_header t (0x40 # rest) = decode_header_field t rest 0 False True"
  by (subst decode_header.simps) simp

lemma decode_header_size_update:
  assumes "n < 2 ^ 63" "n \<le> hpack_max_capacity t" "header_table_resize t n = Some t'"
  shows "decode_header t (encode_int 0x20 (int n) 5 @ rest) = decode_header t' rest"
proof -
  have "(0x20 :: u8) AND prefix_max 5 = 0" by (simp add: prefix_max_def)
  then obtain b bs where b: "encode_int 0x20 (int n) 5 = b # bs" "unat b = unat (0x20 :: u8) + min n (2 ^ 5 - 1)"
    "\<And>rest. decode_int (b # bs @ rest) 5 = Inr (of_nat n, rest)" "unat (of_nat n :: u64) = n"
    using decode_int_field [of 5 "0x20" n] assms(1) by auto
  then have "\<not> b \<ge> 128" "\<not> b \<ge> 64" "\<not> b < 32"
    by (auto simp: word_le_unat)
  then show ?thesis
    using b assms(2,3) by (subst decode_header.simps) simp
qed

section \<open>The search of the encoder\<close>

lemma slot_0: "ring_inv t \<Longrightarrow> 0 < num_entries t \<Longrightarrow> header_table_slot t 0 = entry_start_index t"
  by (auto simp: ring_inv_def header_table_slot_def)

lemma slot_Suc:
  "ring_inv t \<Longrightarrow> 0 < num_entries t \<Longrightarrow> header_table_slot t (Suc k) =
    (if header_table_slot t k + 1 = entry_capacity t then 0 else header_table_slot t k + 1)"
  by (auto simp: ring_inv_def header_table_slot_def mod_Suc)

text \<open>
  What the search returns: an index whose entry has the name and the value, or else a name index
  that is the one it was given or, for a name that is no token, the index of an entry with the name.
\<close>

definition search_result :: "header_table \<Rightarrow> hname \<Rightarrow> octets \<Rightarrow> nat \<Rightarrow> nat option \<times> nat \<Rightarrow> bool" where
  "search_result t name v ni = (\<lambda>(r, ni'). case r of
     Some index \<Rightarrow> \<exists>k < num_entries t. index = k + HEADER_TABLE_OFFSET \<and>
       name_octets (ent_name (table_list t ! k)) = name_octets name \<and> ent_value (table_list t ! k) = v
   | None \<Rightarrow> ni' = ni \<or> ni = 0 \<and> (\<exists>k < num_entries t. ni' = k + HEADER_TABLE_OFFSET \<and>
       name_octets (ent_name (table_list t ! k)) = name_octets name))"

lemma search_entries_ok:
  assumes inv: "table_inv t" and "n \<le> num_entries t"
    and "0 < n \<Longrightarrow> i = header_table_slot t (num_entries t - n)"
  shows "\<exists>r. search_entries t name v n i ni = Some r \<and> search_result t name v ni r"
  using assms(2-3)
proof (induction n arbitrary: i ni)
  case 0
  then show ?case by (simp add: search_result_def)
next
  case (Suc n)
  let ?k = "num_entries t - Suc n" and ?idx = "num_entries t - Suc n + HEADER_TABLE_OFFSET"
  have ring: "ring_inv t" and k: "?k < num_entries t" and i: "i = header_table_slot t ?k"
    using inv Suc.prems by (auto simp: table_inv_def)
  let ?e = "table_list t ! ?k"
  have e: "(if i < length (entries t) then entries t ! i else None) = Some ?e"
    using table_list_nth [OF ring k] unfolding header_table_get_def i Let_def .
  define m where "m = (if h2o_iovec_is_token name then name = ent_name ?e
    else name_octets name = name_octets (ent_name ?e))"
  have m: "m \<Longrightarrow> name_octets (ent_name ?e) = name_octets name"
    by (auto simp: m_def split: if_splits)
  define ni' where "ni' = (if m \<and> \<not> h2o_iovec_is_token name \<and> ni = 0 then ?idx else ni)"
  show ?case
  proof (cases "m \<and> v = ent_value ?e")
    case True
    then have "search_entries t name v (Suc n) i ni = Some (Some ?idx, ni')"
      unfolding search_entries.simps e option.case Let_def m_def [symmetric] ni'_def [symmetric] by simp
    moreover have "search_result t name v ni (Some ?idx, ni')"
      using True m k by (auto simp: search_result_def)
    ultimately show ?thesis by blast
  next
    case False
    let ?i = "if i + 1 = entry_capacity t then 0 else i + 1"
    have step: "search_entries t name v (Suc n) i ni = search_entries t name v n ?i ni'"
      unfolding search_entries.simps e option.case Let_def m_def [symmetric] ni'_def [symmetric]
      by (rule if_not_P [OF False])
    have "Suc ?k = num_entries t - n"
      using Suc.prems(1) by simp
    then have "?i = header_table_slot t (num_entries t - n)"
      using slot_Suc [OF ring, of ?k] k i by simp
    then obtain r where r: "search_entries t name v n ?i ni' = Some r" "search_result t name v ni' r"
      using Suc.IH [of ?i ni'] Suc.prems(1) by auto
    have "search_result t name v ni r"
      using r(2) m k by (auto simp: search_result_def ni'_def split: option.splits if_splits)
    with step r(1) show ?thesis by simp
  qed
qed

lemma search_from_start:
  assumes "table_inv t"
  shows "\<exists>r ni. search_entries t name v (num_entries t) (entry_start_index t) k = Some (r, ni) \<and> search_result t name v k (r, ni)"
proof -
  have "0 < num_entries t \<Longrightarrow> entry_start_index t = header_table_slot t (num_entries t - num_entries t)"
    using assms slot_0 [of t] by (simp add: table_inv_def)
  from search_entries_ok [OF assms order_refl this, of name v k] show ?thesis by auto
qed

section \<open>Round trip of a header field\<close>

definition ent_rel :: "header_table_entry \<Rightarrow> header_table_entry \<Rightarrow> bool" where
  "ent_rel e e' \<longleftrightarrow> name_octets (ent_name e) = name_octets (ent_name e') \<and> ent_value e = ent_value e'"

lemma ent_rel_size: "ent_rel e e' \<Longrightarrow> ent_size e = ent_size e'"
  by (simp add: ent_rel_def entry_size_def)

text \<open>
  The names that can be sent: tokens, and buffers without upper-case letters. Values shorter than
  4 GiB.
\<close>

definition name_ok :: "hname \<Rightarrow> bool" where
  "name_ok name = (case name of
     Token t \<Rightarrow> t < 85
   | Buf s \<Rightarrow> length s < 2 ^ 32 \<and> (s = [] \<or> hd s = of_char CHR '':'' \<or> (\<forall>c \<in> set s. \<not> is_upper c)))"

lemma token_names_lower:
  "list_all (\<lambda>s. length s < 64 \<and> list_all (\<lambda>c. \<not> (65 \<le> (of_char c :: nat) \<and> of_char c \<le> (90 :: nat))) s) token_names"
  by (simp add: token_names_def)

lemma tok_name_ok: "t < 85 \<Longrightarrow> length (tok_name t) < 64 \<and> (\<forall>c \<in> set (tok_name t). \<not> is_upper c)"
proof -
  assume t: "t < 85"
  then have "token_names ! t \<in> set token_names"
    by (intro nth_mem) (simp add: token_names_def)
  from bspec [OF token_names_lower [unfolded list_all_iff [of _ token_names]] this]
  have "length (token_names ! t) < 64"
    "\<forall>c \<in> set (token_names ! t). \<not> (65 \<le> (of_char c :: nat) \<and> of_char c \<le> (90 :: nat))"
    by (simp_all add: list_all_iff)
  with t show ?thesis
    by (auto simp: tok_name_eq str_def unat_of_char)
qed

lemma name_ok_octets:
  "name_ok name \<Longrightarrow> length (name_octets name) < 2 ^ 32 \<and>
    (name_octets name = [] \<or> hd (name_octets name) = of_char CHR '':'' \<or>
     (\<forall>c \<in> set (name_octets name). \<not> is_upper c))"
  using tok_name_ok by (cases name) (force simp: name_ok_def)+

definition interned :: "octets \<Rightarrow> hname" where
  "interned s = (case h2o_lookup_token s of Some t \<Rightarrow> Token t | None \<Rightarrow> Buf s)"

lemma interned_octets [simp]: "name_octets (interned s) = s"
  by (auto simp: interned_def dest: lookup_token_sound split: option.split)

lemma literal_name_encode:
  assumes "name_ok name"
  shows "literal_name (encode_string (name_octets name) @ rest) =
    Inr (interned (name_octets name), string_soft_errors 0 (name_octets name) True, rest)"
  using decode_encode_string [of "name_octets name" True 0 rest] name_ok_octets [OF assms]
  by (auto simp: literal_name_def interned_def)

text \<open>The name that an index stands for, on the decoder's side.\<close>

text \<open>
  What is known of a pair of entries that stand for each other in the two tables. In a \<open>clean\<close>
  conversation the decoder's entry also has the name as the parser compares it and no soft errors.
\<close>

definition ent_link :: "bool \<Rightarrow> header_table_entry \<Rightarrow> header_table_entry \<Rightarrow> bool" where
  "ent_link clean e e' \<longleftrightarrow> ent_rel e e' \<and>
    (clean \<longrightarrow> ent_name e' = interned (name_octets (ent_name e')) \<and> ent_soft_errors e' = 0)"

lemma ent_link_size: "ent_link clean e e' \<Longrightarrow> ent_size e = ent_size e'"
  by (simp add: ent_link_def ent_rel_size)

lemma ent_link_False: "ent_link False = ent_rel"
  by (intro ext) (simp add: ent_link_def)

lemma interned_token: "t < 85 \<Longrightarrow> interned (tok_name t) = Token t"
  by (simp add: interned_def lookup_token_complete)

lemma indexed_name:
  assumes st: "ht.in_step (ent_link clean) te td" and name: "name_ok name" and ni: "ni \<noteq> 0"
    and idx: "ni = static_name_index_of name \<or> (\<exists>k < num_entries te. ni = k + HEADER_TABLE_OFFSET \<and>
      name_octets (ent_name (table_list te ! k)) = name_octets name)"
  shows "\<exists>name' v se. indexed_header td ni = Inr (name', v, se) \<and> name_octets name' = name_octets name \<and>
    (clean \<longrightarrow> name' = interned (name_octets name) \<and> se = 0)"
  using idx
proof
  assume ni': "ni = static_name_index_of name"
  with ni obtain t where t: "name = Token t" "ni = http2_static_table_name_index (h2o__tokens ! t)"
    by (cases name) (auto simp: static_name_index_of_def)
  with name have t85: "t < 85" by (simp add: name_ok_def)
  obtain t' v where e: "h2o_hpack_static_table ! (ni - 1) = (t', v)" by fastforce
  have "t' = t" "ni \<le> 61"
    using static_name_index [OF t85 t(2)] ni e by auto
  then show ?thesis
    using e t ni interned_token [OF t85] by (simp add: indexed_header_def length_static_table HEADER_TABLE_OFFSET_def)
next
  assume "\<exists>k < num_entries te. ni = k + HEADER_TABLE_OFFSET \<and>
      name_octets (ent_name (table_list te ! k)) = name_octets name"
  then obtain k where k: "k < num_entries te" "ni = k + HEADER_TABLE_OFFSET"
    "name_octets (ent_name (table_list te ! k)) = name_octets name" by blast
  with ht.in_step_lookup [OF st, of k] show ?thesis
    by (auto simp: indexed_header_def HEADER_TABLE_OFFSET_def ent_rel_def ent_link_def)
qed

lemma num_entries_le_capacity: "table_inv t \<Longrightarrow> num_entries t \<le> hpack_capacity t"
proof -
  assume inv: "table_inv t"
  have "length es \<le> total ent_size es" for es
    by (induction es) (auto simp: entry_size_def HEADER_TABLE_ENTRY_SIZE_OFFSET_def)
  from this [of "table_list t"] ht.bounded [OF inv] show ?thesis by simp
qed

lemma static_name_index_le: "name_ok name \<Longrightarrow> static_name_index_of name \<le> 61"
proof (cases name)
  case (Token t)
  then show "name_ok name \<Longrightarrow> ?thesis"
    using static_name_index [of t, OF _ refl]
    by (cases "http2_static_table_name_index (h2o__tokens ! t) = 0")
      (simp_all add: static_name_index_of_def name_ok_def)
qed (simp add: static_name_index_of_def)

lemma encode_decode_header:
  assumes st: "ht.in_step (ent_link clean) te td" and cap: "hpack_capacity te < 2 ^ 32"
    and name: "name_ok name" and v: "length v < 2 ^ 32"
    and dc: "bypass_compression name v dc \<Longrightarrow> static_name_index_of name \<noteq> 0"
    and clean: "clean \<Longrightarrow> string_soft_errors 0 (name_octets name) True = 0 \<and> string_soft_errors 0 v False = 0"
  shows "\<exists>out te' h td'. do_encode_header te name v dc = Some (out, te') \<and>
    decode_header td (out @ rest) = Inr (h, td', rest) \<and>
    name_octets (dh_name h) = name_octets name \<and> dh_value h = v \<and>
    (clean \<longrightarrow> dh_ret h = (H2O_HTTP2_ERROR_NONE, None) \<and> dh_name h = interned (name_octets name)) \<and>
    ht.in_step (ent_link clean) te' td' \<and> hpack_capacity te' = hpack_capacity te \<and>
    hpack_max_capacity td' = hpack_max_capacity td"
proof -
  have inv: "table_inv te" "table_inv td"
    using st by (auto simp: ht.in_step_def)
  have num: "num_entries te < 2 ^ 32"
    using num_entries_le_capacity [OF inv(1)] cap by simp
  have static: "static_name_index_of name \<le> 61"
    using name by (rule static_name_index_le)
  obtain r ni where s: "search_entries te name v (num_entries te) (entry_start_index te)
      (static_name_index_of name) = Some (r, ni)"
    and res: "search_result te name v (static_name_index_of name) (r, ni)"
    using search_from_start [OF inv(1)] by blast
  show ?thesis
  proof (cases r)
    case (Some index)
    then obtain k where k: "k < num_entries te" "index = k + HEADER_TABLE_OFFSET"
      "name_octets (ent_name (table_list te ! k)) = name_octets name" "ent_value (table_list te ! k) = v"
      using res by (auto simp: search_result_def)
    then obtain e where e: "header_table_get td k = Some e" "ent_link clean (table_list te ! k) e" "k < num_entries td"
      using ht.in_step_lookup [OF st, of k] by auto
    have "decode_header td (encode_int 0x80 (int index) 7 @ rest) = decode_header_field td rest index True False"
      using k num by (intro decode_header_indexed) (simp_all add: HEADER_TABLE_OFFSET_def)
    also have "\<dots> = Inr (\<lparr>dh_ret = soft_error_result (ent_soft_errors e), dh_name = ent_name e,
        dh_value = ent_value e\<rparr>, td, rest)"
      using k e by (simp add: decode_header_field_def indexed_header_def HEADER_TABLE_OFFSET_def)
    finally show ?thesis
      using Some s st k e by (auto simp: do_encode_header_def ent_link_def ent_rel_def soft_error_result_def)
  next
    case None
    have idx: "ni = static_name_index_of name \<or> (\<exists>k < num_entries te. ni = k + HEADER_TABLE_OFFSET \<and>
        name_octets (ent_name (table_list te ! k)) = name_octets name)"
      using res [unfolded None search_result_def prod.case option.case] by blast
    have ni_bound: "ni < 2 ^ 63"
      using idx static num by (auto simp: HEADER_TABLE_OFFSET_def)
    let ?dc = "bypass_compression name v dc"
    have dc_ni: "ni \<noteq> 0" if ?dc
      using dc [OF that] idx by (auto simp: HEADER_TABLE_OFFSET_def)
    define head where "head = (if ni \<noteq> 0 then
        (if ?dc then encode_int 0x10 (int ni) 4 else encode_int 0x40 (int ni) 6)
      else 0x40 # encode_string (name_octets name))"
    obtain name' se where name': "name_octets name' = name_octets name"
      and clean': "clean \<Longrightarrow> name' = interned (name_octets name) \<and> se = 0"
      and field: "\<And>rest. decode_header td (head @ rest) = (case decode_string (se AND 0xfffffffd) rest False of
           Inl OUT_OF_BOUNDS \<Rightarrow> Inl (READ_PAST_END, None)
            | Inl (NULL d) \<Rightarrow> Inl (H2O_HTTP2_ERROR_COMPRESSION, d)
         | Inr (v', se', src2) \<Rightarrow>
             (case (if \<not> ?dc then header_table_insert td \<lparr>ent_name = name', ent_value = v', ent_soft_errors = se'\<rparr> None
                    else Some td) of
                None \<Rightarrow> Inl (ASSERTION_FAILED, None)
              | Some td' \<Rightarrow> Inr (\<lparr>dh_ret = soft_error_result se', dh_name = name', dh_value = v'\<rparr>, td', src2)))"
    proof (cases "ni = 0")
      case True
      with dc_ni have "\<not> ?dc" by blast
      with True clean show ?thesis
        by (intro that [of "interned (name_octets name)" "string_soft_errors 0 (name_octets name) True"])
          (simp_all add: head_def decode_header_new_name decode_header_field_def literal_name_encode [OF name]
            split: sum.split string_failure.split)
    next
      case False
      then have pos: "0 < ni" by simp
      from False indexed_name [OF st name False idx] obtain name' v' se where
        "indexed_header td ni = Inr (name', v', se)" "name_octets name' = name_octets name"
        "clean \<longrightarrow> name' = interned (name_octets name) \<and> se = 0" by blast
      with False show ?thesis
        by (intro that [of name' se])
          (simp_all add: head_def decode_header_incremental [OF pos ni_bound]
            decode_header_unindexed [OF disjI2 [OF refl] pos ni_bound] decode_header_field_def split: sum.split string_failure.split)
    qed
    show ?thesis
    proof (cases ?dc)
      case True
      have "do_encode_header te name v dc = Some (head @ encode_as_is v, te)"
        using s None True by (simp add: do_encode_header_def head_def)
      moreover have "decode_header td ((head @ encode_as_is v) @ rest) =
          Inr (\<lparr>dh_ret = soft_error_result (string_soft_errors (se AND 0xfffffffd) v False),
            dh_name = name', dh_value = v\<rparr>, td, rest)"
        using True v decode_encode_as_is [of v False "se AND 0xfffffffd" rest] field by simp
      ultimately show ?thesis
        using name' st clean clean' by (auto simp: soft_error_result_def)
    next
      case False
      let ?e = "\<lparr>ent_name = name, ent_value = v, ent_soft_errors = 0\<rparr>"
      let ?se = "string_soft_errors (se AND 0xfffffffd) v False"
      let ?e' = "\<lparr>ent_name = name', ent_value = v, ent_soft_errors = ?se\<rparr>"
      obtain te' where te': "header_table_insert te ?e (Some 32) = Some te'" "hpack_capacity te' = hpack_capacity te"
        using insert_ok [OF inv(1), of "Some 32" ?e] by auto
      obtain td' where td': "header_table_insert td ?e' None = Some td'" "hpack_max_capacity td' = hpack_max_capacity td"
        using insert_ok [OF inv(2), of None ?e'] by auto
      have "do_encode_header te name v dc = Some (head @ encode_string v, te')"
        using s None False te' by (simp add: do_encode_header_def head_def)
      moreover have "decode_header td ((head @ encode_string v) @ rest) =
          Inr (\<lparr>dh_ret = soft_error_result ?se, dh_name = name', dh_value = v\<rparr>, td', rest)"
        using False v decode_encode_string [of v False "se AND 0xfffffffd" rest] field td' by simp
      moreover have "ent_link clean ?e ?e'"
        using name' clean clean' by (auto simp: ent_link_def ent_rel_def)
      then have "ht.in_step (ent_link clean) te' td'"
        using ht.in_step_insert [OF st _ ent_link_size _ te'(1) td'(1)] by simp
      ultimately show ?thesis
        using name' te' td' clean clean' by (auto simp: soft_error_result_def)
    qed
  qed
qed

text \<open>\<open>in_step\<close> of the contract, written out over the ring buffers.\<close>

definition tables_in_step :: "header_table \<Rightarrow> header_table \<Rightarrow> bool" where
  "tables_in_step te td \<longleftrightarrow> table_inv te \<and> table_inv td \<and> hpack_capacity te = hpack_capacity td \<and>
    (\<exists>newest older. table_list td = newest @ older \<and> list_all2 ent_rel (table_list te) newest)"

lemma tables_in_step_iff: "tables_in_step te td \<longleftrightarrow> ht.in_step ent_rel te td"
  by (simp add: tables_in_step_def ht.in_step_def)

lemma tables_in_step_refl: "table_inv t \<Longrightarrow> tables_in_step t t"
  unfolding tables_in_step_def
  by (intro conjI exI [of _ "table_list t"] exI [of _ "[]"]) (simp_all add: ent_rel_def list_all2_same)

lemma tables_in_step_empty [simp]: "tables_in_step (empty_table c) (empty_table c)"
  by (simp add: tables_in_step_refl)

text \<open>The tokens that ask not to be compressed have an index in the static table.\<close>

lemma dont_compress_indexed: "t < 85 \<Longrightarrow> tok_dont_compress (h2o__tokens ! t) \<Longrightarrow>
    http2_static_table_name_index (h2o__tokens ! t) \<noteq> 0"
proof -
  have "list_all (\<lambda>tk. tok_dont_compress tk \<longrightarrow> http2_static_table_name_index tk \<noteq> 0) h2o__tokens"
    by (simp add: h2o__tokens_def token_def del: str_Cons)
  then show "t < 85 \<Longrightarrow> tok_dont_compress (h2o__tokens ! t) \<Longrightarrow> ?thesis"
    by (simp add: list_all_length length_tokens)
qed

lemma bypass_token:
  assumes "name_ok name" "bypass_compression name v dc" "dc \<Longrightarrow> static_name_index_of name \<noteq> 0"
  shows "static_name_index_of name \<noteq> 0"
proof (cases dc)
  case False
  with assms(2) obtain t where "name = Token t" "tok_dont_compress (h2o__tokens ! t)"
    by (cases name) (auto simp: bypass_compression_def Let_def split: if_splits)
  with assms(1) dont_compress_indexed show ?thesis
    by (simp add: name_ok_def static_name_index_of_def)
qed (use assms in simp)

section \<open>Properties\<close>

text \<open>
  C11. \<^verbatim>\<open>h2o_hpack_decode_header\<close> is safe on every input: no assertion fails, no empty slot is
  used, nothing is read out of bounds, the table keeps its invariant, its capacity stays below the maximum that was announced,
  and the octets that remain are no more than those that were given.
\<close>

theorem decode_header_safe:
  assumes "table_inv table" "hpack_capacity table \<le> hpack_max_capacity table"
  shows "case decode_header table src of
      Inl (e, d) \<Rightarrow> e \<noteq> ASSERTION_FAILED \<and> e \<noteq> READ_PAST_END
    | Inr (h, table', rest) \<Rightarrow> table_inv table' \<and> hpack_capacity table' \<le> hpack_max_capacity table' \<and>
        hpack_max_capacity table' = hpack_max_capacity table \<and> length rest \<le> length src"
  using decode_header_ok [OF assms(1), of src] assms(2) by (auto simp: decode_ok_def split: sum.splits)

theorem decode_header_safe_witness:
  "case decode_header (empty_table 4096) [0x82, 0xbe] of
      Inl (e, d) \<Rightarrow> e \<noteq> ASSERTION_FAILED \<and> e \<noteq> READ_PAST_END
    | Inr (h, table', rest) \<Rightarrow> table_inv table' \<and> hpack_capacity table' \<le> hpack_max_capacity table' \<and>
        hpack_max_capacity table' = hpack_max_capacity (empty_table 4096) \<and> length rest \<le> length [0x82, 0xbe :: u8]"
  by (rule decode_header_safe [OF empty_table_inv(1)]) (simp add: empty_table_def)

text \<open>
  C25. Round trip of a header: whatever \<^verbatim>\<open>do_encode_header\<close> sends (an index, a literal with an
  indexed or a new name, with or without an entry in the table), a decoder whose table is in step
  with the encoder's reads the same name and value, leaves the octets that follow, and both tables
  are in step again, although the encoder keeps at most 32 entries and the decoder does not. The
  header flag \<^verbatim>\<open>dont_compress\<close> may be set only for names of the static table.
\<close>

theorem header_roundtrip:
  assumes "tables_in_step te td" "hpack_capacity te < 2 ^ 32" "name_ok name" "length v < 2 ^ 32"
    and "dont_compress \<Longrightarrow> static_name_index_of name \<noteq> 0"
  shows "\<exists>out te' h td'. do_encode_header te name v dont_compress = Some (out, te') \<and>
    decode_header td (out @ rest) = Inr (h, td', rest) \<and>
    name_octets (dh_name h) = name_octets name \<and> dh_value h = v \<and> tables_in_step te' td'"
  using encode_decode_header [of False te td name v dont_compress rest] assms bypass_token [of name v dont_compress]
  by (auto simp: tables_in_step_iff ent_link_False)

theorem header_roundtrip_witness:
  "\<exists>out te' h td'. do_encode_header (empty_table 4096) (Buf (str ''x-a'')) (str ''b'') False = Some (out, te') \<and>
    decode_header (empty_table 4096) (out @ [0x82]) = Inr (h, td', [0x82]) \<and>
    name_octets (dh_name h) = str ''x-a'' \<and> dh_value h = str ''b'' \<and> tables_in_step te' td'"
  using header_roundtrip [of "empty_table 4096" "empty_table 4096" "Buf (str ''x-a'')" "str ''b''" False "[0x82]"]
  by (simp add: name_ok_def)

text \<open>
  C26. The restriction on \<^verbatim>\<open>dont_compress\<close> is needed: for a header that carries the flag and whose
  name is neither a token nor in the table, \<^verbatim>\<open>do_encode_header\<close> sends the octet \<^verbatim>\<open>0x40\<close>, a literal
  with incremental indexing, but does not add the header to its own table. The decoder does add it,
  and unless the encoder's table is empty the two tables are no longer in step, so that the next
  indices that the encoder sends denote other headers for the decoder.
\<close>

theorem dont_compress_breaks_step:
  assumes st: "tables_in_step te td" and name: "name_ok (Buf s)" and v: "length v < 20"
    and new: "\<forall>e \<in> set (table_list te). name_octets (ent_name e) \<noteq> s" and ne: "table_list te \<noteq> []"
    and fits: "length s + length v + 32 \<le> hpack_capacity te"
  shows "\<exists>out h td'. do_encode_header te (Buf s) v True = Some (out, te) \<and>
    decode_header td (out @ rest) = Inr (h, td', rest) \<and>
    name_octets (dh_name h) = s \<and> dh_value h = v \<and> \<not> tables_in_step te td'"
proof -
  have inv: "table_inv te" "table_inv td" and cap: "hpack_capacity td = hpack_capacity te"
    using st by (auto simp: tables_in_step_def)
  have start: "0 < num_entries te \<Longrightarrow> entry_start_index te = header_table_slot te (num_entries te - num_entries te)"
    using inv(1) slot_0 [of te] by (simp add: table_inv_def)
  obtain r ni where s: "search_entries te (Buf s) v (num_entries te) (entry_start_index te) 0 = Some (r, ni)"
    and res: "search_result te (Buf s) v 0 (r, ni)"
    using search_entries_ok [OF inv(1) order_refl start, of "Buf s" v 0] by auto
  have "name_octets (ent_name (table_list te ! k)) \<noteq> s" if "k < num_entries te" for k
    using new nth_mem [of k "table_list te"] that by simp
  with res have rn: "r = None" "ni = 0"
    by (auto simp: search_result_def split: option.splits)
  let ?out = "0x40 # encode_string s @ encode_as_is v"
  have "do_encode_header te (Buf s) v True = Some (?out, te)"
    using s v by (simp add: do_encode_header_def static_name_index_of_def rn bypass_compression_def)
  moreover let ?se = "string_soft_errors (string_soft_errors 0 s True AND 0xfffffffd) v False"
  let ?e = "\<lparr>ent_name = interned s, ent_value = v, ent_soft_errors = ?se\<rparr>"
  obtain td' where td': "header_table_insert td ?e None = Some td'"
    "table_list td' = fifo_insert ent_size (hpack_capacity td) None ?e (table_list td)"
    using insert_ok [OF inv(2), of None ?e] by auto
  have "decode_header td (?out @ rest) =
      Inr (\<lparr>dh_ret = soft_error_result ?se, dh_name = interned s, dh_value = v\<rparr>, td', rest)"
    using literal_name_encode [OF name, of "encode_as_is v @ rest"] v td'(1)
      decode_encode_as_is [of v False "string_soft_errors 0 s True AND 0xfffffffd" rest]
    by (simp add: decode_header_new_name decode_header_field_def)
  moreover have "\<exists>es. table_list td' = ?e # es"
    using td'(2) fits cap
    by (simp add: fifo_insert_def at_most_def entry_size_def HEADER_TABLE_ENTRY_SIZE_OFFSET_def)
  then have "\<not> tables_in_step te td'"
    using ne new by (cases "table_list te") (auto simp: tables_in_step_def list_all2_Cons1 ent_rel_def)
  ultimately show ?thesis by simp
qed

theorem dont_compress_breaks_step_witness:
  "\<exists>te td out h td'. tables_in_step te td \<and>
    do_encode_header te (Buf (str ''x-b'')) (str ''c'') True = Some (out, te) \<and>
    decode_header td (out @ []) = Inr (h, td', []) \<and> \<not> tables_in_step te td'"
proof -
  let ?e = "\<lparr>ent_name = Buf (str ''x-a''), ent_value = str ''b'', ent_soft_errors = 0\<rparr>"
  obtain t where t: "table_inv t" "table_list t = [?e]" "hpack_capacity t = 4096"
    using insert_ok [OF empty_table_inv(1), of None 4096 ?e]
    by (auto simp: fifo_insert_def at_most_def entry_size_def HEADER_TABLE_ENTRY_SIZE_OFFSET_def)
  then have "tables_in_step t t"
    by (simp add: tables_in_step_refl)
  with t dont_compress_breaks_step [of t t "str ''x-b''" "str ''c''" "[]"] show ?thesis
    by (fastforce simp: name_ok_def)
qed

end
