(* ===== verification/String_Util.thy ===== *)
theory String_Util
  imports Prelude
begin

text \<open>
  The string functions of \<^verbatim>\<open>lib/common/string.c\<close> and the inline functions of
  \<^verbatim>\<open>include/h2o/string_.h\<close>: case-insensitive comparison, number parsing, base64, hexadecimal and
  URI escaping, token iteration, HTML escaping, splitting and joining. A string is the list of its
  octets; comparisons of \<^verbatim>\<open>char\<close> with ASCII constants do not depend on the sign of \<^verbatim>\<open>char\<close>.
\<close>

section \<open>Character classes and letter case\<close>

abbreviation chr :: "char \<Rightarrow> u8" where
  "chr c \<equiv> of_char c"

definition is_digit :: "u8 \<Rightarrow> bool" where
  "is_digit ch \<longleftrightarrow> 0x30 \<le> ch \<and> ch \<le> 0x39"

definition h2o_tolower :: "u8 \<Rightarrow> u8" where
  "h2o_tolower ch = (if 0x41 \<le> ch \<and> ch \<le> 0x5a then ch + 0x20 else ch)"

definition h2o_toupper :: "u8 \<Rightarrow> u8" where
  "h2o_toupper ch = (if 0x61 \<le> ch \<and> ch \<le> 0x7a then ch - 0x20 else ch)"

fun h2o_strcopytolower :: "octets \<Rightarrow> octets" where
  "h2o_strcopytolower [] = []"
| "h2o_strcopytolower (c # s) = h2o_tolower c # h2o_strcopytolower s"

fun h2o_strtoupper :: "octets \<Rightarrow> octets" where
  "h2o_strtoupper [] = []"
| "h2o_strtoupper (c # s) = h2o_toupper c # h2o_strtoupper s"

text \<open>\<^verbatim>\<open>h2o__lcstris_core\<close>; both strings have the same length.\<close>

fun lcstris_core :: "octets \<Rightarrow> octets \<Rightarrow> bool" where
  "lcstris_core target [] = True"
| "lcstris_core (c # target) (t # test) = (if h2o_tolower c \<noteq> t then False else lcstris_core target test)"
| "lcstris_core [] (t # test) = False"

definition h2o_lcstris :: "octets \<Rightarrow> octets \<Rightarrow> bool" where
  "h2o_lcstris target test = (if length target \<noteq> length test then False else lcstris_core target test)"

section \<open>Copies\<close>

definition h2o_strdup_slashed :: "octets \<Rightarrow> octets" where
  "h2o_strdup_slashed s = (if s \<noteq> [] \<and> last s \<noteq> chr CHR ''/'' then s @ [chr CHR ''/''] else s)"

section \<open>Numbers\<close>

text \<open>
  \<^verbatim>\<open>h2o_strtosize\<close> reads the digits from the last one on; the argument of the loop is the reversed
  string. \<^term>\<open>None\<close> is the result \<^verbatim>\<open>SIZE_MAX\<close>.
\<close>

fun strtosize_loop :: "u64 \<Rightarrow> u64 \<Rightarrow> octets \<Rightarrow> u64 option" where
  "strtosize_loop v m [] = None"
| "strtosize_loop v m (ch # p) =
     (if \<not> is_digit ch then None
      else
        (let v' = v + ucast (ch - 0x30) * m
         in if p = [] then Some v'
            else
              (let m' = m * 10
               in if m' = 10000000000000000000 then None else strtosize_loop v' m' p)))"

definition h2o_strtosize :: "octets \<Rightarrow> u64 option" where
  "h2o_strtosize s =
    (if s = [] then None
     else
       (case strtosize_loop 0 1 (rev s) of
          None \<Rightarrow> None
        | Some v \<Rightarrow> if v \<ge> 0xffffffffffffffff then None else Some v))"

text \<open>The decimal text that \<^verbatim>\<open>sprintf\<close> writes for \<^verbatim>\<open>%u\<close>.\<close>

fun sprintf_u :: "nat \<Rightarrow> octets" where
  "sprintf_u n = (if n < 10 then [of_nat (n + 48)] else sprintf_u (n div 10) @ [of_nat (n mod 10 + 48)])"

declare sprintf_u.simps [simp del]

text \<open>
  \<^verbatim>\<open>h2o_strtosizefwd\<close> reads through the pointer \<^verbatim>\<open>*s\<close>; \<open>mem\<close> is the memory from there on, so that a
  read beyond it is visible. The result is the number and the new position of the pointer.
\<close>

datatype str_err = STR_ERROR | STR_READ_PAST_END

function strtosizefwd_loop :: "octets \<Rightarrow> nat \<Rightarrow> nat \<Rightarrow> u64 \<Rightarrow> nat \<Rightarrow> str_err + (u64 \<times> nat)" where
  "strtosizefwd_loop mem p_end p v c =
    (if c \<ge> 20 then Inl STR_ERROR
     else if p \<ge> length mem then Inl STR_READ_PAST_END
     else
       (let ch = mem ! p
        in if \<not> is_digit ch then Inr (v, p)
           else
             (let v' = v * 10 + ucast (ch - 0x30)
              in if p + 1 = p_end then Inr (v', p + 1)
                 else if c + 1 = 20 then Inl STR_ERROR
                 else strtosizefwd_loop mem p_end (p + 1) v' (c + 1))))"
  by pat_completeness auto
termination
  by (relation "measure (\<lambda>(mem, p_end, p, v, c). 20 - c)") auto

declare strtosizefwd_loop.simps [simp del]

definition h2o_strtosizefwd :: "octets \<Rightarrow> nat \<Rightarrow> str_err + (u64 \<times> nat)" where
  "h2o_strtosizefwd mem len =
    (if len = 0 then Inl STR_ERROR
     else if mem = [] then Inl STR_READ_PAST_END
     else if \<not> is_digit (hd mem) then Inl STR_ERROR
     else
       (case strtosizefwd_loop mem len 1 (ucast (hd mem - 0x30)) 1 of
          Inl e \<Rightarrow> Inl e
        | Inr (v, p) \<Rightarrow> if v \<ge> 0xffffffffffffffff then Inl STR_ERROR else Inr (v, p)))"

section \<open>Base64\<close>

definition base64_digit :: "u8 \<Rightarrow> u32 option" where
  "base64_digit ch =
    (if 0x41 \<le> ch \<and> ch \<le> 0x5a then Some (ucast (ch - 0x41))
     else if 0x61 \<le> ch \<and> ch \<le> 0x7a then Some (ucast (ch - 0x61 + 26))
     else if 0x30 \<le> ch \<and> ch \<le> 0x39 then Some (ucast (ch - 0x30 + 52))
     else if ch = 0x2d then Some 62
     else if ch = 0x5f then Some 63
     else if ch = 0x2b then Some 62
     else if ch = 0x2f then Some 63
     else None)"

text \<open>\<^term>\<open>None\<close> is \<^verbatim>\<open>UINT32_MAX\<close>.\<close>

fun decode_base64url_quad :: "u32 \<Rightarrow> octets \<Rightarrow> u32 option" where
  "decode_base64url_quad decoded [] = Some decoded"
| "decode_base64url_quad decoded (ch # src) =
     (case base64_digit ch of
        None \<Rightarrow> None
      | Some d \<Rightarrow>
          (if src = [] then Some (decoded OR d)
           else decode_base64url_quad (push_bit 6 (decoded OR d)) src))"

fun h2o_decode_base64url :: "octets \<Rightarrow> octets option" where
  "h2o_decode_base64url (a # b # c # d # src) =
     (case decode_base64url_quad 0 [a, b, c, d] of
        None \<Rightarrow> None
      | Some t \<Rightarrow>
          map_option (\<lambda>r. ucast (drop_bit 16 t) # ucast (drop_bit 8 t) # ucast t # r)
            (h2o_decode_base64url src))"
| "h2o_decode_base64url [] = Some []"
| "h2o_decode_base64url [a] = None"
| "h2o_decode_base64url [a, b] =
     map_option (\<lambda>t. [ucast (drop_bit 16 t)]) (decode_base64url_quad 0 [a, b, 0x41, 0x41])"
| "h2o_decode_base64url [a, b, c] =
     map_option (\<lambda>t. [ucast (drop_bit 16 t), ucast (drop_bit 8 t)])
       (decode_base64url_quad 0 [a, b, c, 0x41])"

definition base64_map :: "bool \<Rightarrow> octets" where
  "base64_map url_encoded =
    (if url_encoded
     then str ''ABCDEFGHIJKLMNOPQRSTUVWXYZabcdefghijklmnopqrstuvwxyz0123456789-_''
     else str ''ABCDEFGHIJKLMNOPQRSTUVWXYZabcdefghijklmnopqrstuvwxyz0123456789+/'')"

definition base64_char :: "bool \<Rightarrow> u32 \<Rightarrow> u8" where
  "base64_char url_encoded d = base64_map url_encoded ! unat d"

fun h2o_base64_encode :: "octets \<Rightarrow> bool \<Rightarrow> octets" where
  "h2o_base64_encode (x # y # z # src) url_encoded =
     (let quad = push_bit 16 (ucast x) OR push_bit 8 (ucast y) OR ucast z
      in base64_char url_encoded (drop_bit 18 quad) #
         base64_char url_encoded (drop_bit 12 quad AND 63) #
         base64_char url_encoded (drop_bit 6 quad AND 63) #
         base64_char url_encoded (quad AND 63) # h2o_base64_encode src url_encoded)"
| "h2o_base64_encode [] url_encoded = []"
| "h2o_base64_encode [x] url_encoded =
     (let quad = push_bit 16 (ucast x)
      in base64_char url_encoded (drop_bit 18 quad) #
         base64_char url_encoded (drop_bit 12 quad AND 63) #
         (if \<not> url_encoded then [chr CHR ''='', chr CHR ''=''] else []))"
| "h2o_base64_encode [x, y] url_encoded =
     (let quad = push_bit 16 (ucast x) OR push_bit 8 (ucast y)
      in base64_char url_encoded (drop_bit 18 quad) #
         base64_char url_encoded (drop_bit 12 quad AND 63) #
         base64_char url_encoded (drop_bit 6 quad AND 63) #
         (if \<not> url_encoded then [chr CHR ''=''] else []))"

definition h2o_base64_encode_capacity :: "nat \<Rightarrow> nat" where
  "h2o_base64_encode_capacity len = (len + 2) div 3 * 4 + 1"

section \<open>Hexadecimal\<close>

definition decode_hex :: "u8 \<Rightarrow> u8 option" where
  "decode_hex ch =
    (if 0x30 \<le> ch \<and> ch \<le> 0x39 then Some (ch - 0x30)
     else if 0x41 \<le> ch \<and> ch \<le> 0x46 then Some (ch - 0x41 + 0xa)
     else if 0x61 \<le> ch \<and> ch \<le> 0x66 then Some (ch - 0x61 + 0xa)
     else None)"

text \<open>The octets stored at \<^verbatim>\<open>dst\<close>, or \<^term>\<open>None\<close> for the result -1.\<close>

fun hex_decode_loop :: "octets \<Rightarrow> octets option" where
  "hex_decode_loop [] = Some []"
| "hex_decode_loop [c] = None"
| "hex_decode_loop (c # d # src) =
     (case decode_hex c of
        None \<Rightarrow> None
      | Some hi \<Rightarrow>
          (case decode_hex d of
             None \<Rightarrow> None
           | Some lo \<Rightarrow> map_option (\<lambda>r. (push_bit 4 hi OR lo) # r) (hex_decode_loop src)))"

definition h2o_hex_decode :: "octets \<Rightarrow> octets option" where
  "h2o_hex_decode src = (if length src mod 2 \<noteq> 0 then None else hex_decode_loop src)"

definition hex_digit :: "bool \<Rightarrow> u8 \<Rightarrow> u8" where
  "hex_digit upper d =
    (if upper then str ''0123456789ABCDEF'' else str ''0123456789abcdef'') ! unat d"

fun h2o_hex_encode :: "octets \<Rightarrow> octets" where
  "h2o_hex_encode [] = []"
| "h2o_hex_encode (b # src) = hex_digit False (drop_bit 4 b) # hex_digit False (b AND 0xf) # h2o_hex_encode src"

section \<open>URI escaping\<close>

text \<open>\<open>preserve_chars\<close> is \<^term>\<open>None\<close> for the \<^verbatim>\<open>NULL\<close> pointer.\<close>

definition uri_unreserved :: "octets option \<Rightarrow> u8 \<Rightarrow> bool" where
  "uri_unreserved preserve_chars ch \<longleftrightarrow>
    (0x41 \<le> ch \<and> ch \<le> 0x5a) \<or> (0x61 \<le> ch \<and> ch \<le> 0x7a) \<or> (0x30 \<le> ch \<and> ch \<le> 0x39) \<or>
    ch \<in> set (str ''-._~!$&'' @ [0x27] @ str ''()*+,;='') \<or>
    (ch \<noteq> 0 \<and> (case preserve_chars of None \<Rightarrow> False | Some cs \<Rightarrow> ch \<in> set cs))"

fun h2o_uri_escape :: "octets \<Rightarrow> octets option \<Rightarrow> octets" where
  "h2o_uri_escape [] preserve_chars = []"
| "h2o_uri_escape (ch # s) preserve_chars =
     (if uri_unreserved preserve_chars ch then ch # h2o_uri_escape s preserve_chars
      else chr CHR ''%'' # hex_digit True (drop_bit 4 ch AND 0xf) # hex_digit True (ch AND 0xf) #
             h2o_uri_escape s preserve_chars)"

text \<open>\<^term>\<open>None\<close> is the result \<^verbatim>\<open>{NULL, 0}\<close>.\<close>

fun h2o_uri_unescape :: "octets \<Rightarrow> octets option" where
  "h2o_uri_unescape [] = Some []"
| "h2o_uri_unescape (c # s) =
     (if c = chr CHR ''%''
      then
        (case s of
           h # l # s' \<Rightarrow>
             (case decode_hex h of
                None \<Rightarrow> None
              | Some hi \<Rightarrow>
                  (case decode_hex l of
                     None \<Rightarrow> None
                   | Some lo \<Rightarrow>
                       (if hi = 0 \<and> lo = 0 then None
                        else map_option ((#) (push_bit 4 hi OR lo)) (h2o_uri_unescape s'))))
         | _ \<Rightarrow> None)
      else map_option ((#) c) (h2o_uri_unescape s))"

section \<open>Searching and white space\<close>

text \<open>
  \<^verbatim>\<open>h2o_get_filext\<close> walks down from the end of the path; \<open>p\<close> is the pointer before the decrement of
  the loop condition. A decrement below the start of the path is \<^term>\<open>STR_READ_PAST_END\<close>; the result
  is the extension, or \<^term>\<open>None\<close>.
\<close>

fun get_filext_loop :: "octets \<Rightarrow> nat \<Rightarrow> str_err + octets option" where
  "get_filext_loop path 0 = Inl STR_READ_PAST_END"
| "get_filext_loop path (Suc p) =
     (if p = 0 then Inr None
      else if path ! p = chr CHR ''.'' then Inr (Some (drop (p + 1) path))
      else if path ! p = chr CHR ''/'' then Inr None
      else get_filext_loop path p)"

definition h2o_get_filext :: "octets \<Rightarrow> str_err + octets option" where
  "h2o_get_filext path = get_filext_loop path (length path)"

definition is_ws :: "u8 \<Rightarrow> bool" where
  "is_ws ch \<longleftrightarrow> ch = 0x20 \<or> ch = 0x09 \<or> ch = 0x0d \<or> ch = 0x0a"

definition h2o_str_stripws :: "octets \<Rightarrow> octets" where
  "h2o_str_stripws s = rev (dropWhile is_ws (rev (dropWhile is_ws s)))"

fun strstr_loop :: "nat \<Rightarrow> octets \<Rightarrow> octets \<Rightarrow> nat option" where
  "strstr_loop off haysack needle =
     (if length haysack < length needle then None
      else if hd haysack = hd needle \<and> take (length needle - 1) (tl haysack) = tl needle then Some off
      else
        (case haysack of
           [] \<Rightarrow> None
         | c # rest \<Rightarrow> strstr_loop (off + 1) rest needle))"

declare strstr_loop.simps [simp del]

definition h2o_strstr :: "octets \<Rightarrow> octets \<Rightarrow> nat option" where
  "h2o_strstr haysack needle =
    (if length haysack \<ge> length needle
     then if needle = [] then Some 0 else strstr_loop 0 haysack needle
     else None)"

section \<open>Tokens\<close>

definition is_blank :: "u8 \<Rightarrow> bool" where
  "is_blank ch \<longleftrightarrow> ch = 0x20 \<or> ch = 0x09"

text \<open>
  The second loop of \<^verbatim>\<open>h2o_next_token\<close>: \<open>n\<close> is the distance of the cursor from the start of the token,
  \<open>e\<close> the distance of \<^verbatim>\<open>token_end\<close>. The result is the final \<open>e\<close>, the octets from the cursor on, and
  whether the loop was left by \<^verbatim>\<open>goto FindValue\<close>.
\<close>

fun token_loop :: "u8 \<Rightarrow> u8 \<Rightarrow> bool \<Rightarrow> nat \<Rightarrow> nat \<Rightarrow> octets \<Rightarrow> nat \<times> octets \<times> bool" where
  "token_loop inner outer want_value n e [] = (e, [], False)"
| "token_loop inner outer want_value n e (c # cur) =
     (if c = inner then (e, cur, False)
      else if c = outer then (if n = 0 then (1, cur, False) else (e, c # cur, False))
      else if want_value \<and> c = chr CHR ''='' then (e, cur, True)
      else token_loop inner outer want_value (n + 1) (if is_blank c then e else n + 1) cur)"

text \<open>The call with \<^verbatim>\<open>value == NULL\<close>: the token and the new iterator.\<close>

definition next_token_plain :: "u8 \<Rightarrow> u8 \<Rightarrow> octets \<Rightarrow> (octets \<times> octets) option" where
  "next_token_plain inner outer iter =
    (let start = dropWhile is_blank iter
     in if start = [] then None
        else
          (case token_loop inner outer False 0 0 start of
             (e, cur, _) \<Rightarrow> Some (take e start, cur)))"

text \<open>
  The call with \<^verbatim>\<open>value != NULL\<close>: the token, its value (\<^term>\<open>None\<close> for a \<^verbatim>\<open>NULL\<close> base), the new iterator.
  Moving the iterator back by one octet is dropping one octet less of the input.
\<close>

definition h2o_next_token :: "u8 \<Rightarrow> u8 \<Rightarrow> octets \<Rightarrow> (octets \<times> octets option \<times> octets) option" where
  "h2o_next_token inner outer iter =
    (let start = dropWhile is_blank iter
     in if start = [] then None
        else
          (case token_loop inner outer True 0 0 start of
             (e, cur, find_value) \<Rightarrow>
               (if \<not> find_value then Some (take e start, None, cur)
                else
                  (case next_token_plain inner outer cur of
                     None \<Rightarrow> Some (take e start, Some [], cur)
                   | Some (v, iter') \<Rightarrow>
                       (if v = [chr CHR '','']
                        then Some (take e start, Some [], drop (length cur - length iter' - 1) cur)
                        else Some (take e start, Some v, iter'))))))"

lemma token_loop_length: "token_loop inner outer w n e s = (e', cur, f) \<Longrightarrow> length cur \<le> length s"
  by (induction s arbitrary: n e) (auto split: if_splits intro: le_SucI)

lemma token_loop_shorter:
  "token_loop inner outer w 0 e s = (e', cur, f) \<Longrightarrow> s \<noteq> [] \<Longrightarrow> length cur < length s"
  by (cases s) (auto split: if_splits dest!: token_loop_length)

lemma next_token_plain_shorter:
  assumes "next_token_plain inner outer iter = Some (t, iter')"
  shows "length iter' < length iter"
proof -
  have *: "length (dropWhile is_blank iter) \<le> length iter"
    by (rule length_dropWhile_le)
  from assms show ?thesis
    by (auto simp: next_token_plain_def Let_def split: if_splits prod.splits dest!: token_loop_shorter
             intro: less_le_trans [OF _ *])
qed

function h2o_contains_token :: "octets \<Rightarrow> octets \<Rightarrow> u8 \<Rightarrow> bool" where
  "h2o_contains_token haysack needle separator =
    (case next_token_plain separator (chr CHR '','') haysack of
       None \<Rightarrow> False
     | Some (token, iter) \<Rightarrow>
         (if h2o_lcstris token needle then True else h2o_contains_token iter needle separator))"
  by pat_completeness auto
termination
  by (relation "measure (\<lambda>(h, n, s). length h)") (auto dest: next_token_plain_shorter)

declare h2o_contains_token.simps [simp del]

section \<open>HTML escaping\<close>

definition entity_map :: "u8 \<Rightarrow> octets option" where
  "entity_map ch =
    (if ch = 0x22 then Some (str ''&quot;'')
     else if ch = 0x26 then Some (str ''&amp;'')
     else if ch = 0x27 then Some (str ''&#39;'')
     else if ch = 0x3c then Some (str ''&lt;'')
     else if ch = 0x3e then Some (str ''&gt;'')
     else None)"

fun htmlescape_add_size :: "octets \<Rightarrow> nat" where
  "htmlescape_add_size [] = 0"
| "htmlescape_add_size (c # s) =
     (if c - 0x22 \<le> 0x3e - 0x22
      then (case entity_map c of None \<Rightarrow> 0 | Some quoted \<Rightarrow> length quoted - 1) + htmlescape_add_size s
      else htmlescape_add_size s)"

fun htmlescape_fill :: "octets \<Rightarrow> octets" where
  "htmlescape_fill [] = []"
| "htmlescape_fill (c # s) = (case entity_map c of None \<Rightarrow> [c] | Some quoted \<Rightarrow> quoted) @ htmlescape_fill s"

text \<open>\<^term>\<open>None\<close> is the failing \<^verbatim>\<open>assert\<close> on the length.\<close>

definition h2o_htmlescape :: "octets \<Rightarrow> octets option" where
  "h2o_htmlescape src =
    (if htmlescape_add_size src \<noteq> 0
     then
       (let escaped = htmlescape_fill src
        in if length escaped = length src + htmlescape_add_size src then Some escaped else None)
     else Some src)"

section \<open>Lists of strings\<close>

fun h2o_concat_list :: "octets list \<Rightarrow> octets" where
  "h2o_concat_list [] = []"
| "h2o_concat_list (s # l) = s @ h2o_concat_list l"

fun join_list_loop :: "octets \<Rightarrow> octets list \<Rightarrow> octets list" where
  "join_list_loop delimiter [] = []"
| "join_list_loop delimiter (s # l) = delimiter # s # join_list_loop delimiter l"

definition h2o_join_list :: "octets list \<Rightarrow> octets \<Rightarrow> octets" where
  "h2o_join_list l delimiter =
    (case l of [] \<Rightarrow> [] | s # l' \<Rightarrow> h2o_concat_list (s # join_list_loop delimiter l'))"

function h2o_split :: "octets \<Rightarrow> u8 \<Rightarrow> octets list" where
  "h2o_split s needle =
    (if s \<noteq> [] \<and> needle \<in> set s
     then takeWhile (\<lambda>c. c \<noteq> needle) s # h2o_split (tl (dropWhile (\<lambda>c. c \<noteq> needle) s)) needle
     else [s])"
  by pat_completeness auto
termination
proof (relation "measure (\<lambda>(s, n). length s)")
  show "((tl (dropWhile (\<lambda>c. c \<noteq> needle) s), needle), s, needle) \<in> measure (\<lambda>(s, n). length s)"
    if "s \<noteq> [] \<and> needle \<in> set s" for s :: octets and needle
    using that by (cases s) (auto simp: less_Suc_eq_le intro: le_trans [OF diff_le_self length_dropWhile_le])
qed simp

declare h2o_split.simps [simp del]

section \<open>Positions in a text\<close>

text \<open>\<^verbatim>\<open>h2o_str_at_position\<close>: the text stored at \<^verbatim>\<open>buf\<close> without the final NUL, or \<^term>\<open>None\<close> for -1.\<close>

fun skip_line :: "octets \<Rightarrow> octets option" where
  "skip_line [] = None"
| "skip_line (c # src) = (if c = 0x0a then Some src else skip_line src)"

fun skip_lines :: "nat \<Rightarrow> octets \<Rightarrow> octets option" where
  "skip_lines 0 src = Some src"
| "skip_lines (Suc n) src = (case skip_line src of None \<Rightarrow> None | Some src' \<Rightarrow> skip_lines n src')"

definition h2o_str_at_position :: "octets \<Rightarrow> int \<Rightarrow> int \<Rightarrow> octets option" where
  "h2o_str_at_position src lineno column =
    (if lineno \<le> 0 \<or> column \<le> 0 then None
     else
       (case skip_lines (nat (lineno - 1)) src of
          None \<Rightarrow> None
        | Some src1 \<Rightarrow>
            (let src2 = (if column > 40 then drop (nat (column - 40)) src1 else src1);
                 column1 = (if column > 40 then 40 else column);
                 text = take 76 (takeWhile (\<lambda>c. c \<noteq> 0x0a) src2);
                 i = int (length text) + 1;
                 column2 = (if i < column1 then i else column1)
             in Some (text @ [0x0a] @ replicate (nat (column2 - 1)) 0x20 @ [chr CHR ''^'', 0x0a]))))"

section \<open>Structured field strings\<close>

fun sf_string_body :: "octets \<Rightarrow> octets" where
  "sf_string_body [] = []"
| "sf_string_body (c # s) =
     (if c = 0x5c \<or> c = 0x22 then 0x5c # c # sf_string_body s else c # sf_string_body s)"

definition h2o_encode_sf_string :: "octets \<Rightarrow> octets" where
  "h2o_encode_sf_string s = [0x22] @ sf_string_body s @ [0x22]"

section \<open>Correctness of the number parsers\<close>

fun decimal :: "octets \<Rightarrow> nat" where
  "decimal [] = 0"
| "decimal (c # s) = unat (c - 0x30) * 10 ^ length s + decimal s"

lemma digit_bound: "is_digit c \<Longrightarrow> unat (c - 0x30) \<le> 9"
  unfolding is_digit_def by unat_arith

lemma decimal_bound: "list_all is_digit s \<Longrightarrow> decimal s < 10 ^ length s"
proof (induction s)
  case (Cons c s)
  then have "unat (c - 0x30) \<le> 9" and "decimal s < 10 ^ length s" by (auto intro: digit_bound)
  then have "unat (c - 0x30) * 10 ^ length s + decimal s < 9 * 10 ^ length s + 10 ^ length s"
    by (intro add_le_less_mono mult_le_mono1)
  then show ?case by simp
qed simp

lemma decimal_snoc: "decimal (s @ [c]) = decimal s * 10 + unat (c - 0x30)"
  by (induction s) (auto simp: algebra_simps)

lemma digit_of_nat: "n < 10 \<Longrightarrow> is_digit (of_nat (n + 48)) \<and> unat (of_nat (n + 48) - 0x30 :: u8) = n"
proof
  assume n: "n < 10"
  have u: "unat (of_nat (n + 48) :: u8) = n + 48"
    using n by (intro unat_of_nat_eq) simp
  show "is_digit (of_nat (n + 48))"
    using n unfolding is_digit_def word_le_nat_alt u by simp
  show "unat (of_nat (n + 48) - 0x30 :: u8) = n"
    using n by (simp add: unat_of_nat)
qed

lemma sprintf_u_correct: "list_all is_digit (sprintf_u n) \<and> decimal (sprintf_u n) = n \<and> sprintf_u n \<noteq> []"
proof (induction n rule: sprintf_u.induct)
  case (1 n)
  show ?case
  proof (cases "n < 10")
    case True
    then show ?thesis using digit_of_nat [OF True] by (subst sprintf_u.simps) (simp add: sprintf_u.simps)
  next
    case False
    have "n mod 10 < 10" by simp
    then show ?thesis
      using 1 False digit_of_nat [of "n mod 10"] sprintf_u.simps [of n] by (simp add: decimal_snoc)
  qed
qed

lemma length_sprintf_u: "n < 10 ^ k \<Longrightarrow> 0 < k \<Longrightarrow> length (sprintf_u n) \<le> k"
proof (induction n arbitrary: k rule: sprintf_u.induct)
  case (1 n)
  show ?case
  proof (cases "n < 10")
    case False
    obtain j where k: "k = Suc j" using 1(3) by (cases k) auto
    with False 1(2) have "0 < j" by (cases j) auto
    moreover have "n div 10 < 10 ^ j" using 1(2) k by (simp add: div_less_iff_less_mult mult.commute)
    ultimately show ?thesis using 1(1) [of j] False k sprintf_u.simps [of n] by simp
  qed (use 1 in \<open>simp add: sprintf_u.simps\<close>)
qed

lemma pow10_le: "k \<le> 19 \<Longrightarrow> (10::nat) ^ k \<le> 10000000000000000000"
  using power_increasing [of k 19 "10::nat"] by simp

lemma strtosize_loop_correct:
  assumes "p \<noteq> []" "list_all is_digit suf" "length suf < 19"
  shows "strtosize_loop (of_nat (decimal suf)) (10 ^ length suf) p =
    (if list_all is_digit p \<and> length p + length suf \<le> 19
     then Some (of_nat (decimal (rev p @ suf))) else None)"
  using assms
proof (induction p arbitrary: "suf")
  case (Cons ch p)
  show ?case
  proof (cases "is_digit ch")
    case True
    have v: "of_nat (decimal suf) + ucast (ch - 0x30) * 10 ^ length suf = (of_nat (decimal (ch # suf)) :: u64)"
      by (simp add: add.commute)
    have m: "(10 ^ length suf :: u64) * 10 = 10000000000000000000 \<longleftrightarrow> length suf = 18"
    proof -
      have "(10 ^ length suf :: u64) * 10 = of_nat (10 ^ Suc (length suf))" by simp
      moreover have "(10000000000000000000 :: u64) = of_nat (10 ^ 19)" by simp
      moreover have "of_nat (10 ^ Suc (length suf)) = (of_nat (10 ^ 19) :: u64) \<longleftrightarrow>
          (10::nat) ^ Suc (length suf) = 10 ^ 19"
        using pow10_le [of "Suc (length suf)"] Cons.prems
        by (subst word_of_nat_eq_iff) (simp add: take_bit_nat_eq_self del: power_Suc)
      ultimately show ?thesis by (simp only: power_inject_exp) simp
    qed
    have step: "strtosize_loop (of_nat (decimal suf)) (10 ^ length suf) (ch # p) =
        (if p = [] then Some (of_nat (decimal (ch # suf)))
         else if length suf = 18 then None
         else strtosize_loop (of_nat (decimal (ch # suf))) (10 ^ length (ch # suf)) p)"
      by (simp only: strtosize_loop.simps True Let_def v m not_True_eq_False if_False length_Cons power_Suc2)
    show ?thesis
      unfolding step using Cons.IH [of "ch # suf"] Cons.prems True
      by (auto simp del: decimal.simps power_Suc simp: Suc_le_eq)
  qed simp
qed simp

lemma strtosize_correct_aux:
  "h2o_strtosize s =
    (if s \<noteq> [] \<and> list_all is_digit s \<and> length s \<le> 19 then Some (of_nat (decimal s)) else None)"
proof (cases "s \<noteq> [] \<and> list_all is_digit s \<and> length s \<le> 19")
  case True
  have "decimal s < 10000000000000000000"
    using decimal_bound [of s] pow10_le [of "length s"] True by linarith
  then have "\<not> (0xffffffffffffffff :: u64) \<le> of_nat (decimal s)"
    by (simp add: word_le_nat_alt unat_of_nat)
  then show ?thesis
    using True strtosize_loop_correct [of "rev s" "[]"] by (simp add: h2o_strtosize_def)
next
  case False
  then show ?thesis
    using strtosize_loop_correct [of "rev s" "[]"] by (auto simp: h2o_strtosize_def)
qed

lemma strtosizefwd_loop_correct:
  assumes "1 \<le> p" "p < length s" "p < 20" "list_all is_digit (take p s)"
  defines "d \<equiv> takeWhile is_digit s"
  shows "strtosizefwd_loop s (length s) p (of_nat (decimal (take p s))) p =
    (if length d \<le> 19 \<or> length d = 20 \<and> length s = 20 then Inr (of_nat (decimal d), length d)
     else Inl STR_ERROR)"
  using assms(1-4)
proof (induction "20 - p" arbitrary: p)
  case (Suc k)
  have d: "d = take p s @ takeWhile is_digit (drop p s)"
    using Suc.prems unfolding d_def
    by (metis append_take_drop_id list_all_iff takeWhile_append2)
  have dp: "drop p s = s ! p # drop (p + 1) s"
    using Suc.prems by (simp add: Cons_nth_drop_Suc)
  show ?case
  proof (cases "is_digit (s ! p)")
    case False
    then show ?thesis
      using Suc.prems d dp by (subst strtosizefwd_loop.simps) (auto simp: Let_def)
  next
    case True
    have tk: "take (p + 1) s = take p s @ [s ! p]"
      using Suc.prems by (simp add: take_Suc_conv_app_nth)
    have v: "of_nat (decimal (take p s)) * 10 + ucast (s ! p - 0x30) = (of_nat (decimal (take (p + 1) s)) :: u64)"
      unfolding tk decimal_snoc by (simp add: algebra_simps)
    have step: "strtosizefwd_loop s (length s) p (of_nat (decimal (take p s))) p =
        (if p + 1 = length s then Inr (of_nat (decimal (take (p + 1) s)), p + 1)
         else if p + 1 = 20 then Inl STR_ERROR
         else strtosizefwd_loop s (length s) (p + 1) (of_nat (decimal (take (p + 1) s))) (p + 1))"
      using Suc.prems True by (subst strtosizefwd_loop.simps) (simp only: Let_def v, simp)
    have all: "list_all is_digit (take (p + 1) s)"
      unfolding tk using Suc.prems True by simp
    have "length d \<ge> p + 1"
      using d dp True Suc.prems by simp
    moreover have "p + 1 = length s \<Longrightarrow> d = s"
      using d dp True by (metis append_take_drop_id drop_all order_refl takeWhile.simps takeWhile_idem)
    moreover have "length d \<le> length s"
      unfolding d_def by (rule length_takeWhile_le)
    ultimately show ?thesis
      unfolding step using Suc.hyps(1) [of "p + 1"] Suc.hyps(2) Suc.prems all by auto
  qed
qed simp

lemma strtosizefwd_correct_aux:
  "h2o_strtosizefwd s (length s) =
    (let d = takeWhile is_digit s; v = of_nat (decimal d)
     in if d = [] then Inl STR_ERROR
        else if length s = 1 then Inl STR_READ_PAST_END
        else if length d \<le> 19 then Inr (v, length d)
        else if length d = 20 \<and> length s = 20 \<and> v \<noteq> 0xffffffffffffffff then Inr (v, 20)
        else Inl STR_ERROR)"
proof (cases s)
  case (Cons c r)
  show ?thesis
  proof (cases "is_digit c \<and> r \<noteq> []")
    case False
    then show ?thesis
      by (auto simp: Cons h2o_strtosizefwd_def strtosizefwd_loop.simps)
  next
    case True
    let ?d = "takeWhile is_digit s"
    have loop: "strtosizefwd_loop s (length s) 1 (ucast (c - 0x30)) 1 =
      (if length ?d \<le> 19 \<or> length ?d = 20 \<and> length s = 20 then Inr (of_nat (decimal ?d), length ?d)
       else Inl STR_ERROR)"
      using strtosizefwd_loop_correct [of 1 s] True by (simp add: Cons)
    have small: "\<not> (0xffffffffffffffff :: u64) \<le> of_nat (decimal ?d)" if "length ?d \<le> 19"
    proof -
      have "list_all is_digit ?d" by (auto simp: list_all_iff dest: set_takeWhileD)
      then have "decimal ?d < 10000000000000000000"
        using decimal_bound [of ?d] pow10_le [OF that] by linarith
      then show ?thesis by (simp add: word_le_nat_alt unat_of_nat)
    qed
    have "(0xffffffffffffffff :: u64) = - 1" by simp
    then have top: "(0xffffffffffffffff :: u64) \<le> x \<longleftrightarrow> x = 0xffffffffffffffff" for x
      by (metis word_order.extremum_unique)
    have unfolded: "h2o_strtosizefwd s (length s) =
       (case strtosizefwd_loop s (length s) 1 (ucast (c - 0x30)) 1 of Inl e \<Rightarrow> Inl e
        | Inr (v, p) \<Rightarrow> if v \<ge> 0xffffffffffffffff then Inl STR_ERROR else Inr (v, p))"
      using True by (simp add: h2o_strtosizefwd_def Cons)
    have ne: "?d \<noteq> []" and len: "length s \<noteq> 1"
      using True by (auto simp: Cons)
    show ?thesis
      unfolding unfolded loop Let_def using ne len small by (auto simp: top)
  qed
qed (simp add: h2o_strtosizefwd_def)

section \<open>Correctness of the binary-to-text codings\<close>

text \<open>A finite table of digits is checked entry by entry.\<close>

fun table_ok :: "(nat \<Rightarrow> u8 \<Rightarrow> bool) \<Rightarrow> nat \<Rightarrow> octets \<Rightarrow> bool" where
  "table_ok P n [] = True"
| "table_ok P n (c # cs) = (P n c \<and> table_ok P (n + 1) cs)"

lemma table_ok_nth: "table_ok P n cs \<Longrightarrow> i < length cs \<Longrightarrow> P (n + i) (cs ! i)"
proof (induction cs arbitrary: n i)
  case (Cons c cs)
  then show ?case by (cases i) fastforce+
qed simp

lemma base64_table: "table_ok (\<lambda>n c. base64_digit c = Some (of_nat n)) 0 (base64_map u)"
  by (cases u) (simp_all add: base64_map_def base64_digit_def)

lemma base64_digit_char: "unat d < 64 \<Longrightarrow> base64_digit (base64_char u d) = Some d"
  using table_ok_nth [OF base64_table, of "unat d" u]
  by (simp add: base64_char_def base64_map_def split: if_splits)

lemma hex_table: "table_ok (\<lambda>n c. decode_hex c = Some (of_nat n)) 0
    (if u then str ''0123456789ABCDEF'' else str ''0123456789abcdef'')"
  by (simp add: decode_hex_def)

lemma decode_hex_digit: "unat d < 16 \<Longrightarrow> decode_hex (hex_digit u d) = Some d"
  using table_ok_nth [OF hex_table, of "unat d" u]
  by (simp add: hex_digit_def split: if_splits)

lemma sixty_three: "(63 :: 'a::len word) = mask 6"
  by (simp add: mask_eq_exp_minus_1)

lemma fifteen: "(0xf :: u8) = mask 4"
  by (simp add: mask_eq_exp_minus_1)

lemma unat_take_bit_less: "unat (take_bit n (w :: 'a::len word)) < 2 ^ n"
  by (simp add: unsigned_take_bit_eq)

lemma quad_join:
  fixes q :: u32
  shows "push_bit 6 (push_bit 6 (push_bit 6 (drop_bit 18 q) OR take_bit 6 (drop_bit 12 q))
           OR take_bit 6 (drop_bit 6 q)) OR take_bit 6 q = q"
proof -
  have *: "push_bit 6 (drop_bit (n + 6) q) OR take_bit 6 (drop_bit n q) = drop_bit n q" for n
    by (rule bit_word_eqI) (auto simp: bit_simps)
  show ?thesis
    using * [of 12] * [of 6] * [of 0] by simp
qed

lemma decode_quad:
  fixes q :: u32
  assumes "unat q < 2 ^ 24"
  shows "decode_base64url_quad 0
      [base64_char u (drop_bit 18 q), base64_char u (drop_bit 12 q AND 63),
       base64_char v (drop_bit 6 q AND 63), base64_char w (q AND 63)] = Some q"
proof -
  have "unat (drop_bit 18 q) < 64"
    using assms by (simp add: unat_drop_bit_eq del: drop_bit_numeral_bit1) (simp add: drop_bit_eq_div)
  moreover have "unat (take_bit 6 w) < 64" for w :: u32
    using unat_take_bit_less [of 6 w] by simp
  ultimately show ?thesis
    using quad_join [of q]
    by (simp add: base64_digit_char sixty_three flip: take_bit_eq_mask)
qed

lemma u8_bit_high: "8 \<le> m \<Longrightarrow> \<not> bit (x :: u8) m"
  using bit_imp_le_length [of x m] by auto

lemma quad_bound:
  "unat (push_bit 16 (ucast (x :: u8)) OR push_bit 8 (ucast (y :: u8)) OR ucast (z :: u8) :: u32) < 2 ^ 24"
proof -
  let ?q = "push_bit 16 (ucast x) OR push_bit 8 (ucast y) OR ucast z :: u32"
  have "take_bit 24 ?q = ?q"
    by (rule bit_word_eqI) (auto simp: bit_simps u8_bit_high)
  then show ?thesis using unat_take_bit_less [of 24 ?q] by simp
qed

lemma quad_octets:
  fixes x y z :: u8
  defines "q \<equiv> push_bit 16 (ucast x) OR push_bit 8 (ucast y) OR ucast z :: u32"
  shows "ucast (drop_bit 16 q) = x" "ucast (drop_bit 8 q) = y" "ucast q = z"
  unfolding q_def by (rule bit_word_eqI; auto simp: bit_simps u8_bit_high)+

lemma base64_A: "base64_char u 0 = 0x41"
  by (simp add: base64_char_def base64_map_def)

lemma base64_encode_quads:
  fixes x y z :: u8
  defines "q \<equiv> \<lambda>y z. push_bit 16 (ucast x) OR push_bit 8 (ucast y) OR ucast z :: u32"
  shows "h2o_base64_encode (x # y # z # src) u =
      base64_char u (drop_bit 18 (q y z)) # base64_char u (drop_bit 12 (q y z) AND 63) #
      base64_char u (drop_bit 6 (q y z) AND 63) # base64_char u (q y z AND 63) # h2o_base64_encode src u"
    and "h2o_base64_encode [x] u =
      base64_char u (drop_bit 18 (q 0 0)) # base64_char u (drop_bit 12 (q 0 0) AND 63) #
      (if \<not> u then [0x3d, 0x3d] else [])"
    and "h2o_base64_encode [x, y] u =
      base64_char u (drop_bit 18 (q y 0)) # base64_char u (drop_bit 12 (q y 0) AND 63) #
      base64_char u (drop_bit 6 (q y 0) AND 63) # (if \<not> u then [0x3d] else [])"
  by (simp_all add: Let_def q_def)

lemma quad_low_zero:
  fixes x y :: u8
  shows "drop_bit 6 (push_bit 16 (ucast x) OR push_bit 8 (ucast (0::u8)) OR ucast (0::u8) :: u32) AND 63 = 0"
    and "(push_bit 16 (ucast x) OR push_bit 8 (ucast y) OR ucast (0::u8) :: u32) AND 63 = 0"
  by (rule bit_word_eqI; auto simp: bit_simps sixty_three)+

lemma base64_padding: "base64_digit 0x3d = None"
  by (simp add: base64_digit_def)

lemma quad_padding: "decode_base64url_quad d [a, b, c, 0x3d] = None"
  by (simp add: base64_padding split: option.split)

lemma base64_roundtrip_aux:
  "h2o_decode_base64url (h2o_base64_encode src u) =
    (if u \<or> length src mod 3 = 0 then Some src else None)"
proof (induction src u rule: h2o_base64_encode.induct)
  case (1 x y z src u)
  define q :: u32 where "q = push_bit 16 (ucast x) OR push_bit 8 (ucast y) OR ucast z"
  have dec: "decode_base64url_quad 0 [base64_char u (drop_bit 18 q), base64_char u (drop_bit 12 q AND 63),
       base64_char u (drop_bit 6 q AND 63), base64_char u (q AND 63)] = Some q"
    using decode_quad [OF quad_bound] by (simp only: q_def)
  have oct: "ucast (drop_bit 16 q) = x" "ucast (drop_bit 8 q) = y" "ucast q = z"
    unfolding q_def by (rule quad_octets)+
  have mod: "length (x # y # z # src) mod 3 = length src mod 3" by simp
  show ?case
    unfolding base64_encode_quads q_def [symmetric] mod h2o_decode_base64url.simps dec option.case oct 1 [OF refl]
    by simp
next
  case (3 x u)
  define q :: u32 where "q = push_bit 16 (ucast x) OR push_bit 8 (ucast (0::u8)) OR ucast (0::u8)"
  have dec: "decode_base64url_quad 0
      [base64_char u (drop_bit 18 q), base64_char u (drop_bit 12 q AND 63), 0x41, 0x41] = Some q"
    using decode_quad [OF quad_bound [of x 0 0], of u u u]
    unfolding q_def [symmetric] quad_low_zero [of x, folded q_def] quad_low_zero(2) [of x 0, folded q_def] base64_A .
  have oct: "ucast (drop_bit 16 q) = x"
    unfolding q_def by (rule quad_octets)
  show ?case
    using dec oct unfolding base64_encode_quads q_def [symmetric]
    by (cases u) (simp_all add: quad_padding del: decode_base64url_quad.simps)
next
  case (4 x y u)
  define q :: u32 where "q = push_bit 16 (ucast x) OR push_bit 8 (ucast y) OR ucast (0::u8)"
  have dec: "decode_base64url_quad 0
      [base64_char u (drop_bit 18 q), base64_char u (drop_bit 12 q AND 63), base64_char u (drop_bit 6 q AND 63), 0x41] = Some q"
    using decode_quad [OF quad_bound [of x y 0], of u u u]
    unfolding q_def [symmetric] quad_low_zero(2) [of x y, folded q_def] base64_A .
  have oct: "ucast (drop_bit 16 q) = x" "ucast (drop_bit 8 q) = y"
    unfolding q_def by (rule quad_octets)+
  show ?case
    using dec oct unfolding base64_encode_quads q_def [symmetric]
    by (cases u) (simp_all add: quad_padding del: decode_base64url_quad.simps)
qed simp

lemma base64_encode_fits: "length (h2o_base64_encode src u) < h2o_base64_encode_capacity (length src)"
  unfolding h2o_base64_encode_capacity_def
proof (induction src u rule: h2o_base64_encode.induct)
  case (1 x y z src u)
  have "(length (x # y # z # src) + 2) div 3 = (length src + 2) div 3 + 1" by simp
  with 1 [OF refl] show ?case by (simp only:) (simp add: Let_def)
qed (simp_all add: Let_def)

text \<open>The decoder fills its buffer of \<^verbatim>\<open>len * 3 / 4\<close> octets exactly, as its \<^verbatim>\<open>assert\<close> demands.\<close>

lemma base64_decode_length: "h2o_decode_base64url s = Some d \<Longrightarrow> length d = length s * 3 div 4"
  by (induction s arbitrary: d rule: h2o_decode_base64url.induct)
    (auto split: option.splits simp del: decode_base64url_quad.simps)

lemma nibbles_join: "push_bit 4 (drop_bit 4 b) OR (b AND 0xf) = (b :: u8)"
  unfolding fifteen by (rule bit_word_eqI) (auto simp: bit_simps)

lemma nibble_bounds: "unat (drop_bit 4 (b :: u8)) < 16" "unat (b AND 0xf :: u8) < 16"
proof -
  show "unat (drop_bit 4 b) < 16"
    using unsigned_less [of b, where 'a = nat] by (simp add: unat_drop_bit_eq) (simp add: drop_bit_eq_div)
  show "unat (b AND 0xf) < 16"
    using unat_take_bit_less [of 4 b] by (simp add: fifteen take_bit_eq_mask)
qed

lemma drop_bit_4_AND: "drop_bit 4 (b :: u8) AND 0xf = drop_bit 4 b"
  unfolding fifteen by (rule bit_word_eqI) (auto simp: bit_simps intro: ccontr dest: bit_imp_le_length)

lemma length_hex_encode [simp]: "length (h2o_hex_encode s) = 2 * length s"
  by (induction s) auto

lemma hex_roundtrip: "h2o_hex_decode (h2o_hex_encode s) = Some s"
proof -
  have "hex_decode_loop (h2o_hex_encode s) = Some s"
    by (induction s) (simp_all add: decode_hex_digit nibble_bounds nibbles_join)
  then show ?thesis by (simp add: h2o_hex_decode_def)
qed

lemma hex_digit_not_zero: "drop_bit 4 (b :: u8) = 0 \<and> b AND 0xf = 0 \<longleftrightarrow> b = 0"
  using nibbles_join [of b] by auto

lemma uri_roundtrip_aux:
  assumes "\<not> uri_unreserved pc (chr CHR ''%'')"
  shows "h2o_uri_unescape (h2o_uri_escape s pc) = (if 0 \<in> set s then None else Some s)"
proof (induction s)
  case (Cons ch s)
  have "\<not> uri_unreserved pc 0"
    by (simp add: uri_unreserved_def)
  moreover have "uri_unreserved pc ch \<Longrightarrow> ch \<noteq> chr CHR ''%''"
    using assms by auto
  ultimately show ?case
    using Cons.IH hex_digit_not_zero [of ch]
    by (auto simp: decode_hex_digit nibble_bounds nibbles_join drop_bit_4_AND)
qed simp

lemma uri_escape_fits: "length (h2o_uri_escape s pc) \<le> length s * 3"
  by (induction s) auto

lemma uri_unescape_fits: "h2o_uri_unescape s = Some d \<Longrightarrow> length d \<le> length s"
  by (induction s arbitrary: d rule: h2o_uri_unescape.induct)
    (auto split: if_splits list.splits option.splits simp: le_SucI)

section \<open>HTML escaping, splitting and joining\<close>

text \<open>The \<^verbatim>\<open>assert\<close> of \<^verbatim>\<open>h2o_htmlescape\<close> holds: the first pass counts what the second one adds.\<close>

lemma htmlescape_length: "length (htmlescape_fill s) = length s + htmlescape_add_size s"
  by (induction s) (auto simp: entity_map_def)

lemma htmlescape_total: "h2o_htmlescape s = Some (htmlescape_fill s)"
proof -
  have "htmlescape_add_size s = 0 \<Longrightarrow> htmlescape_fill s = s"
    by (induction s) (auto simp: entity_map_def split: if_splits)
  then show ?thesis by (simp add: h2o_htmlescape_def htmlescape_length)
qed

lemma htmlescape_safe: "c \<in> set (htmlescape_fill s) \<Longrightarrow> c \<notin> {0x22, 0x27, 0x3c, 0x3e}"
  by (induction s) (auto simp: entity_map_def split: if_splits)

lemma concat_list_concat [simp]: "h2o_concat_list l = concat l"
  by (induction l) auto

lemma split_pieces: "x \<in> set (h2o_split s c) \<Longrightarrow> c \<notin> set x"
  by (induction s c rule: h2o_split.induct)
    (subst (asm) h2o_split.simps, auto split: if_splits dest: set_takeWhileD)

lemma split_not_Nil [simp]: "h2o_split s c \<noteq> []"
  by (subst h2o_split.simps) simp

lemma join_split: "h2o_join_list (h2o_split s c) [c] = s"
proof (induction s c rule: h2o_split.induct)
  case (1 s c)
  show ?case
  proof (cases "s \<noteq> [] \<and> c \<in> set s")
    case True
    let ?p = "takeWhile (\<lambda>x. x \<noteq> c) s" and ?r = "dropWhile (\<lambda>x. x \<noteq> c) s"
    have r: "?r = c # tl ?r"
    proof -
      have "?r \<noteq> []" using True by simp
      then show ?thesis using hd_dropWhile [of "\<lambda>x. x \<noteq> c" s] by (cases ?r) simp_all
    qed
    have s: "?p @ c # tl ?r = s"
      using takeWhile_dropWhile_id [of "\<lambda>x. x \<noteq> c" s] unfolding r [symmetric] .
    have split: "h2o_split s c = ?p # h2o_split (tl ?r) c"
      using True by (subst h2o_split.simps) simp
    have join: "h2o_join_list (x # l) [c] = x @ c # h2o_join_list l [c]" if "l \<noteq> []" for x l
      using that by (cases l) (auto simp: h2o_join_list_def)
    show ?thesis
      using 1 [OF True] s by (simp add: split join)
  next
    case False
    then show ?thesis by (subst h2o_split.simps) (auto simp: h2o_join_list_def)
  qed
qed

lemma str_at_position_fits: "h2o_str_at_position src lineno column = Some t \<Longrightarrow> length t \<le> 118"
  by (auto simp: h2o_str_at_position_def Let_def split: if_splits option.splits)

lemma sf_string_length:
  "length (h2o_encode_sf_string s) = length s + length (filter (\<lambda>c. c = 0x5c \<or> c = 0x22) s) + 2"
proof -
  have "length (sf_string_body s) = length s + length (filter (\<lambda>c. c = 0x5c \<or> c = 0x22) s)"
    by (induction s) auto
  then show ?thesis by (simp add: h2o_encode_sf_string_def)
qed

section \<open>Correctness of token iteration\<close>

fun pieces :: "(u8 \<Rightarrow> bool) \<Rightarrow> octets \<Rightarrow> octets list" where
  "pieces P [] = [[]]"
| "pieces P (c # s) =
     (if P c then [] # pieces P s else (case pieces P s of [] \<Rightarrow> [[c]] | p # ps \<Rightarrow> (c # p) # ps))"

definition rtrim :: "octets \<Rightarrow> octets" where
  "rtrim s = rev (dropWhile is_blank (rev s))"

definition trim :: "octets \<Rightarrow> octets" where
  "trim s = rtrim (dropWhile is_blank s)"

lemma pieces_not_Nil [simp]: "pieces P s \<noteq> []"
  by (cases s) (auto split: list.splits)

lemma pieces_append:
  "\<forall>c\<in>set a. \<not> P c \<Longrightarrow> pieces P (a @ b) = (a @ hd (pieces P b)) # tl (pieces P b)"
  by (induction a) (auto split: list.splits)

lemma pieces_sep_append: "P c \<Longrightarrow> pieces P (a @ c # b) = pieces P a @ pieces P b"
  by (induction a) (auto split: list.splits)

lemma rtrim_snoc: "rtrim (a @ [c]) = (if is_blank c then rtrim a else a @ [c])"
  by (simp add: rtrim_def)

lemma rtrim_Cons: "rtrim (c # a) = (if list_all is_blank a then (if is_blank c then [] else [c]) else c # rtrim a)"
proof (cases "list_all is_blank a")
  case True
  then have "dropWhile is_blank (rev a @ [c]) = dropWhile is_blank [c]"
    by (intro dropWhile_append2) (auto simp: list_all_iff)
  with True show ?thesis by (simp add: rtrim_def)
next
  case False
  then obtain x where "x \<in> set (rev a)" "\<not> is_blank x" by (auto simp: list_all_iff)
  then show ?thesis using False by (simp add: rtrim_def dropWhile_append1)
qed

lemma rtrim_all_blank: "list_all is_blank a \<Longrightarrow> rtrim a = []"
  by (simp add: rtrim_def list_all_iff)

text \<open>The loop of \<^verbatim>\<open>h2o_next_token\<close> stops at the first separator and ends the token at the last non-blank octet.\<close>

lemma token_loop_split:
  assumes "\<forall>c\<in>set a. c \<noteq> inner \<and> c \<noteq> outer"
  shows "token_loop inner outer False n e (a @ b) =
    token_loop inner outer False (n + length a) (if list_all is_blank a then e else n + length (rtrim a)) b"
  using assms
proof (induction a arbitrary: n e)
  case (Cons c a)
  then show ?case
    by (auto simp: rtrim_Cons rtrim_all_blank)
qed simp

lemma next_token_plain_split:
  assumes "\<not> is_blank inner" "\<not> is_blank outer"
  defines "P \<equiv> \<lambda>c. c = inner \<or> c = outer"
  shows "(next_token_plain inner outer iter = None \<and> pieces P iter = [iter] \<and> trim iter = []) \<or>
    (\<exists>p. next_token_plain inner outer iter = Some (trim p, []) \<and> pieces P iter = [p]) \<or>
    (\<exists>p r. next_token_plain inner outer iter = Some (trim p, r) \<and> pieces P iter = p # pieces P r) \<or>
    (\<exists>p r. next_token_plain inner outer iter = Some (trim p, outer # r) \<and> pieces P iter = p # pieces P r) \<or>
    (\<exists>p r. next_token_plain inner outer iter = Some ([outer], r) \<and> pieces P iter = p # pieces P r \<and> trim p = [])"
proof -
  define w where "w = takeWhile is_blank iter"
  define s where "s = dropWhile is_blank iter"
  define a where "a = takeWhile (\<lambda>c. \<not> P c) s"
  define b where "b = dropWhile (\<lambda>c. \<not> P c) s"
  have iter: "iter = w @ s" and s: "s = a @ b"
    by (simp_all add: w_def s_def a_def b_def)
  have w: "\<forall>c\<in>set w. is_blank c" by (auto simp: w_def dest: set_takeWhileD)
  then have wP: "\<forall>c\<in>set w. \<not> P c" using assms by auto
  have aP: "\<forall>c\<in>set a. \<not> P c" by (auto simp: a_def dest: set_takeWhileD)
  have bP: "b = [] \<or> (\<exists>c r. b = c # r \<and> P c)"
    using hd_dropWhile [of "\<lambda>c. \<not> P c" s] by (cases b) (auto simp: b_def [symmetric])
  have s1: "s = [] \<or> \<not> is_blank (hd s)"
    using hd_dropWhile [of is_blank iter] by (auto simp: s_def)
  then have a1: "a = [] \<or> \<not> is_blank (hd a)"
    by (cases a) (auto simp: s)
  have trim: "trim (w @ a) = rtrim a"
  proof -
    have "trim (w @ a) = rtrim (dropWhile is_blank a)"
      using w by (simp add: trim_def dropWhile_append2)
    then show ?thesis using a1 by (cases a) auto
  qed
  have all: "list_all is_blank a \<longleftrightarrow> a = []"
    using a1 by (cases a) auto
  have take: "take (length (rtrim a)) (a @ x) = rtrim a" for x
  proof -
    have "a = rtrim a @ rev (takeWhile is_blank (rev a))"
      unfolding rtrim_def by (metis rev_append rev_rev_ident takeWhile_dropWhile_id)
    then show ?thesis by (metis append.assoc append_eq_conv_conj)
  qed
  have loop: "token_loop inner outer False 0 0 s = token_loop inner outer False (length a) (length (rtrim a)) b"
    using aP unfolding s by (subst token_loop_split) (auto simp: P_def all rtrim_def)
  have pieces: "pieces P iter = (w @ a @ hd (pieces P b)) # tl (pieces P b)"
    using wP aP pieces_append [of "w @ a" P b] by (auto simp: iter s)
  have next_token: "next_token_plain inner outer iter =
      (if s = [] then None
       else (case token_loop inner outer False (length a) (length (rtrim a)) b of (e, cur, _) \<Rightarrow> Some (take e s, cur)))"
    unfolding next_token_plain_def Let_def s_def [symmetric] loop by simp
  from bP show ?thesis
  proof
    assume b: "b = []"
    show ?thesis
      using pieces trim next_token b take [of b] by (cases "s = []") (auto simp: s iter rtrim_def)
  next
    assume "\<exists>c r. b = c # r \<and> P c"
    then obtain c r where b: "b = c # r" "P c" by blast
    have p: "pieces P iter = (w @ a) # pieces P r" using pieces b by simp
    have "s \<noteq> []" using b s by simp
    then show ?thesis
      using p trim next_token b take [of b] by (cases "a = []") (auto simp: P_def s rtrim_def)
  qed
qed

lemma lcstris_iff: "h2o_lcstris target test \<longleftrightarrow> map h2o_tolower target = test"
proof -
  have "length target = length test \<Longrightarrow> lcstris_core target test \<longleftrightarrow> map h2o_tolower target = test"
    by (induction target test rule: lcstris_core.induct) auto
  then show ?thesis by (auto simp: h2o_lcstris_def)
qed

lemma contains_token_aux:
  assumes "needle \<noteq> []" "needle \<noteq> str '',''" "\<not> is_blank sep"
  shows "h2o_contains_token hay needle sep \<longleftrightarrow>
    (\<exists>p\<in>set (pieces (\<lambda>c. c = sep \<or> c = chr CHR '','') hay). h2o_lcstris (trim p) needle)"
    (is "_ \<longleftrightarrow> ?R hay")
proof (induction hay rule: measure_induct_rule [of length])
  case (less hay)
  let ?P = "\<lambda>c. c = sep \<or> c = chr CHR '',''"
  have nil: "\<not> h2o_lcstris [] needle" and comma: "\<not> h2o_lcstris [chr CHR '',''] needle"
    using assms by (auto simp: lcstris_iff h2o_tolower_def)
  have tnil: "trim [] = []" by (simp add: trim_def rtrim_def)
  have IH: "h2o_contains_token r needle sep \<longleftrightarrow> ?R r"
    if "next_token_plain sep (chr CHR '','') hay = Some (t, r)" for t r
    using less next_token_plain_shorter [OF that] by blast
  have comma_blank: "\<not> is_blank (chr CHR '','')" by (simp add: is_blank_def)
  show ?case
    using next_token_plain_split [OF assms(3) comma_blank, of hay]
  proof (elim disjE exE conjE)
    assume "next_token_plain sep (chr CHR '','') hay = None" "pieces ?P hay = [hay]" "trim hay = []"
    then show ?thesis using nil by (subst h2o_contains_token.simps) simp
  next
    fix p assume *: "next_token_plain sep (chr CHR '','') hay = Some (trim p, [])" "pieces ?P hay = [p]"
    then show ?thesis using IH [OF *(1)] nil tnil by (subst h2o_contains_token.simps) (simp del: of_char_Char)
  next
    fix p r assume *: "next_token_plain sep (chr CHR '','') hay = Some (trim p, r)" "pieces ?P hay = p # pieces ?P r"
    then show ?thesis using IH [OF *(1)] by (subst h2o_contains_token.simps) (simp del: of_char_Char)
  next
    fix p r assume *: "next_token_plain sep (chr CHR '','') hay = Some (trim p, chr CHR '','' # r)" "pieces ?P hay = p # pieces ?P r"
    then show ?thesis using IH [OF *(1)] nil tnil by (subst h2o_contains_token.simps) (simp del: of_char_Char)
  next
    fix p r assume *: "next_token_plain sep (chr CHR '','') hay = Some ([chr CHR '',''], r)" "pieces ?P hay = p # pieces ?P r"
      "trim p = []"
    then show ?thesis using IH [OF *(1)] nil comma by (subst h2o_contains_token.simps) (simp del: of_char_Char)
  qed
qed

lemma next_token_shorter:
  assumes "h2o_next_token inner outer iter = Some (t, v, iter')"
  shows "length iter' < length iter"
proof -
  define start where "start = dropWhile is_blank iter"
  obtain e cur f where loop: "token_loop inner outer True 0 0 start = (e, cur, f)"
    by (metis prod_cases3)
  have ne: "start \<noteq> []"
    using assms by (auto simp: h2o_next_token_def Let_def start_def split: if_splits)
  have len: "length start \<le> length iter"
    unfolding start_def by (rule length_dropWhile_le)
  have "length cur < length start"
    using token_loop_shorter [OF loop ne] .
  moreover have "length iter' \<le> length cur"
    using assms ne loop
    by (auto simp: h2o_next_token_def Let_def start_def [symmetric] split: if_splits option.splits
        dest!: next_token_plain_shorter)
  ultimately show ?thesis using len by simp
qed

section \<open>Correctness of the searches\<close>

definition occurs_at :: "octets \<Rightarrow> octets \<Rightarrow> nat \<Rightarrow> bool" where
  "occurs_at h n k \<longleftrightarrow> k + length n \<le> length h \<and> take (length n) (drop k h) = n"

lemma strstr_loop_correct:
  assumes "n \<noteq> []"
  shows "case strstr_loop off h n of
      None \<Rightarrow> \<forall>k. \<not> occurs_at h n k
    | Some r \<Rightarrow> off \<le> r \<and> occurs_at h n (r - off) \<and> (\<forall>j < r - off. \<not> occurs_at h n j)"
proof (induction h arbitrary: off)
  case Nil
  then show ?case using assms by (subst strstr_loop.simps) (auto simp: occurs_at_def)
next
  case (Cons c h)
  have zero: "occurs_at (c # h) n 0 \<longleftrightarrow>
      length n \<le> length (c # h) \<and> hd (c # h) = hd n \<and> take (length n - 1) (tl (c # h)) = tl n"
    using assms by (cases n) (auto simp: occurs_at_def)
  have suc: "occurs_at (c # h) n (Suc k) \<longleftrightarrow> occurs_at h n k" for k
    by (simp add: occurs_at_def)
  have long: "occurs_at (c # h) n k \<Longrightarrow> length n \<le> length (c # h)" for k
    by (simp add: occurs_at_def)
  show ?case
  proof (cases "length n \<le> length (c # h) \<and> \<not> occurs_at (c # h) n 0")
    case True
    then have step: "strstr_loop off (c # h) n = strstr_loop (off + 1) h n"
      using zero by (subst strstr_loop.simps) auto
    have shift: "\<not> occurs_at (c # h) n j" if "\<forall>j<k. \<not> occurs_at h n j" "j < Suc k" for j k
      using that True suc by (cases j) auto
    show ?thesis
    proof (cases "strstr_loop (off + 1) h n")
      case None
      then have "\<forall>k. \<not> occurs_at h n k" using Cons.IH [of "off + 1"] by simp
      then have "\<not> occurs_at (c # h) n j" for j using shift [of "Suc j" j] by simp
      with None step show ?thesis by simp
    next
      case (Some r)
      then have r: "off + 1 \<le> r" "occurs_at h n (r - (off + 1))" "\<forall>j < r - (off + 1). \<not> occurs_at h n j"
        using Cons.IH [of "off + 1"] by auto
      have "r - off = Suc (r - (off + 1))" using r(1) by simp
      with Some step r show ?thesis using shift [OF r(3)] suc by simp
    qed
  next
    case False
    then show ?thesis
      using zero long by (subst strstr_loop.simps) (auto split: option.splits if_splits)
  qed
qed

lemma strstr_correct:
  "case h2o_strstr h n of
      None \<Rightarrow> \<forall>k. \<not> occurs_at h n k
    | Some r \<Rightarrow> occurs_at h n r \<and> (\<forall>j < r. \<not> occurs_at h n j)"
  using strstr_loop_correct [of n h 0]
  by (auto simp: h2o_strstr_def occurs_at_def split: option.splits)

text \<open>
  The extension is what follows the last dot, if the dot is not the first octet and no slash follows it. An empty path makes the loop
  run below the start of the path.
\<close>

lemma get_filext_loop_correct:
  assumes "p \<le> length path" "p \<noteq> 0"
  shows "get_filext_loop path p =
    Inr (let n = length (takeWhile (\<lambda>c. c \<noteq> chr CHR ''.'' \<and> c \<noteq> chr CHR ''/'') (rev (drop 1 (take p path))))
         in if n < p - 1 \<and> path ! (p - 1 - n) = chr CHR ''.'' then Some (drop (p - n) path) else None)"
  using assms
proof (induction p)
  case (Suc p)
  show ?case
  proof (cases "p = 0")
    case False
    then have "drop 1 (take (Suc p) path) = drop 1 (take p path) @ [path ! p]"
      using Suc.prems by (simp add: take_Suc_conv_app_nth)
    then show ?thesis
      using Suc False by (auto simp: Let_def simp del: of_char_Char)
  qed (simp del: of_char_Char)
qed simp

lemma filext_reads_below_start: "h2o_get_filext path = Inl STR_READ_PAST_END \<longleftrightarrow> path = []"
  using get_filext_loop_correct [of "length path" path] by (cases path) (auto simp: h2o_get_filext_def)

section \<open>Properties\<close>

text \<open>
  \<^verbatim>\<open>h2o_strtosize\<close> returns a number exactly for the non-empty digit strings of at most nineteen
  octets, and then the number they denote: the 64-bit arithmetic never wraps.
\<close>

theorem strtosize_correct:
  "h2o_strtosize s =
    (if s \<noteq> [] \<and> list_all is_digit s \<and> length s \<le> 19 then Some (of_nat (decimal s)) else None) \<and>
   (list_all is_digit s \<and> length s \<le> 19 \<longrightarrow> unat (of_nat (decimal s) :: u64) = decimal s)"
proof -
  have "decimal s < 2 ^ 64" if "list_all is_digit s" "length s \<le> 19"
    using decimal_bound [OF that(1)] pow10_le [OF that(2)] by simp
  then show ?thesis
    using strtosize_correct_aux [of s] by (auto simp: unat_of_nat)
qed

theorem strtosize_correct_witness: "h2o_strtosize (str ''1024'') = Some 1024 \<and> unat (1024 :: u64) = 1024"
  using strtosize_correct [of "str ''1024''"] by (simp add: is_digit_def)

text \<open>
  C27. The complete behaviour of \<^verbatim>\<open>h2o_strtosizefwd\<close> on a buffer of its own length. A number of up to
  nineteen digits is returned with the position behind it; but a buffer of one digit makes the loop read one octet
  past the end of the buffer, and twenty digits that fill the buffer are accepted although their value may have
  wrapped modulo 2 to the 64th.
\<close>

theorem strtosizefwd_correct:
  "h2o_strtosizefwd s (length s) =
    (let d = takeWhile is_digit s; v = of_nat (decimal d)
     in if d = [] then Inl STR_ERROR
        else if length s = 1 then Inl STR_READ_PAST_END
        else if length d \<le> 19 then Inr (v, length d)
        else if length d = 20 \<and> length s = 20 \<and> v \<noteq> 0xffffffffffffffff then Inr (v, 20)
        else Inl STR_ERROR)"
  by (rule strtosizefwd_correct_aux)

text \<open>
  C28. Decoding a base64 text undoes its encoding: always for the URL-safe alphabet, and for the standard
  alphabet when there is no padding, which the decoder refuses. The encoder stays within the capacity announced
  for it, its final NUL included.
\<close>

theorem base64_roundtrip:
  "h2o_decode_base64url (h2o_base64_encode src url_encoded) =
     (if url_encoded \<or> length src mod 3 = 0 then Some src else None) \<and>
   length (h2o_base64_encode src url_encoded) + 1 \<le> h2o_base64_encode_capacity (length src)"
  using base64_roundtrip_aux base64_encode_fits [of src url_encoded] by simp

text \<open>
  A URI-escaped string is unescaped to itself, unless it holds a NUL octet, in which case unescaping
  fails; this needs that the percent sign is not one of the preserved characters.
\<close>

theorem uri_roundtrip:
  assumes "preserve_chars = None \<or> (\<exists>cs. preserve_chars = Some cs \<and> chr CHR ''%'' \<notin> set cs)"
  shows "h2o_uri_unescape (h2o_uri_escape s preserve_chars) = (if 0 \<in> set s then None else Some s)"
proof (rule uri_roundtrip_aux)
  show "\<not> uri_unreserved preserve_chars (chr CHR ''%'')"
    using assms by (auto simp: uri_unreserved_def)
qed

theorem uri_roundtrip_witness:
  "h2o_uri_unescape (h2o_uri_escape (str ''/a b'') (Some (str ''/@:''))) = Some (str ''/a b'')"
  by (subst uri_roundtrip) simp_all

text \<open>
  C29. \<^verbatim>\<open>h2o_contains_token\<close> finds the needle exactly when one of the pieces of the string between
  separators (the given one and the comma), stripped of blanks, is the needle up to letter case.
\<close>

theorem contains_token_correct:
  assumes "needle \<noteq> []" "needle \<noteq> str '',''" "\<not> is_blank separator"
  shows "h2o_contains_token haysack needle separator \<longleftrightarrow>
    (\<exists>p\<in>set (pieces (\<lambda>c. c = separator \<or> c = chr CHR '','') haysack). map h2o_tolower (trim p) = needle)"
  using contains_token_aux [OF assms] by (simp only: lcstris_iff)

theorem contains_token_correct_witness: "h2o_contains_token (str ''close , Upgrade'') (str ''upgrade'') (chr CHR '','')"
  by (subst contains_token_correct) (simp_all add: is_blank_def trim_def rtrim_def h2o_tolower_def)

text \<open>
  Every call of \<^verbatim>\<open>h2o_next_token\<close> that returns a token leaves a strictly shorter input, also when it
  steps back over the separator behind an empty value: a loop over the tokens of a string ends.
\<close>

theorem next_token_progress:
  assumes "h2o_next_token inner outer iter = Some (token, v, iter')"
  shows "length iter' < length iter"
  using assms by (rule next_token_shorter)

theorem next_token_progress_witness:
  "h2o_next_token 0x3b 0x2c (str ''a=,b'') = Some (str ''a'', Some [], str '',b'') \<and> length (str '',b'') < length (str ''a=,b'')"
proof
  show *: "h2o_next_token 0x3b 0x2c (str ''a=,b'') = Some (str ''a'', Some [], str '',b'')"
    by (simp add: h2o_next_token_def next_token_plain_def is_blank_def)
  show "length (str '',b'') < length (str ''a=,b'')"
    using * by (rule next_token_progress)
qed

end
