(* ===== verification/Headers.thy ===== *)
theory Headers
  imports Hpack_Header String_Util
begin

text \<open>
  Lists of header fields: \<^verbatim>\<open>lib/core/headers.c\<close>. A list \<^verbatim>\<open>h2o_headers_t\<close> is the list of its entries; a name is a
  token or a buffer of its own, as in \<^verbatim>\<open>h2o_header_t\<close>. The spelling kept in \<^verbatim>\<open>orig_name\<close> is left out: it is only
  copied to HTTP/1 output.
\<close>

section \<open>Operations\<close>

text \<open>Each operation that returns an index returns it beside the list; -1 is \<^term>\<open>- 1 :: int\<close>.\<close>

definition add_header :: "h2o_header list \<Rightarrow> hname \<Rightarrow> octets \<Rightarrow> h2o_header list \<times> int" where
  "add_header headers name v =
    (headers @ [\<lparr>hdr_name = name, hdr_value = v, hdr_dont_compress = False\<rparr>], int (length headers))"

fun find_from :: "(h2o_header \<Rightarrow> bool) \<Rightarrow> int \<Rightarrow> h2o_header list \<Rightarrow> int" where
  "find_from P cursor [] = - 1"
| "find_from P cursor (h # hs) = (if P h then cursor else find_from P (cursor + 1) hs)"

definition h2o_find_header :: "h2o_header list \<Rightarrow> nat \<Rightarrow> int \<Rightarrow> int" where
  "h2o_find_header headers tok cursor =
    find_from (\<lambda>h. hdr_name h = Token tok) (cursor + 1) (drop (nat (cursor + 1)) headers)"

definition h2o_find_header_by_str :: "h2o_header list \<Rightarrow> octets \<Rightarrow> int \<Rightarrow> int" where
  "h2o_find_header_by_str headers name cursor =
    find_from (\<lambda>h. name_octets (hdr_name h) = name) (cursor + 1) (drop (nat (cursor + 1)) headers)"

definition h2o_add_header :: "h2o_header list \<Rightarrow> nat \<Rightarrow> octets \<Rightarrow> h2o_header list \<times> int" where
  "h2o_add_header headers tok v = add_header headers (Token tok) v"

definition h2o_add_header_by_str :: "h2o_header list \<Rightarrow> octets \<Rightarrow> bool \<Rightarrow> octets \<Rightarrow> h2o_header list \<times> int" where
  "h2o_add_header_by_str headers lowercase_name maybe_token v =
    (case (if maybe_token then h2o_lookup_token lowercase_name else None) of
       Some tok \<Rightarrow> add_header headers (Token tok) v
     | None \<Rightarrow> add_header headers (Buf lowercase_name) v)"

definition h2o_set_header :: "h2o_header list \<Rightarrow> nat \<Rightarrow> octets \<Rightarrow> bool \<Rightarrow> h2o_header list \<times> int" where
  "h2o_set_header headers tok v overwrite_if_exists =
    (let cursor = h2o_find_header headers tok (- 1)
     in if cursor \<noteq> - 1
        then
          (if overwrite_if_exists
           then (headers[nat cursor := (headers ! nat cursor)\<lparr>hdr_value := v\<rparr>], cursor) else (headers, cursor))
        else h2o_add_header headers tok v)"

definition h2o_set_header_by_str :: "h2o_header list \<Rightarrow> octets \<Rightarrow> bool \<Rightarrow> octets \<Rightarrow> bool \<Rightarrow> h2o_header list \<times> int" where
  "h2o_set_header_by_str headers lowercase_name maybe_token v overwrite_if_exists =
    (case (if maybe_token then h2o_lookup_token lowercase_name else None) of
       Some tok \<Rightarrow> h2o_set_header headers tok v overwrite_if_exists
     | None \<Rightarrow>
         (let cursor = h2o_find_header_by_str headers lowercase_name (- 1)
          in if cursor \<noteq> - 1
             then
               (if overwrite_if_exists
                then (headers[nat cursor := (headers ! nat cursor)\<lparr>hdr_value := v\<rparr>], cursor) else (headers, cursor))
             else add_header headers (Buf lowercase_name) v))"

text \<open>The search of \<^verbatim>\<open>h2o_set_header_token\<close>: \<^term>\<open>None\<close> when the value is there already, else \<^verbatim>\<open>found\<close>.\<close>

fun token_search :: "nat \<Rightarrow> octets \<Rightarrow> int \<Rightarrow> int \<Rightarrow> h2o_header list \<Rightarrow> int option" where
  "token_search tok v i found [] = Some found"
| "token_search tok v i found (h # hs) =
     (if hdr_name h = Token tok
      then
        (if h2o_contains_token (hdr_value h) v (chr CHR '','') then None
         else token_search tok v (i + 1) i hs)
      else token_search tok v (i + 1) found hs)"

definition h2o_set_header_token :: "h2o_header list \<Rightarrow> nat \<Rightarrow> octets \<Rightarrow> h2o_header list \<times> int" where
  "h2o_set_header_token headers tok v =
    (case token_search tok v 0 (- 1) headers of
       None \<Rightarrow> (headers, - 1)
     | Some found \<Rightarrow>
         (if found \<noteq> - 1
          then
            (headers[nat found := (headers ! nat found)\<lparr>hdr_value := hdr_value (headers ! nat found) @ str '', '' @ v\<rparr>],
             found)
          else h2o_add_header headers tok v))"

text \<open>\<^term>\<open>None\<close> is the failing \<^verbatim>\<open>assert\<close>, or a \<^verbatim>\<open>memmove\<close> outside the list.\<close>

definition h2o_delete_header :: "h2o_header list \<Rightarrow> int \<Rightarrow> (h2o_header list \<times> int) option" where
  "h2o_delete_header headers cursor =
    (if cursor = - 1 \<or> nat cursor \<ge> length headers then None
     else Some (take (nat cursor) headers @ drop (nat cursor + 1) headers, cursor))"

section \<open>Lookup after update\<close>

lemma find_from_correct:
  assumes "0 \<le> c"
  shows "find_from P c hs = - 1 \<and> (\<forall>h\<in>set hs. \<not> P h) \<or>
    (\<exists>k < length hs. find_from P c hs = c + int k \<and> P (hs ! k) \<and> (\<forall>j < k. \<not> P (hs ! j)))"
  using assms
proof (induction hs arbitrary: c)
  case (Cons h hs)
  show ?case
  proof (cases "P h")
    case True
    then show ?thesis by (intro disjI2 exI [of _ 0]) simp
  next
    case False
    have "find_from P (c + 1) hs = - 1 \<and> (\<forall>h\<in>set hs. \<not> P h) \<or>
      (\<exists>k < length hs. find_from P (c + 1) hs = c + 1 + int k \<and> P (hs ! k) \<and> (\<forall>j < k. \<not> P (hs ! j)))"
      using Cons by simp
    then show ?thesis
    proof (elim disjE exE conjE)
      fix k assume "k < length hs" "find_from P (c + 1) hs = c + 1 + int k" "P (hs ! k)" "\<forall>j < k. \<not> P (hs ! j)"
      with False show ?thesis
        by (intro disjI2 exI [of _ "Suc k"]) (auto simp: less_Suc_eq_0_disj)
    qed (use False in auto)
  qed
qed simp

lemma find_header_cases:
  obtains "h2o_find_header hs t (- 1) = - 1" "\<forall>h\<in>set hs. hdr_name h \<noteq> Token t"
  | k where "k < length hs" "h2o_find_header hs t (- 1) = int k" "hdr_name (hs ! k) = Token t"
    "\<forall>j < k. hdr_name (hs ! j) \<noteq> Token t"
  using find_from_correct [of 0 "\<lambda>h. hdr_name h = Token t" hs] by (auto simp: h2o_find_header_def)

lemma find_header_eqI:
  assumes "k < length hs" "hdr_name (hs ! k) = Token t" "\<forall>j < k. hdr_name (hs ! j) \<noteq> Token t"
  shows "h2o_find_header hs t (- 1) = int k"
  using assms by (cases rule: find_header_cases [of hs t]) (auto, metis linorder_neqE_nat)

text \<open>A set header is found where the call says, and with overwriting it has the new value.\<close>

lemma set_header_find:
  assumes "h2o_set_header hs t v ow = (hs', i)"
  shows "h2o_find_header hs' t (- 1) = i \<and> 0 \<le> i \<and> nat i < length hs' \<and>
    (ow \<or> h2o_find_header hs t (- 1) = - 1 \<longrightarrow> hdr_value (hs' ! nat i) = v)"
proof (cases rule: find_header_cases [of hs t])
  case 1
  then have hs': "hs' = hs @ [\<lparr>hdr_name = Token t, hdr_value = v, hdr_dont_compress = False\<rparr>]" "i = int (length hs)"
    using assms by (auto simp: h2o_set_header_def h2o_add_header_def add_header_def)
  have "h2o_find_header hs' t (- 1) = int (length hs)"
    using 1 by (intro find_header_eqI) (auto simp: hs' nth_append)
  then show ?thesis by (simp add: hs')
next
  case (2 k)
  then have i: "i = int k" and hs': "hs' = (if ow then hs[k := (hs ! k)\<lparr>hdr_value := v\<rparr>] else hs)"
    using assms by (auto simp: h2o_set_header_def Let_def split: if_splits)
  have "h2o_find_header hs' t (- 1) = int k"
    using 2 by (intro find_header_eqI) (auto simp: hs')
  then show ?thesis using 2 by (auto simp: i hs')
qed

lemma token_search_correct:
  "0 \<le> i \<Longrightarrow> case token_search t v i found hs of
     None \<Rightarrow> \<exists>h\<in>set hs. hdr_name h = Token t \<and> h2o_contains_token (hdr_value h) v (chr CHR '','')
   | Some r \<Rightarrow> (\<forall>h\<in>set hs. hdr_name h = Token t \<longrightarrow> \<not> h2o_contains_token (hdr_value h) v (chr CHR '','')) \<and>
       (r = found \<and> (\<forall>h\<in>set hs. hdr_name h \<noteq> Token t) \<or>
        (\<exists>k < length hs. r = i + int k \<and> hdr_name (hs ! k) = Token t \<and> (\<forall>h\<in>set (drop (Suc k) hs). hdr_name h \<noteq> Token t)))"
proof (induction hs arbitrary: i found)
  case (Cons h hs)
  let ?f = "if hdr_name h = Token t then i else found"
  show ?case
  proof (cases "hdr_name h = Token t \<and> h2o_contains_token (hdr_value h) v (chr CHR '','')")
    case False
    then have step: "token_search t v i found (h # hs) = token_search t v (i + 1) ?f hs" by auto
    show ?thesis
    proof (cases "token_search t v (i + 1) ?f hs")
      case None
      then show ?thesis using Cons.IH [of "i + 1" ?f] Cons.prems unfolding step by auto
    next
      case (Some r)
      then have no: "\<forall>h\<in>set hs. hdr_name h = Token t \<longrightarrow> \<not> h2o_contains_token (hdr_value h) v (chr CHR '','')"
        and r: "r = ?f \<and> (\<forall>h\<in>set hs. hdr_name h \<noteq> Token t) \<or>
          (\<exists>k < length hs. r = i + 1 + int k \<and> hdr_name (hs ! k) = Token t \<and> (\<forall>h\<in>set (drop (Suc k) hs). hdr_name h \<noteq> Token t))"
        using Cons.IH [of "i + 1" ?f] Cons.prems by simp_all
      from r have "r = found \<and> (\<forall>h\<in>set (h # hs). hdr_name h \<noteq> Token t) \<or>
          (\<exists>k < length (h # hs). r = i + int k \<and> hdr_name ((h # hs) ! k) = Token t \<and> (\<forall>h\<in>set (drop (Suc k) (h # hs)). hdr_name h \<noteq> Token t))"
      proof
        assume "r = ?f \<and> (\<forall>h\<in>set hs. hdr_name h \<noteq> Token t)"
        then show ?thesis by (cases "hdr_name h = Token t") (auto intro!: exI [of _ 0])
      next
        assume "\<exists>k < length hs. r = i + 1 + int k \<and> hdr_name (hs ! k) = Token t \<and> (\<forall>h\<in>set (drop (Suc k) hs). hdr_name h \<noteq> Token t)"
        then obtain k where "k < length hs" "r = i + 1 + int k" "hdr_name (hs ! k) = Token t" "\<forall>h\<in>set (drop (Suc k) hs). hdr_name h \<noteq> Token t" by blast
        then show ?thesis by (intro disjI2 exI [of _ "Suc k"]) simp
      qed
      then show ?thesis unfolding step Some option.case using no False by auto
    qed
  qed auto
qed simp

lemma token_search_None:
  assumes "h \<in> set hs" "hdr_name h = Token t" "h2o_contains_token (hdr_value h) v (chr CHR '','')"
  shows "token_search t v i found hs = None"
  using assms(1) by (induction hs arbitrary: i found) (use assms(2,3) in auto)

lemma trim_id: "v \<noteq> [] \<Longrightarrow> \<not> is_blank (hd v) \<Longrightarrow> \<not> is_blank (last v) \<Longrightarrow> trim v = v"
proof -
  assume *: "v \<noteq> []" "\<not> is_blank (hd v)" "\<not> is_blank (last v)"
  then have "dropWhile is_blank v = v" by (cases v) auto
  moreover have "rtrim v = v" using * by (cases v rule: rev_cases) (auto simp: rtrim_snoc)
  ultimately show "trim v = v" by (simp add: trim_def)
qed

text \<open>An element that was appended behind a comma and a blank is found.\<close>

lemma contains_appended:
  assumes "v \<noteq> []" "v = map h2o_tolower v" "chr CHR '','' \<notin> set v" "\<not> is_blank (hd v)" "\<not> is_blank (last v)"
  shows "h2o_contains_token v v (chr CHR '','')" "h2o_contains_token (x @ str '', '' @ v) v (chr CHR '','')"
proof -
  let ?P = "\<lambda>c. c = chr CHR '','' \<or> c = chr CHR '',''"
  have nc: "\<forall>c\<in>set v. \<not> ?P c" "\<forall>c\<in>set (0x20 # v). \<not> ?P c" using assms(3) by auto
  have pv: "pieces ?P v = [v]" using pieces_append [OF nc(1), of "[]"] by simp
  have pb: "pieces ?P (0x20 # v) = [0x20 # v]" using pieces_append [OF nc(2), of "[]"] by simp
  have tr: "trim v = v" "trim (0x20 # v) = v"
    using trim_id [OF assms(1,4,5)] by (simp_all add: trim_def is_blank_def)
  have ne: "v \<noteq> str '',''" using assms(3) by auto
  have nb: "\<not> is_blank (chr CHR '','')" by (simp add: is_blank_def)
  have lc: "h2o_lcstris v v" using assms(2) by (simp add: lcstris_iff)
  note iff = contains_token_aux [OF assms(1) ne nb]
  show "h2o_contains_token v v (chr CHR '','')"
    unfolding iff pv using lc tr by simp
  have "pieces ?P (x @ chr CHR '','' # 0x20 # v) = pieces ?P x @ pieces ?P (0x20 # v)"
    by (rule pieces_sep_append) simp
  then show "h2o_contains_token (x @ str '', '' @ v) v (chr CHR '','')"
    unfolding iff using pb lc tr by simp
qed

lemma contains_behind:
  assumes "h2o_contains_token x u (chr CHR '','')" "u \<noteq> []" "u \<noteq> str '',''"
  shows "h2o_contains_token (x @ str '', '' @ v) u (chr CHR '','')"
proof -
  have nb: "\<not> is_blank (chr CHR '','')" by (simp add: is_blank_def)
  note iff = contains_token_aux [OF assms(2,3) nb]
  have "pieces (\<lambda>c. c = chr CHR '','' \<or> c = chr CHR '','') (x @ chr CHR '','' # 0x20 # v) =
      pieces (\<lambda>c. c = chr CHR '','' \<or> c = chr CHR '','') x @ pieces (\<lambda>c. c = chr CHR '','' \<or> c = chr CHR '','') (0x20 # v)"
    by (rule pieces_sep_append) simp
  then show ?thesis using assms(1) unfolding iff by auto
qed

text \<open>What happens to the list: nothing if some field has the element, a new field if there is none with the name, else the last one is extended.\<close>

definition element_added :: "h2o_header list \<Rightarrow> nat \<Rightarrow> octets \<Rightarrow> h2o_header list \<Rightarrow> int \<Rightarrow> bool" where
  "element_added hs t v hs' i \<longleftrightarrow>
    (if \<exists>h\<in>set hs. hdr_name h = Token t \<and> h2o_contains_token (hdr_value h) v (chr CHR '','') then hs' = hs \<and> i = - 1
     else if \<forall>h\<in>set hs. hdr_name h \<noteq> Token t
     then hs' = hs @ [\<lparr>hdr_name = Token t, hdr_value = v, hdr_dont_compress = False\<rparr>] \<and> i = int (length hs)
     else (\<exists>k < length hs. hdr_name (hs ! k) = Token t \<and> (\<forall>h\<in>set (drop (Suc k) hs). hdr_name h \<noteq> Token t) \<and> i = int k \<and>
       hs' = hs[k := (hs ! k)\<lparr>hdr_value := hdr_value (hs ! k) @ str '', '' @ v\<rparr>]))"

lemma set_header_token_added:
  assumes "h2o_set_header_token hs t v = (hs', i)"
  shows "element_added hs t v hs' i"
proof (cases "token_search t v 0 (- 1) hs")
  case None
  then show ?thesis
    using assms token_search_correct [where i = 0 and t = t and v = v and found = "- 1" and hs = hs]
    by (auto simp: h2o_set_header_token_def element_added_def)
next
  case (Some r)
  note c = token_search_correct [where i = 0 and t = t and v = v and found = "- 1" and hs = hs, unfolded Some, simplified]
  then have no: "\<not> (\<exists>h\<in>set hs. hdr_name h = Token t \<and> h2o_contains_token (hdr_value h) v (chr CHR '',''))" by auto
  show ?thesis
  proof (cases "r = - 1")
    case True
    then have "\<forall>h\<in>set hs. hdr_name h \<noteq> Token t" using c by auto
    then show ?thesis
      using assms Some True no by (simp add: h2o_set_header_token_def element_added_def h2o_add_header_def add_header_def)
  next
    case False
    then obtain k where k: "k < length hs" "r = int k" "hdr_name (hs ! k) = Token t" "\<forall>h\<in>set (drop (Suc k) hs). hdr_name h \<noteq> Token t"
      using c by auto
    then have "\<not> (\<forall>h\<in>set hs. hdr_name h \<noteq> Token t)" using nth_mem by blast
    then show ?thesis using assms Some False no k by (auto simp: h2o_set_header_token_def element_added_def)
  qed
qed

text \<open>
  C18. \<^verbatim>\<open>h2o_set_header_token\<close> makes a header field contain an element, written in lower case without commas and surrounding blanks. If a field
  with the name has it already, the list is unchanged; if no field has the name, one is added; otherwise the element is appended to the last field with
  the name. In every case all other fields are as before and no field loses an element, a field with the name then has the element, and
  the call is idempotent.
\<close>

theorem set_header_token_contains:
  assumes "h2o_set_header_token hs t v = (hs', i)" "v \<noteq> []" "v = map h2o_tolower v"
    and "chr CHR '','' \<notin> set v" "\<not> is_blank (hd v)" "\<not> is_blank (last v)"
  shows "element_added hs t v hs' i \<and>
    (\<exists>h\<in>set hs'. hdr_name h = Token t \<and> h2o_contains_token (hdr_value h) v (chr CHR '','')) \<and>
    filter (\<lambda>h. hdr_name h \<noteq> Token t) hs' = filter (\<lambda>h. hdr_name h \<noteq> Token t) hs \<and>
    (\<forall>j u. j < length hs \<and> u \<noteq> [] \<and> u \<noteq> str '','' \<and> h2o_contains_token (hdr_value (hs ! j)) u (chr CHR '','') \<longrightarrow>
      h2o_contains_token (hdr_value (hs' ! j)) u (chr CHR '','')) \<and>
    h2o_set_header_token hs' t v = (hs', - 1)"
proof -
  note added = set_header_token_added [OF assms(1)]
  have rest: "(\<exists>h\<in>set hs'. hdr_name h = Token t \<and> h2o_contains_token (hdr_value h) v (chr CHR '','')) \<and>
    filter (\<lambda>h. hdr_name h \<noteq> Token t) hs' = filter (\<lambda>h. hdr_name h \<noteq> Token t) hs \<and>
    (\<forall>j u. j < length hs \<and> u \<noteq> [] \<and> u \<noteq> str '','' \<and> h2o_contains_token (hdr_value (hs ! j)) u (chr CHR '','') \<longrightarrow>
      h2o_contains_token (hdr_value (hs' ! j)) u (chr CHR '',''))"
  proof -
    consider (same) "\<exists>h\<in>set hs. hdr_name h = Token t \<and> h2o_contains_token (hdr_value h) v (chr CHR '','')" "hs' = hs"
      | (new) "hs' = hs @ [\<lparr>hdr_name = Token t, hdr_value = v, hdr_dont_compress = False\<rparr>]"
      | (old) k where "k < length hs" "hdr_name (hs ! k) = Token t" "hs' = hs[k := (hs ! k)\<lparr>hdr_value := hdr_value (hs ! k) @ str '', '' @ v\<rparr>]"
      using added by (auto simp: element_added_def split: if_splits)
    then show ?thesis
    proof cases
      case same
      then show ?thesis by blast
    next
      case new
      then show ?thesis using contains_appended(1) [OF assms(2-6)] by (auto simp: nth_append simp del: of_char_Char)
    next
      case old
      let ?h = "(hs ! k)\<lparr>hdr_value := hdr_value (hs ! k) @ str '', '' @ v\<rparr>"
      have "filter (\<lambda>h. hdr_name h \<noteq> Token t) (hs[k := ?h]) =
          filter (\<lambda>h. hdr_name h \<noteq> Token t) (take k hs @ hs ! k # drop (Suc k) hs)"
        unfolding upd_conv_take_nth_drop [OF old(1)] using old(2) by simp
      also have "\<dots> = filter (\<lambda>h. hdr_name h \<noteq> Token t) hs" using id_take_nth_drop [OF old(1)] by simp
      finally have f: "filter (\<lambda>h. hdr_name h \<noteq> Token t) hs' = filter (\<lambda>h. hdr_name h \<noteq> Token t) hs" by (simp add: old(3))
      have m: "?h \<in> set hs'" using old(1) by (simp add: old(3) set_update_memI)
      have c: "h2o_contains_token (hdr_value ?h) v (chr CHR '','')" using contains_appended(2) [OF assms(2-6)] by simp
      have "h2o_contains_token (hdr_value (hs' ! j)) u (chr CHR '','')"
        if "j < length hs" "u \<noteq> []" "u \<noteq> str '',''" "h2o_contains_token (hdr_value (hs ! j)) u (chr CHR '','')" for j u
        using that contains_behind [OF that(4,2,3), of v] old(1) by (cases "j = k") (simp_all add: old(3) del: str_Cons)
      then show ?thesis using f bexI [OF _ m] c old(2) by auto
    qed
  qed
  then obtain h where "h \<in> set hs'" "hdr_name h = Token t" "h2o_contains_token (hdr_value h) v (chr CHR '','')" by blast
  then have "h2o_set_header_token hs' t v = (hs', - 1)"
    using token_search_None [of h hs' t v 0 "- 1"] by (simp add: h2o_set_header_token_def)
  with added rest show ?thesis by blast
qed

theorem set_header_token_contains_witness:
  "\<exists>hs' i. h2o_set_header_token [\<lparr>hdr_name = Token H2O_TOKEN_VARY, hdr_value = str ''origin'', hdr_dont_compress = False\<rparr>]
      H2O_TOKEN_VARY (str ''accept-encoding'') = (hs', i) \<and> h2o_set_header_token hs' H2O_TOKEN_VARY (str ''accept-encoding'') = (hs', - 1)"
proof -
  let ?v = "str ''accept-encoding''"
  obtain hs' i where *: "h2o_set_header_token [\<lparr>hdr_name = Token H2O_TOKEN_VARY, hdr_value = str ''origin'', hdr_dont_compress = False\<rparr>]
      H2O_TOKEN_VARY ?v = (hs', i)" by fastforce
  have "?v \<noteq> []" "?v = map h2o_tolower ?v" "chr CHR '','' \<notin> set ?v" "\<not> is_blank (hd ?v)" "\<not> is_blank (last ?v)"
    by (simp_all add: h2o_tolower_def is_blank_def)
  from set_header_token_contains [OF * this] * show ?thesis by blast
qed

end
