(* ===== verification/Url.thy ===== *)
theory Url
  imports String_Util
begin

text \<open>
  URLs: \<^verbatim>\<open>lib/common/url.c\<close> and the inline functions of \<^verbatim>\<open>include/h2o/url.h\<close>. Parsing of absolute and
  relative URLs, resolution, and the normalisation of request paths (percent-decoding and removal of dot segments in
  one pass), which is shown to compute what a two-pass specification prescribes and never to let \<open>..\<close> through.
\<close>

section \<open>Schemes and URLs\<close>

datatype h2o_url_scheme_t =
    H2O_URL_SCHEME_HTTP
  | H2O_URL_SCHEME_HTTPS
  | H2O_URL_SCHEME_MASQUE
  | H2O_URL_SCHEME_FASTCGI

fun scheme_name :: "h2o_url_scheme_t \<Rightarrow> octets" where
  "scheme_name H2O_URL_SCHEME_HTTP = str ''http''"
| "scheme_name H2O_URL_SCHEME_HTTPS = str ''https''"
| "scheme_name H2O_URL_SCHEME_MASQUE = str ''masque''"
| "scheme_name H2O_URL_SCHEME_FASTCGI = str ''fastcgi''"

fun scheme_default_port :: "h2o_url_scheme_t \<Rightarrow> u16" where
  "scheme_default_port H2O_URL_SCHEME_HTTP = 80"
| "scheme_default_port H2O_URL_SCHEME_HTTPS = 443"
| "scheme_default_port H2O_URL_SCHEME_MASQUE = 65535"
| "scheme_default_port H2O_URL_SCHEME_FASTCGI = 65535"

fun scheme_is_ssl :: "h2o_url_scheme_t \<Rightarrow> bool" where
  "scheme_is_ssl H2O_URL_SCHEME_HTTPS = True"
| "scheme_is_ssl _ = False"

text \<open>\<^term>\<open>None\<close> stands for a \<^verbatim>\<open>NULL\<close> scheme or base pointer.\<close>

record h2o_url =
  url_scheme :: "h2o_url_scheme_t option"
  url_authority :: "octets option"
  url_host :: "octets option"
  url_path :: "octets option"
  url_port :: u16

section \<open>Path normalisation\<close>

abbreviation slash :: u8 where
  "slash \<equiv> 0x2f"

abbreviation dot :: u8 where
  "dot \<equiv> 0x2e"

text \<open>
  The backward loop of \<^verbatim>\<open>handle_special_paths\<close>; \<^term>\<open>None\<close> is a read in front of the path. The function returns the number of octets
  to take back.
\<close>

fun back_to_slash :: "octets \<Rightarrow> nat \<Rightarrow> nat option" where
  "back_to_slash path 0 = None"
| "back_to_slash path (Suc off) = (if path ! off = slash then Some (Suc off) else back_to_slash path off)"

definition handle_special_paths :: "octets \<Rightarrow> nat \<Rightarrow> nat \<Rightarrow> nat option" where
  "handle_special_paths path off last_slash =
    (let part_size = off - last_slash
     in if part_size = 2 \<and> path ! (off - 1) = dot then Some 1
        else if part_size = 3 \<and> path ! (off - 2) = dot \<and> path ! (off - 1) = dot then
          (if off - 2 > 1
           then map_option (\<lambda>off'. off - off') (back_to_slash path (off - 2 - 1))
           else Some 2)
        else Some 0)"

text \<open>One octet of the source, percent-decoded if possible, and the offset behind it.\<close>

definition path_octet :: "octets \<Rightarrow> nat \<Rightarrow> u8 \<times> nat" where
  "path_octet src src_off =
    (if src ! src_off = chr CHR ''%'' \<and> src_off + 2 < length src
     then
       (case (decode_hex (src ! (src_off + 1)), decode_hex (src ! (src_off + 2))) of
          (Some hi, Some lo) \<Rightarrow> (push_bit 4 hi OR lo, src_off + 3)
        | _ \<Rightarrow> (src ! src_off, src_off + 1))
     else (src ! src_off, src_off + 1))"

lemma path_octet_advances: "src_off < snd (path_octet src src_off)"
  by (auto simp: path_octet_def split: option.splits)

record rebuilt =
  rb_path :: octets
  rb_norm_indexes :: "nat list"
  rb_null_char_found :: bool

text \<open>
  The loop of \<^verbatim>\<open>rebuild_path\<close>: \<open>src\<close> ends where the query starts; \<open>dst\<close> and \<open>idx\<close> are the octets and
  the indexes stored so far, so \<^verbatim>\<open>dst_off\<close> is their length.
\<close>

function rebuild_loop :: "octets \<Rightarrow> nat \<Rightarrow> octets \<Rightarrow> nat list \<Rightarrow> nat \<Rightarrow> bool \<Rightarrow> (rebuilt \<times> nat) option" where
  "rebuild_loop src src_off dst idx last_slash null =
    (if src_off < length src
     then
       (let decoded = fst (path_octet src src_off); src_off' = snd (path_octet src src_off)
        in if decoded = slash
           then
             (case handle_special_paths dst (length dst) last_slash of
                None \<Rightarrow> None
              | Some rewind \<Rightarrow>
                  (if rewind > 0
                   then
                     rebuild_loop src src_off' (take (length dst - rewind) dst) (take (length dst - rewind) idx)
                       (length dst - rewind - 1) null
                   else rebuild_loop src src_off' (dst @ [decoded]) (idx @ [src_off']) (length dst) null))
           else
             rebuild_loop src src_off' (dst @ [decoded]) (idx @ [src_off']) last_slash (null \<or> decoded = 0))
     else Some (\<lparr>rb_path = dst, rb_norm_indexes = idx, rb_null_char_found = null\<rparr>, last_slash))"
  by pat_completeness auto
termination
proof (relation "measure (\<lambda>(src, src_off, _). length src - src_off)")
qed (use path_octet_advances in \<open>auto intro!: diff_less_mono2\<close>)

declare rebuild_loop.simps [simp del]

definition query_start :: "octets \<Rightarrow> nat option" where
  "query_start src =
    (if chr CHR ''?'' \<in> set src then Some (length (takeWhile (\<lambda>c. c \<noteq> chr CHR ''?'') src)) else None)"

definition rebuild_path :: "octets \<Rightarrow> (rebuilt \<times> nat option) option" where
  "rebuild_path src =
    (let query_at = query_start src;
         src1 = (case query_at of Some q \<Rightarrow> take q src | None \<Rightarrow> src);
         src_off = (if src ! 0 = slash then 1 else 0)
     in case rebuild_loop src1 src_off [slash] [src_off] 0 False of
          None \<Rightarrow> None
        | Some (r, last_slash) \<Rightarrow>
            (case handle_special_paths (rb_path r) (length (rb_path r)) last_slash of
               None \<Rightarrow> None
             | Some rewind \<Rightarrow>
                 Some (r\<lparr>rb_path := take (length (rb_path r) - rewind) (rb_path r)\<rparr>, query_at)))"

text \<open>The two scanning loops of \<^verbatim>\<open>h2o_url_normalize_path\<close>: \<open>p\<close> is the offset of the octets that are left.\<close>

datatype scan = Rewrite | Return nat "nat option"

fun normalize_scan :: "nat \<Rightarrow> octets \<Rightarrow> scan" where
  "normalize_scan p [] = Return p None"
| "normalize_scan p [c] =
     (if c = 0 then Rewrite else if c = chr CHR ''?'' then Return p (Some p) else Return (p + 1) None)"
| "normalize_scan p (c # d # s) =
     (if c = slash \<and> d = dot \<or> c = chr CHR ''%'' \<or> c = 0 then Rewrite
      else if c = chr CHR ''?'' then Return p (Some p)
      else normalize_scan (p + 1) (d # s))"

record normalized =
  nm_path :: octets
  nm_query_at :: "nat option"
  nm_norm_indexes :: "nat list option"
  nm_null_char_found :: bool

definition rewrite_failed :: "octets \<Rightarrow> bool" where
  "rewrite_failed ret \<longleftrightarrow>
    ret = [] \<or> ret ! 0 \<noteq> slash \<or> h2o_strstr ret (str ''/../'') \<noteq> None \<or>
    (length ret \<ge> 3 \<and> drop (length ret - 3) ret = str ''/..'')"

definition h2o_url_normalize_path :: "octets \<Rightarrow> normalized option" where
  "h2o_url_normalize_path path =
    (if path = [] then
       Some \<lparr>nm_path = str ''/'', nm_query_at = None, nm_norm_indexes = None, nm_null_char_found = False\<rparr>
     else
       (case (if path ! 0 \<noteq> slash then Rewrite else normalize_scan 0 path) of
          Return p query_at \<Rightarrow>
            Some \<lparr>nm_path = take p path, nm_query_at = query_at, nm_norm_indexes = None, nm_null_char_found = False\<rparr>
        | Rewrite \<Rightarrow>
            (case rebuild_path path of
               None \<Rightarrow> None
             | Some (r, query_at) \<Rightarrow>
                 Some \<lparr>nm_path = (if rewrite_failed (rb_path r) then str ''/'' else rb_path r),
                   nm_query_at = query_at, nm_norm_indexes = Some (rb_norm_indexes r),
                   nm_null_char_found = rb_null_char_found r\<rparr>)))"

section \<open>Parsing\<close>

definition parse_scheme :: "octets \<Rightarrow> (h2o_url_scheme_t \<times> octets) option" where
  "parse_scheme s =
    (if take 5 s = str ''http:'' then Some (H2O_URL_SCHEME_HTTP, drop 5 s)
     else if take 6 s = str ''https:'' then Some (H2O_URL_SCHEME_HTTPS, drop 6 s)
     else if take 7 s = str ''masque:'' then Some (H2O_URL_SCHEME_MASQUE, drop 7 s)
     else None)"

text \<open>The loop over the port; an octet that is neither a digit nor the start of the path is skipped.\<close>

fun port_loop :: "u32 \<Rightarrow> octets \<Rightarrow> (u32 \<times> octets) option" where
  "port_loop p [] = Some (p, [])"
| "port_loop p (c # s) =
     (if is_digit c then
        (let p' = p * 10 + ucast c - 0x30 in if p' \<ge> 65535 then None else port_loop p' s)
      else if c = slash \<or> c = chr CHR ''?'' then Some (p, c # s)
      else port_loop p s)"

text \<open>Host, port, and the octets from the returned position on; \<^term>\<open>None\<close> is \<^verbatim>\<open>NULL\<close>.\<close>

definition h2o_url_parse_hostport :: "octets \<Rightarrow> (octets \<times> u16 \<times> octets) option" where
  "h2o_url_parse_hostport s =
    (case s of
       [] \<Rightarrow> None
     | c # s' \<Rightarrow>
         (case (if c = chr CHR ''['' then
                  (if chr CHR '']'' \<in> set s'
                   then Some (takeWhile (\<lambda>c. c \<noteq> chr CHR '']'') s', tl (dropWhile (\<lambda>c. c \<noteq> chr CHR '']'') s'))
                   else None)
                else
                  (let stop = (\<lambda>c. c \<noteq> slash \<and> c \<noteq> chr CHR ''?'' \<and> c \<noteq> chr CHR '':'')
                   in Some (takeWhile stop s, dropWhile stop s))) of
            None \<Rightarrow> None
          | Some (host, rest) \<Rightarrow>
              (if host = [] then None
               else
                 (case rest of
                    [] \<Rightarrow> Some (host, 65535, rest)
                  | d # rest' \<Rightarrow>
                      (if d = chr CHR '':''
                       then map_option (\<lambda>(p, r). (host, ucast p, r)) (port_loop 0 rest')
                       else Some (host, 65535, rest))))))"

definition parse_authority_and_path :: "h2o_url_scheme_t option \<Rightarrow> octets \<Rightarrow> h2o_url option" where
  "parse_authority_and_path scheme src =
    (case h2o_url_parse_hostport src of
       None \<Rightarrow> None
     | Some (host, port, p) \<Rightarrow>
         (let parsed = (\<lambda>path. \<lparr>url_scheme = scheme, url_authority = Some (take (length src - length p) src),
                          url_host = Some host, url_path = Some path, url_port = port\<rparr>)
          in case p of
               [] \<Rightarrow> Some (parsed (str ''/''))
             | c # _ \<Rightarrow>
                 (if c = slash then Some (parsed p)
                  else if c = chr CHR ''?'' then Some (parsed (str ''/'' @ p))
                  else None)))"

definition h2o_url_parse :: "octets \<Rightarrow> h2o_url option" where
  "h2o_url_parse url =
    (case parse_scheme url of
       None \<Rightarrow> None
     | Some (scheme, p) \<Rightarrow>
         (if take 2 p = str ''//'' then parse_authority_and_path (Some scheme) (drop 2 p) else None))"

definition h2o_url_parse_relative :: "octets \<Rightarrow> h2o_url option" where
  "h2o_url_parse_relative url =
    (case (case parse_scheme url of None \<Rightarrow> (None, url) | Some (s, p) \<Rightarrow> (Some s, p)) of
       (scheme, p) \<Rightarrow>
         (if take 2 p = str ''//'' then parse_authority_and_path scheme (drop 2 p)
          else Some \<lparr>url_scheme = scheme, url_authority = None, url_host = None, url_path = Some p, url_port = 65535\<rparr>))"

text \<open>The unix-domain socket path copied to \<^verbatim>\<open>sun_path\<close>, or the error text.\<close>

definition sun_path_size :: nat where
  "sun_path_size = 108"

definition h2o_url_host_to_sun_err_is_not_unix_socket :: string where
  "h2o_url_host_to_sun_err_is_not_unix_socket = ''supplied name does not look like an unix-domain socket''"

definition h2o_url_host_to_sun :: "octets \<Rightarrow> string + octets" where
  "h2o_url_host_to_sun host =
    (if take 5 host \<noteq> str ''unix:'' then Inl h2o_url_host_to_sun_err_is_not_unix_socket
     else if (of_nat (length host) - 6 - 1 :: u64) \<ge> of_nat sun_path_size
     then Inl ''unix-domain socket path is too long''
     else Inr (drop 5 host))"

section \<open>Construction and comparison\<close>

definition h2o_url_init :: "h2o_url_scheme_t \<Rightarrow> octets \<Rightarrow> octets \<Rightarrow> h2o_url option" where
  "h2o_url_init scheme authority path =
    (case h2o_url_parse_hostport authority of
       Some (host, port, []) \<Rightarrow>
         Some \<lparr>url_scheme = Some scheme, url_authority = Some authority, url_host = Some host, url_path = Some path,
           url_port = port\<rparr>
     | _ \<Rightarrow> None)"

definition h2o_url_get_port :: "h2o_url \<Rightarrow> u16" where
  "h2o_url_get_port url =
    (if url_port url \<noteq> 65535 then url_port url
     else (case url_scheme url of Some s \<Rightarrow> scheme_default_port s | None \<Rightarrow> 65535))"

definition h2o_url_init_with_hostport :: "h2o_url_scheme_t \<Rightarrow> octets \<Rightarrow> u16 \<Rightarrow> octets \<Rightarrow> h2o_url" where
  "h2o_url_init_with_hostport scheme host port path =
    (if port = scheme_default_port scheme
     then \<lparr>url_scheme = Some scheme, url_authority = Some host, url_host = Some host, url_path = Some path,
            url_port = 65535\<rparr>
     else \<lparr>url_scheme = Some scheme, url_authority = Some (host @ [chr CHR '':''] @ sprintf_u (unat port)),
            url_host = Some host, url_path = Some path, url_port = port\<rparr>)"

definition h2o_url_init_with_sun_path :: "h2o_url_scheme_t \<Rightarrow> octets \<Rightarrow> octets \<Rightarrow> h2o_url" where
  "h2o_url_init_with_sun_path scheme sun_path path =
    (let authority = str ''[unix:'' @ sun_path @ str '']''
     in \<lparr>url_scheme = Some scheme, url_authority = Some authority,
          url_host = Some (take (length authority - 2) (drop 1 authority)), url_path = Some path, url_port = 65535\<rparr>)"

definition h2o_url_host_is_unix_path :: "octets \<Rightarrow> bool" where
  "h2o_url_host_is_unix_path host = (if length host < 5 then False else take 5 host = str ''unix:'')"

definition h2o_url_hosts_are_equal :: "octets \<Rightarrow> octets \<Rightarrow> bool" where
  "h2o_url_hosts_are_equal host_a host_b =
    (if length host_a \<noteq> length host_b then False
     else if h2o_url_host_is_unix_path host_a then host_a = host_b
     else h2o_lcstris host_a host_b)"

section \<open>Resolution\<close>

text \<open>The backward loop over the base path; \<^term>\<open>None\<close> is a read in front of it.\<close>

fun last_slash_before :: "octets \<Rightarrow> nat \<Rightarrow> nat option" where
  "last_slash_before base 0 = None"
| "last_slash_before base (Suc n) = (if base ! n = slash then Some n else last_slash_before base n)"

function resolve_loop :: "octets \<Rightarrow> nat \<Rightarrow> octets \<Rightarrow> (nat \<times> octets) option" where
  "resolve_loop base base_path_len rel =
    (if rel \<noteq> [] \<and> hd rel = dot then
       (if length rel \<ge> 2 \<and> rel ! 1 = dot \<and> (length rel = 2 \<or> rel ! 2 = slash)
        then
          (case (if base_path_len \<noteq> 0 then last_slash_before base base_path_len else Some base_path_len) of
             None \<Rightarrow> None
           | Some base_path_len' \<Rightarrow> resolve_loop base base_path_len' (drop (if length rel = 2 then 2 else 3) rel))
        else if length rel = 1 then resolve_loop base base_path_len (drop 1 rel)
        else if rel ! 1 = slash then resolve_loop base base_path_len (drop 2 rel)
        else Some (base_path_len, rel))
     else Some (base_path_len, rel))"
  by pat_completeness auto
termination
  by (relation "measure (\<lambda>(base, n, rel). length rel)") auto

declare resolve_loop.simps [simp del]

definition h2o_url_resolve_path :: "octets \<Rightarrow> octets \<Rightarrow> (octets \<times> octets) option" where
  "h2o_url_resolve_path base relative =
    (if relative \<noteq> [] \<and> hd relative = slash then Some ([], relative)
     else
       (case last_slash_before base (length base) of
          None \<Rightarrow> None
        | Some base_path_len \<Rightarrow>
            map_option (\<lambda>(n, rel). (take (n + 1) base, rel)) (resolve_loop base base_path_len relative)))"

text \<open>
  The last part of \<^verbatim>\<open>h2o_url_resolve\<close>: the text, and \<^verbatim>\<open>dest\<close> with its parts pointing into the text. \<^term>\<open>None\<close> is a failing \<^verbatim>\<open>assert\<close>
  or the use of a \<^verbatim>\<open>NULL\<close> scheme.
\<close>

definition resolve_build :: "h2o_url \<Rightarrow> octets \<Rightarrow> octets \<Rightarrow> (octets \<times> h2o_url) option" where
  "resolve_build dest base_path relative_path =
    (case url_scheme dest of
       None \<Rightarrow> None
     | Some scheme \<Rightarrow>
         (let authority = (case url_authority dest of Some a \<Rightarrow> a | None \<Rightarrow> []);
              host_len = (case url_host dest of Some h \<Rightarrow> length h | None \<Rightarrow> 0);
              ret = h2o_concat_list [scheme_name scheme, str ''://'', authority, base_path, relative_path];
              at = drop (length (scheme_name scheme) + 3) ret;
              host_at = (if authority \<noteq> [] \<and> hd at = chr CHR ''['' then drop 1 at else at)
          in Some (ret, dest\<lparr>url_authority := Some (take (length authority) at), url_host := Some (take host_len host_at),
                          url_path := Some (drop (length authority) at)\<rparr>)))"

definition h2o_url_resolve :: "h2o_url \<Rightarrow> h2o_url option \<Rightarrow> (octets \<times> h2o_url) option" where
  "h2o_url_resolve base relative =
    (case url_path base of
       None \<Rightarrow> None
     | Some base_path \<Rightarrow>
         (if base_path = [] \<or> hd base_path \<noteq> slash then None
          else
            (case relative of
               None \<Rightarrow> resolve_build base base_path []
             | Some rel \<Rightarrow>
                 (if (url_authority rel = None) \<noteq> (url_host rel = None) \<or>
                     (url_authority rel = None \<and> url_port rel \<noteq> 65535)
                  then None
                  else
                    (let from = (if url_authority rel \<noteq> None then rel else base);
                         dest = \<lparr>url_scheme = (if url_scheme rel \<noteq> None then url_scheme rel else url_scheme base),
                           url_authority = url_authority from, url_host = url_host from, url_path = None,
                           url_port = url_port from\<rparr>
                     in case url_path rel of
                          None \<Rightarrow> resolve_build dest base_path []
                        | Some p \<Rightarrow>
                            (case h2o_url_resolve_path base_path p of
                               None \<Rightarrow> None
                             | Some (b, r) \<Rightarrow> resolve_build dest b r))))))"

definition h2o_url_stringify :: "h2o_url \<Rightarrow> octets option" where
  "h2o_url_stringify url = map_option fst (h2o_url_resolve url None)"

section \<open>Specification of normalisation\<close>

text \<open>
  The two-pass specification: percent-decode the path, cut it into segments at the slashes, remove the segments \<open>.\<close>, let each
  segment \<open>..\<close> take the segment before it away, and write the rest with a slash in front of each.
\<close>

fun decode_path :: "octets \<Rightarrow> octets" where
  "decode_path [] = []"
| "decode_path (c # s) =
     (if c = chr CHR ''%''
      then
        (case s of
           h # l # s' \<Rightarrow>
             (case (decode_hex h, decode_hex l) of
                (Some hi, Some lo) \<Rightarrow> (push_bit 4 hi OR lo) # decode_path s'
              | _ \<Rightarrow> c # decode_path s)
         | _ \<Rightarrow> c # decode_path s)
      else c # decode_path s)"

definition dot_step :: "octets list \<Rightarrow> octets \<Rightarrow> octets list" where
  "dot_step st seg = (if seg = [dot] then st else if seg = [dot, dot] then butlast st else st @ [seg])"

definition remove_dots :: "octets list \<Rightarrow> octets list" where
  "remove_dots segs =
    (let st = foldl dot_step [] (butlast segs); l = last segs
     in if l = [dot] \<or> l = [dot, dot] then dot_step st l @ [[]] else st @ [l])"

definition render :: "octets list \<Rightarrow> octets" where
  "render segs = concat (map ((#) slash) segs)"

definition normal_path :: "octets \<Rightarrow> octets" where
  "normal_path path =
    (let p = takeWhile (\<lambda>c. c \<noteq> chr CHR ''?'') path;
         p' = (if p \<noteq> [] \<and> hd p = slash then tl p else p)
     in render (remove_dots (pieces (\<lambda>c. c = slash) (decode_path p'))))"

section \<open>Normalisation meets the specification\<close>

lemma render_simps [simp]: "render [] = []" "render (s # ss) = slash # s @ render ss"
  "render (xs @ ys) = render xs @ render ys"
  by (simp_all add: render_def)

lemma back_to_slash_render:
  assumes "slash \<notin> set x"
  shows "n \<le> length x \<Longrightarrow> back_to_slash (p @ slash # x @ q) (length p + 1 + n) = Some (length p + 1)"
proof (induction n)
  case (Suc n)
  then have "x ! n \<in> set x" by (intro nth_mem) simp
  with assms have "x ! n \<noteq> slash" by metis
  moreover have "(p @ slash # x @ q) ! (length p + 1 + n) = x ! n"
    using Suc.prems by (simp add: nth_append)
  ultimately show ?case using Suc by simp
qed (simp add: nth_append)

text \<open>What \<^verbatim>\<open>handle_special_paths\<close> does to a path that is a list of segments and a last one.\<close>

lemma handle_special_paths_render:
  assumes "\<forall>s\<in>set st. slash \<notin> set s" "slash \<notin> set cur"
  defines "dst \<equiv> render st @ slash # cur"
  shows "\<exists>r. handle_special_paths dst (length dst) (length (render st)) = Some r \<and>
    (if cur = [dot] \<or> cur = [dot, dot]
     then 0 < r \<and> take (length dst - r) dst = render (dot_step st cur) @ [slash]
     else r = 0)"
proof -
  have sz: "length dst - length (render st) = Suc (length cur)"
    by (simp add: dst_def)
  consider "cur = [dot]" | "cur = [dot, dot]" | "cur \<noteq> [dot] \<and> cur \<noteq> [dot, dot]" by blast
  then show ?thesis
  proof cases
    case 1
    then show ?thesis
      by (simp add: handle_special_paths_def Let_def dst_def dot_step_def nth_append)
  next
    case 2
    show ?thesis
    proof (cases st rule: rev_cases)
      case Nil
      with 2 show ?thesis
        by (simp add: handle_special_paths_def Let_def dst_def dot_step_def numeral_3_eq_3 numeral_2_eq_2)
    next
      case (snoc st' x)
      have "slash \<notin> set x" using assms(1) snoc by simp
      then have b: "back_to_slash dst (length (render st)) = Some (length (render st') + 1)"
        using back_to_slash_render [of x "length x" "render st'" "slash # cur"] snoc by (simp add: dst_def)
      have len: "length dst = length (render st) + 3"
        using 2 by (simp add: dst_def)
      have nths: "dst ! (length dst - 2) = dot" "dst ! (length dst - 1) = dot"
        using 2 by (simp_all add: dst_def nth_append)
      have "0 < length (render st)" using snoc by simp
      then have "handle_special_paths dst (length dst) (length (render st)) =
          Some (length dst - (length (render st') + 1))"
        unfolding handle_special_paths_def Let_def using len nths b by simp
      moreover have "take (length (render st') + 1) dst = render st' @ [slash]"
        using snoc by (simp add: dst_def)
      ultimately show ?thesis
        using 2 snoc len by (simp add: dot_step_def)
    qed
  next
    case 3
    have "\<not> (Suc (length cur) = 2 \<and> dst ! (length dst - 1) = dot)"
      using 3 by (cases cur rule: rev_cases) (auto simp: dst_def nth_append)
    moreover have "\<not> (Suc (length cur) = 3 \<and> dst ! (length dst - 2) = dot \<and> dst ! (length dst - 1) = dot)"
    proof
      assume *: "Suc (length cur) = 3 \<and> dst ! (length dst - 2) = dot \<and> dst ! (length dst - 1) = dot"
      then obtain a b where "cur = [a, b]"
        by (auto simp: numeral_3_eq_3 length_Suc_conv)
      with * 3 show False by (simp add: dst_def nth_append)
    qed
    ultimately show ?thesis
      using 3 unfolding handle_special_paths_def Let_def sz by auto
  qed
qed

text \<open>The one-pass algorithm on decoded octets.\<close>

fun norm_run :: "octets list \<Rightarrow> octets \<Rightarrow> octets \<Rightarrow> octets list \<times> octets" where
  "norm_run st cur [] = (st, cur)"
| "norm_run st cur (c # cs) =
     (if c = slash then norm_run (dot_step st cur) [] cs else norm_run st (cur @ [c]) cs)"

lemma norm_run_pieces:
  "norm_run st cur cs =
    (let ps = pieces (\<lambda>c. c = slash) cs; segs = (cur @ hd ps) # tl ps
     in (foldl dot_step st (butlast segs), last segs))"
proof (induction cs arbitrary: st cur)
  case (Cons c cs)
  have ne: "pieces (\<lambda>c. c = slash) cs \<noteq> []" by simp
  then obtain p ps where p: "pieces (\<lambda>c. c = slash) cs = p # ps" by (cases "pieces (\<lambda>c. c = slash) cs") auto
  show ?case
    using Cons.IH p by (auto simp: Let_def)
qed (simp add: Let_def)

lemma decode_path_step:
  assumes "off < length src"
  shows "decode_path (drop off src) = fst (path_octet src off) # decode_path (drop (snd (path_octet src off)) src)"
proof -
  have d: "drop off src = src ! off # drop (off + 1) src"
    using assms by (simp add: Cons_nth_drop_Suc)
  show ?thesis
  proof (cases "off + 2 < length src")
    case True
    then have "drop (off + 1) src = src ! (off + 1) # src ! (off + 2) # drop (off + 3) src"
      by (simp add: Cons_nth_drop_Suc numeral_3_eq_3)
    with d True show ?thesis
      by (simp add: path_octet_def split: option.splits del: of_char_Char)
  next
    case False
    then have "length (drop (off + 1) src) < 2" by simp
    then obtain x where "drop (off + 1) src = [] \<or> drop (off + 1) src = [x]"
      by (metis One_nat_def length_0_conv length_Suc_conv less_2_cases)
    with d False show ?thesis
      by (auto simp: path_octet_def simp del: of_char_Char)
  qed
qed

lemma rebuild_loop_correct:
  assumes "\<forall>s\<in>set st. slash \<notin> set s" "slash \<notin> set cur" "off \<le> length src"
  shows "\<exists>r st' cur'. norm_run st cur (decode_path (drop off src)) = (st', cur') \<and>
    (\<forall>s\<in>set st'. slash \<notin> set s) \<and> slash \<notin> set cur' \<and>
    rebuild_loop src off (render st @ slash # cur) idx (length (render st)) null = Some (r, length (render st')) \<and>
    rb_path r = render st' @ slash # cur'"
  using assms
proof (induction "length src - off" arbitrary: off st cur idx null rule: less_induct)
  case less
  show ?case
  proof (cases "off < length src")
    case False
    then show ?thesis
      using less.prems by (subst rebuild_loop.simps) simp
  next
    case True
    define c where "c = fst (path_octet src off)"
    define off' where "off' = snd (path_octet src off)"
    have off': "off < off'" "off' \<le> length src"
      using path_octet_advances [of off src] True
      by (auto simp: off'_def path_octet_def split: option.splits)
    have dec: "decode_path (drop off src) = c # decode_path (drop off' src)"
      unfolding c_def off'_def by (rule decode_path_step [OF True])
    let ?dst = "render st @ slash # cur"
    obtain r where r: "handle_special_paths ?dst (length ?dst) (length (render st)) = Some r"
      and r': "if cur = [dot] \<or> cur = [dot, dot]
        then 0 < r \<and> take (length ?dst - r) ?dst = render (dot_step st cur) @ [slash] else r = 0"
      using handle_special_paths_render [OF less.prems(1,2)] by blast
    have dots: "\<forall>s\<in>set (dot_step st cur). slash \<notin> set s"
      using less.prems by (auto simp: dot_step_def dest: in_set_butlastD)
    have step: "rebuild_loop src off ?dst idx (length (render st)) null =
      (if c = slash then
         (if r > 0 then rebuild_loop src off' (take (length ?dst - r) ?dst) (take (length ?dst - r) idx) (length ?dst - r - 1) null
          else rebuild_loop src off' (?dst @ [c]) (idx @ [off']) (length ?dst) null)
       else rebuild_loop src off' (?dst @ [c]) (idx @ [off']) (length (render st)) (null \<or> c = 0))"
      using True r unfolding c_def off'_def by (subst rebuild_loop.simps) (simp add: Let_def)
    have dec_m: "length src - off' < length src - off"
      using off' True by simp
    show ?thesis
    proof (cases "c = slash")
      case False
      with less.hyps [OF dec_m less.prems(1) _ off'(2), of "cur @ [c]"] less.prems(2) show ?thesis
        unfolding step dec by simp
    next
      case c: True
      show ?thesis
      proof (cases "cur = [dot] \<or> cur = [dot, dot]")
        case True
        then have t: "take (length ?dst - r) ?dst = render (dot_step st cur) @ [slash]" and "0 < r"
          using r' by simp_all
        then have "length (render (dot_step st cur) @ [slash]) = length ?dst - r"
          by (metis length_take min.absorb2 diff_le_self)
        then have "length ?dst - r - 1 = length (render (dot_step st cur))" by simp
        then show ?thesis
          using less.hyps [OF dec_m dots _ off'(2), of "[]"] c t \<open>0 < r\<close> unfolding step dec by simp
      next
        case False
        then have "r = 0" using r' by simp
        then show ?thesis
          using less.hyps [OF dec_m dots _ off'(2), of "[]"] c False unfolding step dec
          by (simp add: dot_step_def)
      qed
    qed
  qed
qed

lemma query_start_take: "(case query_start src of Some q \<Rightarrow> take q src | None \<Rightarrow> src) =
    takeWhile (\<lambda>c. c \<noteq> chr CHR ''?'') src"
proof (cases "chr CHR ''?'' \<in> set src")
  case True
  then show ?thesis
    using takeWhile_eq_take [of "\<lambda>c. c \<noteq> chr CHR ''?''" src, symmetric]
    by (simp only: query_start_def if_True option.case)
next
  case False
  then show ?thesis
    using takeWhile_eq_all_conv [of "\<lambda>c. c \<noteq> chr CHR ''?''" src] by (auto simp only: query_start_def option.case if_False)
qed

lemma rebuild_path_correct:
  assumes "src \<noteq> []"
  shows "\<exists>r. rebuild_path src = Some (r, query_start src) \<and> rb_path r = normal_path src"
proof -
  define p where "p = takeWhile (\<lambda>c. c \<noteq> chr CHR ''?'') src"
  define off where "off = (if src ! 0 = slash then 1 else 0 :: nat)"
  have p1: "src ! 0 = slash \<longleftrightarrow> p \<noteq> [] \<and> hd p = slash"
    using assms by (cases src) (auto simp: p_def)
  then have off: "off \<le> length p"
    by (cases p) (auto simp: off_def)
  have drop: "drop off p = (if p \<noteq> [] \<and> hd p = slash then tl p else p)"
    using p1 by (auto simp: off_def drop_Suc)
  obtain r st cur where run: "norm_run [] [] (decode_path (drop off p)) = (st, cur)"
    and noslash: "\<forall>s\<in>set st. slash \<notin> set s" "slash \<notin> set cur"
    and loop: "rebuild_loop p off [slash] [off] 0 False = Some (r, length (render st))"
    and path: "rb_path r = render st @ slash # cur"
    using rebuild_loop_correct [of "[]" "[]" off p "[off]" False] off by auto
  obtain k where k: "handle_special_paths (rb_path r) (length (rb_path r)) (length (render st)) = Some k"
    "if cur = [dot] \<or> cur = [dot, dot]
     then 0 < k \<and> take (length (rb_path r) - k) (rb_path r) = render (dot_step st cur) @ [slash] else k = 0"
    using handle_special_paths_render [OF noslash] unfolding path by blast
  have segs: "pieces (\<lambda>c. c = slash) (decode_path (drop off p)) \<noteq> []" by simp
  then have "foldl dot_step [] (butlast (pieces (\<lambda>c. c = slash) (decode_path (drop off p)))) = st"
    "last (pieces (\<lambda>c. c = slash) (decode_path (drop off p))) = cur"
    using run unfolding norm_run_pieces Let_def append_Nil list.collapse [OF segs] by simp_all
  then have "normal_path src = (if cur = [dot] \<or> cur = [dot, dot] then render (dot_step st cur) @ [slash] else rb_path r)"
    unfolding normal_path_def Let_def p_def [symmetric] drop [symmetric] remove_dots_def path by simp
  moreover have "rebuild_path src = Some (r\<lparr>rb_path := take (length (rb_path r) - k) (rb_path r)\<rparr>, query_start src)"
    unfolding rebuild_path_def Let_def query_start_take p_def [symmetric] off_def [symmetric] loop using k(1) by simp
  ultimately show ?thesis using k(2) by (auto split: if_splits)
qed

section \<open>The output has no dot segments\<close>

abbreviation is_dots :: "octets \<Rightarrow> bool" where
  "is_dots s \<equiv> s = [dot] \<or> s = [dot, dot]"

lemma pieces_no_sep: "p \<in> set (pieces P s) \<Longrightarrow> c \<in> set p \<Longrightarrow> \<not> P c"
proof (induction s arbitrary: p)
  case (Cons a s)
  obtain q qs where q: "pieces P s = q # qs" by (cases "pieces P s") auto
  with Cons show ?case by (fastforce split: if_splits)
qed auto

lemma pieces_render:
  assumes "\<forall>s\<in>set ss. slash \<notin> set s"
  shows "pieces (\<lambda>c. c = slash) (render ss) = [] # ss"
  using assms
proof (induction ss)
  case (Cons s ss)
  have "\<forall>c\<in>set s. c \<noteq> slash" using Cons.prems by auto
  then have "pieces (\<lambda>c. c = slash) (s @ render ss) = (s @ hd (pieces (\<lambda>c. c = slash) (render ss))) # tl (pieces (\<lambda>c. c = slash) (render ss))"
    by (rule pieces_append)
  with Cons show ?case by simp
qed simp

lemma dot_step_no_dots: "\<forall>s\<in>set st. \<not> is_dots s \<Longrightarrow> \<forall>s\<in>set (dot_step st seg). \<not> is_dots s"
  by (auto simp: dot_step_def dest: in_set_butlastD)

lemma dot_step_subset: "set (dot_step st seg) \<subseteq> insert seg (set st)"
  by (auto simp: dot_step_def dest: in_set_butlastD)

lemma foldl_dot_step_no_dots:
  "\<forall>s\<in>set st. \<not> is_dots s \<Longrightarrow> \<forall>s\<in>set (foldl dot_step st segs). \<not> is_dots s"
proof (induction segs arbitrary: st)
  case (Cons a segs)
  from Cons.IH [OF dot_step_no_dots [OF Cons.prems]] show ?case by simp
qed simp

lemma foldl_dot_step_subset: "set (foldl dot_step st segs) \<subseteq> set segs \<union> set st"
proof (induction segs arbitrary: st)
  case (Cons a segs)
  have "set (foldl dot_step (dot_step st a) segs) \<subseteq> set segs \<union> set (dot_step st a)" by (rule Cons.IH)
  also have "\<dots> \<subseteq> set (a # segs) \<union> set st" using dot_step_subset [of st a] by auto
  finally show ?case by simp
qed simp

lemma remove_dots_ok:
  assumes "segs \<noteq> []"
  shows "\<forall>s\<in>set (remove_dots segs). \<not> is_dots s" "set (remove_dots segs) \<subseteq> insert [] (set segs)"
    "remove_dots segs \<noteq> []"
proof -
  let ?st = "foldl dot_step [] (butlast segs)"
  have st: "\<forall>s\<in>set ?st. \<not> is_dots s"
    by (rule foldl_dot_step_no_dots) simp
  have sub: "set ?st \<subseteq> set segs"
    using foldl_dot_step_subset [of "[]" "butlast segs"] by (auto dest: in_set_butlastD)
  show "\<forall>s\<in>set (remove_dots segs). \<not> is_dots s"
    using dot_step_no_dots [OF st, of "last segs"] st unfolding remove_dots_def Let_def by auto
  show "set (remove_dots segs) \<subseteq> insert [] (set segs)"
    using sub dot_step_subset [of ?st "last segs"] last_in_set [OF assms] unfolding remove_dots_def Let_def by auto
  show "remove_dots segs \<noteq> []"
    by (simp add: remove_dots_def Let_def)
qed

lemma remove_dots_id: "segs \<noteq> [] \<Longrightarrow> \<forall>s\<in>set segs. \<not> is_dots s \<Longrightarrow> remove_dots segs = segs"
proof -
  assume ne: "segs \<noteq> []" and nd: "\<forall>s\<in>set segs. \<not> is_dots s"
  have "foldl dot_step st ss = st @ ss" if "\<forall>s\<in>set ss. \<not> is_dots s" for st ss
    using that by (induction ss arbitrary: st) (auto simp: dot_step_def)
  from this [of "butlast segs" "[]"] nd have "foldl dot_step [] (butlast segs) = butlast segs"
    by (auto dest: in_set_butlastD)
  moreover have "\<not> is_dots (last segs)" using nd last_in_set [OF ne] by blast
  ultimately show "remove_dots segs = segs"
    using append_butlast_last_id [OF ne] by (auto simp: remove_dots_def Let_def)
qed

text \<open>The segments of the normal path.\<close>

lemma normal_path_segments:
  obtains segs where "normal_path path = render segs" "segs \<noteq> []" "\<forall>s\<in>set segs. \<not> is_dots s \<and> slash \<notin> set s"
proof -
  define p where "p = takeWhile (\<lambda>c. c \<noteq> chr CHR ''?'') path"
  define p' where "p' = (if p \<noteq> [] \<and> hd p = slash then tl p else p)"
  let ?segs = "pieces (\<lambda>c. c = slash) (decode_path p')"
  have "slash \<notin> set s" if "s \<in> set ?segs" for s
    using that pieces_no_sep [of s "\<lambda>c. c = slash"] by blast
  with remove_dots_ok [of ?segs] have "\<forall>s\<in>set (remove_dots ?segs). \<not> is_dots s \<and> slash \<notin> set s" "remove_dots ?segs \<noteq> []"
    by auto
  moreover have "normal_path path = render (remove_dots ?segs)"
    by (simp only: normal_path_def Let_def p_def [symmetric] p'_def [symmetric])
  ultimately show ?thesis using that by blast
qed

lemma normal_path_safe:
  "normal_path path \<noteq> []" "hd (normal_path path) = slash"
  "s \<in> set (pieces (\<lambda>c. c = slash) (normal_path path)) \<Longrightarrow> \<not> is_dots s"
proof -
  obtain segs where *: "normal_path path = render segs" "segs \<noteq> []" "\<forall>s\<in>set segs. \<not> is_dots s \<and> slash \<notin> set s"
    by (rule normal_path_segments)
  then show "normal_path path \<noteq> []" "hd (normal_path path) = slash"
    by (cases segs; simp)+
  show "\<not> is_dots s" if "s \<in> set (pieces (\<lambda>c. c = slash) (normal_path path))"
    using that * pieces_render [of segs] by auto
qed

text \<open>So the checks at the end of \<^verbatim>\<open>h2o_url_normalize_path\<close> never find anything.\<close>

lemma occurs_at_split: "occurs_at h n k \<Longrightarrow> h = take k h @ n @ drop (k + length n) h"
  unfolding occurs_at_def by (metis add.commute append_take_drop_id drop_drop)

lemma rewrite_never_fails: "\<not> rewrite_failed (normal_path path)"
proof -
  let ?r = "normal_path path"
  let ?P = "\<lambda>c. c = slash"
  have nd: "[dot, dot] \<notin> set (pieces ?P ?r)" using normal_path_safe(3) by blast
  have sl: "str ''/../'' = [slash, dot, dot, slash]" "str ''/..'' = [slash, dot, dot]" by simp_all
  have "\<not> occurs_at ?r (str ''/../'') k" for k
  proof
    assume "occurs_at ?r (str ''/../'') k"
    then obtain a b where "?r = a @ slash # [dot, dot] @ slash # b"
      using occurs_at_split unfolding sl by fastforce
    with nd show False
      by (simp add: pieces_sep_append [of ?P] del: append_Cons append_Nil)
  qed
  then have "h2o_strstr ?r (str ''/../'') = None"
    using strstr_correct [of ?r "str ''/../''"] by (cases "h2o_strstr ?r (str ''/../'')") auto
  moreover have "drop (length ?r - 3) ?r \<noteq> str ''/..''"
  proof
    assume "drop (length ?r - 3) ?r = str ''/..''"
    then have "?r = take (length ?r - 3) ?r @ slash # [dot, dot]"
      unfolding sl by (metis append_take_drop_id)
    then have "pieces ?P ?r = pieces ?P (take (length ?r - 3) ?r) @ pieces ?P [dot, dot]"
      by (metis pieces_sep_append [of ?P])
    with nd show False by simp
  qed
  ultimately show ?thesis
    using normal_path_safe(1,2) [of path] by (auto simp: rewrite_failed_def hd_conv_nth)
qed

section \<open>The fast path\<close>

fun no_slash_dot :: "octets \<Rightarrow> bool" where
  "no_slash_dot (c # d # s) = (\<not> (c = slash \<and> d = dot) \<and> no_slash_dot (d # s))"
| "no_slash_dot _ = True"

lemma pieces_hd: "pieces P s = p # ps \<Longrightarrow> p = [] \<or> s \<noteq> [] \<and> hd p = hd s"
  by (cases s) (auto split: if_splits list.splits)

lemma no_slash_dot_pieces:
  "no_slash_dot s \<Longrightarrow> seg \<in> set (tl (pieces (\<lambda>c. c = slash) s)) \<Longrightarrow> seg = [] \<or> hd seg \<noteq> dot"
proof (induction s)
  case (Cons c s)
  obtain p ps where p: "pieces (\<lambda>c. c = slash) s = p # ps" by (cases "pieces (\<lambda>c. c = slash) s") auto
  have nsd: "no_slash_dot s" using Cons.prems(1) by (cases s) auto
  show ?case
  proof (cases "c = slash")
    case True
    then have "seg = p \<or> seg \<in> set ps" using Cons.prems p by simp
    moreover have "p = [] \<or> hd p \<noteq> dot"
      using pieces_hd [OF p] Cons.prems(1) True by (cases s) auto
    ultimately show ?thesis using Cons.IH [OF nsd] p by auto
  next
    case False
    then show ?thesis using Cons nsd p by simp
  qed
qed simp

lemma normalize_scan_Return:
  assumes "normalize_scan p s = Return q qa"
  defines "t \<equiv> takeWhile (\<lambda>c. c \<noteq> chr CHR ''?'') s"
  shows "q = p + length t \<and> qa = map_option (\<lambda>a. a + p) (query_start s) \<and> decode_path t = t \<and> no_slash_dot t \<and> 0 \<notin> set t"
  using assms(1) unfolding t_def
proof (induction p s rule: normalize_scan.induct)
  case (3 p c d s)
  then have c: "\<not> (c = slash \<and> d = dot)" "c \<noteq> chr CHR ''%''" "c \<noteq> 0"
    by (auto split: if_splits)
  show ?case
  proof (cases "c = chr CHR ''?''")
    case True
    then show ?thesis using 3(2) c by (auto simp: query_start_def)
  next
    case False
    then have IH: "q = p + 1 + length (takeWhile (\<lambda>c. c \<noteq> chr CHR ''?'') (d # s))"
      "qa = map_option (\<lambda>a. a + (p + 1)) (query_start (d # s))"
      "decode_path (takeWhile (\<lambda>c. c \<noteq> chr CHR ''?'') (d # s)) = takeWhile (\<lambda>c. c \<noteq> chr CHR ''?'') (d # s)"
      "no_slash_dot (takeWhile (\<lambda>c. c \<noteq> chr CHR ''?'') (d # s))" "0 \<notin> set (takeWhile (\<lambda>c. c \<noteq> chr CHR ''?'') (d # s))"
      using 3 c by simp_all
    have "query_start (c # d # s) = map_option Suc (query_start (d # s))"
      using False by (simp add: query_start_def del: of_char_Char takeWhile.simps) simp
    then show ?thesis
      using False IH c by (cases "d = chr CHR ''?''") (simp_all add: option.map_comp comp_def)
  qed
qed (auto simp: query_start_def split: if_splits)

lemma normal_path_fast:
  assumes "path \<noteq> []" "path ! 0 = slash" "normalize_scan 0 path = Return q qa"
  shows "take q path = normal_path path \<and> qa = query_start path"
proof -
  define t where "t = takeWhile (\<lambda>c. c \<noteq> chr CHR ''?'') path"
  note scan = normalize_scan_Return [OF assms(3), folded t_def]
  obtain t' where t: "t = slash # t'"
    using assms(1,2) by (cases path) (auto simp: t_def)
  have dec: "decode_path t' = t'"
    using scan t by simp
  let ?segs = "pieces (\<lambda>c. c = slash) t'"
  have pt: "pieces (\<lambda>c. c = slash) t = [] # ?segs" using t by simp
  have nd: "\<forall>s\<in>set ?segs. \<not> is_dots s"
    using no_slash_dot_pieces [of t] scan pt by fastforce
  have rj: "render (pieces (\<lambda>c. c = slash) x) = slash # x" for x
    by (induction x) (auto split: list.splits)
  have "normal_path path = render (remove_dots ?segs)"
    unfolding normal_path_def Let_def t_def [symmetric] using t dec by simp
  also have "\<dots> = t"
    using remove_dots_id [OF _ nd] rj t by simp
  also have "t = take q path"
    using scan takeWhile_eq_take [of "\<lambda>c. c \<noteq> chr CHR ''?''" path] unfolding t_def [symmetric] by simp
  finally show ?thesis
    using scan by (simp add: option.map_ident)
qed

lemma normalize_path_result:
  "\<exists>r. h2o_url_normalize_path path = Some r \<and> nm_path r = normal_path path \<and> nm_query_at r = query_start path"
proof (cases "path = []")
  case True
  then show ?thesis
    by (simp add: h2o_url_normalize_path_def normal_path_def remove_dots_def query_start_def)
next
  case ne: False
  let ?scan = "if path ! 0 \<noteq> slash then Rewrite else normalize_scan 0 path"
  show ?thesis
  proof (cases ?scan)
    case Rewrite
    with rebuild_path_correct [OF ne] rewrite_never_fails [of path] show ?thesis
      using ne by (auto simp: h2o_url_normalize_path_def)
  next
    case (Return q qa)
    then have "path ! 0 = slash" "normalize_scan 0 path = Return q qa"
      by (auto split: if_splits)
    with normal_path_fast [OF ne this] ne show ?thesis
      by (auto simp: h2o_url_normalize_path_def)
  qed
qed

section \<open>Authorities\<close>

text \<open>What may follow an authority: the end, a path, or a query.\<close>

definition ends :: "octets \<Rightarrow> bool" where
  "ends r \<longleftrightarrow> r = [] \<or> hd r = slash \<or> hd r = chr CHR ''?''"

text \<open>An authority that is read as the given host and port wherever it stands.\<close>

definition auth_ok :: "octets \<Rightarrow> octets \<Rightarrow> u16 \<Rightarrow> bool" where
  "auth_ok a host port \<longleftrightarrow> (\<forall>r. ends r \<longrightarrow> h2o_url_parse_hostport (a @ r) = Some (host, port, r))"

text \<open>The host is where \<^verbatim>\<open>h2o_url_resolve\<close> looks for it in the authority.\<close>

definition host_in :: "octets \<Rightarrow> octets \<Rightarrow> bool" where
  "host_in a host \<longleftrightarrow> take (length host) (drop (if hd a = chr CHR ''['' then 1 else 0) a) = host"

lemma port_loop_split:
  "port_loop p s = Some (q, r) \<Longrightarrow>
    \<exists>a. s = a @ r \<and> ends r \<and> (\<forall>r'. ends r' \<longrightarrow> port_loop p (a @ r') = Some (q, r'))"
proof (induction p s rule: port_loop.induct)
  case (1 p)
  have "port_loop p r' = Some (p, r')" if "ends r'" for r'
    using that by (cases r') (auto simp: ends_def is_digit_def)
  with 1 show ?case by (auto simp: ends_def)
next
  case (2 p c s)
  show ?case
  proof (cases "is_digit c")
    case True
    let ?p' = "p * 10 + ucast c - 0x30"
    have *: "\<not> ?p' \<ge> 65535" "port_loop ?p' s = Some (q, r)"
      using 2(3) True by (auto simp: Let_def split: if_splits)
    with 2(1) [OF True refl] obtain a where "s = a @ r" "ends r" "\<forall>r'. ends r' \<longrightarrow> port_loop ?p' (a @ r') = Some (q, r')"
      by auto
    with * True show ?thesis by (intro exI [of _ "c # a"]) (simp add: Let_def)
  next
    case False
    show ?thesis
    proof (cases "c = slash \<or> c = chr CHR ''?''")
      case True
      then have "q = p" "r = c # s" using 2(3) False by auto
      moreover have "port_loop p r' = Some (p, r')" if "ends r'" for r'
        using that by (cases r') (auto simp: ends_def is_digit_def)
      ultimately show ?thesis using True by (intro exI [of _ "[]"]) (auto simp: ends_def)
    next
      case nf: False
      with False 2(2) [OF False nf] 2(3) obtain a where "s = a @ r" "ends r" "\<forall>r'. ends r' \<longrightarrow> port_loop p (a @ r') = Some (q, r')"
        by auto
      with nf False show ?thesis by (intro exI [of _ "c # a"]) simp
    qed
  qed
qed

abbreviation host_octet :: "u8 \<Rightarrow> bool" where
  "host_octet \<equiv> \<lambda>c. c \<noteq> slash \<and> c \<noteq> chr CHR ''?'' \<and> c \<noteq> chr CHR '':''"

text \<open>The part of \<^verbatim>\<open>h2o_url_parse_hostport\<close> behind the host.\<close>

definition hostport_tail :: "octets \<Rightarrow> octets \<Rightarrow> (octets \<times> u16 \<times> octets) option" where
  "hostport_tail host rest =
    (if host = [] then None
     else
       (case rest of
          [] \<Rightarrow> Some (host, 65535, rest)
        | d # rest' \<Rightarrow>
            (if d = chr CHR '':'' then map_option (\<lambda>(p, r). (host, ucast p, r)) (port_loop 0 rest')
             else Some (host, 65535, rest))))"

lemma hostport_tail_split:
  assumes "hostport_tail host rest = Some (h, port, r)" "ends r"
  shows "\<exists>a. rest = a @ r \<and> h = host \<and> host \<noteq> [] \<and>
    (\<forall>r'. ends r' \<longrightarrow> hostport_tail host (a @ r') = Some (host, port, r')) \<and> (a = [] \<or> hd a = chr CHR '':'')"
proof (cases rest)
  case Nil
  have "hostport_tail host r' = Some (host, 65535, r')" if "ends r'" "host \<noteq> []" for r'
    using that by (cases r') (auto simp: ends_def hostport_tail_def)
  with Nil assms show ?thesis by (intro exI [of _ "[]"]) (auto simp: hostport_tail_def split: if_splits)
next
  case (Cons d rest')
  show ?thesis
  proof (cases "d = chr CHR '':''")
    case True
    then obtain q where q: "port_loop 0 rest' = Some (q, r)" "port = ucast q" "h = host" "host \<noteq> []"
      using assms Cons by (auto simp: hostport_tail_def split: if_splits)
    with port_loop_split [OF q(1)] obtain a where "rest' = a @ r" "\<forall>r'. ends r' \<longrightarrow> port_loop 0 (a @ r') = Some (q, r')"
      by auto
    with q True Cons show ?thesis
      by (intro exI [of _ "d # a"]) (simp add: hostport_tail_def)
  next
    case False
    then have "h = host" "port = 65535" "r = rest" "host \<noteq> []"
      using assms Cons by (auto simp: hostport_tail_def split: if_splits)
    moreover have "hostport_tail host r' = Some (host, 65535, r')" if "ends r'" "host \<noteq> []" for r'
      using that by (cases r') (auto simp: ends_def hostport_tail_def)
    ultimately show ?thesis by (intro exI [of _ "[]"]) auto
  qed
qed

lemma parse_hostport_bracket:
  assumes "chr CHR '']'' \<notin> set x"
  shows "h2o_url_parse_hostport (chr CHR ''['' # x @ chr CHR '']'' # rest) = hostport_tail x rest"
proof -
  have x: "\<forall>c\<in>set x. c \<noteq> chr CHR '']''" using assms by metis
  have "takeWhile (\<lambda>c. c \<noteq> chr CHR '']'') (x @ chr CHR '']'' # rest) = x"
    "dropWhile (\<lambda>c. c \<noteq> chr CHR '']'') (x @ chr CHR '']'' # rest) = chr CHR '']'' # rest"
    using x by (simp_all add: takeWhile_append2 dropWhile_append2)
  then show ?thesis by (simp add: h2o_url_parse_hostport_def hostport_tail_def)
qed

lemma parse_hostport_plain:
  assumes "\<forall>c\<in>set x. host_octet c" "x = [] \<or> hd x \<noteq> chr CHR ''[''" "rest = [] \<or> \<not> host_octet (hd rest)" "x @ rest \<noteq> []"
  shows "h2o_url_parse_hostport (x @ rest) = hostport_tail x rest"
proof -
  have tw: "takeWhile host_octet (x @ rest) = x" "dropWhile host_octet (x @ rest) = rest"
  proof -
    have x: "host_octet c" if "c \<in> set x" for c using assms(1) that by blast
    have "takeWhile host_octet rest = []" "dropWhile host_octet rest = rest"
      using assms(3) by (cases rest; auto simp del: of_char_Char)+
    then show "takeWhile host_octet (x @ rest) = x" "dropWhile host_octet (x @ rest) = rest"
      using takeWhile_append2 [of x host_octet rest, OF x] dropWhile_append2 [of x host_octet rest, OF x] by simp_all
  qed
  obtain c s where c: "x @ rest = c # s" "c \<noteq> chr CHR ''[''"
    using assms by (cases x; cases rest) auto
  show ?thesis
    using tw c by (simp add: h2o_url_parse_hostport_def hostport_tail_def Let_def)
qed

lemma parse_hostport_split:
  assumes "h2o_url_parse_hostport s = Some (host, port, r)" "ends r"
  shows "\<exists>a. s = a @ r \<and> auth_ok a host port \<and> a \<noteq> [] \<and> host_in a host"
proof (cases s)
  case (Cons c s')
  show ?thesis
  proof (cases "c = chr CHR ''[''")
    case True
    then have br: "chr CHR '']'' \<in> set s'"
      using assms(1) Cons by (auto simp: h2o_url_parse_hostport_def split: if_splits)
    then obtain x rest where x: "s' = x @ chr CHR '']'' # rest" "chr CHR '']'' \<notin> set x"
      by (meson split_list_first)
    then have tail: "hostport_tail x rest = Some (host, port, r)"
      using assms(1) Cons True parse_hostport_bracket by metis
    obtain a where a: "rest = a @ r" "host = x" "\<forall>r'. ends r' \<longrightarrow> hostport_tail x (a @ r') = Some (x, port, r')"
      using hostport_tail_split [OF tail assms(2)] by auto
    let ?a = "chr CHR ''['' # x @ chr CHR '']'' # a"
    have "auth_ok ?a host port"
      using a x parse_hostport_bracket [of x] by (simp add: auth_ok_def)
    then show ?thesis
      using Cons True x a by (intro exI [of _ ?a]) (simp add: host_in_def)
  next
    case False
    define x where "x = takeWhile host_octet s"
    define rest where "rest = dropWhile host_octet s"
    have s: "s = x @ rest" and x: "\<forall>c\<in>set x. host_octet c"
      by (auto simp: x_def rest_def dest: set_takeWhileD)
    have x1: "x = [] \<or> hd x \<noteq> chr CHR ''[''"
      using False s Cons by (cases x) auto
    have rest: "rest = [] \<or> \<not> host_octet (hd rest)"
      using hd_dropWhile [of host_octet s] by (auto simp: rest_def)
    have tail: "hostport_tail x rest = Some (host, port, r)"
      using parse_hostport_plain [OF x x1 rest] assms(1) s Cons by (metis list.distinct(1))
    obtain a where a: "rest = a @ r" "host = x" "x \<noteq> []" "a = [] \<or> hd a = chr CHR '':''"
      "\<forall>r'. ends r' \<longrightarrow> hostport_tail x (a @ r') = Some (x, port, r')"
      using hostport_tail_split [OF tail assms(2)] by auto
    have "h2o_url_parse_hostport (x @ a @ r') = Some (x, port, r')" if "ends r'" for r'
    proof -
      have "a @ r' = [] \<or> \<not> host_octet (hd (a @ r'))"
        using a(4) that by (cases a) (auto simp: ends_def simp del: of_char_Char)
      from parse_hostport_plain [OF x x1 this] a(3,5) that show ?thesis by simp
    qed
    then have "auth_ok (x @ a) host port"
      using a by (simp add: auth_ok_def)
    moreover have "hd (x @ a) \<noteq> chr CHR ''[''"
      using x1 a by simp
    ultimately show ?thesis
      using s a by (intro exI [of _ "x @ a"]) (simp add: host_in_def)
  qed
qed (use assms in \<open>simp add: h2o_url_parse_hostport_def\<close>)

section \<open>Parsed and resolved URLs\<close>

text \<open>What a successful parse guarantees of its result.\<close>

definition url_ok :: "h2o_url \<Rightarrow> bool" where
  "url_ok u \<longleftrightarrow> (\<exists>s a h p.
     url_scheme u = Some s \<and> url_authority u = Some a \<and> url_host u = Some h \<and> url_path u = Some p \<and>
     s \<noteq> H2O_URL_SCHEME_FASTCGI \<and> auth_ok a h (url_port u) \<and> a \<noteq> [] \<and> host_in a h \<and> p \<noteq> [] \<and> hd p = slash)"

lemma parse_scheme_text:
  "s \<noteq> H2O_URL_SCHEME_FASTCGI \<Longrightarrow> parse_scheme (scheme_name s @ str ''://'' @ rest) = Some (s, str ''//'' @ rest)"
  by (cases s) (simp_all add: parse_scheme_def)

lemma parse_scheme_known: "parse_scheme s = Some (sch, r) \<Longrightarrow> sch \<noteq> H2O_URL_SCHEME_FASTCGI"
  by (auto simp: parse_scheme_def split: if_splits)

lemma parse_authority_ok:
  assumes "parse_authority_and_path sch src = Some u"
  shows "\<exists>a h p. url_scheme u = sch \<and> url_authority u = Some a \<and> url_host u = Some h \<and> url_path u = Some p \<and>
     auth_ok a h (url_port u) \<and> a \<noteq> [] \<and> host_in a h \<and> p \<noteq> [] \<and> hd p = slash"
proof -
  obtain host port r where hp: "h2o_url_parse_hostport src = Some (host, port, r)"
    using assms by (cases "h2o_url_parse_hostport src") (auto simp: parse_authority_and_path_def)
  have e: "ends r"
    using assms hp by (cases r) (auto simp: parse_authority_and_path_def ends_def Let_def split: if_splits)
  obtain a where a: "src = a @ r" "auth_ok a host port" "a \<noteq> []" "host_in a host"
    using parse_hostport_split [OF hp e] by blast
  have auth: "take (length src - length r) src = a" using a(1) by simp
  define p where "p = (case r of [] \<Rightarrow> [slash] | c # _ \<Rightarrow> if c = slash then r else slash # r)"
  have "u = \<lparr>url_scheme = sch, url_authority = Some a, url_host = Some host, url_path = Some p, url_port = port\<rparr>"
    using assms hp auth unfolding parse_authority_and_path_def p_def
    by (cases r) (auto simp: Let_def split: if_splits)
  moreover have "p \<noteq> [] \<and> hd p = slash"
    by (auto simp: p_def split: list.splits)
  ultimately show ?thesis using a by auto
qed

lemma parse_ok: "h2o_url_parse url = Some u \<Longrightarrow> url_ok u"
  by (auto simp: h2o_url_parse_def url_ok_def split: option.splits if_splits
      dest!: parse_authority_ok dest: parse_scheme_known) (metis parse_scheme_known)

lemma parse_text:
  assumes "url_ok u"
  shows "\<exists>s a p. url_scheme u = Some s \<and> url_authority u = Some a \<and> url_path u = Some p \<and>
    h2o_url_parse (scheme_name s @ str ''://'' @ a @ p) = Some u"
proof -
  obtain s a h p where u: "url_scheme u = Some s" "url_authority u = Some a" "url_host u = Some h" "url_path u = Some p"
    and s: "s \<noteq> H2O_URL_SCHEME_FASTCGI" and a: "auth_ok a h (url_port u)" and p: "p \<noteq> []" "hd p = slash"
    using assms by (auto simp: url_ok_def)
  have "h2o_url_parse_hostport (a @ p) = Some (h, url_port u, p)"
    using a p by (simp add: auth_ok_def ends_def)
  then have "parse_authority_and_path (Some s) (a @ p) = Some u"
    using p u by (cases p; cases u) (auto simp: parse_authority_and_path_def Let_def)
  then have "h2o_url_parse (scheme_name s @ str ''://'' @ a @ p) = Some u"
    unfolding h2o_url_parse_def parse_scheme_text [OF s] by simp
  then show ?thesis using u by blast
qed

text \<open>Resolution of the path: it never reads in front of the base path, and the result is absolute.\<close>

lemma last_slash_before_correct:
  "0 < n \<Longrightarrow> base ! 0 = slash \<Longrightarrow> \<exists>k < n. last_slash_before base n = Some k \<and> base ! k = slash"
  by (induction n) (auto simp: less_Suc_eq)

lemma resolve_loop_correct:
  assumes "base ! n = slash" "n < length base" "base ! 0 = slash"
  shows "\<exists>m rel'. resolve_loop base n rel = Some (m, rel') \<and> m \<le> n \<and> base ! m = slash"
  using assms
proof (induction "length rel" arbitrary: n rel rule: less_induct)
  case less
  have up: "\<exists>k \<le> n. (if n \<noteq> 0 then last_slash_before base n else Some n) = Some k \<and> base ! k = slash"
    using last_slash_before_correct [of n base] less.prems by (cases "n = 0") fastforce+
  then obtain k where k: "k \<le> n" "(if n \<noteq> 0 then last_slash_before base n else Some n) = Some k" "base ! k = slash"
    by blast
  have IH: "\<exists>m rel'. resolve_loop base k' (drop j rel) = Some (m, rel') \<and> m \<le> n \<and> base ! m = slash"
    if "0 < j" "rel \<noteq> []" "k' \<le> n" "base ! k' = slash" for j k'
    using less.hyps [of "drop j rel" k'] that less.prems by (force intro: order_trans)
  have j: "0 < (if length rel = 2 then 2 else 3 :: nat)" by simp
  have nil: "resolve_loop base n [] = Some (n, [])" by (subst resolve_loop.simps) simp
  show ?case
  proof (cases "rel \<noteq> [] \<and> hd rel = dot")
    case True
    show ?thesis
      using True less.prems IH [OF j _ k(1,3)] IH [of 1 n] IH [of 2 n] nil unfolding resolve_loop.simps [of base n rel] k(2)
      by simp
  next
    case False
    then show ?thesis using less.prems by (subst resolve_loop.simps) auto
  qed
qed

lemma resolve_path_correct:
  assumes "base \<noteq> []" "hd base = slash"
  shows "\<exists>b r. h2o_url_resolve_path base rel = Some (b, r) \<and> b @ r \<noteq> [] \<and> hd (b @ r) = slash"
proof (cases "rel \<noteq> [] \<and> hd rel = slash")
  case True
  then show ?thesis by (simp add: h2o_url_resolve_path_def)
next
  case False
  have b0: "base ! 0 = slash" using assms by (simp add: hd_conv_nth)
  obtain k where k: "k < length base" "last_slash_before base (length base) = Some k" "base ! k = slash"
    using last_slash_before_correct [of "length base" base] assms(1) b0 by auto
  obtain m rel' where m: "resolve_loop base k rel = Some (m, rel')" "m \<le> k"
    using resolve_loop_correct [OF k(3,1) b0] by blast
  have "take (m + 1) base \<noteq> [] \<and> hd (take (m + 1) base) = slash"
    using assms by (cases base) auto
  then show ?thesis
    using False k m by (auto simp: h2o_url_resolve_path_def)
qed

lemma resolve_build_correct:
  assumes "url_ok d" "url_scheme d = Some s" "url_authority d = Some a" "url_path d = Some p" "b @ r = p"
    and "dest = d\<lparr>url_path := x\<rparr>"
  shows "resolve_build dest b r = Some (scheme_name s @ str ''://'' @ a @ p, d)"
proof -
  obtain h where d: "url_host d = Some h"
    and h: "take (length h) (drop (if hd a = chr CHR ''['' then 1 else 0) a) = h" and a: "a \<noteq> []"
    using assms by (auto simp: url_ok_def host_in_def)
  have ht: "take (length h) (drop (if hd a = chr CHR ''['' then 1 else 0) (a @ p)) = h"
  proof -
    have len: "length h \<le> length (drop (if hd a = chr CHR ''['' then 1 else 0) a)"
      using arg_cong [OF h, of length] by simp
    have "drop (if hd a = chr CHR ''['' then 1 else 0) (a @ p) = drop (if hd a = chr CHR ''['' then 1 else 0) a @ p"
      using a by (cases a) auto
    then show ?thesis using h len by simp
  qed
  have at: "drop (length (scheme_name s) + 3) (scheme_name s @ str ''://'' @ a @ p) = a @ p"
    by simp
  have conc: "h2o_concat_list [scheme_name s, str ''://'', a, b, r] = scheme_name s @ str ''://'' @ a @ p"
    using assms(5) by simp
  have sel: "url_scheme dest = Some s" "url_authority dest = Some a" "url_host dest = Some h"
    using assms(2,3,6) d by simp_all
  have "dest\<lparr>url_authority := Some a, url_host := Some h, url_path := Some p\<rparr> = d"
    unfolding assms(6) using assms(2-4) d by (cases d) simp
  then show ?thesis
    unfolding resolve_build_def Let_def sel option.case conc at using ht a
    by (auto simp: hd_append split: if_splits)
qed

lemma resolve_ok:
  assumes "url_ok base" and "relative = None \<or> (\<exists>r u. h2o_url_parse_relative r = Some u \<and> relative = Some u)"
  shows "\<exists>t d. h2o_url_resolve base relative = Some (t, d) \<and> url_ok d \<and> h2o_url_parse t = Some d"
proof -
  obtain s a h p where sel: "url_scheme base = Some s" "url_authority base = Some a" "url_host base = Some h" "url_path base = Some p"
    and s: "s \<noteq> H2O_URL_SCHEME_FASTCGI" and a: "auth_ok a h (url_port base)" "a \<noteq> []" "host_in a h"
    and p: "p \<noteq> []" "hd p = slash"
    using assms(1) by (auto simp: url_ok_def)
  have built: "\<exists>t. resolve_build (d\<lparr>url_path := x\<rparr>) b r = Some (t, d) \<and> h2o_url_parse t = Some d"
    if "url_ok d" "url_path d = Some (b @ r)" for d b r x
    using resolve_build_correct [OF that(1)] parse_text [OF that(1)] that(2) by fastforce
  from assms(2) show ?thesis
  proof
    assume "relative = None"
    moreover have b: "base\<lparr>url_path := Some p\<rparr> = base" using sel by (cases base) simp
    ultimately show ?thesis
      using built [OF assms(1), of p "[]" "Some p", unfolded b] p sel assms(1) by (auto simp: h2o_url_resolve_def)
  next
    assume "\<exists>r u. h2o_url_parse_relative r = Some u \<and> relative = Some u"
    then obtain r rel where rel: "h2o_url_parse_relative r = Some rel" "relative = Some rel" by blast
    obtain sch q where sch: "(case parse_scheme r of None \<Rightarrow> (None, r) | Some (s, p) \<Rightarrow> (Some s, p)) = (sch, q)"
      and known: "sch \<noteq> Some H2O_URL_SCHEME_FASTCGI"
      by (cases "parse_scheme r") (auto dest: parse_scheme_known)
    define s' where "s' = (case sch of Some s' \<Rightarrow> s' | None \<Rightarrow> s)"
    have s': "s' \<noteq> H2O_URL_SCHEME_FASTCGI" "(if sch \<noteq> None then sch else Some s) = Some s'"
      using known s by (auto simp: s'_def split: option.splits)
    show ?thesis
    proof (cases "take 2 q = str ''//''")
      case True
      then have "parse_authority_and_path sch (drop 2 q) = Some rel"
        using rel sch by (simp add: h2o_url_parse_relative_def)
      from parse_authority_ok [OF this] obtain a' h' p' where
        sel': "url_scheme rel = sch" "url_authority rel = Some a'" "url_host rel = Some h'" "url_path rel = Some p'"
        and a': "auth_ok a' h' (url_port rel)" "a' \<noteq> []" "host_in a' h'" and p': "p' \<noteq> []" "hd p' = slash"
        by blast
      let ?d = "\<lparr>url_scheme = Some s', url_authority = Some a', url_host = Some h', url_path = Some p', url_port = url_port rel\<rparr>"
      have "url_ok ?d" using s' a' p' by (auto simp: url_ok_def)
      with built [of ?d "[]" p' None] show ?thesis
        using rel(2) sel sel' p p' s' by (auto simp: h2o_url_resolve_def Let_def h2o_url_resolve_path_def)
    next
      case False
      then have rel': "rel = \<lparr>url_scheme = sch, url_authority = None, url_host = None, url_path = Some q, url_port = 65535\<rparr>"
        using rel sch by (simp add: h2o_url_parse_relative_def)
      obtain b t where bt: "h2o_url_resolve_path p q = Some (b, t)" "b @ t \<noteq> []" "hd (b @ t) = slash"
        using resolve_path_correct [OF p] by blast
      let ?d = "\<lparr>url_scheme = Some s', url_authority = Some a, url_host = Some h, url_path = Some (b @ t), url_port = url_port base\<rparr>"
      have "url_ok ?d" using s' a bt by (auto simp: url_ok_def)
      with built [of ?d b t None] show ?thesis
        using rel(2) rel' sel p bt s' by (auto simp: h2o_url_resolve_def Let_def)
    qed
  qed
qed

text \<open>A path of up to 109 octets is copied to the 108 octets of \<^verbatim>\<open>sun_path\<close>; one of fewer than two is refused.\<close>

lemma host_to_sun_iff:
  assumes "length p < 2 ^ 32"
  shows "h2o_url_host_to_sun (str ''unix:'' @ p) = Inr p \<longleftrightarrow> 2 \<le> length p \<and> length p \<le> sun_path_size + 1"
proof -
  define n where "n = length p"
  have u: "unat (of_nat (n + 5) - 6 - 1 :: u64) = (if n < 2 then 2 ^ 64 + n - 2 else n - 2)"
  proof (cases "n < 2")
    case True
    then have "n = 0 \<or> n = 1" by auto
    then show ?thesis by (auto simp: unsigned_minus_1_eq_mask mask_eq_exp_minus_1)
  next
    case False
    then obtain k where k: "n = k + 2" by (metis add.commute le_Suc_ex not_less)
    have "of_nat (n + 5) - 6 - 1 = (of_nat k :: u64)" unfolding k by simp
    moreover have "unat (of_nat k :: u64) = k" using assms k n_def by (intro unat_of_nat_eq) simp
    ultimately show ?thesis using k by simp
  qed
  have s: "unat (of_nat sun_path_size :: u64) = sun_path_size" by (simp add: sun_path_size_def)
  have "length (str ''unix:'' @ p) = n + 5" by (simp add: n_def)
  then have "h2o_url_host_to_sun (str ''unix:'' @ p) =
      (if (of_nat (n + 5) - 6 - 1 :: u64) \<ge> of_nat sun_path_size then Inl ''unix-domain socket path is too long'' else Inr p)"
    unfolding h2o_url_host_to_sun_def by (simp only:) simp
  then show ?thesis
    unfolding word_le_nat_alt u s n_def [symmetric] by (auto simp: sun_path_size_def)
qed

lemma rewrite_flags_null_of_removed_segment:
  "map_option (\<lambda>r. (nm_path r, nm_null_char_found r)) (h2o_url_normalize_path (str ''/a%00/../b'')) = Some (str ''/b'', True)"
  by code_simp

text \<open>Octets of a port that are no digits are skipped.\<close>

lemma hostport_skips_junk: "h2o_url_parse_hostport (str ''a:8x0'') = Some (str ''a'', 80, [])"
  by code_simp

section \<open>Properties\<close>

text \<open>
  C30. Normalising a request path is, on every input and on both the scanning and the rewriting branch, the two-pass
  specification: cut off the query, percent-decode, split at the slashes and remove the dot segments. The loops never
  leave the buffer.
\<close>

theorem normalize_path_correct:
  "\<exists>r. h2o_url_normalize_path path = Some r \<and> nm_path r = normal_path path \<and> nm_query_at r = query_start path"
  by (rule normalize_path_result)

text \<open>
  C9. A normalised path is absolute and none of its segments is \<open>.\<close> or \<open>..\<close>, whatever was
  percent-encoded in the request: it cannot leave the directory it is appended to.
\<close>

theorem normalize_path_no_traversal:
  assumes "h2o_url_normalize_path path = Some r"
  shows "nm_path r \<noteq> [] \<and> hd (nm_path r) = slash \<and>
    str ''.'' \<notin> set (pieces (\<lambda>c. c = slash) (nm_path r)) \<and> str ''..'' \<notin> set (pieces (\<lambda>c. c = slash) (nm_path r))"
  using normalize_path_result [of path] assms normal_path_safe(1,2) [of path]
    normal_path_safe(3) [of "[dot]" path] normal_path_safe(3) [of "[dot, dot]" path] by auto

theorem normalize_path_no_traversal_witness:
  "\<exists>r. h2o_url_normalize_path (str ''/a/%2e%2e/..'') = Some r \<and> str ''..'' \<notin> set (pieces (\<lambda>c. c = slash) (nm_path r))"
  using normalize_path_result [of "str ''/a/%2e%2e/..''"] normalize_path_no_traversal by blast

text \<open>
  C14. Resolving a parsed relative URL against a parsed base always succeeds, the path of the result is absolute, and the text that is
  returned parses to exactly the parts that are returned.
\<close>

theorem url_resolve_correct:
  assumes "h2o_url_parse b = Some base" "h2o_url_parse_relative r = Some rel"
  shows "\<exists>t d p. h2o_url_resolve base (Some rel) = Some (t, d) \<and> h2o_url_parse t = Some d \<and>
    url_path d = Some p \<and> p \<noteq> [] \<and> hd p = slash"
proof -
  obtain t d where td: "h2o_url_resolve base (Some rel) = Some (t, d)" "url_ok d" "h2o_url_parse t = Some d"
    using resolve_ok [OF parse_ok [OF assms(1)], of "Some rel"] assms(2) by blast
  then obtain p where "url_path d = Some p" "p \<noteq> []" "hd p = slash"
    unfolding url_ok_def by blast
  with td show ?thesis by blast
qed

theorem url_resolve_correct_witness:
  "\<exists>base rel t d p. h2o_url_parse (str ''http://a:81/b/c'') = Some base \<and> h2o_url_parse_relative (str ''../../d'') = Some rel \<and>
    h2o_url_resolve base (Some rel) = Some (t, d) \<and> h2o_url_parse t = Some d \<and> url_path d = Some p"
proof -
  have b: "\<exists>base. h2o_url_parse (str ''http://a:81/b/c'') = Some base"
    by (simp add: h2o_url_parse_def parse_scheme_def parse_authority_and_path_def h2o_url_parse_hostport_def is_digit_def
        Let_def)
  have r: "\<exists>rel. h2o_url_parse_relative (str ''../../d'') = Some rel"
    by (simp add: h2o_url_parse_relative_def parse_scheme_def)
  from b r show ?thesis using url_resolve_correct by blast
qed

text \<open>
  C31. \<^verbatim>\<open>h2o_url_host_to_sun\<close> miscounts the prefix by two: it copies socket paths of up to 109 octets into the
  108 octets of \<^verbatim>\<open>sun_path\<close>, and refuses paths of fewer than two octets as too long.
\<close>

theorem host_to_sun_overruns:
  assumes "length p < 2 ^ 32"
  shows "h2o_url_host_to_sun (str ''unix:'' @ p) = Inr p \<longleftrightarrow> 2 \<le> length p \<and> length p \<le> sun_path_size + 1"
  using assms by (rule host_to_sun_iff)

theorem host_to_sun_overruns_witness:
  "h2o_url_host_to_sun (str ''unix:'' @ replicate 109 0x61) = Inr (replicate 109 0x61) \<and> sun_path_size < length (replicate 109 (0x61 :: u8))"
  using host_to_sun_overruns [of "replicate 109 0x61"] by (simp add: sun_path_size_def)

end
