(* ===== verification/Hpack_Parse.thy ===== *)
theory Hpack_Parse
  imports Headers Url
begin

text \<open>
  The parsers of header blocks in \<^verbatim>\<open>lib/http2/hpack.c\<close>: \<^verbatim>\<open>h2o_hpack_parse_request\<close> and
  \<^verbatim>\<open>h2o_hpack_parse_response\<close>. Both take the decoder of one field as a callback, since HTTP/3 uses them with
  QPACK; the callback is a parameter here too, and the locale \<open>field_decoder\<close> states what the parsers rely
  on. A loop that would not end is \<^term>\<open>None\<close>: the loops take the number of fields they may read.
\<close>

section \<open>Requests\<close>

definition h2o_hpack_err_missing_mandatory_pseudo_header :: string where
  "h2o_hpack_err_missing_mandatory_pseudo_header = ''missing mandatory pseudo header''"

definition h2o_hpack_err_invalid_pseudo_header :: string where
  "h2o_hpack_err_invalid_pseudo_header = ''invalid pseudo header''"

definition h2o_hpack_err_unexpected_connection_specific_header :: string where
  "h2o_hpack_err_unexpected_connection_specific_header = ''found an unexpected connection-specific header''"

definition h2o_hpack_err_invalid_content_length_header :: string where
  "h2o_hpack_err_invalid_content_length_header = ''invalid content-length header''"

definition H2O_HPACK_PARSE_HEADERS_METHOD_EXISTS :: nat where
  "H2O_HPACK_PARSE_HEADERS_METHOD_EXISTS = 1"

definition H2O_HPACK_PARSE_HEADERS_SCHEME_EXISTS :: nat where
  "H2O_HPACK_PARSE_HEADERS_SCHEME_EXISTS = 2"

definition H2O_HPACK_PARSE_HEADERS_PATH_EXISTS :: nat where
  "H2O_HPACK_PARSE_HEADERS_PATH_EXISTS = 4"

definition H2O_HPACK_PARSE_HEADERS_AUTHORITY_EXISTS :: nat where
  "H2O_HPACK_PARSE_HEADERS_AUTHORITY_EXISTS = 8"

definition H2O_HPACK_PARSE_HEADERS_PROTOCOL_EXISTS :: nat where
  "H2O_HPACK_PARSE_HEADERS_PROTOCOL_EXISTS = 16"

type_synonym 'c decode_header_cb = "'c \<Rightarrow> octets \<Rightarrow> (decoded_header \<times> 'c \<times> octets) h2res"

text \<open>
  What the caller passes: which of the pointers \<^verbatim>\<open>pseudo_header_exists_map\<close>, \<^verbatim>\<open>authority\<close>, \<^verbatim>\<open>digests\<close>
  and \<^verbatim>\<open>datagram_flow_id\<close> are not \<^verbatim>\<open>NULL\<close>.
\<close>

record parse_args =
  pa_pseudo :: bool
  pa_authority :: bool
  pa_digests :: bool
  pa_flow_id :: bool

text \<open>What the function writes. \<open>rq_digests\<close> lists the values handed to \<^verbatim>\<open>h2o_cache_digests_load_header\<close>.\<close>

record parsed_request =
  rq_method :: "octets option"
  rq_scheme :: "h2o_url_scheme_t option"
  rq_authority :: "octets option"
  rq_path :: "octets option"
  rq_protocol :: "octets option"
  rq_headers :: "h2o_header list"
  rq_exists_map :: nat
  rq_content_length :: "u64 option"
  rq_expect :: "octets option"
  rq_digests :: "octets list"
  rq_flow_id :: "octets option"

text \<open>The test \<^verbatim>\<open>name->base[0] == ':'\<close>; the octet behind an empty name is NUL.\<close>

definition is_pseudo :: "hname \<Rightarrow> bool" where
  "is_pseudo name \<longleftrightarrow> (case name_octets name of [] \<Rightarrow> False | c # _ \<Rightarrow> c = chr CHR '':'')"

definition parse_scheme_value :: "octets \<Rightarrow> h2o_url_scheme_t" where
  "parse_scheme_value v =
    (if v = str ''https'' then H2O_URL_SCHEME_HTTPS
     else if v = str ''masque'' then H2O_URL_SCHEME_MASQUE
     else H2O_URL_SCHEME_HTTP)"

definition invalid_pseudo :: "(h2err \<times> string option) + 'a" where
  "invalid_pseudo = Inl (H2O_HTTP2_ERROR_PROTOCOL, Some h2o_hpack_err_invalid_pseudo_header)"

definition request_pseudo :: "hname \<Rightarrow> octets \<Rightarrow> parsed_request \<Rightarrow> parsed_request h2res" where
  "request_pseudo name v rq =
    (if name = Token H2O_TOKEN_AUTHORITY then
       (if rq_authority rq \<noteq> None then invalid_pseudo
        else Inr (rq\<lparr>rq_authority := Some v,
                     rq_exists_map := rq_exists_map rq OR H2O_HPACK_PARSE_HEADERS_AUTHORITY_EXISTS\<rparr>))
     else if name = Token H2O_TOKEN_METHOD then
       (if rq_method rq \<noteq> None then invalid_pseudo
        else Inr (rq\<lparr>rq_method := Some v,
                     rq_exists_map := rq_exists_map rq OR H2O_HPACK_PARSE_HEADERS_METHOD_EXISTS\<rparr>))
     else if name = Token H2O_TOKEN_PROTOCOL then
       (if rq_protocol rq \<noteq> None then Inl (H2O_HTTP2_ERROR_PROTOCOL, None)
        else Inr (rq\<lparr>rq_protocol := Some v,
                     rq_exists_map := rq_exists_map rq OR H2O_HPACK_PARSE_HEADERS_PROTOCOL_EXISTS\<rparr>))
     else if name = Token H2O_TOKEN_PATH then
       (if rq_path rq \<noteq> None then invalid_pseudo
        else if v = [] then invalid_pseudo
        else Inr (rq\<lparr>rq_path := Some v,
                     rq_exists_map := rq_exists_map rq OR H2O_HPACK_PARSE_HEADERS_PATH_EXISTS\<rparr>))
     else if name = Token H2O_TOKEN_SCHEME then
       (if rq_scheme rq \<noteq> None then invalid_pseudo
        else Inr (rq\<lparr>rq_scheme := Some (parse_scheme_value v),
                     rq_exists_map := rq_exists_map rq OR H2O_HPACK_PARSE_HEADERS_SCHEME_EXISTS\<rparr>))
     else Inl (H2O_HTTP2_ERROR_PROTOCOL, None))"

text \<open>A field that is no pseudo-header field.\<close>

definition request_regular :: "parse_args \<Rightarrow> hname \<Rightarrow> octets \<Rightarrow> parsed_request \<Rightarrow> parsed_request h2res" where
  "request_regular args name v rq =
    (case name of
       Token t \<Rightarrow>
         (let add = rq\<lparr>rq_headers := fst (h2o_add_header (rq_headers rq) t v)\<rparr>
          in if is_hpack_special (h2o__tokens ! t) then
               (if t = H2O_TOKEN_CONTENT_LENGTH then
                  (case h2o_strtosize v of
                     None \<Rightarrow> Inl (H2O_HTTP2_ERROR_PROTOCOL, Some h2o_hpack_err_invalid_content_length_header)
                   | Some n \<Rightarrow> Inr (rq\<lparr>rq_content_length := Some n\<rparr>))
                else if t = H2O_TOKEN_EXPECT then Inr (rq\<lparr>rq_expect := Some v\<rparr>)
                else if t = H2O_TOKEN_HOST \<and> pa_authority args then
                  Inr (if rq_authority rq = None then rq\<lparr>rq_authority := Some v\<rparr> else rq)
                else if t = H2O_TOKEN_TE \<and> h2o_lcstris v (str ''trailers'') then Inr add
                else if t = H2O_TOKEN_CACHE_DIGEST \<and> pa_digests args then
                  Inr (add\<lparr>rq_digests := rq_digests rq @ [v]\<rparr>)
                else if t = H2O_TOKEN_DATAGRAM_FLOW_ID then
                  Inr (if pa_flow_id args then rq\<lparr>rq_flow_id := Some v\<rparr> else rq)
                else Inl (H2O_HTTP2_ERROR_PROTOCOL, Some h2o_hpack_err_unexpected_connection_specific_header))
             else Inr add)
     | Buf s \<Rightarrow> Inr (rq\<lparr>rq_headers := fst (h2o_add_header_by_str (rq_headers rq) s False v)\<rparr>))"

text \<open>
  \<open>err\<close> is \<^verbatim>\<open>*err_desc\<close>: a soft error is stored there if it is the first one; an error that stores no text leaves it.
\<close>

definition note_soft_error :: "string option \<Rightarrow> h2err \<times> string option \<Rightarrow> string option" where
  "note_soft_error err ret =
    (if fst ret = H2O_HTTP2_ERROR_INVALID_HEADER_CHAR \<and> err = None then snd ret else err)"

definition fail_with :: "string option \<Rightarrow> h2err \<times> string option \<Rightarrow> (h2err \<times> string option) + 'a" where
  "fail_with err e = Inl (fst e, case snd e of None \<Rightarrow> err | Some d \<Rightarrow> Some d)"

fun parse_request_loop ::
  "nat \<Rightarrow> 'c decode_header_cb \<Rightarrow> parse_args \<Rightarrow> bool \<Rightarrow> 'c \<Rightarrow> string option \<Rightarrow> parsed_request \<Rightarrow> octets \<Rightarrow>
    (string option \<times> parsed_request \<times> 'c) h2res option" where
  "parse_request_loop 0 decode_cb args pseudo ctx err rq src = None"
| "parse_request_loop (Suc n) decode_cb args pseudo ctx err rq src =
     (if src = [] then Some (Inr (err, rq, ctx))
      else
        (case decode_cb ctx src of
           Inl e \<Rightarrow> Some (Inl e)
         | Inr (h, ctx', src') \<Rightarrow>
             (if fst (dh_ret h) \<noteq> H2O_HTTP2_ERROR_NONE \<and> fst (dh_ret h) \<noteq> H2O_HTTP2_ERROR_INVALID_HEADER_CHAR
              then Some (Inl (dh_ret h))
              else
                (let err' = note_soft_error err (dh_ret h)
                 in if is_pseudo (dh_name h) then
                      (if pseudo then
                         (case request_pseudo (dh_name h) (dh_value h) rq of
                            Inl e \<Rightarrow> Some (fail_with err' e)
                          | Inr rq' \<Rightarrow> parse_request_loop n decode_cb args pseudo ctx' err' rq' src')
                       else Some invalid_pseudo)
                    else
                      (case request_regular args (dh_name h) (dh_value h) rq of
                         Inl e \<Rightarrow> Some (fail_with err' e)
                       | Inr rq' \<Rightarrow> parse_request_loop n decode_cb args False ctx' err' rq' src')))))"

text \<open>The return value (0 or the soft error), \<^verbatim>\<open>*err_desc\<close>, the results and the decoder's state.\<close>

definition h2o_hpack_parse_request ::
  "'c decode_header_cb \<Rightarrow> parse_args \<Rightarrow> 'c \<Rightarrow> parsed_request \<Rightarrow> octets \<Rightarrow>
    (h2err \<times> string option \<times> parsed_request \<times> 'c) h2res option" where
  "h2o_hpack_parse_request decode_cb args ctx rq src =
    (case parse_request_loop (Suc (length src)) decode_cb args (pa_pseudo args) ctx None
            (rq\<lparr>rq_content_length := None\<rparr>) src of
       None \<Rightarrow> None
     | Some (Inl e) \<Rightarrow> Some (Inl e)
     | Some (Inr (err, rq', ctx')) \<Rightarrow>
         Some (Inr (if err \<noteq> None then H2O_HTTP2_ERROR_INVALID_HEADER_CHAR else H2O_HTTP2_ERROR_NONE, err, rq', ctx')))"

section \<open>Responses\<close>

record parsed_response =
  rs_status :: nat
  rs_headers :: "h2o_header list"
  rs_flow_id :: "octets option"

definition parse_digit :: "nat \<Rightarrow> nat \<Rightarrow> u8 \<Rightarrow> nat option" where
  "parse_digit mul min_digit c =
    (if c < 0x30 + of_nat min_digit \<or> 0x39 < c then None else Some (unat (c - 0x30) * mul))"

definition parse_status :: "octets \<Rightarrow> nat option" where
  "parse_status v =
    (case v of
       [a, b, c] \<Rightarrow>
         (case (parse_digit 100 1 a, parse_digit 10 0 b, parse_digit 1 0 c) of
            (Some x, Some y, Some z) \<Rightarrow> Some (x + y + z)
          | _ \<Rightarrow> None)
     | _ \<Rightarrow> None)"

text \<open>\<open>want_status\<close> is \<^verbatim>\<open>status != NULL\<close>; it is not set for trailers.\<close>

definition response_field ::
  "bool \<Rightarrow> bool \<Rightarrow> hname \<Rightarrow> octets \<Rightarrow> parsed_response \<Rightarrow> parsed_response h2res" where
  "response_field want_status want_flow_id name v rs =
    (if is_pseudo name then
       (if \<not> want_status then invalid_pseudo
        else if name \<noteq> Token H2O_TOKEN_STATUS then invalid_pseudo
        else if rs_status rs \<noteq> 0 then invalid_pseudo
        else
          (case parse_status v of
             None \<Rightarrow> invalid_pseudo
           | Some n \<Rightarrow> Inr (rs\<lparr>rs_status := n\<rparr>)))
     else if want_status \<and> rs_status rs = 0 then
       Inl (H2O_HTTP2_ERROR_PROTOCOL, Some h2o_hpack_err_missing_mandatory_pseudo_header)
     else
       (case name of
          Token t \<Rightarrow>
            (let add = Inr (rs\<lparr>rs_headers := fst (h2o_add_header (rs_headers rs) t v)\<rparr>)
             in if is_hpack_special (h2o__tokens ! t) then
                  (if t = H2O_TOKEN_CONTENT_LENGTH \<or> t = H2O_TOKEN_CACHE_DIGEST \<or> t = H2O_TOKEN_HOST then add
                   else if t = H2O_TOKEN_DATAGRAM_FLOW_ID then
                     Inr (if want_flow_id then rs\<lparr>rs_flow_id := Some v\<rparr> else rs)
                   else Inl (H2O_HTTP2_ERROR_PROTOCOL, Some h2o_hpack_err_unexpected_connection_specific_header))
                else add)
        | Buf s \<Rightarrow> Inr (rs\<lparr>rs_headers := fst (h2o_add_header_by_str (rs_headers rs) s False v)\<rparr>)))"

fun parse_response_loop ::
  "nat \<Rightarrow> 'c decode_header_cb \<Rightarrow> bool \<Rightarrow> bool \<Rightarrow> 'c \<Rightarrow> string option \<Rightarrow> parsed_response \<Rightarrow> octets \<Rightarrow>
    (string option \<times> parsed_response \<times> 'c) h2res option" where
  "parse_response_loop 0 decode_cb want_status want_flow_id ctx err rs src = None"
| "parse_response_loop (Suc n) decode_cb want_status want_flow_id ctx err rs src =
     (case decode_cb ctx src of
        Inl e \<Rightarrow> Some (Inl e)
      | Inr (h, ctx', src') \<Rightarrow>
          (if fst (dh_ret h) \<noteq> H2O_HTTP2_ERROR_NONE \<and> fst (dh_ret h) \<noteq> H2O_HTTP2_ERROR_INVALID_HEADER_CHAR
           then Some (Inl (dh_ret h))
           else
             (let err' = note_soft_error err (dh_ret h)
              in case response_field want_status want_flow_id (dh_name h) (dh_value h) rs of
                   Inl e \<Rightarrow> Some (fail_with err' e)
                 | Inr rs' \<Rightarrow>
                     (if src' = [] then Some (Inr (err', rs', ctx'))
                      else parse_response_loop n decode_cb want_status want_flow_id ctx' err' rs' src'))))"

definition h2o_hpack_parse_response ::
  "'c decode_header_cb \<Rightarrow> bool \<Rightarrow> bool \<Rightarrow> 'c \<Rightarrow> parsed_response \<Rightarrow> octets \<Rightarrow>
    (h2err \<times> string option \<times> parsed_response \<times> 'c) h2res option" where
  "h2o_hpack_parse_response decode_cb want_status want_flow_id ctx rs src =
    (if want_status \<and> src = []
     then Some (Inl (H2O_HTTP2_ERROR_PROTOCOL, Some h2o_hpack_err_missing_mandatory_pseudo_header))
     else
       (case parse_response_loop (Suc (length src)) decode_cb want_status want_flow_id ctx None
               (if want_status then rs\<lparr>rs_status := 0\<rparr> else rs) src of
          None \<Rightarrow> None
        | Some (Inl e) \<Rightarrow> Some (Inl e)
        | Some (Inr (err, rs', ctx')) \<Rightarrow>
            Some (Inr (if err \<noteq> None then H2O_HTTP2_ERROR_INVALID_HEADER_CHAR else H2O_HTTP2_ERROR_NONE, err, rs', ctx'))))"

section \<open>What the parsers rely on\<close>

text \<open>
  The contract of \<^verbatim>\<open>h2o_hpack_decode_header_cb\<close>: a decoder keeps its invariant, consumes at least one octet when it returns a
  field, reports soft errors only by the code meant for them, and does not crash.
\<close>

locale field_decoder =
  fixes decode_cb :: "'c decode_header_cb" and inv :: "'c \<Rightarrow> bool"
  assumes field: "inv c \<Longrightarrow> decode_cb c src = Inr (h, c', src') \<Longrightarrow> inv c' \<and> length src' < length src \<and>
      (fst (dh_ret h) = H2O_HTTP2_ERROR_NONE \<or> fst (dh_ret h) = H2O_HTTP2_ERROR_INVALID_HEADER_CHAR)"
    and error: "inv c \<Longrightarrow> decode_cb c src = Inl (e, d) \<Longrightarrow> e \<noteq> ASSERTION_FAILED \<and> e \<noteq> READ_PAST_END"
begin

definition safe :: "(string option \<times> 'r \<times> 'c) h2res \<Rightarrow> bool" where
  "safe r \<longleftrightarrow> (case r of Inl (e, d) \<Rightarrow> e \<noteq> ASSERTION_FAILED \<and> e \<noteq> READ_PAST_END | Inr (err, rq, c) \<Rightarrow> inv c)"

lemma safe_fail: "fst e = H2O_HTTP2_ERROR_PROTOCOL \<Longrightarrow> safe (fail_with err e)" "safe invalid_pseudo"
  by (simp_all add: safe_def fail_with_def invalid_pseudo_def)

lemma parse_request_loop_returns:
  assumes "inv c" "length src < n"
  shows "\<exists>r. parse_request_loop n decode_cb args pseudo c err rq src = Some r \<and> safe r"
  using assms
proof (induction n arbitrary: pseudo c err rq src)
  case (Suc n)
  show ?case
  proof (cases "src = []")
    case False
    show ?thesis
    proof (cases "decode_cb c src")
      case (Inl e)
      then show ?thesis using False error [OF Suc.prems(1)] by (cases e) (simp add: safe_def)
    next
      case (Inr r)
      obtain h c' src' where r: "r = (h, c', src')" by (cases r)
      have f: "inv c'" "length src' < n"
        "fst (dh_ret h) = H2O_HTTP2_ERROR_NONE \<or> fst (dh_ret h) = H2O_HTTP2_ERROR_INVALID_HEADER_CHAR"
        using field [OF Suc.prems(1)] Inr r Suc.prems(2) by fastforce+
      have pseudo: "fst e = H2O_HTTP2_ERROR_PROTOCOL" if "request_pseudo (dh_name h) (dh_value h) rq = Inl e" for e
        using that by (auto simp: request_pseudo_def invalid_pseudo_def split: if_splits)
      have regular: "fst e = H2O_HTTP2_ERROR_PROTOCOL" if "request_regular args (dh_name h) (dh_value h) rq = Inl e" for e
        using that by (auto simp: request_regular_def Let_def split: if_splits hname.splits option.splits)
      note IH = Suc.IH [OF f(1,2)]
      show ?thesis
      proof (cases "is_pseudo (dh_name h)")
        case True
        then show ?thesis
          using False Inr r f(3) IH pseudo
          by (cases "request_pseudo (dh_name h) (dh_value h) rq"; cases pseudo) (auto simp: Let_def safe_fail)
      next
        case np: False
        then show ?thesis
          using False Inr r f(3) IH regular
          by (cases "request_regular args (dh_name h) (dh_value h) rq") (auto simp: Let_def safe_fail)
      qed
    qed
  qed (use Suc.prems in \<open>simp add: safe_def\<close>)
qed simp

lemma parse_response_loop_returns:
  assumes "inv c" "length src < n"
  shows "\<exists>r. parse_response_loop n decode_cb ws wfl c err rs src = Some r \<and> safe r"
  using assms
proof (induction n arbitrary: c err rs src)
  case (Suc n)
  show ?case
  proof (cases "decode_cb c src")
    case (Inl e)
    then show ?thesis using error [OF Suc.prems(1)] by (cases e) (simp add: safe_def)
  next
    case (Inr r)
    obtain h c' src' where r: "r = (h, c', src')" by (cases r)
    have f: "inv c'" "length src' < n"
      "fst (dh_ret h) = H2O_HTTP2_ERROR_NONE \<or> fst (dh_ret h) = H2O_HTTP2_ERROR_INVALID_HEADER_CHAR"
      using field [OF Suc.prems(1)] Inr r Suc.prems(2) by fastforce+
    have code: "fst e = H2O_HTTP2_ERROR_PROTOCOL" if "response_field ws wfl (dh_name h) (dh_value h) rs = Inl e" for e
      using that by (auto simp: response_field_def invalid_pseudo_def Let_def split: if_splits hname.splits option.splits)
    note IH = Suc.IH [OF f(1,2)]
    show ?thesis
      using Inr r f(1,3) IH code
      by (cases "response_field ws wfl (dh_name h) (dh_value h) rs") (auto simp: Let_def safe_fail safe_def [of "Inr _"])
  qed
qed simp

lemma parse_request_returns:
  assumes "inv c"
  shows "\<exists>r. h2o_hpack_parse_request decode_cb args c rq src = Some r \<and>
    (case r of Inl (e, d) \<Rightarrow> e \<noteq> ASSERTION_FAILED \<and> e \<noteq> READ_PAST_END | Inr (ret, err', rq', c') \<Rightarrow> inv c')"
proof -
  obtain r where r: "parse_request_loop (Suc (length src)) decode_cb args (pa_pseudo args) c None
      (rq\<lparr>rq_content_length := None\<rparr>) src = Some r" "safe r"
    using parse_request_loop_returns [OF assms] by blast
  then show ?thesis
    unfolding h2o_hpack_parse_request_def r(1) by (cases r) (auto simp: safe_def)
qed

lemma parse_response_returns:
  assumes "inv c"
  shows "\<exists>r. h2o_hpack_parse_response decode_cb ws wfl c rs src = Some r \<and>
    (case r of Inl (e, d) \<Rightarrow> e \<noteq> ASSERTION_FAILED \<and> e \<noteq> READ_PAST_END | Inr (ret, err', rs', c') \<Rightarrow> inv c')"
proof (cases "ws \<and> src = []")
  case False
  obtain r where r: "parse_response_loop (Suc (length src)) decode_cb ws wfl c None
      (if ws then rs\<lparr>rs_status := 0\<rparr> else rs) src = Some r" "safe r"
    using parse_response_loop_returns [OF assms] by blast
  then show ?thesis
    unfolding h2o_hpack_parse_response_def r(1) using False by (cases r) (auto simp: safe_def)
qed (simp add: h2o_hpack_parse_response_def)

end

section \<open>HPACK satisfies the contract\<close>

definition hpack_table_ok :: "header_table \<Rightarrow> bool" where
  "hpack_table_ok t \<longleftrightarrow> table_inv t \<and> hpack_capacity t \<le> hpack_max_capacity t"

lemma decode_header_field_rest:
  "decode_header_field t src i vi di = Inr (h, t', rest) \<Longrightarrow> length rest \<le> length src \<and>
    (fst (dh_ret h) = H2O_HTTP2_ERROR_NONE \<or> fst (dh_ret h) = H2O_HTTP2_ERROR_INVALID_HEADER_CHAR)"
  by (auto simp: decode_header_field_def literal_name_def soft_error_result_def
      split: if_splits sum.splits prod.splits option.splits string_failure.splits dest!: decode_string_rest)

lemma decode_header_consumes:
  "decode_header t src = Inr (h, t', rest) \<Longrightarrow> length rest < length src \<and>
    (fst (dh_ret h) = H2O_HTTP2_ERROR_NONE \<or> fst (dh_ret h) = H2O_HTTP2_ERROR_INVALID_HEADER_CHAR)"
proof (induction t src rule: decode_header.induct)
  case (1 t src)
  show ?case
  proof (cases src)
    case (Cons b src')
    have field: "length rest < length src \<and>
        (fst (dh_ret h) = H2O_HTTP2_ERROR_NONE \<or> fst (dh_ret h) = H2O_HTTP2_ERROR_INVALID_HEADER_CHAR)"
      if "decode_header_field t s i vi di = Inr (h, t', rest)" "length s < length src" for s i vi di
      using decode_header_field_rest [OF that(1)] that(2) by linarith
    have tail: "length src' < length src" and ne: "src \<noteq> []" and rd: "read_octet src = Inr (b, src')" using Cons by simp_all
    note int = decode_int_shorter [of src]
    show ?thesis
    proof (cases "b \<ge> 32 \<and> b < 64")
      case False
      then show ?thesis
        using "1.prems" Cons field tail int
        by (subst (asm) decode_header.simps) (auto split: if_splits sum.splits simp: not_le)
    next
      case True
      then have nb: "\<not> b \<ge> 128" "\<not> b \<ge> 64" "\<not> b < 32"
        by (auto simp: word_le_unat)
      obtain c src1 t1 where c: "decode_int src 5 = Inr (c, src1)" "\<not> unat c > hpack_max_capacity t"
        "header_table_resize t (unat c) = Some t1" "decode_header t1 src1 = Inr (h, t', rest)"
        using "1.prems" Cons nb
        by (subst (asm) decode_header.simps) (auto split: if_splits sum.splits option.splits)
      have "length rest < length src1 \<and>
          (fst (dh_ret h) = H2O_HTTP2_ERROR_NONE \<or> fst (dh_ret h) = H2O_HTTP2_ERROR_INVALID_HEADER_CHAR)"
        by (rule "1.IH" [OF ne rd refl nb c(1) refl c(2,3,4)])
      with int [OF c(1)] show ?thesis by linarith
    qed
  qed (use "1.prems" in \<open>simp add: decode_header.simps\<close>)
qed

interpretation hpack: field_decoder decode_header hpack_table_ok
proof
  show "hpack_table_ok c' \<and> length src' < length src \<and>
      (fst (dh_ret h) = H2O_HTTP2_ERROR_NONE \<or> fst (dh_ret h) = H2O_HTTP2_ERROR_INVALID_HEADER_CHAR)"
    if "hpack_table_ok c" "decode_header c src = Inr (h, c', src')" for c src h c' src'
    using decode_header_ok [of c src] decode_header_consumes [OF that(2)] that by (auto simp: hpack_table_ok_def decode_ok_def)
  show "e \<noteq> ASSERTION_FAILED \<and> e \<noteq> READ_PAST_END"
    if "hpack_table_ok c" "decode_header c src = Inl (e, d)" for c src e d
    using decode_header_ok [of c src] that by (auto simp: hpack_table_ok_def decode_ok_def)
qed

section \<open>What an accepted request looks like\<close>

text \<open>The fields that a decoder finds in a block, in order.\<close>

inductive decodes :: "'c decode_header_cb \<Rightarrow> 'c \<Rightarrow> octets \<Rightarrow> decoded_header list \<Rightarrow> 'c \<Rightarrow> bool" for cb where
  decodes_Nil: "decodes cb c [] [] c"
| decodes_Cons: "src \<noteq> [] \<Longrightarrow> cb c src = Inr (h, c1, src1) \<Longrightarrow> decodes cb c1 src1 hs c' \<Longrightarrow> decodes cb c src (h # hs) c'"

definition request_pseudo_names :: "hname set" where
  "request_pseudo_names = {Token H2O_TOKEN_AUTHORITY, Token H2O_TOKEN_METHOD, Token H2O_TOKEN_PROTOCOL,
     Token H2O_TOKEN_PATH, Token H2O_TOKEN_SCHEME}"

text \<open>The pseudo-header fields that have a value already.\<close>

definition pseudo_set :: "parsed_request \<Rightarrow> hname set" where
  "pseudo_set rq = {n.
     (n = Token H2O_TOKEN_AUTHORITY \<and> rq_authority rq \<noteq> None) \<or> (n = Token H2O_TOKEN_METHOD \<and> rq_method rq \<noteq> None) \<or>
     (n = Token H2O_TOKEN_PROTOCOL \<and> rq_protocol rq \<noteq> None) \<or> (n = Token H2O_TOKEN_PATH \<and> rq_path rq \<noteq> None) \<or>
     (n = Token H2O_TOKEN_SCHEME \<and> rq_scheme rq \<noteq> None)}"

text \<open>The connection-specific fields that are let through, and those that go to the list of headers.\<close>

definition connection_ok :: "parse_args \<Rightarrow> hname \<Rightarrow> octets \<Rightarrow> bool" where
  "connection_ok args name v =
    (case name of
       Token t \<Rightarrow> is_hpack_special (h2o__tokens ! t) \<longrightarrow>
         t \<in> {H2O_TOKEN_CONTENT_LENGTH, H2O_TOKEN_EXPECT, H2O_TOKEN_DATAGRAM_FLOW_ID} \<or>
         (t = H2O_TOKEN_HOST \<and> pa_authority args) \<or> (t = H2O_TOKEN_TE \<and> map h2o_tolower v = str ''trailers'') \<or>
         (t = H2O_TOKEN_CACHE_DIGEST \<and> pa_digests args)
     | Buf s \<Rightarrow> True)"

definition kept :: "parse_args \<Rightarrow> hname \<Rightarrow> bool" where
  "kept args name \<longleftrightarrow>
    name \<notin> {Token H2O_TOKEN_CONTENT_LENGTH, Token H2O_TOKEN_EXPECT, Token H2O_TOKEN_DATAGRAM_FLOW_ID} \<and>
    (name = Token H2O_TOKEN_HOST \<longrightarrow> \<not> pa_authority args)"

definition to_header :: "decoded_header \<Rightarrow> h2o_header" where
  "to_header h = \<lparr>hdr_name = dh_name h, hdr_value = dh_value h, hdr_dont_compress = False\<rparr>"

lemma special_tokens:
  "is_hpack_special (h2o__tokens ! H2O_TOKEN_CONTENT_LENGTH)" "is_hpack_special (h2o__tokens ! H2O_TOKEN_EXPECT)"
  "is_hpack_special (h2o__tokens ! H2O_TOKEN_DATAGRAM_FLOW_ID)" "is_hpack_special (h2o__tokens ! H2O_TOKEN_HOST)"
  by (simp_all add: h2o__tokens_def token_def token_index_defs del: str_Cons)

lemmas special_token_defs = H2O_TOKEN_CONTENT_LENGTH_def H2O_TOKEN_EXPECT_def H2O_TOKEN_HOST_def H2O_TOKEN_TE_def
  H2O_TOKEN_CACHE_DIGEST_def H2O_TOKEN_DATAGRAM_FLOW_ID_def

lemmas pseudo_token_defs = H2O_TOKEN_AUTHORITY_def H2O_TOKEN_METHOD_def H2O_TOKEN_PROTOCOL_def H2O_TOKEN_PATH_def
  H2O_TOKEN_SCHEME_def

lemma pseudo_set_update:
  "pseudo_set (rq\<lparr>rq_authority := Some v, rq_exists_map := m\<rparr>) = insert (Token H2O_TOKEN_AUTHORITY) (pseudo_set rq)"
  "pseudo_set (rq\<lparr>rq_method := Some v, rq_exists_map := m\<rparr>) = insert (Token H2O_TOKEN_METHOD) (pseudo_set rq)"
  "pseudo_set (rq\<lparr>rq_protocol := Some v, rq_exists_map := m\<rparr>) = insert (Token H2O_TOKEN_PROTOCOL) (pseudo_set rq)"
  "pseudo_set (rq\<lparr>rq_path := Some v, rq_exists_map := m\<rparr>) = insert (Token H2O_TOKEN_PATH) (pseudo_set rq)"
  "pseudo_set (rq\<lparr>rq_scheme := Some sch, rq_exists_map := m\<rparr>) = insert (Token H2O_TOKEN_SCHEME) (pseudo_set rq)"
  unfolding pseudo_set_def by (rule set_eqI; simp; blast)+

lemma pseudo_set_mem:
  "Token H2O_TOKEN_AUTHORITY \<in> pseudo_set rq \<longleftrightarrow> rq_authority rq \<noteq> None"
  "Token H2O_TOKEN_METHOD \<in> pseudo_set rq \<longleftrightarrow> rq_method rq \<noteq> None"
  "Token H2O_TOKEN_PROTOCOL \<in> pseudo_set rq \<longleftrightarrow> rq_protocol rq \<noteq> None"
  "Token H2O_TOKEN_PATH \<in> pseudo_set rq \<longleftrightarrow> rq_path rq \<noteq> None"
  "Token H2O_TOKEN_SCHEME \<in> pseudo_set rq \<longleftrightarrow> rq_scheme rq \<noteq> None"
  by (simp_all add: pseudo_set_def pseudo_token_defs)

lemma request_pseudo_ok:
  assumes "request_pseudo name v rq = Inr rq'"
  shows "name \<in> request_pseudo_names" "name \<notin> pseudo_set rq" "pseudo_set rq' = insert name (pseudo_set rq)"
    "rq_headers rq' = rq_headers rq"
    "rq_method rq' = (if name = Token H2O_TOKEN_METHOD then Some v else rq_method rq)"
    "rq_path rq' = (if name = Token H2O_TOKEN_PATH then Some v else rq_path rq)"
    "name = Token H2O_TOKEN_PATH \<Longrightarrow> v \<noteq> []"
proof -
  show names: "name \<in> request_pseudo_names"
    using assms by (auto simp: request_pseudo_def request_pseudo_names_def split: if_splits)
  have ne: "H2O_TOKEN_METHOD \<noteq> H2O_TOKEN_AUTHORITY" "H2O_TOKEN_PROTOCOL \<noteq> H2O_TOKEN_AUTHORITY"
    "H2O_TOKEN_PATH \<noteq> H2O_TOKEN_AUTHORITY" "H2O_TOKEN_SCHEME \<noteq> H2O_TOKEN_AUTHORITY"
    "H2O_TOKEN_PROTOCOL \<noteq> H2O_TOKEN_METHOD" "H2O_TOKEN_PATH \<noteq> H2O_TOKEN_METHOD"
    "H2O_TOKEN_SCHEME \<noteq> H2O_TOKEN_METHOD" "H2O_TOKEN_PATH \<noteq> H2O_TOKEN_PROTOCOL"
    "H2O_TOKEN_SCHEME \<noteq> H2O_TOKEN_PROTOCOL" "H2O_TOKEN_SCHEME \<noteq> H2O_TOKEN_PATH"
    by (simp_all add: pseudo_token_defs)
  note cases = names [unfolded request_pseudo_names_def insert_iff empty_iff]
  show "name \<notin> pseudo_set rq" using cases
    by (elim disjE; use assms ne in \<open>simp add: request_pseudo_def invalid_pseudo_def pseudo_set_mem split: if_splits\<close>)
  show "pseudo_set rq' = insert name (pseudo_set rq)" using cases
    by (elim disjE; use assms ne in \<open>simp add: request_pseudo_def invalid_pseudo_def pseudo_set_update split: if_splits\<close>;
        auto simp: pseudo_set_update)
  show "rq_headers rq' = rq_headers rq"
    "rq_method rq' = (if name = Token H2O_TOKEN_METHOD then Some v else rq_method rq)"
    "rq_path rq' = (if name = Token H2O_TOKEN_PATH then Some v else rq_path rq)"
    using cases by (elim disjE; use assms ne in \<open>auto simp: request_pseudo_def invalid_pseudo_def split: if_splits\<close>)+
  show "v \<noteq> []" if "name = Token H2O_TOKEN_PATH"
    using that assms ne by (simp add: request_pseudo_def invalid_pseudo_def split: if_splits)
qed

lemma request_regular_ok:
  assumes "request_regular args name v rq = Inr rq'"
  shows "connection_ok args name v \<and> rq_method rq' = rq_method rq \<and> rq_path rq' = rq_path rq \<and>
    rq_headers rq' = rq_headers rq @
      (if kept args name
       then [\<lparr>hdr_name = name, hdr_value = v, hdr_dont_compress = False\<rparr>] else [])"
proof (cases name)
  case (Buf s)
  then show ?thesis
    using assms by (auto simp: request_regular_def connection_ok_def kept_def h2o_add_header_by_str_def add_header_def)
next
  case (Token t)
  show ?thesis
  proof (cases "is_hpack_special (h2o__tokens ! t)")
    case False
    then have "t \<noteq> H2O_TOKEN_CONTENT_LENGTH" "t \<noteq> H2O_TOKEN_EXPECT" "t \<noteq> H2O_TOKEN_DATAGRAM_FLOW_ID" "t \<noteq> H2O_TOKEN_HOST"
      using special_tokens by auto
    then show ?thesis
      using assms Token False
      by (auto simp: request_regular_def connection_ok_def kept_def h2o_add_header_def add_header_def)
  next
    case True
    have ne: "H2O_TOKEN_EXPECT \<noteq> H2O_TOKEN_CONTENT_LENGTH" "H2O_TOKEN_HOST \<noteq> H2O_TOKEN_CONTENT_LENGTH"
      "H2O_TOKEN_TE \<noteq> H2O_TOKEN_CONTENT_LENGTH" "H2O_TOKEN_CACHE_DIGEST \<noteq> H2O_TOKEN_CONTENT_LENGTH"
      "H2O_TOKEN_DATAGRAM_FLOW_ID \<noteq> H2O_TOKEN_CONTENT_LENGTH" "H2O_TOKEN_HOST \<noteq> H2O_TOKEN_EXPECT"
      "H2O_TOKEN_TE \<noteq> H2O_TOKEN_EXPECT" "H2O_TOKEN_CACHE_DIGEST \<noteq> H2O_TOKEN_EXPECT"
      "H2O_TOKEN_DATAGRAM_FLOW_ID \<noteq> H2O_TOKEN_EXPECT" "H2O_TOKEN_TE \<noteq> H2O_TOKEN_HOST"
      "H2O_TOKEN_CACHE_DIGEST \<noteq> H2O_TOKEN_HOST" "H2O_TOKEN_DATAGRAM_FLOW_ID \<noteq> H2O_TOKEN_HOST"
      "H2O_TOKEN_CACHE_DIGEST \<noteq> H2O_TOKEN_TE" "H2O_TOKEN_DATAGRAM_FLOW_ID \<noteq> H2O_TOKEN_TE"
      "H2O_TOKEN_DATAGRAM_FLOW_ID \<noteq> H2O_TOKEN_CACHE_DIGEST"
      by (simp_all add: special_token_defs)
    consider "t = H2O_TOKEN_CONTENT_LENGTH" | "t = H2O_TOKEN_EXPECT" | "t = H2O_TOKEN_HOST" | "t = H2O_TOKEN_TE"
      | "t = H2O_TOKEN_CACHE_DIGEST" | "t = H2O_TOKEN_DATAGRAM_FLOW_ID"
      | "t \<notin> {H2O_TOKEN_CONTENT_LENGTH, H2O_TOKEN_EXPECT, H2O_TOKEN_HOST, H2O_TOKEN_TE, H2O_TOKEN_CACHE_DIGEST,
          H2O_TOKEN_DATAGRAM_FLOW_ID}"
      by auto
    then show ?thesis
    proof cases
      case 7
      then show ?thesis using assms Token True by (simp add: request_regular_def)
    next
      case 1
      then have "\<exists>n. rq' = rq\<lparr>rq_content_length := n\<rparr>"
        using assms Token True by (auto simp: request_regular_def Let_def split: option.splits)
      then show ?thesis using Token 1 by (auto simp: connection_ok_def kept_def)
    next
      case 2
      then have "rq' = rq\<lparr>rq_expect := Some v\<rparr>"
        using assms Token True ne ne [symmetric] by (auto simp: request_regular_def Let_def)
      then show ?thesis using Token 2 by (auto simp: connection_ok_def kept_def)
    next
      case 3
      then have "pa_authority args" "rq' = (if rq_authority rq = None then rq\<lparr>rq_authority := Some v\<rparr> else rq)"
        using assms Token True ne ne [symmetric] by (auto simp: request_regular_def Let_def split: if_splits)
      then show ?thesis using Token 3 by (auto simp: connection_ok_def kept_def)
    next
      case 4
      then have "h2o_lcstris v (str ''trailers'')" "rq' = rq\<lparr>rq_headers := fst (h2o_add_header (rq_headers rq) t v)\<rparr>"
        using assms Token True ne ne [symmetric] by (auto simp: request_regular_def Let_def split: if_splits)
      then show ?thesis
        using Token 4 ne by (auto simp: connection_ok_def kept_def lcstris_iff h2o_add_header_def add_header_def simp del: str_Cons)
    next
      case 5
      then have "pa_digests args"
        "rq' = rq\<lparr>rq_headers := fst (h2o_add_header (rq_headers rq) t v), rq_digests := rq_digests rq @ [v]\<rparr>"
        using assms Token True ne ne [symmetric] by (auto simp: request_regular_def Let_def split: if_splits)
      then show ?thesis
        using Token 5 ne by (auto simp: connection_ok_def kept_def h2o_add_header_def add_header_def)
    next
      case 6
      then have "rq' = (if pa_flow_id args then rq\<lparr>rq_flow_id := Some v\<rparr> else rq)"
        using assms Token True ne ne [symmetric] by (auto simp: request_regular_def Let_def split: if_splits)
      then show ?thesis using Token 6 by (auto simp: connection_ok_def kept_def)
    qed
  qed
qed

lemma parse_request_loop_step:
  assumes "parse_request_loop (Suc n) cb args pseudo c err rq src = Some (Inr (err', rq', c'))" "src \<noteq> []"
  obtains h c1 src1 err1 rq1 where "cb c src = Inr (h, c1, src1)"
    "if is_pseudo (dh_name h) then pseudo \<and> request_pseudo (dh_name h) (dh_value h) rq = Inr rq1
     else request_regular args (dh_name h) (dh_value h) rq = Inr rq1"
    "parse_request_loop n cb args (if is_pseudo (dh_name h) then pseudo else False) c1 err1 rq1 src1 = Some (Inr (err', rq', c'))"
proof -
  obtain h c1 src1 where d: "cb c src = Inr (h, c1, src1)"
    using assms by (cases "cb c src") auto
  let ?e = "note_soft_error err (dh_ret h)"
  show ?thesis
  proof (cases "is_pseudo (dh_name h)")
    case True
    then show ?thesis
      using assms d that [OF d, of _ ?e] by (auto simp: Let_def fail_with_def invalid_pseudo_def split: if_splits sum.splits)
  next
    case False
    then show ?thesis
      using assms d that [OF d, of _ ?e] by (auto simp: Let_def fail_with_def split: if_splits sum.splits)
  qed
qed

text \<open>The part of the block behind the pseudo-header fields.\<close>

lemma parse_request_regular_part:
  "parse_request_loop n cb args False c err rq src = Some (Inr (err', rq', c')) \<Longrightarrow>
    \<exists>rs. decodes cb c src rs c' \<and>
      (\<forall>h\<in>set rs. \<not> is_pseudo (dh_name h) \<and> connection_ok args (dh_name h) (dh_value h)) \<and>
      rq_headers rq' = rq_headers rq @ map to_header (filter (\<lambda>h. kept args (dh_name h)) rs) \<and>
      rq_method rq' = rq_method rq \<and> rq_path rq' = rq_path rq"
proof (induction n arbitrary: c err rq src)
  case (Suc n)
  show ?case
  proof (cases "src = []")
    case True
    then show ?thesis using Suc.prems by (intro exI [of _ "[]"]) (auto intro: decodes_Nil)
  next
    case False
    from parse_request_loop_step [OF Suc.prems False] obtain h c1 src1 err1 rq1 where
      d: "cb c src = Inr (h, c1, src1)" and np: "\<not> is_pseudo (dh_name h)"
      and r: "request_regular args (dh_name h) (dh_value h) rq = Inr rq1"
      and l: "parse_request_loop n cb args False c1 err1 rq1 src1 = Some (Inr (err', rq', c'))"
      by (metis (full_types))
    note reg = request_regular_ok [OF r]
    from Suc.IH [OF l] obtain rs where rs: "decodes cb c1 src1 rs c'"
      "\<forall>h\<in>set rs. \<not> is_pseudo (dh_name h) \<and> connection_ok args (dh_name h) (dh_value h)"
      "rq_headers rq' = rq_headers rq1 @ map to_header (filter (\<lambda>h. kept args (dh_name h)) rs)"
      "rq_method rq' = rq_method rq1" "rq_path rq' = rq_path rq1" by blast
    have "rq_headers rq' = rq_headers rq @ map to_header (filter (\<lambda>h. kept args (dh_name h)) (h # rs))"
      using rs(3) reg by (simp add: to_header_def)
    then show ?thesis
      using decodes_Cons [OF False, of cb, OF d rs(1)] rs reg np by (intro exI [of _ "h # rs"]) simp
  qed
qed simp

lemma parse_request_parts:
  "parse_request_loop n cb args pseudo c err rq src = Some (Inr (err', rq', c')) \<Longrightarrow>
    \<exists>ps rs. decodes cb c src (ps @ rs) c' \<and>
      (\<forall>h\<in>set ps. dh_name h \<in> request_pseudo_names \<and> dh_name h \<notin> pseudo_set rq) \<and> distinct (map dh_name ps) \<and>
      (\<forall>h\<in>set rs. \<not> is_pseudo (dh_name h) \<and> connection_ok args (dh_name h) (dh_value h)) \<and>
      (\<not> pseudo \<longrightarrow> ps = []) \<and>
      rq_headers rq' = rq_headers rq @ map to_header (filter (\<lambda>h. kept args (dh_name h)) rs) \<and>
      (\<forall>h\<in>set ps. dh_name h = Token H2O_TOKEN_METHOD \<longrightarrow> rq_method rq' = Some (dh_value h)) \<and>
      (Token H2O_TOKEN_METHOD \<notin> dh_name ` set ps \<longrightarrow> rq_method rq' = rq_method rq) \<and>
      (\<forall>h\<in>set ps. dh_name h = Token H2O_TOKEN_PATH \<longrightarrow> rq_path rq' = Some (dh_value h) \<and> dh_value h \<noteq> []) \<and>
      (Token H2O_TOKEN_PATH \<notin> dh_name ` set ps \<longrightarrow> rq_path rq' = rq_path rq)"
proof (induction n arbitrary: pseudo c err rq src)
  case (Suc n)
  show ?case
  proof (cases "src = []")
    case True
    then show ?thesis using Suc.prems by (intro exI [of _ "[]"]) (auto intro: decodes_Nil)
  next
    case False
    from parse_request_loop_step [OF Suc.prems False] obtain h c1 src1 err1 rq1 where
      d: "cb c src = Inr (h, c1, src1)"
      and r: "if is_pseudo (dh_name h) then pseudo \<and> request_pseudo (dh_name h) (dh_value h) rq = Inr rq1
        else request_regular args (dh_name h) (dh_value h) rq = Inr rq1"
      and l: "parse_request_loop n cb args (if is_pseudo (dh_name h) then pseudo else False) c1 err1 rq1 src1 =
        Some (Inr (err', rq', c'))"
      by metis
    show ?thesis
    proof (cases "is_pseudo (dh_name h)")
      case np: False
      with r l have r': "request_regular args (dh_name h) (dh_value h) rq = Inr rq1"
        and l': "parse_request_loop n cb args False c1 err1 rq1 src1 = Some (Inr (err', rq', c'))" by simp_all
      note reg = request_regular_ok [OF r']
      from parse_request_regular_part [OF l'] obtain rs where rs: "decodes cb c1 src1 rs c'"
        "\<forall>h\<in>set rs. \<not> is_pseudo (dh_name h) \<and> connection_ok args (dh_name h) (dh_value h)"
        "rq_headers rq' = rq_headers rq1 @ map to_header (filter (\<lambda>h. kept args (dh_name h)) rs)"
        "rq_method rq' = rq_method rq1" "rq_path rq' = rq_path rq1" by blast
      have "rq_headers rq' = rq_headers rq @ map to_header (filter (\<lambda>h. kept args (dh_name h)) (h # rs))"
        using rs(3) reg by (simp add: to_header_def)
      then show ?thesis
        using decodes_Cons [OF False, of cb, OF d rs(1)] rs reg np
        by (intro exI [of _ "[]"] exI [of _ "h # rs"]) simp
    next
      case ip: True
      with r l have p: pseudo "request_pseudo (dh_name h) (dh_value h) rq = Inr rq1"
        and l': "parse_request_loop n cb args pseudo c1 err1 rq1 src1 = Some (Inr (err', rq', c'))" by simp_all
      note ok = request_pseudo_ok [OF p(2)]
      from Suc.IH [OF l'] obtain ps rs where ps: "decodes cb c1 src1 (ps @ rs) c'"
        "\<forall>h\<in>set ps. dh_name h \<in> request_pseudo_names \<and> dh_name h \<notin> pseudo_set rq1" "distinct (map dh_name ps)"
        "\<forall>h\<in>set rs. \<not> is_pseudo (dh_name h) \<and> connection_ok args (dh_name h) (dh_value h)"
        "rq_headers rq' = rq_headers rq1 @ map to_header (filter (\<lambda>h. kept args (dh_name h)) rs)"
        "\<forall>h\<in>set ps. dh_name h = Token H2O_TOKEN_METHOD \<longrightarrow> rq_method rq' = Some (dh_value h)"
        "Token H2O_TOKEN_METHOD \<notin> dh_name ` set ps \<longrightarrow> rq_method rq' = rq_method rq1"
        "\<forall>h\<in>set ps. dh_name h = Token H2O_TOKEN_PATH \<longrightarrow> rq_path rq' = Some (dh_value h) \<and> dh_value h \<noteq> []"
        "Token H2O_TOKEN_PATH \<notin> dh_name ` set ps \<longrightarrow> rq_path rq' = rq_path rq1" by blast
      have fresh: "dh_name h \<notin> dh_name ` set ps" using ps(2) ok(3) by auto
      have dec: "decodes cb c src ((h # ps) @ rs) c'"
        using decodes_Cons [OF False, of cb, OF d ps(1)] by simp
      have names: "\<forall>h\<in>set (h # ps). dh_name h \<in> request_pseudo_names \<and> dh_name h \<notin> pseudo_set rq"
        using ps(2) ok(1-3) by auto
      show ?thesis
      proof (intro exI conjI)
        show "distinct (map dh_name (h # ps))" using ps(3) fresh by simp
        show "rq_headers rq' = rq_headers rq @ map to_header (filter (\<lambda>h. kept args (dh_name h)) rs)" using ps(5) ok(4) by simp
        show "\<forall>h\<in>set (h # ps). dh_name h = Token H2O_TOKEN_METHOD \<longrightarrow> rq_method rq' = Some (dh_value h)"
          using ps(6,7) ok(5) fresh by auto
        show "Token H2O_TOKEN_METHOD \<notin> dh_name ` set (h # ps) \<longrightarrow> rq_method rq' = rq_method rq"
          using ps(7) ok(5) by auto
        show "\<forall>h\<in>set (h # ps). dh_name h = Token H2O_TOKEN_PATH \<longrightarrow> rq_path rq' = Some (dh_value h) \<and> dh_value h \<noteq> []"
          using ps(8,9) ok(6,7) fresh by auto
        show "Token H2O_TOKEN_PATH \<notin> dh_name ` set (h # ps) \<longrightarrow> rq_path rq' = rq_path rq"
          using ps(9) ok(6) by auto
      qed (use dec names ps(4) p(1) in auto)
    qed
  qed
qed simp

definition empty_request :: parsed_request where
  "empty_request = \<lparr>rq_method = None, rq_scheme = None, rq_authority = None, rq_path = None, rq_protocol = None,
     rq_headers = [], rq_exists_map = 0, rq_content_length = None, rq_expect = None, rq_digests = [], rq_flow_id = None\<rparr>"

definition request_args :: parse_args where
  "request_args = \<lparr>pa_pseudo = True, pa_authority = True, pa_digests = True, pa_flow_id = False\<rparr>"

lemma pseudo_set_empty: "pseudo_set (empty_request\<lparr>rq_content_length := None\<rparr>) = {}"
  by (simp add: pseudo_set_def empty_request_def)

section \<open>Properties\<close>

text \<open>
  C8. Parsing a header block with the HPACK decoder always returns, for requests, responses and trailers: the loops end
  after at most one round per octet, whatever the octets and the state of the dynamic table; no assertion fails, nothing is read
  behind the input or a table or written behind the buffer of a string, and the dynamic table stays well formed.
\<close>

theorem parse_returns:
  assumes "table_inv table" "hpack_capacity table \<le> hpack_max_capacity table"
  shows "(\<exists>r. h2o_hpack_parse_request decode_header args table rq src = Some r \<and>
      (case r of Inl (e, d) \<Rightarrow> e \<noteq> ASSERTION_FAILED \<and> e \<noteq> READ_PAST_END
       | Inr (ret, err, rq', table') \<Rightarrow> table_inv table' \<and> hpack_capacity table' \<le> hpack_max_capacity table')) \<and>
    (\<exists>r. h2o_hpack_parse_response decode_header want_status want_flow_id table rs src = Some r \<and>
      (case r of Inl (e, d) \<Rightarrow> e \<noteq> ASSERTION_FAILED \<and> e \<noteq> READ_PAST_END
       | Inr (ret, err, rs', table') \<Rightarrow> table_inv table' \<and> hpack_capacity table' \<le> hpack_max_capacity table'))"
proof -
  have ok: "hpack_table_ok table" using assms by (simp add: hpack_table_ok_def)
  from hpack.parse_request_returns [OF ok, of args rq src]
    hpack.parse_response_returns [OF ok, of want_status want_flow_id rs src]
  show ?thesis by (simp only: hpack_table_ok_def)
qed

theorem parse_returns_witness:
  "\<exists>r. h2o_hpack_parse_request decode_header request_args (empty_table 4096) empty_request [0x82, 0x84, 0xff] = Some r"
proof -
  have "table_inv (empty_table 4096)" "hpack_capacity (empty_table 4096) \<le> hpack_max_capacity (empty_table 4096)"
    by (simp_all add: empty_table_def [of 4096, THEN arg_cong, of hpack_max_capacity])
  from parse_returns [OF this] show ?thesis by blast
qed

text \<open>
  C7. What a request that \<^verbatim>\<open>h2o_hpack_parse_request\<close> accepts looks like, for any field decoder: its fields are pseudo-header
  fields of a request, each at most once, followed by fields that are none. Of the tokens with the flag \<^verbatim>\<open>is_hpack_special\<close>, by which the code
  recognises fields specific to a connection, only the permitted ones are among them; the code has no other check, so \<^verbatim>\<open>keep-alive\<close> passes. A trailer
  block has no pseudo-header fields. If there is a field for the method or the path, it is the method or the path of the request, and that of the path is not
  empty. The header list holds the other fields in order, without \<^verbatim>\<open>content-length\<close>, \<^verbatim>\<open>expect\<close> and \<^verbatim>\<open>datagram-flow-id\<close>, and without
  \<^verbatim>\<open>host\<close> if the authority is asked for.
\<close>

theorem accepted_request:
  assumes "h2o_hpack_parse_request decode_cb args c empty_request src = Some (Inr (ret, err, rq, c'))"
  shows "\<exists>ps rs. decodes decode_cb c src (ps @ rs) c' \<and>
    (\<forall>h\<in>set ps. dh_name h \<in> request_pseudo_names) \<and> distinct (map dh_name ps) \<and> (\<not> pa_pseudo args \<longrightarrow> ps = []) \<and>
    (\<forall>h\<in>set rs. \<not> is_pseudo (dh_name h) \<and> connection_ok args (dh_name h) (dh_value h)) \<and>
    rq_headers rq = map to_header (filter (\<lambda>h. kept args (dh_name h)) rs) \<and>
    (\<forall>h\<in>set ps. dh_name h = Token H2O_TOKEN_METHOD \<longrightarrow> rq_method rq = Some (dh_value h)) \<and>
    (\<forall>h\<in>set ps. dh_name h = Token H2O_TOKEN_PATH \<longrightarrow> rq_path rq = Some (dh_value h) \<and> dh_value h \<noteq> [])"
proof -
  obtain err' where "parse_request_loop (Suc (length src)) decode_cb args (pa_pseudo args) c None
      (empty_request\<lparr>rq_content_length := None\<rparr>) src = Some (Inr (err', rq, c'))"
    using assms unfolding h2o_hpack_parse_request_def by (auto split: option.splits sum.splits simp del: parse_request_loop.simps)
  from parse_request_parts [OF this] obtain ps rs where "decodes decode_cb c src (ps @ rs) c'"
    "\<forall>h\<in>set ps. dh_name h \<in> request_pseudo_names \<and> dh_name h \<notin> pseudo_set (empty_request\<lparr>rq_content_length := None\<rparr>)"
    "distinct (map dh_name ps)" "\<forall>h\<in>set rs. \<not> is_pseudo (dh_name h) \<and> connection_ok args (dh_name h) (dh_value h)"
    "\<not> pa_pseudo args \<longrightarrow> ps = []"
    "rq_headers rq = rq_headers (empty_request\<lparr>rq_content_length := None\<rparr>) @
      map to_header (filter (\<lambda>h. kept args (dh_name h)) rs)"
    "\<forall>h\<in>set ps. dh_name h = Token H2O_TOKEN_METHOD \<longrightarrow> rq_method rq = Some (dh_value h)"
    "\<forall>h\<in>set ps. dh_name h = Token H2O_TOKEN_PATH \<longrightarrow> rq_path rq = Some (dh_value h) \<and> dh_value h \<noteq> []"
    by blast
  then show ?thesis
    by (intro exI [of _ ps] exI [of _ rs]) (simp add: empty_request_def)
qed

theorem accepted_request_witness:
  "\<exists>rq c' ps rs. h2o_hpack_parse_request decode_header request_args (empty_table 4096) empty_request [0x82] =
      Some (Inr (H2O_HTTP2_ERROR_NONE, None, rq, c')) \<and>
    decodes decode_header (empty_table 4096) [0x82] (ps @ rs) c' \<and> distinct (map dh_name ps)"
proof -
  have "\<exists>rq c'. h2o_hpack_parse_request decode_header request_args (empty_table 4096) empty_request [0x82] =
      Some (Inr (H2O_HTTP2_ERROR_NONE, None, rq, c'))"
  proof -
    have "(case h2o_hpack_parse_request decode_header request_args (empty_table 4096) empty_request [0x82] of
        Some (Inr (ret, err, rq, c')) \<Rightarrow> ret = H2O_HTTP2_ERROR_NONE \<and> err = None | _ \<Rightarrow> False)"
      by code_simp
    then show ?thesis by (auto split: option.splits sum.splits)
  qed
  then obtain rq c' where *: "h2o_hpack_parse_request decode_header request_args (empty_table 4096) empty_request [0x82] =
      Some (Inr (H2O_HTTP2_ERROR_NONE, None, rq, c'))" by blast
  from accepted_request [OF *] * show ?thesis by blast
qed

end
