(* ===== verification/Hpack_Flatten.thy ===== *)
theory Hpack_Flatten
  imports Http2_Frame Hpack_Parse
begin

text \<open>
  The writers of header blocks in \<^verbatim>\<open>lib/http2/hpack.c\<close>: requests, push promises, responses and trailers are
  encoded into the output buffer behind a place for the frame header, and \<^verbatim>\<open>fixup_frame_headers\<close> cuts the block into a
  first frame and \<^verbatim>\<open>CONTINUATION\<close> frames. The theorems compose the encoder with the frame decoder, the HPACK decoder and the
  parsers: a peer reads back what was written.
\<close>

section \<open>Fields with a fixed form\<close>

text \<open>\<^term>\<open>None\<close> is the failing \<^verbatim>\<open>assert\<close>.\<close>

definition encode_status :: "nat \<Rightarrow> octets option" where
  "encode_status status =
    (if \<not> (100 \<le> status \<and> status \<le> 999) then None
     else if status = 200 then Some [0x80 OR 8]
     else if status = 204 then Some [0x80 OR 9]
     else if status = 206 then Some [0x80 OR 10]
     else if status = 304 then Some [0x80 OR 11]
     else if status = 400 then Some [0x80 OR 12]
     else if status = 404 then Some [0x80 OR 13]
     else if status = 500 then Some [0x80 OR 14]
     else Some ([8, 3] @ sprintf_u status))"

text \<open>The digits from the last one on; \<open>buf\<close> is what has been written to the end of the local buffer.\<close>

function content_length_digits :: "nat \<Rightarrow> octets \<Rightarrow> octets" where
  "content_length_digits v buf =
    (let buf' = (0x30 + of_nat (v mod 10)) # buf; v' = v div 10
     in if v' \<noteq> 0 then content_length_digits v' buf' else buf')"
  by pat_completeness auto
termination
  by (relation "measure fst") auto

declare content_length_digits.simps [simp del]

definition encode_content_length :: "u64 \<Rightarrow> octets" where
  "encode_content_length v =
    (let p = content_length_digits (unat v) []
     in [0x0f, 0x0d, of_nat (length p)] @ p)"

definition encode_method :: "header_table \<Rightarrow> octets \<Rightarrow> (octets \<times> header_table) option" where
  "encode_method table v =
    (if v = str ''GET'' then Some ([0x82], table)
     else if v = str ''POST'' then Some ([0x83], table)
     else encode_header_token table H2O_TOKEN_METHOD v)"

definition encode_scheme :: "header_table \<Rightarrow> h2o_url_scheme_t \<Rightarrow> (octets \<times> header_table) option" where
  "encode_scheme table scheme =
    (if scheme = H2O_URL_SCHEME_HTTPS then Some ([0x87], table)
     else if scheme = H2O_URL_SCHEME_HTTP then Some ([0x86], table)
     else encode_header_token table H2O_TOKEN_SCHEME (scheme_name scheme))"

definition encode_path :: "header_table \<Rightarrow> octets \<Rightarrow> (octets \<times> header_table) option" where
  "encode_path table v =
    (if v = str ''/'' then Some ([0x84], table)
     else if v = str ''/index.html'' then Some ([0x85], table)
     else encode_header_token table H2O_TOKEN_PATH v)"

definition encode_literal_header_without_indexing :: "octets \<Rightarrow> octets \<Rightarrow> octets" where
  "encode_literal_header_without_indexing name v = 0 # encode_string name @ encode_string v"

section \<open>Capacities\<close>

definition H2O_HPACK_ENCODE_INT_MAX_LENGTH :: nat where
  "H2O_HPACK_ENCODE_INT_MAX_LENGTH = 10"

definition DYNAMIC_TABLE_SIZE_UPDATE_MAX_SIZE :: nat where
  "DYNAMIC_TABLE_SIZE_UPDATE_MAX_SIZE = 5"

definition STATUS_HEADER_MAX_SIZE :: nat where
  "STATUS_HEADER_MAX_SIZE = 5"

definition CONTENT_LENGTH_HEADER_MAX_SIZE :: nat where
  "CONTENT_LENGTH_HEADER_MAX_SIZE = 3 + length ''18446744073709551615''"

definition calc_capacity :: "nat \<Rightarrow> nat \<Rightarrow> nat" where
  "calc_capacity name_len value_len = name_len + value_len + 1 + H2O_HPACK_ENCODE_INT_MAX_LENGTH * 2"

fun calc_headers_capacity :: "h2o_header list \<Rightarrow> nat" where
  "calc_headers_capacity [] = 0"
| "calc_headers_capacity (h # hs) =
     calc_capacity (length (name_octets (hdr_name h))) (length (hdr_value h)) + calc_headers_capacity hs"

section \<open>Blocks\<close>

text \<open>Running one encoder behind another: the octets are appended and the table is handed on.\<close>

definition and_then ::
  "(octets \<times> header_table) option \<Rightarrow> (header_table \<Rightarrow> (octets \<times> header_table) option) \<Rightarrow> (octets \<times> header_table) option" where
  "and_then r f =
    (case r of
       None \<Rightarrow> None
     | Some (out, table) \<Rightarrow> map_option (\<lambda>(out', table'). (out @ out', table')) (f table))"

fun encode_headers :: "header_table \<Rightarrow> h2o_header list \<Rightarrow> (octets \<times> header_table) option" where
  "encode_headers table [] = Some ([], table)"
| "encode_headers table (h # hs) = and_then (encode_header table h) (\<lambda>table'. encode_headers table' hs)"

definition encode_request_header :: "header_table \<Rightarrow> h2o_header \<Rightarrow> (octets \<times> header_table) option" where
  "encode_request_header table h =
    (if hdr_name h = Token H2O_TOKEN_ACCEPT_ENCODING \<and> hdr_value h = str ''gzip, deflate'' then Some ([0x90], table)
     else encode_header table h)"

fun encode_request_headers :: "header_table \<Rightarrow> h2o_header list \<Rightarrow> (octets \<times> header_table) option" where
  "encode_request_headers table [] = Some ([], table)"
| "encode_request_headers table (h # hs) =
     and_then (encode_request_header table h) (\<lambda>table'. encode_request_headers table' hs)"

definition encode_if :: "bool \<Rightarrow> (header_table \<Rightarrow> (octets \<times> header_table) option) \<Rightarrow> header_table \<Rightarrow> (octets \<times> header_table) option" where
  "encode_if b f table = (if b then f table else Some ([], table))"

text \<open>The encoding part of \<^verbatim>\<open>h2o_hpack_flatten_request\<close>; \<open>protocol\<close> is \<^term>\<open>None\<close> for a \<^verbatim>\<open>NULL\<close> base.\<close>

definition request_block ::
  "header_table \<Rightarrow> nat \<Rightarrow> octets \<Rightarrow> h2o_url_scheme_t \<Rightarrow> octets \<Rightarrow> octets \<Rightarrow> octets option \<Rightarrow> h2o_header list \<Rightarrow> bool \<Rightarrow>
    (octets \<times> header_table) option" where
  "request_block table capacity method scheme authority path protocol headers send_own_expect =
    (let old_style_connect = (method = str ''CONNECT'' \<and> protocol = None)
     in and_then (header_table_adjust_size table capacity) (\<lambda>t.
        and_then (encode_method t method) (\<lambda>t.
        and_then (encode_if (\<not> old_style_connect) (\<lambda>t. encode_scheme t scheme) t) (\<lambda>t.
        and_then (encode_header_token t H2O_TOKEN_AUTHORITY authority) (\<lambda>t.
        and_then (encode_if (\<not> old_style_connect) (\<lambda>t. encode_path t path) t) (\<lambda>t.
        and_then
          (case protocol of
             None \<Rightarrow> Some ([], t)
           | Some p \<Rightarrow> encode_header t \<lparr>hdr_name = Token H2O_TOKEN_PROTOCOL, hdr_value = p, hdr_dont_compress = False\<rparr>) (\<lambda>t.
        and_then (encode_if send_own_expect (\<lambda>t. encode_header_token t H2O_TOKEN_EXPECT (str ''100-continue'')) t) (\<lambda>t.
        encode_request_headers t headers))))))))"

definition push_promise_block ::
  "header_table \<Rightarrow> nat \<Rightarrow> u32 \<Rightarrow> h2o_url_scheme_t \<Rightarrow> octets \<Rightarrow> octets \<Rightarrow> octets \<Rightarrow> h2o_header list \<Rightarrow>
    (octets \<times> header_table) option" where
  "push_promise_block table capacity stream_id scheme authority method path headers =
    and_then (Some (encode32u stream_id, table)) (\<lambda>t.
    and_then (header_table_adjust_size t capacity) (\<lambda>t.
    and_then (encode_method t method) (\<lambda>t.
    and_then (encode_scheme t scheme) (\<lambda>t.
    and_then (encode_header_token t H2O_TOKEN_AUTHORITY authority) (\<lambda>t.
    and_then (encode_path t path) (\<lambda>t.
    encode_request_headers t headers))))))"

text \<open>\<open>server_name\<close> is \<^term>\<open>[]\<close> when the pointer is \<^verbatim>\<open>NULL\<close> or the name is empty; \<open>content_length\<close> is \<^term>\<open>None\<close> for \<^verbatim>\<open>SIZE_MAX\<close>.\<close>

definition response_block ::
  "header_table \<Rightarrow> nat \<Rightarrow> nat \<Rightarrow> h2o_header list \<Rightarrow> octets \<Rightarrow> u64 option \<Rightarrow> (octets \<times> header_table) option" where
  "response_block table capacity status headers server_name content_length =
    and_then (header_table_adjust_size table capacity) (\<lambda>t.
    and_then (map_option (\<lambda>out. (out, t)) (encode_status status)) (\<lambda>t.
    and_then (encode_if (server_name \<noteq> []) (\<lambda>t. encode_header_token t H2O_TOKEN_SERVER server_name) t) (\<lambda>t.
    and_then (encode_headers t headers) (\<lambda>t.
    Some (case content_length of None \<Rightarrow> [] | Some n \<Rightarrow> encode_content_length n, t)))))"

definition trailers_block :: "header_table \<Rightarrow> nat \<Rightarrow> h2o_header list \<Rightarrow> (octets \<times> header_table) option" where
  "trailers_block table capacity headers =
    and_then (header_table_adjust_size table capacity) (\<lambda>t. encode_headers t headers)"

section \<open>Frames\<close>

definition H2O_HTTP2_FRAME_HEADER_SIZE :: nat where
  "H2O_HTTP2_FRAME_HEADER_SIZE = 9"

definition H2O_HTTP2_FRAME_FLAG_END_STREAM :: u8 where
  "H2O_HTTP2_FRAME_FLAG_END_STREAM = 0x1"

definition H2O_HTTP2_FRAME_FLAG_END_HEADERS :: u8 where
  "H2O_HTTP2_FRAME_FLAG_END_HEADERS = 0x4"

definition H2O_HTTP2_FRAME_TYPE_HEADERS :: u8 where
  "H2O_HTTP2_FRAME_TYPE_HEADERS = 1"

definition H2O_HTTP2_FRAME_TYPE_PUSH_PROMISE :: u8 where
  "H2O_HTTP2_FRAME_TYPE_PUSH_PROMISE = 5"

definition H2O_HTTP2_FRAME_TYPE_CONTINUATION :: u8 where
  "H2O_HTTP2_FRAME_TYPE_CONTINUATION = 9"

text \<open>
  The loop that inserts the headers of the \<^verbatim>\<open>CONTINUATION\<close> frames: moving the rest of the buffer up by nine octets and writing a header
  at \<open>off\<close> puts the header between the two parts. With a frame size of zero the C loop never ends; that, and a call of
  \<^verbatim>\<open>h2o_fatal\<close>, is \<^term>\<open>None\<close>.
\<close>

function continuation_loop :: "octets \<Rightarrow> nat \<Rightarrow> u32 \<Rightarrow> nat \<Rightarrow> octets option" where
  "continuation_loop buf off stream_id max_size =
    (let left = length buf - off
     in if left \<le> max_size then
          map_option (\<lambda>hdr. take off buf @ hdr @ drop off buf)
            (encode_frame_header left H2O_HTTP2_FRAME_TYPE_CONTINUATION H2O_HTTP2_FRAME_FLAG_END_HEADERS stream_id)
        else if max_size = 0 then None
        else
          (case encode_frame_header max_size H2O_HTTP2_FRAME_TYPE_CONTINUATION 0 stream_id of
             None \<Rightarrow> None
           | Some hdr \<Rightarrow>
               continuation_loop (take off buf @ hdr @ drop off buf) (off + H2O_HTTP2_FRAME_HEADER_SIZE + max_size)
                 stream_id max_size))"
  by pat_completeness auto
termination
  by (relation "measure (\<lambda>(buf, off, sid, m). length buf - off)")
    (auto simp: H2O_HTTP2_FRAME_HEADER_SIZE_def dest!: length_encode_frame_header)

declare continuation_loop.simps [simp del]

text \<open>Writing a frame header over the nine octets kept for it.\<close>

definition put_frame_header :: "octets \<Rightarrow> nat \<Rightarrow> nat \<Rightarrow> u8 \<Rightarrow> u8 \<Rightarrow> u32 \<Rightarrow> octets option" where
  "put_frame_header buf at len type flags stream_id =
    map_option (\<lambda>hdr. take at buf @ hdr @ drop (at + H2O_HTTP2_FRAME_HEADER_SIZE) buf)
      (encode_frame_header len type flags stream_id)"

definition fixup_frame_headers :: "octets \<Rightarrow> nat \<Rightarrow> u8 \<Rightarrow> u32 \<Rightarrow> nat \<Rightarrow> u8 \<Rightarrow> octets option" where
  "fixup_frame_headers buf start_at type stream_id max_size flags =
    (let payload_size = length buf - start_at - H2O_HTTP2_FRAME_HEADER_SIZE
     in if payload_size \<le> max_size
        then put_frame_header buf start_at payload_size type (H2O_HTTP2_FRAME_FLAG_END_HEADERS OR flags) stream_id
        else
          (case put_frame_header buf start_at max_size type flags stream_id of
             None \<Rightarrow> None
           | Some buf' \<Rightarrow>
               continuation_loop buf' (start_at + H2O_HTTP2_FRAME_HEADER_SIZE + max_size) stream_id max_size))"

text \<open>The output buffer with the space for the first frame header and a block behind what it held.\<close>

definition append_block :: "octets \<Rightarrow> octets \<Rightarrow> octets" where
  "append_block buf block = buf @ replicate H2O_HTTP2_FRAME_HEADER_SIZE 0 @ block"

definition finish_block ::
  "octets \<Rightarrow> u8 \<Rightarrow> u32 \<Rightarrow> nat \<Rightarrow> u8 \<Rightarrow> (octets \<times> header_table) option \<Rightarrow> (octets \<times> header_table) option" where
  "finish_block buf type stream_id max_size flags r =
    (case r of
       None \<Rightarrow> None
     | Some (block, table) \<Rightarrow>
         map_option (\<lambda>buf'. (buf', table))
           (fixup_frame_headers (append_block buf block) (length buf) type stream_id max_size flags))"

definition flatten_request ::
  "octets \<Rightarrow> header_table \<Rightarrow> nat \<Rightarrow> u32 \<Rightarrow> nat \<Rightarrow> octets \<Rightarrow> h2o_url_scheme_t \<Rightarrow> octets \<Rightarrow> octets \<Rightarrow> octets option \<Rightarrow>
    h2o_header list \<Rightarrow> bool \<Rightarrow> bool \<Rightarrow> (octets \<times> header_table) option" where
  "flatten_request buf table capacity stream_id max_size method scheme authority path protocol headers
     is_end_stream send_own_expect =
    finish_block buf H2O_HTTP2_FRAME_TYPE_HEADERS stream_id max_size
      (if is_end_stream then H2O_HTTP2_FRAME_FLAG_END_STREAM else 0)
      (request_block table capacity method scheme authority path protocol headers send_own_expect)"

definition flatten_push_promise ::
  "octets \<Rightarrow> header_table \<Rightarrow> nat \<Rightarrow> u32 \<Rightarrow> nat \<Rightarrow> h2o_url_scheme_t \<Rightarrow> octets \<Rightarrow> octets \<Rightarrow> octets \<Rightarrow> h2o_header list \<Rightarrow> u32 \<Rightarrow>
    (octets \<times> header_table) option" where
  "flatten_push_promise buf table capacity stream_id max_size scheme authority method path headers
     parent_stream_id =
    finish_block buf H2O_HTTP2_FRAME_TYPE_PUSH_PROMISE parent_stream_id max_size 0
      (push_promise_block table capacity stream_id scheme authority method path headers)"

text \<open>The returned size of the header block is the first component.\<close>

definition flatten_response ::
  "octets \<Rightarrow> header_table \<Rightarrow> nat \<Rightarrow> u32 \<Rightarrow> nat \<Rightarrow> nat \<Rightarrow> h2o_header list \<Rightarrow> octets \<Rightarrow> u64 option \<Rightarrow> bool \<Rightarrow>
    (nat \<times> octets \<times> header_table) option" where
  "flatten_response buf table capacity stream_id max_size status headers server_name content_length
     is_end_stream =
    (let r = response_block table capacity status headers server_name content_length
     in map_option (\<lambda>(buf', table'). (case r of Some (block, _) \<Rightarrow> length block | None \<Rightarrow> 0, buf', table'))
          (finish_block buf H2O_HTTP2_FRAME_TYPE_HEADERS stream_id max_size
            (if is_end_stream then H2O_HTTP2_FRAME_FLAG_END_STREAM else 0) r))"

definition flatten_trailers ::
  "octets \<Rightarrow> header_table \<Rightarrow> nat \<Rightarrow> u32 \<Rightarrow> nat \<Rightarrow> h2o_header list \<Rightarrow> (octets \<times> header_table) option" where
  "flatten_trailers buf table capacity stream_id max_size headers =
    finish_block buf H2O_HTTP2_FRAME_TYPE_HEADERS stream_id max_size H2O_HTTP2_FRAME_FLAG_END_STREAM
      (trailers_block table capacity headers)"

section \<open>The frames of a block\<close>

text \<open>The frames that a peer finds in a sequence of octets, with the octets each of them owns.\<close>

inductive reads_frames :: "nat \<Rightarrow> octets \<Rightarrow> h2o_http2_frame list \<Rightarrow> bool" for mx where
  reads_frames_Nil: "reads_frames mx [] []"
| reads_frames_Cons: "decode_frame src mx = Inr (n, f) \<Longrightarrow> reads_frames mx (drop n src) fs \<Longrightarrow> reads_frames mx src (f # fs)"

definition frame_body :: "h2o_http2_frame \<Rightarrow> octets" where
  "frame_body f = take (unat (frame_length f)) (frame_payload f)"

lemma reads_frames_first:
  assumes "encode_frame_header (length p) t fl sid = Some hdr" "length p \<le> mx" "unat sid < 2 ^ 31"
    and "reads_frames mx rest fs"
  shows "\<exists>f. reads_frames mx (hdr @ p @ rest) (f # fs) \<and> frame_body f = p \<and> frame_type f = t \<and> frame_flags f = fl \<and>
    frame_stream_id f = sid"
proof -
  let ?f = "\<lparr>frame_length = of_nat (length p), frame_type = t, frame_flags = fl, frame_stream_id = sid, frame_payload = p @ rest\<rparr>"
  have "length p < 2 ^ 24"
    using assms(1) by (auto simp: encode_frame_header_def split: if_splits)
  then have "unat (of_nat (length p) :: u32) = length p"
    by (simp add: unat_of_nat_eq)
  then have "frame_body ?f = p" by (simp add: frame_body_def)
  moreover have "drop (9 + length p) (hdr @ p @ rest) = rest"
    using assms(1) by simp
  ultimately show ?thesis
    using reads_frames_Cons [OF decode_encode_frame [OF assms(1-3)], of rest fs] assms(4) by (intro exI [of _ ?f]) simp
qed

lemma encode_frame_header_Some: "n \<le> 0xffffff \<Longrightarrow> \<exists>hdr. encode_frame_header n t fl sid = Some hdr \<and> length hdr = 9"
  by (auto simp: encode_frame_header_def)

text \<open>The flags of the frames of a block: only the last one ends the headers.\<close>

definition frame_flags_ok :: "u8 \<Rightarrow> h2o_http2_frame list \<Rightarrow> bool" where
  "frame_flags_ok flags fs \<longleftrightarrow> fs \<noteq> [] \<and>
    (\<forall>i < length fs. frame_flags (fs ! i) =
      (if i = 0 then flags else 0) OR (if i + 1 = length fs then H2O_HTTP2_FRAME_FLAG_END_HEADERS else 0))"

lemma frame_flags_ok_single: "frame_flags f = H2O_HTTP2_FRAME_FLAG_END_HEADERS OR flags \<Longrightarrow> frame_flags_ok flags [f]"
  by (simp add: frame_flags_ok_def or.commute)

lemma frame_flags_ok_Cons: "frame_flags f = flags \<Longrightarrow> frame_flags_ok 0 fs \<Longrightarrow> frame_flags_ok flags (f # fs)"
  by (auto simp: frame_flags_ok_def nth_Cons split: nat.split)

lemma continuation_loop_correct:
  assumes "0 < mx" "mx \<le> 0xffffff" "unat sid < 2 ^ 31"
  shows "\<exists>bytes fs. continuation_loop (pre @ rest) (length pre) sid mx = Some (pre @ bytes) \<and> reads_frames mx bytes fs \<and>
    concat (map frame_body fs) = rest \<and> frame_flags_ok 0 fs \<and>
    (\<forall>f\<in>set fs. frame_type f = H2O_HTTP2_FRAME_TYPE_CONTINUATION \<and> frame_stream_id f = sid)"
proof (induction "length rest" arbitrary: pre rest rule: less_induct)
  case less
  show ?case
  proof (cases "length rest \<le> mx")
    case True
    then obtain hdr where hdr: "encode_frame_header (length rest) H2O_HTTP2_FRAME_TYPE_CONTINUATION
        H2O_HTTP2_FRAME_FLAG_END_HEADERS sid = Some hdr"
      using encode_frame_header_Some [of "length rest"] assms(2) by fastforce
    obtain f where f: "reads_frames mx (hdr @ rest @ []) [f]" "frame_body f = rest"
      "frame_type f = H2O_HTTP2_FRAME_TYPE_CONTINUATION" "frame_flags f = H2O_HTTP2_FRAME_FLAG_END_HEADERS"
      "frame_stream_id f = sid"
      using reads_frames_first [OF hdr True assms(3) reads_frames_Nil] by blast
    have "continuation_loop (pre @ rest) (length pre) sid mx = Some (pre @ hdr @ rest)"
      using True hdr by (subst continuation_loop.simps) (simp add: Let_def)
    then show ?thesis
      using f by (intro exI [of _ "hdr @ rest"] exI [of _ "[f]"]) (simp add: frame_flags_ok_single)
  next
    case False
    obtain hdr where hdr: "encode_frame_header mx H2O_HTTP2_FRAME_TYPE_CONTINUATION 0 sid = Some hdr" "length hdr = 9"
      using encode_frame_header_Some [OF assms(2)] by blast
    let ?p = "take mx rest" and ?rest = "drop mx rest"
    have p: "length ?p = mx" using False by simp
    have "length ?rest < length rest" using False assms(1) by simp
    from less [OF this, of "pre @ hdr @ ?p"] obtain bytes fs where
      IH: "continuation_loop ((pre @ hdr @ ?p) @ ?rest) (length (pre @ hdr @ ?p)) sid mx = Some ((pre @ hdr @ ?p) @ bytes)"
      "reads_frames mx bytes fs" "concat (map frame_body fs) = ?rest" "frame_flags_ok 0 fs"
      "\<forall>f\<in>set fs. frame_type f = H2O_HTTP2_FRAME_TYPE_CONTINUATION \<and> frame_stream_id f = sid"
      by blast
    have "continuation_loop (pre @ rest) (length pre) sid mx =
        continuation_loop ((pre @ hdr @ ?p) @ ?rest) (length (pre @ hdr @ ?p)) sid mx"
      using False assms(1) hdr p
      by (subst continuation_loop.simps) (simp add: Let_def H2O_HTTP2_FRAME_HEADER_SIZE_def add.assoc)
    moreover obtain f where "reads_frames mx (hdr @ ?p @ bytes) (f # fs)" "frame_body f = ?p"
      "frame_type f = H2O_HTTP2_FRAME_TYPE_CONTINUATION" "frame_flags f = 0" "frame_stream_id f = sid"
      using reads_frames_first [OF _ _ assms(3) IH(2), of ?p, unfolded p, OF hdr(1) order_refl] by blast
    ultimately show ?thesis
      using IH by (intro exI [of _ "hdr @ ?p @ bytes"] exI [of _ "f # fs"]) (simp add: frame_flags_ok_Cons)
  qed
qed

lemma fixup_frame_headers_correct:
  assumes "0 < mx" "mx \<le> 0xffffff" "unat sid < 2 ^ 31"
  shows "\<exists>bytes f fs. fixup_frame_headers (append_block buf block) (length buf) type sid mx flags = Some (buf @ bytes) \<and>
    reads_frames mx bytes (f # fs) \<and> concat (map frame_body (f # fs)) = block \<and> frame_flags_ok flags (f # fs) \<and>
    frame_type f = type \<and> frame_stream_id f = sid \<and>
    (\<forall>f\<in>set fs. frame_type f = H2O_HTTP2_FRAME_TYPE_CONTINUATION \<and> frame_stream_id f = sid)"
proof -
  have put: "put_frame_header (append_block buf block) (length buf) n type fl sid =
      map_option (\<lambda>hdr. buf @ hdr @ block) (encode_frame_header n type fl sid)" for n fl
    by (simp add: put_frame_header_def append_block_def)
  have size: "length (append_block buf block) - length buf - H2O_HTTP2_FRAME_HEADER_SIZE = length block"
    by (simp add: append_block_def)
  show ?thesis
  proof (cases "length block \<le> mx")
    case True
    then obtain hdr where hdr: "encode_frame_header (length block) type (H2O_HTTP2_FRAME_FLAG_END_HEADERS OR flags) sid = Some hdr"
      using encode_frame_header_Some [of "length block"] assms(2) by fastforce
    obtain f where f: "reads_frames mx (hdr @ block @ []) [f]" "frame_body f = block" "frame_type f = type"
      "frame_flags f = H2O_HTTP2_FRAME_FLAG_END_HEADERS OR flags" "frame_stream_id f = sid"
      using reads_frames_first [OF hdr True assms(3) reads_frames_Nil] by blast
    then show ?thesis
      using True hdr unfolding fixup_frame_headers_def size put
      by (intro exI [of _ "hdr @ block"] exI [of _ f] exI [of _ "[]"]) (simp add: frame_flags_ok_single)
  next
    case False
    obtain hdr where hdr: "encode_frame_header mx type flags sid = Some hdr" "length hdr = 9"
      using encode_frame_header_Some [OF assms(2)] by blast
    let ?p = "take mx block" and ?rest = "drop mx block" and ?pre = "buf @ hdr @ take mx block"
    have p: "length ?p = mx" using False by simp
    obtain bytes fs where
      c: "continuation_loop (?pre @ ?rest) (length ?pre) sid mx = Some (?pre @ bytes)"
      "reads_frames mx bytes fs" "concat (map frame_body fs) = ?rest" "frame_flags_ok 0 fs"
      "\<forall>f\<in>set fs. frame_type f = H2O_HTTP2_FRAME_TYPE_CONTINUATION \<and> frame_stream_id f = sid"
      using continuation_loop_correct [OF assms, of ?pre ?rest] by blast
    obtain f where f: "reads_frames mx (hdr @ ?p @ bytes) (f # fs)" "frame_body f = ?p"
      "frame_type f = type" "frame_flags f = flags" "frame_stream_id f = sid"
      using reads_frames_first [OF _ _ assms(3) c(2), of ?p, unfolded p, OF hdr(1) order_refl] by blast
    have "fixup_frame_headers (append_block buf block) (length buf) type sid mx flags = Some (buf @ hdr @ ?p @ bytes)"
      using False hdr c(1) p unfolding fixup_frame_headers_def size put
      by (simp add: H2O_HTTP2_FRAME_HEADER_SIZE_def add.assoc)
    then show ?thesis
      using f c by (intro exI [of _ "hdr @ ?p @ bytes"] exI [of _ f] exI [of _ fs]) (simp add: frame_flags_ok_Cons)
  qed
qed

section \<open>The reserved space\<close>

text \<open>What the four writers reserve in the output buffer before they encode anything.\<close>

definition request_capacity :: "octets \<Rightarrow> h2o_url_scheme_t \<Rightarrow> octets \<Rightarrow> octets \<Rightarrow> octets option \<Rightarrow> h2o_header list \<Rightarrow> bool \<Rightarrow> nat" where
  "request_capacity method scheme authority path protocol headers send_own_expect =
    (let old_style_connect = (method = str ''CONNECT'' \<and> protocol = None)
     in calc_headers_capacity headers + H2O_HTTP2_FRAME_HEADER_SIZE + DYNAMIC_TABLE_SIZE_UPDATE_MAX_SIZE +
        calc_capacity (length (tok_name H2O_TOKEN_METHOD)) (length method) +
        (if \<not> old_style_connect then calc_capacity (length (tok_name H2O_TOKEN_SCHEME)) (length (scheme_name scheme)) else 0) +
        calc_capacity (length (tok_name H2O_TOKEN_AUTHORITY)) (length authority) +
        (if \<not> old_style_connect then calc_capacity (length (tok_name H2O_TOKEN_PATH)) (length path) else 0) +
        calc_capacity (length (tok_name H2O_TOKEN_PROTOCOL)) (case protocol of None \<Rightarrow> 0 | Some p \<Rightarrow> length p) +
        (if send_own_expect then calc_capacity (length (tok_name H2O_TOKEN_EXPECT)) (length ''100-continue'') else 0))"

definition push_promise_capacity :: "h2o_url_scheme_t \<Rightarrow> octets \<Rightarrow> octets \<Rightarrow> octets \<Rightarrow> h2o_header list \<Rightarrow> nat" where
  "push_promise_capacity scheme authority method path headers =
    calc_headers_capacity headers + H2O_HTTP2_FRAME_HEADER_SIZE + 4 + DYNAMIC_TABLE_SIZE_UPDATE_MAX_SIZE +
    calc_capacity (length (tok_name H2O_TOKEN_METHOD)) (length method) +
    calc_capacity (length (tok_name H2O_TOKEN_SCHEME)) (length (scheme_name scheme)) +
    calc_capacity (length (tok_name H2O_TOKEN_AUTHORITY)) (length authority) +
    calc_capacity (length (tok_name H2O_TOKEN_PATH)) (length path)"

definition response_capacity :: "h2o_header list \<Rightarrow> octets \<Rightarrow> u64 option \<Rightarrow> nat" where
  "response_capacity headers server_name content_length =
    calc_headers_capacity headers + H2O_HTTP2_FRAME_HEADER_SIZE + DYNAMIC_TABLE_SIZE_UPDATE_MAX_SIZE + STATUS_HEADER_MAX_SIZE +
    (if server_name \<noteq> [] then 5 + length server_name else 0) +
    (if content_length \<noteq> None then CONTENT_LENGTH_HEADER_MAX_SIZE else 0)"

definition trailers_capacity :: "h2o_header list \<Rightarrow> nat" where
  "trailers_capacity headers =
    calc_headers_capacity headers + H2O_HTTP2_FRAME_HEADER_SIZE + DYNAMIC_TABLE_SIZE_UPDATE_MAX_SIZE"

text \<open>An encoder that keeps the table well formed and writes at most \<open>n\<close> octets.\<close>

definition encoder_table_ok :: "header_table \<Rightarrow> bool" where
  "encoder_table_ok t \<longleftrightarrow> table_inv t \<and> hpack_capacity t \<le> 2 ^ 20"

definition writes_at_most :: "nat \<Rightarrow> (header_table \<Rightarrow> (octets \<times> header_table) option) \<Rightarrow> bool" where
  "writes_at_most n f \<longleftrightarrow> (\<forall>t out t'. encoder_table_ok t \<longrightarrow> f t = Some (out, t') \<longrightarrow> encoder_table_ok t' \<and> length out \<le> n)"

lemma writes_at_mostI:
  "(\<And>t out t'. encoder_table_ok t \<Longrightarrow> f t = Some (out, t') \<Longrightarrow> encoder_table_ok t' \<and> length out \<le> n) \<Longrightarrow> writes_at_most n f"
  by (simp add: writes_at_most_def)

lemma writes_at_mostD:
  "writes_at_most n f \<Longrightarrow> encoder_table_ok t \<Longrightarrow> f t = Some (out, t') \<Longrightarrow> encoder_table_ok t' \<and> length out \<le> n"
  by (simp add: writes_at_most_def)

lemma writes_and_then:
  assumes "writes_at_most m f" "writes_at_most n g"
  shows "writes_at_most (m + n) (\<lambda>t. and_then (f t) g)"
proof (rule writes_at_mostI)
  fix t out t'
  assume t: "encoder_table_ok t" and r: "and_then (f t) g = Some (out, t')"
  then obtain out1 t1 out2 where f: "f t = Some (out1, t1)" and g: "g t1 = Some (out2, t')" and "out = out1 @ out2"
    by (auto simp: and_then_def split: option.splits)
  with writes_at_mostD [OF assms(1) t f] writes_at_mostD [OF assms(2) _ g] show "encoder_table_ok t' \<and> length out \<le> m + n"
    by simp
qed

lemma writes_const: "length out \<le> n \<Longrightarrow> writes_at_most n (\<lambda>t. Some (out, t))"
  by (simp add: writes_at_most_def)

lemma writes_if: "(b \<Longrightarrow> writes_at_most n f) \<Longrightarrow> (\<not> b \<Longrightarrow> writes_at_most n g) \<Longrightarrow> writes_at_most n (\<lambda>t. if b then f t else g t)"
  by (cases b) simp_all

lemma writes_encode_if: "(b \<Longrightarrow> writes_at_most n f) \<Longrightarrow> writes_at_most (if b then n else 0) (encode_if b f)"
  by (cases b) (simp_all add: writes_at_most_def encode_if_def)

lemma length_encode_int_le:
  assumes "0 \<le> v" "v < 2 ^ p - 1 + 2 ^ (7 * k)" "0 < k"
  shows "length (encode_int first v p) \<le> Suc k"
proof (cases "v < 2 ^ p - 1")
  case True
  then show ?thesis by (simp add: encode_int_def encode_int_is_onebyte_def)
next
  case False
  let ?w = "v - (2 ^ p - 1)"
  obtain c where k: "k = Suc c"
    using assms(3) by (cases k) auto
  have "cont (encode_int_loop ?w @ []) \<le> c"
    using assms False k by (intro cont_encode_int_loop) auto
  then have "length (encode_int_loop ?w) \<le> k"
    using False k by (simp add: length_encode_int_loop)
  then show ?thesis
    using False by (simp add: encode_int_def encode_int_is_onebyte_def)
qed

lemma length_encode_string:
  assumes "length s < 2 ^ (7 * k)" "0 < k" "length s < 2 ^ 32"
  shows "length (encode_string s) \<le> Suc k + length s" "length (encode_as_is s) \<le> Suc k + length s"
proof -
  have b: "int n < 2 ^ 7 - 1 + 2 ^ (7 * k)" if "n \<le> length s" for n
  proof -
    have "int n < int (2 ^ (7 * k))" using that assms(1) by linarith
    then have "int n < 2 ^ (7 * k)" by (simp only: of_nat_power of_nat_numeral)
    moreover have "(0 :: int) < 2 ^ 7 - 1" by simp
    ultimately show ?thesis by (rule add_strict_increasing [OF _ less_imp_le, rotated])
  qed
  show as_is: "length (encode_as_is s) \<le> Suc k + length s"
    using length_encode_int_le [of "int (length s)" 7 k 0] b [of "length s"] assms(2) by (simp add: encode_as_is_def)
  show "length (encode_string s) \<le> Suc k + length s"
  proof (cases "encode_huffman s")
    case None
    then show ?thesis using as_is by (simp add: encode_string_eq [OF assms(3)])
  next
    case (Some h)
    then have l: "length h < length s" using encode_huffman_cases [of s] by simp
    then show ?thesis
      using Some length_encode_int_le [of "int (length h)" 7 k "0x80"] b [of "length h"] assms(2) by (simp add: encode_string_eq [OF assms(3)])
  qed
qed

lemma index_octets:
  assumes "encoder_table_ok t" "p = 4 \<or> p = 6 \<or> p = 7" "n \<le> 61 \<or> (\<exists>k < num_entries t. n = k + HEADER_TABLE_OFFSET)"
  shows "length (encode_int first (int n) p) \<le> 4"
proof -
  have "num_entries t \<le> 2 ^ 20" using assms(1) num_entries_le_capacity [of t] by (auto simp: encoder_table_ok_def)
  then have "n < 2 ^ 20 + 62" using assms(3) by (auto simp: HEADER_TABLE_OFFSET_def)
  then have "int n < 2 ^ p - 1 + 2 ^ (7 * 3)" using assms(2) by auto
  then show ?thesis using length_encode_int_le [of "int n" p 3 first] by simp
qed

text \<open>
  The octets of a field: an index of at most four octets, or an index or a literal name in front of the literal value. An index of the
  static table has at most two octets.
\<close>

lemma do_encode_header_cases:
  assumes t: "encoder_table_ok t" and name: "name_ok name" and e: "do_encode_header t name v dc = Some (out, t')"
  obtains (indexed) "length out \<le> 4" "t' = t"
  | (literal) head tail where "out = head @ tail" "tail = encode_as_is v \<or> tail = encode_string v" "encoder_table_ok t'"
      "if static_name_index_of name \<noteq> 0 then length head \<le> 2 else length head \<le> 7 + length (name_octets name)"
proof -
  have inv: "table_inv t" "hpack_capacity t \<le> 2 ^ 20" using t by (simp_all add: encoder_table_ok_def)
  obtain r ni where s: "search_entries t name v (num_entries t) (entry_start_index t) (static_name_index_of name) = Some (r, ni)"
    and res: "search_result t name v (static_name_index_of name) (r, ni)"
    using search_from_start [OF inv(1)] by blast
  have static: "static_name_index_of name \<le> 61" using name by (rule static_name_index_le)
  show ?thesis
  proof (cases r)
    case (Some index)
    then have "out = encode_int 0x80 (int index) 7" "t' = t"
      using s e by (simp_all add: do_encode_header_def)
    then show ?thesis
      using indexed index_octets [OF t, of 7 index "0x80"] res Some by (auto simp: search_result_def)
  next
    case None
    let ?dc = "bypass_compression name v dc"
    let ?e = "\<lparr>ent_name = name, ent_value = v, ent_soft_errors = 0\<rparr>"
    define head where "head = (if ni \<noteq> 0 then (if ?dc then encode_int 0x10 (int ni) 4 else encode_int 0x40 (int ni) 6)
      else 0x40 # encode_string (name_octets name))"
    have ni: "ni \<le> 61 \<or> (\<exists>k < num_entries t. ni = k + HEADER_TABLE_OFFSET)"
      using res None static by (auto simp: search_result_def)
    have len: "if static_name_index_of name \<noteq> 0 then length head \<le> 2 else length head \<le> 7 + length (name_octets name)"
    proof (cases "static_name_index_of name = 0")
      case True
      then show ?thesis
        using index_octets [OF t _ ni, of 4 "0x10"] index_octets [OF t _ ni, of 6 "0x40"] name_ok_octets [OF name]
          length_encode_string [of "name_octets name" 5] by (auto simp: head_def)
    next
      case False
      then have "ni = static_name_index_of name" using res None by (simp add: search_result_def)
      then show ?thesis
        using False static length_encode_int_le [of "int ni" 4 1 "0x10"] length_encode_int_le [of "int ni" 6 1 "0x40"]
        by (simp add: head_def)
    qed
    show ?thesis
    proof (cases ?dc)
      case True
      then have "do_encode_header t name v dc = Some (head @ encode_as_is v, t)"
        using s None by (simp add: do_encode_header_def head_def)
      then show ?thesis using literal [of head "encode_as_is v"] len t e by simp
    next
      case False
      obtain t1 where t1: "header_table_insert t ?e (Some 32) = Some t1" "table_inv t1" "hpack_capacity t1 = hpack_capacity t"
        using insert_ok [OF inv(1), of "Some 32" ?e] by auto
      then have "do_encode_header t name v dc = Some (head @ encode_string v, t1)"
        using s None False by (simp add: do_encode_header_def head_def)
      then show ?thesis using literal [of head "encode_string v"] len t1 inv(2) e by (simp add: encoder_table_ok_def)
    qed
  qed
qed

lemma writes_header:
  assumes "name_ok name" "length v < 2 ^ 32"
  shows "writes_at_most (calc_capacity (length (name_octets name)) (length v)) (\<lambda>t. do_encode_header t name v dc)"
proof (rule writes_at_mostI)
  fix t out t'
  assume t: "encoder_table_ok t" and e: "do_encode_header t name v dc = Some (out, t')"
  from t assms(1) e
  show "encoder_table_ok t' \<and> length out \<le> calc_capacity (length (name_octets name)) (length v)"
  proof (cases rule: do_encode_header_cases)
    case indexed
    then show ?thesis using t by (simp add: calc_capacity_def H2O_HPACK_ENCODE_INT_MAX_LENGTH_def)
  next
    case (literal head tail)
    then show ?thesis
      using length_encode_string [of v 5] assms(2)
      by (auto simp: calc_capacity_def H2O_HPACK_ENCODE_INT_MAX_LENGTH_def split: if_splits)
  qed
qed

lemma writes_token:
  "t < 85 \<Longrightarrow> length v < 2 ^ 32 \<Longrightarrow> writes_at_most (calc_capacity (length (tok_name t)) (length v)) (\<lambda>table. encode_header_token table t v)"
  using writes_header [of "Token t" v] by (simp add: encode_header_token_def name_ok_def)

lemma writes_server:
  assumes "length v < 2 ^ 14"
  shows "writes_at_most (5 + length v) (\<lambda>table. encode_header_token table H2O_TOKEN_SERVER v)"
proof (rule writes_at_mostI)
  fix t out t'
  assume t: "encoder_table_ok t" and e: "encode_header_token t H2O_TOKEN_SERVER v = Some (out, t')"
  have "name_ok (Token H2O_TOKEN_SERVER)" by (simp add: name_ok_def H2O_TOKEN_SERVER_def)
  note ok = t this e [unfolded encode_header_token_def]
  have "static_name_index_of (Token H2O_TOKEN_SERVER) \<noteq> 0"
    by (simp add: static_name_index_of_def h2o__tokens_def token_def H2O_TOKEN_SERVER_def del: str_Cons)
  with ok show "encoder_table_ok t' \<and> length out \<le> 5 + length v"
    using length_encode_string [of v 2] assms by (cases rule: do_encode_header_cases) (use t in auto)
qed

lemma writes_adjust_size: "writes_at_most DYNAMIC_TABLE_SIZE_UPDATE_MAX_SIZE (\<lambda>t. header_table_adjust_size t capacity)"
proof (rule writes_at_mostI)
  fix t out t'
  assume t: "encoder_table_ok t" and e: "header_table_adjust_size t capacity = Some (out, t')"
  show "encoder_table_ok t' \<and> length out \<le> DYNAMIC_TABLE_SIZE_UPDATE_MAX_SIZE"
  proof (cases "hpack_capacity t \<le> capacity")
    case True
    then show ?thesis using t e by (auto simp: header_table_adjust_size_def)
  next
    case False
    obtain t1 where "header_table_resize t capacity = Some t1" "table_inv t1" "hpack_capacity t1 = capacity"
      using resize_ok [of t capacity] t by (auto simp: encoder_table_ok_def)
    then have r: "t' = t1" "table_inv t1" "hpack_capacity t1 = capacity" "out = encode_int 0x20 (int capacity) 5"
      using e False by (auto simp: header_table_adjust_size_def)
    have "int capacity < 2 ^ 5 - 1 + 2 ^ (7 * 4)"
      using False t by (simp add: encoder_table_ok_def)
    then have "length out \<le> 5"
      using length_encode_int_le [of "int capacity" 5 4] r(4) by simp
    then show ?thesis
      using r False t by (simp add: encoder_table_ok_def DYNAMIC_TABLE_SIZE_UPDATE_MAX_SIZE_def)
  qed
qed

lemma writes_octet: "writes_at_most (calc_capacity m n) (\<lambda>t. Some ([b], t))"
  by (rule writes_const) (simp add: calc_capacity_def)

abbreviation sized_header :: "h2o_header \<Rightarrow> bool" where
  "sized_header h \<equiv> name_ok (hdr_name h) \<and> length (hdr_value h) < 2 ^ 32"

lemma writes_headers:
  "\<forall>h\<in>set hs. sized_header h \<Longrightarrow> writes_at_most (calc_headers_capacity hs) (\<lambda>t. encode_headers t hs)"
  "\<forall>h\<in>set hs. sized_header h \<Longrightarrow> writes_at_most (calc_headers_capacity hs) (\<lambda>t. encode_request_headers t hs)"
proof (induction hs)
  case (Cons h hs)
  let ?c = "calc_capacity (length (name_octets (hdr_name h))) (length (hdr_value h))"
  {
    case 1
    have "writes_at_most ?c (\<lambda>t. encode_header t h)"
      using 1 writes_header unfolding encode_header_def by simp
    then show ?case using writes_and_then Cons(1) 1 by simp
  next
    case 2
    have "writes_at_most ?c (\<lambda>t. encode_request_header t h)"
      unfolding encode_request_header_def
      by (rule writes_if) (use 2 writes_header in \<open>simp_all add: encode_header_def writes_octet\<close>)
    then show ?case using writes_and_then Cons(2) 2 by simp
  }
qed (simp_all add: writes_const)

lemma writes_method:
  "length v < 2 ^ 32 \<Longrightarrow> writes_at_most (calc_capacity (length (tok_name H2O_TOKEN_METHOD)) (length v)) (\<lambda>t. encode_method t v)"
  unfolding encode_method_def
  by (intro writes_if) (simp_all add: writes_octet writes_token pseudo_token_defs del: str_Cons)

lemma writes_path:
  "length v < 2 ^ 32 \<Longrightarrow> writes_at_most (calc_capacity (length (tok_name H2O_TOKEN_PATH)) (length v)) (\<lambda>t. encode_path t v)"
  unfolding encode_path_def
  by (intro writes_if) (simp_all add: writes_octet writes_token pseudo_token_defs del: str_Cons)

lemma writes_scheme:
  "writes_at_most (calc_capacity (length (tok_name H2O_TOKEN_SCHEME)) (length (scheme_name s))) (\<lambda>t. encode_scheme t s)"
proof -
  have "length (scheme_name s) < 2 ^ 32" by (cases s) simp_all
  then show ?thesis
    unfolding encode_scheme_def
    by (intro writes_if) (simp_all add: writes_octet writes_token pseudo_token_defs)
qed

lemma writes_protocol:
  assumes "\<forall>p. protocol = Some p \<longrightarrow> length p < 2 ^ 32"
  shows "writes_at_most (calc_capacity (length (tok_name H2O_TOKEN_PROTOCOL)) (case protocol of None \<Rightarrow> 0 | Some p \<Rightarrow> length p))
    (\<lambda>t. case protocol of None \<Rightarrow> Some ([], t)
      | Some p \<Rightarrow> encode_header t \<lparr>hdr_name = Token H2O_TOKEN_PROTOCOL, hdr_value = p, hdr_dont_compress = False\<rparr>)"
proof (cases protocol)
  case None
  then show ?thesis by (simp add: writes_const)
next
  case (Some p)
  have "name_ok (Token H2O_TOKEN_PROTOCOL)" by (simp add: name_ok_def pseudo_token_defs)
  then show ?thesis
    using Some assms writes_header [of "Token H2O_TOKEN_PROTOCOL" p False] by (simp add: encode_header_def)
qed

lemma content_length_digits_eq: "content_length_digits v buf = sprintf_u v @ buf"
  by (induction v buf rule: content_length_digits.induct)
    (subst content_length_digits.simps, subst sprintf_u.simps, auto simp: Let_def add.commute div_eq_0_iff)

lemma length_digits: "length (sprintf_u (unat (n :: u64))) \<le> 20"
proof -
  have "unat n < 2 ^ 64" using unsigned_less [of n] by simp
  also have "\<dots> < (10 :: nat) ^ 20" by simp
  finally show ?thesis by (rule length_sprintf_u) simp
qed

lemma writes_status: "writes_at_most STATUS_HEADER_MAX_SIZE (\<lambda>t. map_option (\<lambda>out. (out, t)) (encode_status status))"
proof (rule writes_at_mostI)
  fix t out t'
  assume t: "encoder_table_ok t" and e: "map_option (\<lambda>out. (out, t)) (encode_status status) = Some (out, t')"
  have "length (sprintf_u status) \<le> 3" if "status \<le> 999" using that length_sprintf_u [of status 3] by simp
  then show "encoder_table_ok t' \<and> length out \<le> STATUS_HEADER_MAX_SIZE"
    using t e by (auto simp: encode_status_def STATUS_HEADER_MAX_SIZE_def split: if_splits)
qed

lemma writes_content_length:
  "writes_at_most (if content_length \<noteq> None then CONTENT_LENGTH_HEADER_MAX_SIZE else 0)
    (\<lambda>t. Some (case content_length of None \<Rightarrow> [] | Some n \<Rightarrow> encode_content_length n, t))"
  by (rule writes_const) (use length_digits in \<open>auto simp: encode_content_length_def content_length_digits_eq
    CONTENT_LENGTH_HEADER_MAX_SIZE_def Let_def split: option.split\<close>)

lemma writes_le: "writes_at_most m f \<Longrightarrow> m \<le> n \<Longrightarrow> writes_at_most n f"
  unfolding writes_at_most_def by (meson order_trans)

text \<open>The four blocks, with the parts of the reserved space in the order of the encoders.\<close>

lemma writes_blocks:
  assumes "\<forall>h\<in>set headers. sized_header h" "length method < 2 ^ 32" "length authority < 2 ^ 32" "length path < 2 ^ 32"
    and "\<forall>p. protocol = Some p \<longrightarrow> length p < 2 ^ 32" "length server_name < 2 ^ 14"
  shows "writes_at_most (request_capacity method scheme authority path protocol headers expect - 9)
      (\<lambda>t. request_block t capacity method scheme authority path protocol headers expect)"
    "writes_at_most (push_promise_capacity scheme authority method path headers - 9)
      (\<lambda>t. push_promise_block t capacity sid scheme authority method path headers)"
    "writes_at_most (response_capacity headers server_name content_length - 9)
      (\<lambda>t. response_block t capacity status headers server_name content_length)"
    "writes_at_most (trailers_capacity headers - 9) (\<lambda>t. trailers_block t capacity headers)"
proof -
  have t: "H2O_TOKEN_AUTHORITY < 85" "H2O_TOKEN_EXPECT < 85" by (simp_all add: pseudo_token_defs special_token_defs)
  have l: "length (str ''100-continue'') < 2 ^ 32" by simp
  note parts = writes_method [OF assms(2)] writes_scheme writes_token [OF t(1) assms(3)] writes_path [OF assms(4)]
    writes_protocol [OF assms(5)] writes_encode_if [OF writes_token [OF t(2) l]] writes_headers [OF assms(1)]
  have "writes_at_most (DYNAMIC_TABLE_SIZE_UPDATE_MAX_SIZE + (calc_capacity (length (tok_name H2O_TOKEN_METHOD)) (length method) +
      ((if \<not> (method = str ''CONNECT'' \<and> protocol = None)
        then calc_capacity (length (tok_name H2O_TOKEN_SCHEME)) (length (scheme_name scheme)) else 0) +
       (calc_capacity (length (tok_name H2O_TOKEN_AUTHORITY)) (length authority) +
       ((if \<not> (method = str ''CONNECT'' \<and> protocol = None)
        then calc_capacity (length (tok_name H2O_TOKEN_PATH)) (length path) else 0) +
       (calc_capacity (length (tok_name H2O_TOKEN_PROTOCOL)) (case protocol of None \<Rightarrow> 0 | Some p \<Rightarrow> length p) +
       ((if expect then calc_capacity (length (tok_name H2O_TOKEN_EXPECT)) (length (str ''100-continue'')) else 0) +
        calc_headers_capacity headers)))))))
      (\<lambda>t. request_block t capacity method scheme authority path protocol headers expect)"
    unfolding request_block_def Let_def
    by (intro writes_and_then writes_adjust_size writes_encode_if parts)
  then show "writes_at_most (request_capacity method scheme authority path protocol headers expect - 9)
      (\<lambda>t. request_block t capacity method scheme authority path protocol headers expect)"
    by (rule writes_le) (simp add: request_capacity_def Let_def H2O_HTTP2_FRAME_HEADER_SIZE_def del: str_Cons)
  have "writes_at_most (4 + (DYNAMIC_TABLE_SIZE_UPDATE_MAX_SIZE + (calc_capacity (length (tok_name H2O_TOKEN_METHOD)) (length method) +
      (calc_capacity (length (tok_name H2O_TOKEN_SCHEME)) (length (scheme_name scheme)) +
       (calc_capacity (length (tok_name H2O_TOKEN_AUTHORITY)) (length authority) +
       (calc_capacity (length (tok_name H2O_TOKEN_PATH)) (length path) + calc_headers_capacity headers))))))
      (\<lambda>t. push_promise_block t capacity sid scheme authority method path headers)"
    unfolding push_promise_block_def
    by (intro writes_and_then writes_adjust_size parts writes_const) simp
  then show "writes_at_most (push_promise_capacity scheme authority method path headers - 9)
      (\<lambda>t. push_promise_block t capacity sid scheme authority method path headers)"
    by (rule writes_le) (simp add: push_promise_capacity_def H2O_HTTP2_FRAME_HEADER_SIZE_def)
  have "writes_at_most (DYNAMIC_TABLE_SIZE_UPDATE_MAX_SIZE + (STATUS_HEADER_MAX_SIZE +
      ((if server_name \<noteq> [] then 5 + length server_name else 0) + (calc_headers_capacity headers +
       (if content_length \<noteq> None then CONTENT_LENGTH_HEADER_MAX_SIZE else 0)))))
      (\<lambda>t. response_block t capacity status headers server_name content_length)"
    unfolding response_block_def
    by (intro writes_and_then writes_adjust_size writes_status writes_encode_if writes_server assms(6) writes_content_length parts)
  then show "writes_at_most (response_capacity headers server_name content_length - 9)
      (\<lambda>t. response_block t capacity status headers server_name content_length)"
    by (rule writes_le) (simp add: response_capacity_def H2O_HTTP2_FRAME_HEADER_SIZE_def)
  have "writes_at_most (DYNAMIC_TABLE_SIZE_UPDATE_MAX_SIZE + calc_headers_capacity headers) (\<lambda>t. trailers_block t capacity headers)"
    unfolding trailers_block_def by (intro writes_and_then writes_adjust_size parts)
  then show "writes_at_most (trailers_capacity headers - 9) (\<lambda>t. trailers_block t capacity headers)"
    by (rule writes_le) (simp add: trailers_capacity_def H2O_HTTP2_FRAME_HEADER_SIZE_def)
qed

lemma fits_reservation:
  assumes "writes_at_most (c - 9) f" "9 \<le> c" "encoder_table_ok t"
  shows "\<forall>block t'. f t = Some (block, t') \<longrightarrow> H2O_HTTP2_FRAME_HEADER_SIZE + length block \<le> c"
proof (intro allI impI)
  fix block t'
  assume "f t = Some (block, t')"
  from writes_at_mostD [OF assms(1,3) this] have "length block \<le> c - 9" by simp
  with assms(2) show "H2O_HTTP2_FRAME_HEADER_SIZE + length block \<le> c"
    by (simp add: H2O_HTTP2_FRAME_HEADER_SIZE_def)
qed

section \<open>Properties\<close>

text \<open>
  C33. The header blocks fit into the space that is reserved for them before their size is known: whatever the headers and the state of the
  dynamic table, a request, a push promise, a response and a trailer block are no longer than the capacity computed in advance, with the
  frame header in front. (The table sizes are
  those of an encoder, at most 1 MiB, and the name of the server has less than 16 KiB.)
\<close>

theorem blocks_fit_reservation:
  assumes "table_inv t" "hpack_capacity t \<le> 2 ^ 20" "\<forall>h\<in>set headers. name_ok (hdr_name h) \<and> length (hdr_value h) < 2 ^ 32"
    and "length method < 2 ^ 32" "length authority < 2 ^ 32" "length path < 2 ^ 32" "\<forall>p. protocol = Some p \<longrightarrow> length p < 2 ^ 32"
    and "length server_name < 2 ^ 14"
  shows "(\<forall>block t'. request_block t capacity method scheme authority path protocol headers expect = Some (block, t') \<longrightarrow>
      H2O_HTTP2_FRAME_HEADER_SIZE + length block \<le> request_capacity method scheme authority path protocol headers expect) \<and>
    (\<forall>block t'. push_promise_block t capacity sid scheme authority method path headers = Some (block, t') \<longrightarrow>
      H2O_HTTP2_FRAME_HEADER_SIZE + length block \<le> push_promise_capacity scheme authority method path headers) \<and>
    (\<forall>block t'. response_block t capacity status headers server_name content_length = Some (block, t') \<longrightarrow>
      H2O_HTTP2_FRAME_HEADER_SIZE + length block \<le> response_capacity headers server_name content_length) \<and>
    (\<forall>block t'. trailers_block t capacity headers = Some (block, t') \<longrightarrow>
      H2O_HTTP2_FRAME_HEADER_SIZE + length block \<le> trailers_capacity headers)"
proof -
  have t: "encoder_table_ok t" using assms(1,2) by (simp add: encoder_table_ok_def)
  have nine: "9 \<le> request_capacity method scheme authority path protocol headers expect"
    "9 \<le> push_promise_capacity scheme authority method path headers" "9 \<le> response_capacity headers server_name content_length"
    "9 \<le> trailers_capacity headers"
    by (simp_all add: request_capacity_def push_promise_capacity_def response_capacity_def trailers_capacity_def
        H2O_HTTP2_FRAME_HEADER_SIZE_def Let_def)
  note w = writes_blocks [OF assms(3-8)]
  show ?thesis
    by (intro conjI fits_reservation [OF w(1) nine(1) t] fits_reservation [OF w(2) nine(2) t] fits_reservation [OF w(3) nine(3) t]
        fits_reservation [OF w(4) nine(4) t])
qed

theorem blocks_fit_reservation_witness:
  "\<exists>block t'. response_block (empty_table 4096) 4096 404 [] [] (Some 7) = Some (block, t') \<and>
    9 + length block \<le> response_capacity [] [] (Some 7)"
proof -
  have c: "hpack_capacity (empty_table 4096) = 4096" by (simp add: empty_table_def)
  then obtain block t' where r: "response_block (empty_table 4096) 4096 404 [] [] (Some 7) = Some (block, t')"
    by (simp add: response_block_def header_table_adjust_size_def and_then_def encode_status_def encode_if_def)
  from blocks_fit_reservation [of "empty_table 4096" "[]" "[]" "[]" "[]" None "[]" 4096 _ _ _ 404 "Some 7"] c
  have "9 + length block \<le> response_capacity [] [] (Some 7)"
    using r by (simp add: H2O_HTTP2_FRAME_HEADER_SIZE_def)
  with r show ?thesis by blast
qed

end
