(* ===== verification/Hpack_Exchange.thy ===== *)
theory Hpack_Exchange
  imports Hpack_Flatten
begin

text \<open>
  The header blocks of \<^theory_text>\<open>Hpack_Flatten\<close> at the other end of a connection: the frame decoder, the HPACK decoder and the
  parsers read back what the writers of \<^verbatim>\<open>lib/http2/hpack.c\<close> wrote, and the dynamic tables of the two ends stay in step.
\<close>

section \<open>What a peer reads from a block\<close>

text \<open>The fields at the front of some octets, and what is left behind them.\<close>

fun reads :: "header_table \<Rightarrow> octets \<Rightarrow> decoded_header list \<Rightarrow> header_table \<Rightarrow> octets \<Rightarrow> bool" where
  "reads td src [] td' rest \<longleftrightarrow> td' = td \<and> rest = src"
| "reads td src (f # fs) td' rest \<longleftrightarrow> (\<exists>td1 src1. decode_header td src = Inr (f, td1, src1) \<and> reads td1 src1 fs td' rest)"

lemma reads_append: "reads td src (fs @ gs) td' rest \<longleftrightarrow> (\<exists>td1 src1. reads td src fs td1 src1 \<and> reads td1 src1 gs td' rest)"
  by (induction fs arbitrary: td src) auto

lemma decode_header_Nil [simp]: "decode_header td [] = Inl (H2O_HTTP2_ERROR_COMPRESSION, None)"
  by (simp add: decode_header.simps)

lemma reads_decodes: "reads td src fs td' [] \<Longrightarrow> decodes decode_header td src fs td'"
  by (induction fs arbitrary: td src) (force intro: decodes.intros)+

lemma reads_length: "reads td src fs td' rest \<Longrightarrow> length fs + length rest \<le> length src"
  by (induction fs arbitrary: td src) (fastforce dest: decode_header_consumes)+

text \<open>Tables in step, in a conversation without soft errors, with the bounds that the two ends keep.\<close>

definition sync :: "header_table \<Rightarrow> header_table \<Rightarrow> bool" where
  "sync te td \<longleftrightarrow> ht.in_step (ent_link True) te td \<and> hpack_capacity te < 2 ^ 32 \<and> hpack_capacity td \<le> hpack_max_capacity td"

definition received :: "hname \<Rightarrow> octets \<Rightarrow> decoded_header" where
  "received name v = \<lparr>dh_ret = (H2O_HTTP2_ERROR_NONE, None), dh_name = interned (name_octets name), dh_value = v\<rparr>"

text \<open>An encoder sends a list of fields: a decoder in step with it reads them and stays in step.\<close>

definition sends :: "(header_table \<Rightarrow> (octets \<times> header_table) option) \<Rightarrow> decoded_header list \<Rightarrow> bool" where
  "sends f fs \<longleftrightarrow> (\<forall>te td rest. sync te td \<longrightarrow>
    (\<exists>out te' td'. f te = Some (out, te') \<and> reads td (out @ rest) fs td' rest \<and> sync te' td'))"

lemma sendsD:
  assumes "sends f fs" "sync te td"
  obtains out te' td' where "f te = Some (out, te')" "reads td (out @ rest) fs td' rest" "sync te' td'"
  using assms unfolding sends_def by blast

lemma sends_Nil [intro]: "sends (\<lambda>t. Some ([], t)) []"
  by (simp add: sends_def)

lemma sends_and_then [intro]:
  assumes "sends f fs" "sends g gs"
  shows "sends (\<lambda>t. and_then (f t) g) (fs @ gs)"
  unfolding sends_def
proof (intro allI impI)
  fix te td rest
  assume s: "sync te td"
  obtain te1 out where f: "f te = Some (out, te1)"
    using sendsD [OF assms(1) s] by blast
  obtain td0 where "sync te1 td0"
    using sendsD [OF assms(1) s] f by (metis Pair_inject option.inject)
  then obtain out' te2 where g: "g te1 = Some (out', te2)"
    using sendsD [OF assms(2)] by blast
  obtain td1 where r1: "reads td (out @ out' @ rest) fs td1 (out' @ rest)" "sync te1 td1"
    using sendsD [OF assms(1) s, of "out' @ rest"] f by (metis Pair_inject option.inject)
  obtain td2 where r2: "reads td1 (out' @ rest) gs td2 rest" "sync te2 td2"
    using sendsD [OF assms(2) r1(2), of rest] g by (metis Pair_inject option.inject)
  show "\<exists>out te' td'. and_then (f te) g = Some (out, te') \<and> reads td (out @ rest) (fs @ gs) td' rest \<and> sync te' td'"
    using f g r1(1) r2 by (auto simp: and_then_def reads_append)
qed

lemma sends_encode_if [intro]: "(b \<Longrightarrow> sends f fs) \<Longrightarrow> sends (encode_if b f) (if b then fs else [])"
  by (auto simp: encode_if_def sends_def)

text \<open>Constant octets that stand for a field without touching the tables.\<close>

lemma sends_const:
  assumes "\<And>td rest. decode_header td (out @ rest) = Inr (f, td, rest)"
  shows "sends (\<lambda>t. Some (out, t)) [f]"
  using assms by (simp add: sends_def)

text \<open>A field that the encoder accepts and that leaves no soft error.\<close>

definition clean_value :: "octets \<Rightarrow> bool" where
  "clean_value v \<longleftrightarrow> length v < 2 ^ 32 \<and> string_soft_errors 0 v False = 0"

definition sendable :: "hname \<Rightarrow> octets \<Rightarrow> bool \<Rightarrow> bool" where
  "sendable name v dc \<longleftrightarrow> name_ok name \<and> string_soft_errors 0 (name_octets name) True = 0 \<and> clean_value v \<and>
    (dc \<longrightarrow> static_name_index_of name \<noteq> 0)"

lemma sends_header:
  assumes "sendable name v dc"
  shows "sends (\<lambda>t. do_encode_header t name v dc) [received name v]"
  unfolding sends_def
proof (intro allI impI)
  fix te td rest
  assume s: "sync te td"
  have "bypass_compression name v dc \<Longrightarrow> static_name_index_of name \<noteq> 0"
    using bypass_token [of name v dc] assms by (simp add: sendable_def)
  then obtain out te' h td' where e: "do_encode_header te name v dc = Some (out, te')"
    "decode_header td (out @ rest) = Inr (h, td', rest)" "dh_value h = v"
    "dh_ret h = (H2O_HTTP2_ERROR_NONE, None)" "dh_name h = interned (name_octets name)"
    "ht.in_step (ent_link True) te' td'" "hpack_capacity te' = hpack_capacity te" "hpack_max_capacity td' = hpack_max_capacity td"
    using encode_decode_header [of True te td name v dc rest] assms s by (auto simp: sendable_def clean_value_def sync_def)
  moreover have "h = received name v"
    using e by (simp add: received_def)
  ultimately show "\<exists>out te' td'. do_encode_header te name v dc = Some (out, te') \<and>
      reads td (out @ rest) [received name v] td' rest \<and> sync te' td'"
    using s by (auto simp: sync_def ht.in_step_def)
qed

lemma sends_encode_header: "sendable (hdr_name h) (hdr_value h) (hdr_dont_compress h) \<Longrightarrow>
    sends (\<lambda>t. encode_header t h) [received (hdr_name h) (hdr_value h)]"
  using sends_header by (simp add: encode_header_def)

lemma token_names_clean:
  "list_all (\<lambda>s. s \<noteq> [] \<and> (hd s = CHR '':'' \<or>
    list_all (\<lambda>c. let y = of_char c in 97 \<le> y \<and> y \<le> (122 :: nat) \<or> 45 \<le> y \<and> y \<le> 57 \<and> y \<noteq> 47) s)) token_names"
  by (simp add: token_names_def)

lemma clean_chars:
  assumes "s \<noteq> [] \<and> (hd s = CHR '':'' \<or>
    list_all (\<lambda>c. let y = of_char c in 97 \<le> y \<and> y \<le> (122 :: nat) \<or> 45 \<le> y \<and> y \<le> 57 \<and> y \<noteq> 47) s)"
  shows "string_soft_errors 0 (str s) True = 0"
proof (cases "hd s = CHR '':''")
  case True
  then show ?thesis using assms by (simp add: string_soft_errors_def str_def hd_map)
next
  case False
  then have "\<forall>c\<in>set s. name_char (of_char c)"
    using assms by (auto simp: list_all_iff Let_def name_char_def)
  then show ?thesis using assms by (simp add: string_soft_errors_def str_def unat_of_char)
qed

lemma tok_name_clean: "t < 85 \<Longrightarrow> string_soft_errors 0 (tok_name t) True = 0"
proof -
  assume t: "t < 85"
  moreover have "length token_names = 85" by (simp add: token_names_def)
  ultimately show ?thesis
    using token_names_clean [unfolded list_all_length [of _ token_names], rule_format, of t, THEN clean_chars]
    by (simp add: tok_name_eq)
qed

lemma sends_token: "t < 85 \<Longrightarrow> clean_value v \<Longrightarrow> sends (\<lambda>table. encode_header_token table t v) [received (Token t) v]"
  unfolding encode_header_token_def
  by (rule sends_header)
    (simp add: clean_value_def sendable_def name_ok_def static_name_index_of_def dont_compress_indexed tok_name_clean)

text \<open>A size update in front of at least one field.\<close>

lemma sends_adjust_size:
  assumes "sends g fs" "fs \<noteq> []"
  shows "sends (\<lambda>t. and_then (header_table_adjust_size t capacity) g) fs"
  unfolding sends_def
proof (intro allI impI)
  obtain f fs' where fs: "fs = f # fs'" using assms(2) by (cases fs) auto
  fix te td rest
  assume s: "sync te td"
  let ?goal = "\<exists>out te' td'. and_then (header_table_adjust_size te capacity) g = Some (out, te') \<and>
      reads td (out @ rest) fs td' rest \<and> sync te' td'"
  show ?goal
  proof (cases "hpack_capacity te \<le> capacity")
    case True
    then show ?thesis
      using sendsD [OF assms(1) s, of rest] by (fastforce simp: and_then_def header_table_adjust_size_def)
  next
    case False
    have st: "ht.in_step (ent_link True) te td" and inv: "table_inv te" "table_inv td"
      and c: "hpack_capacity te < 2 ^ 32" "hpack_capacity td \<le> hpack_max_capacity td" "hpack_capacity te = hpack_capacity td"
      using s by (auto simp: sync_def ht.in_step_def)
    obtain te1 td1 where r: "header_table_resize te capacity = Some te1" "header_table_resize td capacity = Some td1"
      "hpack_capacity te1 = capacity" "hpack_capacity td1 = capacity"
      using ht.resize [OF inv(1)] ht.resize [OF inv(2)] by blast
    have m: "hpack_max_capacity td1 = hpack_max_capacity td"
      using resize_ok [OF inv(2), of capacity] r(2) by auto
    have "sync te1 td1"
      using ht.in_step_resize [OF st ent_link_size r(1,2)] False c r(3,4) m by (simp add: sync_def)
    then obtain out te' td' where g: "g te1 = Some (out, te')" "reads td1 (out @ rest) fs td' rest" "sync te' td'"
      using sendsD [OF assms(1)] by blast
    have "decode_header td (encode_int 0x20 (int capacity) 5 @ out @ rest) = decode_header td1 (out @ rest)"
      using False c r(2) by (intro decode_header_size_update) simp_all
    then show ?thesis
      using False g r fs by (auto simp: and_then_def header_table_adjust_size_def)
  qed
qed

section \<open>Fields with a fixed form, decoded\<close>

lemma received_token: "t < 85 \<Longrightarrow> received (Token t) v = \<lparr>dh_ret = soft_error_result 0, dh_name = Token t, dh_value = v\<rparr>"
  by (simp add: received_def soft_error_result_def interned_token)

lemma static_entry_token:
  "0 < n \<Longrightarrow> n < 62 \<Longrightarrow> h2o_hpack_static_table ! (n - 1) = (t, v) \<Longrightarrow> t < 85"
  using static_table_tokens [of t v] nth_mem [of "n - 1" h2o_hpack_static_table] by (simp add: length_static_table)

lemma sends_static:
  assumes "encode_int 0x80 (int n) 7 = out" "0 < n" "n < 62" "h2o_hpack_static_table ! (n - 1) = (t, v)"
  shows "sends (\<lambda>table. Some (out, table)) [received (Token t) v]"
proof (rule sends_const)
  fix td rest
  have "n < 2 ^ 63" using assms(3) by simp
  then show "decode_header td (out @ rest) = Inr (received (Token t) v, td, rest)"
    using decode_header_indexed [of n td rest] assms static_entry_token [OF assms(2-4)]
    by (simp add: decode_header_field_def indexed_header_def length_static_table HEADER_TABLE_OFFSET_def received_token)
qed

lemma sends_literal_value:
  assumes "encode_int 0 (int n) 4 = out" "0 < n" "n < 62" "h2o_hpack_static_table ! (n - 1) = (t, v0)"
    and "length v < 2 ^ 63" "string_soft_errors 0 v False = 0"
  shows "sends (\<lambda>table. Some (out @ encode_as_is v, table)) [received (Token t) v]"
proof (rule sends_const)
  fix td rest
  have "n < 2 ^ 63" using assms(3) by simp
  moreover have "decode_string 0 (encode_as_is v @ rest) False = Inr (v, 0, rest)"
    using decode_encode_as_is [of v False 0 rest] assms(5,6) by simp
  ultimately show "decode_header td ((out @ encode_as_is v) @ rest) = Inr (received (Token t) v, td, rest)"
    using decode_header_unindexed [of 0 n td "encode_as_is v @ rest"] assms static_entry_token [OF assms(2-4)]
    by (simp add: decode_header_field_def indexed_header_def length_static_table HEADER_TABLE_OFFSET_def received_token)
qed

lemma static_entries:
  "h2o_hpack_static_table ! Suc 0 = (H2O_TOKEN_METHOD, str ''GET'')" "h2o_hpack_static_table ! 2 = (H2O_TOKEN_METHOD, str ''POST'')"
  "h2o_hpack_static_table ! 3 = (H2O_TOKEN_PATH, str ''/'')" "h2o_hpack_static_table ! 4 = (H2O_TOKEN_PATH, str ''/index.html'')"
  "h2o_hpack_static_table ! 5 = (H2O_TOKEN_SCHEME, str ''http'')" "h2o_hpack_static_table ! 6 = (H2O_TOKEN_SCHEME, str ''https'')"
  "h2o_hpack_static_table ! 7 = (H2O_TOKEN_STATUS, str ''200'')" "h2o_hpack_static_table ! 8 = (H2O_TOKEN_STATUS, str ''204'')"
  "h2o_hpack_static_table ! 9 = (H2O_TOKEN_STATUS, str ''206'')" "h2o_hpack_static_table ! 10 = (H2O_TOKEN_STATUS, str ''304'')"
  "h2o_hpack_static_table ! 11 = (H2O_TOKEN_STATUS, str ''400'')" "h2o_hpack_static_table ! 12 = (H2O_TOKEN_STATUS, str ''404'')"
  "h2o_hpack_static_table ! 13 = (H2O_TOKEN_STATUS, str ''500'')"
  "h2o_hpack_static_table ! 15 = (H2O_TOKEN_ACCEPT_ENCODING, str ''gzip, deflate'')"
  "h2o_hpack_static_table ! 27 = (H2O_TOKEN_CONTENT_LENGTH, [])"
  by (simp_all add: h2o_hpack_static_table_def)

lemma encode_int_small: "0 \<le> v \<Longrightarrow> v < 2 ^ p - 1 \<Longrightarrow> encode_int first v p = [first OR word_of_int v]"
  by (simp add: encode_int_def encode_int_is_onebyte_def)

lemma sends_static_fields:
  "sends (\<lambda>t. Some ([0x82], t)) [received (Token H2O_TOKEN_METHOD) (str ''GET'')]"
  "sends (\<lambda>t. Some ([0x83], t)) [received (Token H2O_TOKEN_METHOD) (str ''POST'')]"
  "sends (\<lambda>t. Some ([0x84], t)) [received (Token H2O_TOKEN_PATH) (str ''/'')]"
  "sends (\<lambda>t. Some ([0x85], t)) [received (Token H2O_TOKEN_PATH) (str ''/index.html'')]"
  "sends (\<lambda>t. Some ([0x86], t)) [received (Token H2O_TOKEN_SCHEME) (str ''http'')]"
  "sends (\<lambda>t. Some ([0x87], t)) [received (Token H2O_TOKEN_SCHEME) (str ''https'')]"
  "sends (\<lambda>t. Some ([0x88], t)) [received (Token H2O_TOKEN_STATUS) (str ''200'')]"
  "sends (\<lambda>t. Some ([0x89], t)) [received (Token H2O_TOKEN_STATUS) (str ''204'')]"
  "sends (\<lambda>t. Some ([0x8a], t)) [received (Token H2O_TOKEN_STATUS) (str ''206'')]"
  "sends (\<lambda>t. Some ([0x8b], t)) [received (Token H2O_TOKEN_STATUS) (str ''304'')]"
  "sends (\<lambda>t. Some ([0x8c], t)) [received (Token H2O_TOKEN_STATUS) (str ''400'')]"
  "sends (\<lambda>t. Some ([0x8d], t)) [received (Token H2O_TOKEN_STATUS) (str ''404'')]"
  "sends (\<lambda>t. Some ([0x8e], t)) [received (Token H2O_TOKEN_STATUS) (str ''500'')]"
  "sends (\<lambda>t. Some ([0x90], t)) [received (Token H2O_TOKEN_ACCEPT_ENCODING) (str ''gzip, deflate'')]"
  subgoal by (rule sends_static [of 2]) (simp_all add: encode_int_small static_entries del: str_Cons)
  subgoal by (rule sends_static [of 3]) (simp_all add: encode_int_small static_entries del: str_Cons)
  subgoal by (rule sends_static [of 4]) (simp_all add: encode_int_small static_entries del: str_Cons)
  subgoal by (rule sends_static [of 5]) (simp_all add: encode_int_small static_entries del: str_Cons)
  subgoal by (rule sends_static [of 6]) (simp_all add: encode_int_small static_entries del: str_Cons)
  subgoal by (rule sends_static [of 7]) (simp_all add: encode_int_small static_entries del: str_Cons)
  subgoal by (rule sends_static [of 8]) (simp_all add: encode_int_small static_entries del: str_Cons)
  subgoal by (rule sends_static [of 9]) (simp_all add: encode_int_small static_entries del: str_Cons)
  subgoal by (rule sends_static [of 10]) (simp_all add: encode_int_small static_entries del: str_Cons)
  subgoal by (rule sends_static [of 11]) (simp_all add: encode_int_small static_entries del: str_Cons)
  subgoal by (rule sends_static [of 12]) (simp_all add: encode_int_small static_entries del: str_Cons)
  subgoal by (rule sends_static [of 13]) (simp_all add: encode_int_small static_entries del: str_Cons)
  subgoal by (rule sends_static [of 14]) (simp_all add: encode_int_small static_entries del: str_Cons)
  subgoal by (rule sends_static [of 16]) (simp_all add: encode_int_small static_entries del: str_Cons)
  done

lemma sends_if: "(b \<Longrightarrow> sends f fs) \<Longrightarrow> (\<not> b \<Longrightarrow> sends g fs) \<Longrightarrow> sends (\<lambda>t. if b then f t else g t) fs"
  by (cases b) simp_all

lemma sends_encode_method:
  assumes "clean_value v"
  shows "sends (\<lambda>t. encode_method t v) [received (Token H2O_TOKEN_METHOD) v]"
  using sends_token [OF _ assms, of H2O_TOKEN_METHOD] sends_static_fields(1,2) unfolding encode_method_def by (intro sends_if) (simp_all add: pseudo_token_defs del: str_Cons)

lemma sends_encode_path:
  assumes "clean_value v"
  shows "sends (\<lambda>t. encode_path t v) [received (Token H2O_TOKEN_PATH) v]"
  using sends_token [OF _ assms, of H2O_TOKEN_PATH] sends_static_fields(3,4) unfolding encode_path_def by (intro sends_if) (simp_all add: pseudo_token_defs del: str_Cons)

lemma sends_encode_scheme:
  "sends (\<lambda>t. encode_scheme t sch) [received (Token H2O_TOKEN_SCHEME) (scheme_name sch)]"
proof (cases "sch = H2O_URL_SCHEME_HTTP \<or> sch = H2O_URL_SCHEME_HTTPS")
  case True
  then show ?thesis
    using sends_static_fields(5,6) by (auto simp: encode_scheme_def simp del: str_Cons)
next
  case False
  moreover have "clean_value (str ''masque'')" "clean_value (str ''fastcgi'')"
    by (simp_all add: clean_value_def string_soft_errors_def validate_header_value_def header_value_valid_as_whole_def
        validate_value_loop_iff value_char_def str_def unat_of_char)
  ultimately have "clean_value (scheme_name sch)"
    by (cases sch) simp_all
  then show ?thesis
    using sends_token [of H2O_TOKEN_SCHEME] False by (simp add: encode_scheme_def pseudo_token_defs)
qed

lemma digits_clean: "list_all is_digit s \<Longrightarrow> length s < 2 ^ 32 \<Longrightarrow> clean_value s"
proof -
  assume d: "list_all is_digit s" and l: "length s < 2 ^ 32"
  have v: "\<forall>c\<in>set s. 48 \<le> unat c \<and> unat c \<le> 57"
    using d by (simp add: list_all_iff is_digit_def word_le_unat)
  have "c \<noteq> 0x20 \<and> c \<noteq> 0x09" if "c \<in> set s" for c
    using bspec [OF v that] by (intro conjI notI) simp_all
  then have "header_value_valid_as_whole s"
    by (metis header_value_valid_as_whole_def hd_in_set last_in_set)
  moreover have "validate_value_loop s"
    using v by (fastforce simp: validate_value_loop_iff value_char_def)
  ultimately have "string_soft_errors 0 s False = 0"
    by (simp add: string_soft_errors_def validate_header_value_def)
  then show ?thesis
    using l by (simp add: clean_value_def)
qed

lemma sprintf_u_3:
  assumes "100 \<le> n" "n \<le> 999"
  shows "sprintf_u n = [of_nat (n div 100 + 48), of_nat (n div 10 mod 10 + 48), of_nat (n mod 10 + 48)]"
proof -
  have "sprintf_u n = sprintf_u (n div 10) @ [of_nat (n mod 10 + 48)]"
    using assms by (subst sprintf_u.simps) simp
  also have "sprintf_u (n div 10) = sprintf_u (n div 10 div 10) @ [of_nat (n div 10 mod 10 + 48)]"
    using assms by (subst sprintf_u.simps) simp
  also have "sprintf_u (n div 10 div 10) = [of_nat (n div 100 + 48)]"
    using assms by (subst sprintf_u.simps) (simp add: div_mult2_eq [symmetric])
  finally show ?thesis by simp
qed

lemma parse_digit_of_nat: "m \<le> d \<Longrightarrow> d < 10 \<Longrightarrow> parse_digit mul m (of_nat (d + 48)) = Some (d * mul)"
proof -
  assume "m \<le> d" "d < 10"
  moreover from this have "unat (of_nat (d + 48) :: u8) = d + 48" "unat (0x30 + of_nat m :: u8) = 48 + m"
    using unat_of_nat_eq [of "48 + m", where ?'a = 8] unat_of_nat_eq [of "d + 48", where ?'a = 8] by simp_all
  ultimately show ?thesis
    using digit_of_nat [of d] by (simp add: parse_digit_def word_le_unat del: of_nat_add)
qed

lemma parse_status_sprintf:
  assumes "100 \<le> n" "n \<le> 999"
  shows "parse_status (sprintf_u n) = Some n"
proof -
  have "n div 100 * 100 + n div 10 mod 10 * 10 + n mod 10 * 1 = n"
    using div_mult_mod_eq [of n 10] div_mult_mod_eq [of "n div 10" 10] div_mult2_eq [of n 10 10, simplified] by linarith
  moreover have "1 \<le> n div 100" "n div 100 < 10" using assms by auto
  ultimately show ?thesis
    unfolding sprintf_u_3 [OF assms] parse_status_def
    by (simp add: parse_digit_of_nat del: of_nat_add)
qed

lemma sends_encode_status:
  assumes "100 \<le> status" "status \<le> 999"
  shows "sends (\<lambda>t. map_option (\<lambda>out. (out, t)) (encode_status status)) [received (Token H2O_TOKEN_STATUS) (sprintf_u status)]"
proof (cases "status \<in> {200, 204, 206, 304, 400, 404, 500}")
  case True
  have "sprintf_u 200 = str ''200''" "sprintf_u 204 = str ''204''" "sprintf_u 206 = str ''206''" "sprintf_u 304 = str ''304''"
    "sprintf_u 400 = str ''400''" "sprintf_u 404 = str ''404''" "sprintf_u 500 = str ''500''"
    by (simp_all add: sprintf_u_3 str_def)
  then show ?thesis
    using True sends_static_fields(7-13) by (auto simp: encode_status_def simp del: str_Cons)
next
  case False
  have l: "length (sprintf_u status) = 3" by (simp add: sprintf_u_3 [OF assms])
  then have "encode_as_is (sprintf_u status) = 3 # sprintf_u status"
    by (simp add: encode_as_is_def encode_int_small)
  moreover have "encode_int 0 (int 8) 4 = [8]" by (simp add: encode_int_small)
  moreover have "clean_value (sprintf_u status)"
    using sprintf_u_correct l by (intro digits_clean) simp_all
  ultimately show ?thesis
    using sends_literal_value [of 8 "[8]" H2O_TOKEN_STATUS "str ''200''" "sprintf_u status"] False assms l
    by (simp add: encode_status_def static_entries clean_value_def del: str_Cons)
qed

lemma sends_content_length:
  "sends (\<lambda>t. Some (encode_content_length n, t)) [received (Token H2O_TOKEN_CONTENT_LENGTH) (sprintf_u (unat n))]"
proof -
  let ?d = "sprintf_u (unat n)"
  have l: "length ?d \<le> 20" by (rule length_digits)
  then have "encode_as_is ?d = of_nat (length ?d) # ?d"
    by (simp add: encode_as_is_def encode_int_small)
  moreover have "encode_int 0 (int 28) 4 = [0x0f, 0x0d]"
    by (simp add: encode_int_def encode_int_is_onebyte_def encode_int_loop.simps prefix_max_def)
  moreover have "clean_value ?d"
    using sprintf_u_correct l by (intro digits_clean) simp_all
  ultimately show ?thesis
    using sends_literal_value [of 28 "[0x0f, 0x0d]" H2O_TOKEN_CONTENT_LENGTH "[]" ?d] l
    by (simp add: encode_content_length_def content_length_digits_eq static_entries clean_value_def Let_def)
qed

section \<open>Whole blocks\<close>

definition field_of :: "h2o_header \<Rightarrow> decoded_header" where
  "field_of h = received (hdr_name h) (hdr_value h)"

definition header_sendable :: "h2o_header \<Rightarrow> bool" where
  "header_sendable h \<longleftrightarrow> sendable (hdr_name h) (hdr_value h) (hdr_dont_compress h)"

lemma sends_field: "header_sendable h \<Longrightarrow> sends (\<lambda>t. encode_header t h) [field_of h]"
  using sends_encode_header by (simp add: field_of_def header_sendable_def)

lemma sends_request_field: "header_sendable h \<Longrightarrow> sends (\<lambda>t. encode_request_header t h) [field_of h]"
  unfolding encode_request_header_def
  by (rule sends_if) (use sends_static_fields(14) sends_field in \<open>auto simp: field_of_def simp del: str_Cons\<close>)

lemma sends_encode_headers: "\<forall>h\<in>set hs. header_sendable h \<Longrightarrow> sends (\<lambda>t. encode_headers t hs) (map field_of hs)"
proof (induction hs)
  case (Cons h hs)
  then show ?case
    using sends_and_then [OF sends_field [of h]] by simp
qed (simp add: sends_Nil)

lemma sends_encode_request_headers:
  "\<forall>h\<in>set hs. header_sendable h \<Longrightarrow> sends (\<lambda>t. encode_request_headers t hs) (map field_of hs)"
proof (induction hs)
  case (Cons h hs)
  then show ?case
    using sends_and_then [OF sends_request_field [of h]] by simp
qed (simp add: sends_Nil)

text \<open>The fields of a response and of a request, in the order in which they are written.\<close>

definition extra_fields :: "octets \<Rightarrow> h2o_header list \<Rightarrow> u64 option \<Rightarrow> decoded_header list" where
  "extra_fields server_name headers content_length =
    (if server_name \<noteq> [] then [received (Token H2O_TOKEN_SERVER) server_name] else []) @ map field_of headers @
    (case content_length of None \<Rightarrow> [] | Some n \<Rightarrow> [received (Token H2O_TOKEN_CONTENT_LENGTH) (sprintf_u (unat n))])"

lemma sends_response_block:
  assumes "100 \<le> status" "status \<le> 999" "clean_value server_name" "\<forall>h\<in>set headers. header_sendable h"
  shows "sends (\<lambda>t. response_block t capacity status headers server_name content_length)
    ([received (Token H2O_TOKEN_STATUS) (sprintf_u status)] @ extra_fields server_name headers content_length)"
proof -
  have "H2O_TOKEN_SERVER < 85" by (simp add: H2O_TOKEN_SERVER_def)
  then have server: "sends (encode_if (server_name \<noteq> []) (\<lambda>t. encode_header_token t H2O_TOKEN_SERVER server_name))
      (if server_name \<noteq> [] then [received (Token H2O_TOKEN_SERVER) server_name] else [])"
    by (intro sends_encode_if sends_token assms)
  have len: "sends (\<lambda>t. Some (case content_length of None \<Rightarrow> [] | Some n \<Rightarrow> encode_content_length n, t))
      (case content_length of None \<Rightarrow> [] | Some n \<Rightarrow> [received (Token H2O_TOKEN_CONTENT_LENGTH) (sprintf_u (unat n))])"
    by (cases content_length) (simp_all add: sends_Nil sends_content_length)
  show ?thesis
    unfolding response_block_def extra_fields_def
    by (rule sends_adjust_size, rule sends_and_then [OF sends_encode_status sends_and_then
        [OF server sends_and_then [OF sends_encode_headers len]]]) (use assms in simp_all)
qed

lemma sends_trailers_block:
  assumes "\<forall>h\<in>set headers. header_sendable h" "headers \<noteq> []"
  shows "sends (\<lambda>t. trailers_block t capacity headers) (map field_of headers)"
  unfolding trailers_block_def by (rule sends_adjust_size, rule sends_encode_headers) (use assms in simp_all)

definition request_pseudo_fields ::
  "octets \<Rightarrow> h2o_url_scheme_t \<Rightarrow> octets \<Rightarrow> octets \<Rightarrow> octets option \<Rightarrow> decoded_header list" where
  "request_pseudo_fields method scheme authority path protocol =
    (let full = \<not> (method = str ''CONNECT'' \<and> protocol = None)
     in [received (Token H2O_TOKEN_METHOD) method] @
        (if full then [received (Token H2O_TOKEN_SCHEME) (scheme_name scheme)] else []) @
        [received (Token H2O_TOKEN_AUTHORITY) authority] @
        (if full then [received (Token H2O_TOKEN_PATH) path] else []) @
        (case protocol of None \<Rightarrow> [] | Some p \<Rightarrow> [received (Token H2O_TOKEN_PROTOCOL) p]))"

lemma sends_protocol:
  assumes "\<And>p. protocol = Some p \<Longrightarrow> clean_value p"
  shows "sends (\<lambda>t. case protocol of None \<Rightarrow> Some ([], t)
      | Some p \<Rightarrow> encode_header t \<lparr>hdr_name = Token H2O_TOKEN_PROTOCOL, hdr_value = p, hdr_dont_compress = False\<rparr>)
    (case protocol of None \<Rightarrow> [] | Some p \<Rightarrow> [received (Token H2O_TOKEN_PROTOCOL) p])"
proof (cases protocol)
  case (Some p)
  have "H2O_TOKEN_PROTOCOL < 85" by (simp add: pseudo_token_defs)
  then have "sendable (Token H2O_TOKEN_PROTOCOL) p False"
    using assms [OF Some] tok_name_clean by (simp add: sendable_def name_ok_def)
  then show ?thesis
    using sends_header Some by (simp add: encode_header_def)
qed (simp add: sends_Nil)

lemma sends_request_block:
  assumes "clean_value method" "clean_value authority" "clean_value path" "\<And>p. protocol = Some p \<Longrightarrow> clean_value p"
    and "\<forall>h\<in>set headers. header_sendable h"
  shows "sends (\<lambda>t. request_block t capacity method scheme authority path protocol headers send_own_expect)
    (request_pseudo_fields method scheme authority path protocol @
     (if send_own_expect then [received (Token H2O_TOKEN_EXPECT) (str ''100-continue'')] else []) @ map field_of headers)"
proof -
  have t: "H2O_TOKEN_AUTHORITY < 85" "H2O_TOKEN_EXPECT < 85" by (simp_all add: pseudo_token_defs special_token_defs)
  have "clean_value (str ''100-continue'')"
    by (simp add: clean_value_def string_soft_errors_def validate_header_value_def header_value_valid_as_whole_def
        validate_value_loop_iff value_char_def str_def unat_of_char)
  then have expect: "sends (encode_if send_own_expect (\<lambda>t. encode_header_token t H2O_TOKEN_EXPECT (str ''100-continue'')))
      (if send_own_expect then [received (Token H2O_TOKEN_EXPECT) (str ''100-continue'')] else [])"
    by (intro sends_encode_if sends_token t)
  note parts = sends_and_then [OF sends_encode_method [OF assms(1)] sends_and_then
    [OF sends_encode_if [OF sends_encode_scheme] sends_and_then
    [OF sends_token [OF t(1) assms(2)] sends_and_then
    [OF sends_encode_if [OF sends_encode_path [OF assms(3)]] sends_and_then
    [OF sends_protocol [OF assms(4)] sends_and_then [OF expect sends_encode_request_headers [OF assms(5)]]]]]]]
  show ?thesis
    unfolding request_block_def request_pseudo_fields_def Let_def append_assoc
    by (rule sends_adjust_size, rule parts) simp_all
qed

section \<open>Parsing what was sent\<close>

text \<open>The fields of a list handed one after the other to a function that stores them.\<close>

fun fold_fields :: "(hname \<Rightarrow> octets \<Rightarrow> 'r \<Rightarrow> 'r h2res) \<Rightarrow> 'r \<Rightarrow> decoded_header list \<Rightarrow> 'r h2res" where
  "fold_fields step r [] = Inr r"
| "fold_fields step r (f # fs) = (case step (dh_name f) (dh_value f) r of Inl e \<Rightarrow> Inl e | Inr r' \<Rightarrow> fold_fields step r' fs)"

lemma fold_fields_append:
  "fold_fields step r (fs @ gs) = (case fold_fields step r fs of Inl e \<Rightarrow> Inl e | Inr r' \<Rightarrow> fold_fields step r' gs)"
  by (induction fs arbitrary: r) (auto split: sum.split)

abbreviation clean_field :: "decoded_header \<Rightarrow> bool" where
  "clean_field f \<equiv> dh_ret f = (H2O_HTTP2_ERROR_NONE, None)"

lemma parse_response_loop_reads:
  "reads td src fs td' [] \<Longrightarrow> fs \<noteq> [] \<Longrightarrow> \<forall>f\<in>set fs. clean_field f \<Longrightarrow>
    fold_fields (response_field ws wfi) rs fs = Inr rs' \<Longrightarrow> length fs \<le> n \<Longrightarrow>
    parse_response_loop n decode_header ws wfi td err rs src = Some (Inr (err, rs', td'))"
proof (induction fs arbitrary: td src rs n)
  case (Cons f fs)
  obtain k where n: "n = Suc k" "length fs \<le> k" using Cons.prems(5) by (cases n) auto
  obtain td1 src1 where d: "decode_header td src = Inr (f, td1, src1)" "reads td1 src1 fs td' []"
    using Cons.prems(1) by auto
  obtain rs1 where r: "response_field ws wfi (dh_name f) (dh_value f) rs = Inr rs1"
    "fold_fields (response_field ws wfi) rs1 fs = Inr rs'"
    using Cons.prems(4) by (auto split: sum.splits)
  have soft: "note_soft_error err (dh_ret f) = err" using Cons.prems(3) by (simp add: note_soft_error_def)
  show ?case
  proof (cases "fs = []")
    case True
    then show ?thesis using Cons.prems(3) d r n soft by (simp add: Let_def)
  next
    case False
    then have "src1 \<noteq> []" using d(2) by (cases fs) auto
    then show ?thesis
      using Cons.IH [OF d(2) False _ r(2) n(2)] Cons.prems(3) d(1) r(1) n(1) soft by (simp add: Let_def)
  qed
qed simp

lemma parse_request_loop_regular:
  "reads td src fs td' [] \<Longrightarrow> \<forall>f\<in>set fs. clean_field f \<and> \<not> is_pseudo (dh_name f) \<Longrightarrow>
    fold_fields (request_regular args) rq fs = Inr rq' \<Longrightarrow> length fs < n \<Longrightarrow>
    parse_request_loop n decode_header args pseudo td err rq src = Some (Inr (err, rq', td'))"
proof (induction fs arbitrary: td src rq n pseudo)
  case Nil
  then show ?case by (cases n) auto
next
  case (Cons f fs)
  obtain k where n: "n = Suc k" "length fs < k" using Cons.prems(4) by (cases n) auto
  obtain td1 src1 where d: "decode_header td src = Inr (f, td1, src1)" "reads td1 src1 fs td' []"
    using Cons.prems(1) by auto
  obtain rq1 where r: "request_regular args (dh_name f) (dh_value f) rq = Inr rq1"
    "fold_fields (request_regular args) rq1 fs = Inr rq'"
    using Cons.prems(3) by (auto split: sum.splits)
  have "src \<noteq> []" using d(1) by auto
  then show ?case
    using Cons.IH [OF d(2) _ r(2) n(2)] Cons.prems(2) d(1) r(1) n(1) by (simp add: Let_def note_soft_error_def)
qed

lemma parse_request_loop_reads:
  "reads td src (ps @ fs) td' [] \<Longrightarrow> \<forall>f\<in>set ps. clean_field f \<and> is_pseudo (dh_name f) \<Longrightarrow>
    \<forall>f\<in>set fs. clean_field f \<and> \<not> is_pseudo (dh_name f) \<Longrightarrow>
    fold_fields request_pseudo rq ps = Inr rq1 \<Longrightarrow> fold_fields (request_regular args) rq1 fs = Inr rq' \<Longrightarrow>
    length (ps @ fs) < n \<Longrightarrow>
    parse_request_loop n decode_header args True td err rq src = Some (Inr (err, rq', td'))"
proof (induction ps arbitrary: td src rq n)
  case Nil
  then show ?case using parse_request_loop_regular by simp
next
  case (Cons f ps)
  obtain k where n: "n = Suc k" "length (ps @ fs) < k" using Cons.prems(6) by (cases n) auto
  obtain td1 src1 where d: "decode_header td src = Inr (f, td1, src1)" "reads td1 src1 (ps @ fs) td' []"
    using Cons.prems(1) by auto
  obtain rq0 where r: "request_pseudo (dh_name f) (dh_value f) rq = Inr rq0"
    "fold_fields request_pseudo rq0 ps = Inr rq1"
    using Cons.prems(4) by (auto split: sum.splits)
  have "src \<noteq> []" using d(1) by auto
  then show ?case
    using Cons.IH [OF d(2) _ Cons.prems(3) r(2) Cons.prems(5) n(2)] Cons.prems(2) d(1) r(1) n(1)
    by (simp add: Let_def note_soft_error_def)
qed

text \<open>Fields that the two parsers store in the list of headers.\<close>

definition plain :: "hname \<Rightarrow> bool" where
  "plain name \<longleftrightarrow> \<not> is_pseudo name \<and>
    (case name of Token t \<Rightarrow> \<not> is_hpack_special (h2o__tokens ! t) | Buf s \<Rightarrow> True)"

lemma pseudo_tokens:
  "is_pseudo (Token H2O_TOKEN_METHOD)" "is_pseudo (Token H2O_TOKEN_SCHEME)" "is_pseudo (Token H2O_TOKEN_AUTHORITY)"
  "is_pseudo (Token H2O_TOKEN_PATH)" "is_pseudo (Token H2O_TOKEN_PROTOCOL)" "is_pseudo (Token H2O_TOKEN_STATUS)"
  "\<not> is_pseudo (Token H2O_TOKEN_SERVER)" "\<not> is_pseudo (Token H2O_TOKEN_CONTENT_LENGTH)" "\<not> is_pseudo (Token H2O_TOKEN_EXPECT)"
  by (simp_all add: is_pseudo_def tok_name_eq token_names_def pseudo_token_defs special_token_defs H2O_TOKEN_STATUS_def
      H2O_TOKEN_SERVER_def)

lemma response_field_plain:
  assumes "plain name \<or> name = Token H2O_TOKEN_CONTENT_LENGTH" "ws \<longrightarrow> rs_status rs \<noteq> 0"
  shows "response_field ws wfi name v rs =
    Inr (rs\<lparr>rs_headers := rs_headers rs @ [\<lparr>hdr_name = name, hdr_value = v, hdr_dont_compress = False\<rparr>]\<rparr>)"
proof -
  show ?thesis
  proof (cases "name = Token H2O_TOKEN_CONTENT_LENGTH")
    case True
    then show ?thesis
      using pseudo_tokens assms(2) by (simp add: response_field_def Let_def h2o_add_header_def add_header_def)
  next
    case False
    then have p: "plain name" using assms(1) by simp
    show ?thesis
    proof (cases name)
      case (Token t)
      then show ?thesis using p assms(2) by (simp add: response_field_def plain_def Let_def h2o_add_header_def add_header_def)
    next
      case (Buf s)
      then show ?thesis using p assms(2) by (simp add: response_field_def plain_def h2o_add_header_by_str_def add_header_def)
    qed
  qed
qed

lemma fold_response_plain:
  "\<forall>f\<in>set fs. plain (dh_name f) \<or> dh_name f = Token H2O_TOKEN_CONTENT_LENGTH \<Longrightarrow> ws \<longrightarrow> rs_status rs \<noteq> 0 \<Longrightarrow>
    fold_fields (response_field ws wfi) rs fs = Inr (rs\<lparr>rs_headers := rs_headers rs @ map to_header fs\<rparr>)"
  by (induction fs arbitrary: rs) (auto simp: response_field_plain to_header_def)

lemma fold_request_plain:
  "\<forall>f\<in>set fs. plain (dh_name f) \<Longrightarrow>
    fold_fields (request_regular args) rq fs = Inr (rq\<lparr>rq_headers := rq_headers rq @ map to_header fs\<rparr>)"
proof (induction fs arbitrary: rq)
  case (Cons f fs)
  have "request_regular args (dh_name f) (dh_value f) rq = Inr (rq\<lparr>rq_headers := rq_headers rq @ [to_header f]\<rparr>)"
    using Cons.prems by (cases "dh_name f")
      (auto simp: request_regular_def plain_def Let_def h2o_add_header_def h2o_add_header_by_str_def add_header_def to_header_def)
  then show ?case using Cons by simp
qed simp

lemma received_simps [simp]: "dh_ret (received n v) = (H2O_HTTP2_ERROR_NONE, None)"
  "dh_name (received n v) = interned (name_octets n)" "dh_value (received n v) = v"
  by (simp_all add: received_def)

text \<open>The frames that carry a block.\<close>

definition block_frames :: "nat \<Rightarrow> octets \<Rightarrow> u8 \<Rightarrow> u8 \<Rightarrow> u32 \<Rightarrow> h2o_http2_frame list \<Rightarrow> bool" where
  "block_frames mx bytes type flags sid fs \<longleftrightarrow> reads_frames mx bytes fs \<and> frame_flags_ok flags fs \<and>
    frame_type (hd fs) = type \<and> (\<forall>f\<in>set (tl fs). frame_type f = H2O_HTTP2_FRAME_TYPE_CONTINUATION) \<and>
    (\<forall>f\<in>set fs. frame_stream_id f = sid)"

lemma finish_block_sends:
  assumes "sends enc flds" "sync te td" "0 < mx" "mx \<le> 0xffffff" "unat sid < 2 ^ 31"
  obtains bytes te' td' fs block where "enc te = Some (block, te')"
    "finish_block buf type sid mx flags (enc te) = Some (buf @ bytes, te')"
    "block_frames mx bytes type flags sid fs" "concat (map frame_body fs) = block" "reads td block flds td' []" "sync te' td'"
proof -
  obtain block te' td' where b: "enc te = Some (block, te')" "reads td (block @ []) flds td' []" "sync te' td'"
    using sendsD [OF assms(1,2), of "[]"] by blast
  obtain bytes f fs where f: "fixup_frame_headers (append_block buf block) (length buf) type sid mx flags = Some (buf @ bytes)"
    "reads_frames mx bytes (f # fs)" "concat (map frame_body (f # fs)) = block" "frame_flags_ok flags (f # fs)"
    "frame_type f = type" "frame_stream_id f = sid"
    "\<forall>f\<in>set fs. frame_type f = H2O_HTTP2_FRAME_TYPE_CONTINUATION \<and> frame_stream_id f = sid"
    using fixup_frame_headers_correct [OF assms(3-5)] by blast
  then have "finish_block buf type sid mx flags (enc te) = Some (buf @ bytes, te')"
    "block_frames mx bytes type flags sid (f # fs)"
    by (simp_all add: finish_block_def b(1) block_frames_def)
  then show ?thesis using that b f(3) by simp
qed

text \<open>A header field that any of the parsers stores as it was sent.\<close>

definition plain_header :: "h2o_header \<Rightarrow> bool" where
  "plain_header h \<longleftrightarrow> header_sendable h \<and> plain (interned (name_octets (hdr_name h)))"

lemma extra_fields_plain:
  assumes "\<forall>h\<in>set headers. plain_header h"
  shows "\<forall>f\<in>set (extra_fields server_name headers content_length).
    clean_field f \<and> (plain (dh_name f) \<or> dh_name f = Token H2O_TOKEN_CONTENT_LENGTH)"
proof -
  have "H2O_TOKEN_SERVER < 85" "H2O_TOKEN_CONTENT_LENGTH < 85"
    by (simp_all add: H2O_TOKEN_SERVER_def special_token_defs)
  moreover have "\<not> is_hpack_special (h2o__tokens ! H2O_TOKEN_SERVER)"
    by (simp add: h2o__tokens_def token_def H2O_TOKEN_SERVER_def del: str_Cons)
  ultimately show ?thesis
    using assms pseudo_tokens(7)
    by (auto simp: extra_fields_def field_of_def plain_header_def interned_token plain_def split: option.splits if_splits)
qed

lemma request_pseudo_folds:
  assumes "path \<noteq> []" "scheme \<noteq> H2O_URL_SCHEME_FASTCGI"
  shows "\<exists>m. fold_fields request_pseudo (empty_request\<lparr>rq_content_length := None\<rparr>)
      (request_pseudo_fields method scheme authority path protocol) =
    Inr (let full = \<not> (method = str ''CONNECT'' \<and> protocol = None)
      in empty_request\<lparr>rq_method := Some method, rq_scheme := (if full then Some scheme else None),
        rq_authority := Some authority, rq_path := (if full then Some path else None), rq_protocol := protocol, rq_exists_map := m\<rparr>)"
proof -
  have t: "H2O_TOKEN_METHOD < 85" "H2O_TOKEN_SCHEME < 85" "H2O_TOKEN_AUTHORITY < 85" "H2O_TOKEN_PATH < 85" "H2O_TOKEN_PROTOCOL < 85"
    by (simp_all add: pseudo_token_defs)
  have scheme: "parse_scheme_value (scheme_name scheme) = scheme"
    using assms(2) by (cases scheme) (simp_all add: parse_scheme_value_def)
  have ne: "H2O_TOKEN_METHOD \<noteq> H2O_TOKEN_AUTHORITY" "H2O_TOKEN_PROTOCOL \<noteq> H2O_TOKEN_AUTHORITY"
    "H2O_TOKEN_PATH \<noteq> H2O_TOKEN_AUTHORITY" "H2O_TOKEN_SCHEME \<noteq> H2O_TOKEN_AUTHORITY"
    "H2O_TOKEN_PROTOCOL \<noteq> H2O_TOKEN_METHOD" "H2O_TOKEN_PATH \<noteq> H2O_TOKEN_METHOD"
    "H2O_TOKEN_SCHEME \<noteq> H2O_TOKEN_METHOD" "H2O_TOKEN_PATH \<noteq> H2O_TOKEN_PROTOCOL"
    "H2O_TOKEN_SCHEME \<noteq> H2O_TOKEN_PROTOCOL" "H2O_TOKEN_SCHEME \<noteq> H2O_TOKEN_PATH"
    by (simp_all add: pseudo_token_defs)
  note step = request_pseudo_def request_pseudo_fields_def empty_request_def received_simps interned_token t ne scheme Let_def
  show ?thesis
  proof (cases "method = str ''CONNECT'' \<and> protocol = None")
    case True
    then show ?thesis using assms(1) by (intro exI) (simp add: step del: str_Cons)
  next
    case False
    then show ?thesis
      using assms(1) by (cases protocol) (simp_all add: step del: str_Cons)
  qed
qed

lemma fold_expect:
  "fold_fields (request_regular args) rq
      (if b then [received (Token H2O_TOKEN_EXPECT) v] else []) = Inr (if b then rq\<lparr>rq_expect := Some v\<rparr> else rq)"
proof -
  have "H2O_TOKEN_EXPECT < 85" "H2O_TOKEN_EXPECT \<noteq> H2O_TOKEN_CONTENT_LENGTH" by (simp_all add: special_token_defs)
  then show ?thesis
    using special_tokens(2) by (simp add: request_regular_def interned_token Let_def)
qed

lemma clean_pseudo_fields: "\<forall>f\<in>set (request_pseudo_fields method scheme authority path protocol). clean_field f \<and> is_pseudo (dh_name f)"
proof -
  have "H2O_TOKEN_METHOD < 85" "H2O_TOKEN_SCHEME < 85" "H2O_TOKEN_AUTHORITY < 85" "H2O_TOKEN_PATH < 85" "H2O_TOKEN_PROTOCOL < 85"
    by (simp_all add: pseudo_token_defs)
  then show ?thesis
    using pseudo_tokens(1-5)
    by (auto simp: request_pseudo_fields_def Let_def interned_token split: option.splits if_splits simp del: str_Cons)
qed

lemma clean_headers:
  assumes "\<forall>h\<in>set headers. plain_header h"
  shows "\<forall>f\<in>set ((if b then [received (Token H2O_TOKEN_EXPECT) v] else []) @ map field_of headers).
    clean_field f \<and> \<not> is_pseudo (dh_name f)"
    "\<forall>f\<in>set (map field_of headers). plain (dh_name f)" "\<forall>h\<in>set headers. header_sendable h"
proof -
  have "H2O_TOKEN_EXPECT < 85" by (simp add: special_token_defs)
  then show "\<forall>f\<in>set ((if b then [received (Token H2O_TOKEN_EXPECT) v] else []) @ map field_of headers).
      clean_field f \<and> \<not> is_pseudo (dh_name f)"
    using assms pseudo_tokens(9) by (auto simp: field_of_def plain_header_def plain_def interned_token)
qed (use assms in \<open>simp_all add: field_of_def plain_header_def\<close>)

lemma parse_response_reads:
  assumes "reads td block fs td' []" "fs \<noteq> []" "\<forall>f\<in>set fs. clean_field f"
    and "fold_fields (response_field ws wfi) (if ws then rs\<lparr>rs_status := 0\<rparr> else rs) fs = Inr rs'"
  shows "h2o_hpack_parse_response decode_header ws wfi td rs block = Some (Inr (H2O_HTTP2_ERROR_NONE, None, rs', td'))"
proof -
  have "block \<noteq> []" using assms(1,2) by (cases fs) auto
  moreover have "length fs \<le> Suc (length block)" using reads_length [OF assms(1)] by simp
  note parse_response_loop_reads [OF assms this, of None]
  ultimately show ?thesis
    unfolding h2o_hpack_parse_response_def by (simp del: parse_response_loop.simps)
qed

text \<open>Trailers are read back like headers, and a push promise carries the promised stream in front of a request.\<close>

lemma trailers_read_back:
  assumes "sync te td" "\<forall>h\<in>set headers. plain_header h" "headers \<noteq> []" "0 < mx" "mx \<le> 0xffffff" "unat sid < 2 ^ 31"
  shows "\<exists>bytes te' td' fs. flatten_trailers buf te capacity sid mx headers = Some (buf @ bytes, te') \<and>
    block_frames mx bytes H2O_HTTP2_FRAME_TYPE_HEADERS H2O_HTTP2_FRAME_FLAG_END_STREAM sid fs \<and>
    h2o_hpack_parse_response decode_header False wfi td rs (concat (map frame_body fs)) =
      Some (Inr (H2O_HTTP2_ERROR_NONE, None, rs\<lparr>rs_headers := rs_headers rs @ map (to_header \<circ> field_of) headers\<rparr>, td')) \<and>
    sync te' td'"
proof -
  note h = clean_headers [OF assms(2)]
  from finish_block_sends [OF sends_trailers_block [OF h(3) assms(3)] assms(1,4-6)]
  obtain bytes te' td' fs block where f:
    "finish_block buf H2O_HTTP2_FRAME_TYPE_HEADERS sid mx H2O_HTTP2_FRAME_FLAG_END_STREAM (trailers_block te capacity headers) =
      Some (buf @ bytes, te')"
    "block_frames mx bytes H2O_HTTP2_FRAME_TYPE_HEADERS H2O_HTTP2_FRAME_FLAG_END_STREAM sid fs"
    "concat (map frame_body fs) = block" "reads td block (map field_of headers) td' []" "sync te' td'" by metis
  have "fold_fields (response_field False wfi) rs (map field_of headers) =
      Inr (rs\<lparr>rs_headers := rs_headers rs @ map (to_header \<circ> field_of) headers\<rparr>)"
    using fold_response_plain [of "map field_of headers" False rs wfi] h(2) by simp
  then have "h2o_hpack_parse_response decode_header False wfi td rs block =
      Some (Inr (H2O_HTTP2_ERROR_NONE, None, rs\<lparr>rs_headers := rs_headers rs @ map (to_header \<circ> field_of) headers\<rparr>, td'))"
    using assms(3) by (intro parse_response_reads [OF f(4)]) (simp_all add: field_of_def)
  with f show ?thesis
    unfolding flatten_trailers_def
    by (intro exI [of _ bytes] exI [of _ te'] exI [of _ td'] exI [of _ fs] conjI) simp_all
qed

section \<open>Properties\<close>

text \<open>
  C6. A response that the server writes is read back by its peer: \<^verbatim>\<open>h2o_hpack_flatten_response\<close> always succeeds and appends frames
  that the frame decoder reads one after the other, a \<^verbatim>\<open>HEADERS\<close> frame and then only \<^verbatim>\<open>CONTINUATION\<close> frames of
  the same stream, none larger than the peer permits, with \<^verbatim>\<open>END_HEADERS\<close> on the last one only; the payloads joined together are
  parsed by \<^verbatim>\<open>h2o_hpack_parse_response\<close> to the status, the server name, the header fields in order and the content length, and the two
  dynamic tables stay in step for the next block.
\<close>

theorem response_read_back:
  assumes "sync te td" "100 \<le> status" "status \<le> 999" "clean_value server_name" "\<forall>h\<in>set headers. plain_header h"
    and "0 < mx" "mx \<le> 0xffffff" "unat sid < 2 ^ 31"
  shows "\<exists>size bytes te' td' fs.
    flatten_response buf te capacity sid mx status headers server_name content_length is_end_stream = Some (size, buf @ bytes, te') \<and>
    block_frames mx bytes H2O_HTTP2_FRAME_TYPE_HEADERS (if is_end_stream then H2O_HTTP2_FRAME_FLAG_END_STREAM else 0) sid fs \<and>
    size = length (concat (map frame_body fs)) \<and>
    h2o_hpack_parse_response decode_header True wfi td rs (concat (map frame_body fs)) =
      Some (Inr (H2O_HTTP2_ERROR_NONE, None, rs\<lparr>rs_status := status,
        rs_headers := rs_headers rs @ map to_header (extra_fields server_name headers content_length)\<rparr>, td')) \<and>
    sync te' td'"
proof -
  let ?status = "received (Token H2O_TOKEN_STATUS) (sprintf_u status)" and ?extra = "extra_fields server_name headers content_length"
  let ?flags = "if is_end_stream then H2O_HTTP2_FRAME_FLAG_END_STREAM else 0"
  from finish_block_sends [OF sends_response_block [OF assms(2-4) clean_headers(3) [OF assms(5)]] assms(1,6-8)]
  obtain bytes te' td' fs block where f:
    "response_block te capacity status headers server_name content_length = Some (block, te')"
    "finish_block buf H2O_HTTP2_FRAME_TYPE_HEADERS sid mx ?flags
      (response_block te capacity status headers server_name content_length) = Some (buf @ bytes, te')"
    "block_frames mx bytes H2O_HTTP2_FRAME_TYPE_HEADERS ?flags sid fs"
    "concat (map frame_body fs) = block" "reads td block ([?status] @ ?extra) td' []" "sync te' td'" by metis
  have "H2O_TOKEN_STATUS < 85" by (simp add: H2O_TOKEN_STATUS_def)
  then have "response_field True wfi (dh_name ?status) (dh_value ?status) (rs\<lparr>rs_status := 0\<rparr>) = Inr (rs\<lparr>rs_status := status\<rparr>)"
    using pseudo_tokens(6) parse_status_sprintf [OF assms(2,3)] by (simp add: response_field_def interned_token)
  moreover have "fold_fields (response_field True wfi) (rs\<lparr>rs_status := status\<rparr>) ?extra =
      Inr (rs\<lparr>rs_status := status, rs_headers := rs_headers rs @ map to_header ?extra\<rparr>)"
    using fold_response_plain [of ?extra True "rs\<lparr>rs_status := status\<rparr>" wfi] extra_fields_plain [OF assms(5)] assms(2) by simp
  ultimately have "fold_fields (response_field True wfi) (rs\<lparr>rs_status := 0\<rparr>) ([?status] @ ?extra) =
      Inr (rs\<lparr>rs_status := status, rs_headers := rs_headers rs @ map to_header ?extra\<rparr>)" by simp
  with parse_response_reads [OF f(5), of True wfi rs] extra_fields_plain [OF assms(5)] f show ?thesis
    unfolding flatten_response_def by (intro exI [of _ "length block"] exI conjI) (auto simp: Let_def)
qed

lemma sync_empty: "c < 2 ^ 32 \<Longrightarrow> sync (empty_table c) (empty_table c)"
  by (simp add: sync_def ht.in_step_def empty_table_def [of c, THEN arg_cong, of hpack_max_capacity]
      empty_table_def [of c, THEN arg_cong, of hpack_capacity])

text \<open>Evaluation of the conditions on concrete names and values.\<close>

lemmas clean_eval = clean_value_def string_soft_errors_def validate_header_value_def header_value_valid_as_whole_def
  validate_value_loop_iff value_char_def name_char_def str_def unat_of_char

definition sample_header :: h2o_header where
  "sample_header = \<lparr>hdr_name = Buf (str ''x-sample''), hdr_value = str ''1'', hdr_dont_compress = False\<rparr>"

lemma sample_header_plain: "plain_header sample_header"
proof -
  have "h2o_lookup_token (str ''x-sample'') = None" by code_simp
  then have "interned (str ''x-sample'') = Buf (str ''x-sample'')" by (simp add: interned_def)
  then show ?thesis
    by (simp add: plain_header_def header_sendable_def sendable_def sample_header_def name_ok_def plain_def is_pseudo_def
        clean_eval)
qed

theorem response_read_back_witness:
  "\<exists>size bytes te' td' fs.
    flatten_response [1, 2] (empty_table 4096) 4096 5 16384 206 [sample_header] [] (Some 42) True = Some (size, [1, 2] @ bytes, te') \<and>
    h2o_hpack_parse_response decode_header True False (empty_table 4096)
        \<lparr>rs_status = 0, rs_headers = [], rs_flow_id = None\<rparr> (concat (map frame_body fs)) =
      Some (Inr (H2O_HTTP2_ERROR_NONE, None, \<lparr>rs_status = 206,
        rs_headers = map to_header (extra_fields [] [sample_header] (Some 42)), rs_flow_id = None\<rparr>, td')) \<and> sync te' td'"
proof -
  have "clean_value []" by (simp add: clean_eval)
  from response_read_back [OF sync_empty [of 4096] _ _ this, of 206 "[sample_header]" 16384 5 "[1, 2]" 4096 "Some 42" True False
      "\<lparr>rs_status = 0, rs_headers = [], rs_flow_id = None\<rparr>"]
  show ?thesis using sample_header_plain by simp blast
qed

text \<open>
  C5. A request that the client writes is read back by the server: \<^verbatim>\<open>h2o_hpack_flatten_request\<close> always succeeds and appends frames of
  the shape described for responses, and \<^verbatim>\<open>h2o_hpack_parse_request\<close> finds the method, the scheme, the authority, the
  path (neither scheme nor path for an old-style \<^verbatim>\<open>CONNECT\<close>), the protocol, the \<^verbatim>\<open>expect\<close> field and the other fields in order in the joined
  payloads. It reports no error, and the two dynamic tables stay in step for the next block.
\<close>

theorem request_read_back:
  assumes "sync te td" "clean_value method" "clean_value authority" "clean_value path" "path \<noteq> []"
    and "\<forall>p. protocol = Some p \<longrightarrow> clean_value p" "scheme \<noteq> H2O_URL_SCHEME_FASTCGI" "\<forall>h\<in>set headers. plain_header h"
    and "pa_pseudo args" "0 < mx" "mx \<le> 0xffffff" "unat sid < 2 ^ 31"
  shows "\<exists>bytes te' td' fs rq.
    flatten_request buf te capacity sid mx method scheme authority path protocol headers is_end_stream send_own_expect =
      Some (buf @ bytes, te') \<and>
    block_frames mx bytes H2O_HTTP2_FRAME_TYPE_HEADERS (if is_end_stream then H2O_HTTP2_FRAME_FLAG_END_STREAM else 0) sid fs \<and>
    h2o_hpack_parse_request decode_header args td empty_request (concat (map frame_body fs)) =
      Some (Inr (H2O_HTTP2_ERROR_NONE, None, rq, td')) \<and> sync te' td' \<and>
    rq_method rq = Some method \<and> rq_authority rq = Some authority \<and> rq_protocol rq = protocol \<and>
    rq_scheme rq = (if method = str ''CONNECT'' \<and> protocol = None then None else Some scheme) \<and>
    rq_path rq = (if method = str ''CONNECT'' \<and> protocol = None then None else Some path) \<and>
    rq_expect rq = (if send_own_expect then Some (str ''100-continue'') else None) \<and>
    rq_content_length rq = None \<and> rq_headers rq = map (to_header \<circ> field_of) headers"
proof -
  let ?ps = "request_pseudo_fields method scheme authority path protocol"
  let ?rs = "(if send_own_expect then [received (Token H2O_TOKEN_EXPECT) (str ''100-continue'')] else []) @ map field_of headers"
  let ?flags = "if is_end_stream then H2O_HTTP2_FRAME_FLAG_END_STREAM else 0"
  note h = clean_headers [OF assms(8)]
  from finish_block_sends [OF sends_request_block [OF assms(2-4) assms(6) [rule_format] h(3)] assms(1,10-12)]
  obtain bytes te' td' fs block where f:
    "finish_block buf H2O_HTTP2_FRAME_TYPE_HEADERS sid mx ?flags
      (request_block te capacity method scheme authority path protocol headers send_own_expect) = Some (buf @ bytes, te')"
    "block_frames mx bytes H2O_HTTP2_FRAME_TYPE_HEADERS ?flags sid fs"
    "concat (map frame_body fs) = block" "reads td block (?ps @ ?rs) td' []" "sync te' td'" by metis
  obtain m where p: "fold_fields request_pseudo (empty_request\<lparr>rq_content_length := None\<rparr>) ?ps =
    Inr (let full = \<not> (method = str ''CONNECT'' \<and> protocol = None)
      in empty_request\<lparr>rq_method := Some method, rq_scheme := (if full then Some scheme else None),
        rq_authority := Some authority, rq_path := (if full then Some path else None), rq_protocol := protocol, rq_exists_map := m\<rparr>)"
    (is "_ = Inr ?rq")
    using request_pseudo_folds [OF assms(5,7)] by metis
  let ?rq' = "(if send_own_expect then ?rq\<lparr>rq_expect := Some (str ''100-continue'')\<rparr> else ?rq)"
  have r: "fold_fields (request_regular args) ?rq ?rs =
      Inr (?rq'\<lparr>rq_headers := rq_headers ?rq' @ map to_header (map field_of headers)\<rparr>)" (is "_ = Inr ?rq2")
    unfolding fold_fields_append fold_expect sum.case by (rule fold_request_plain [OF h(2)])
  have "length (?ps @ ?rs) < Suc (length block)" using reads_length [OF f(4)] by simp
  from parse_request_loop_reads [OF f(4) clean_pseudo_fields h(1) p r this, of None]
  have "h2o_hpack_parse_request decode_header args td empty_request block = Some (Inr (H2O_HTTP2_ERROR_NONE, None, ?rq2, td'))"
    unfolding h2o_hpack_parse_request_def using assms(9) by (simp only: option.case sum.case prod.case if_False) simp
  with f show ?thesis
    unfolding flatten_request_def
    by (intro exI [of _ bytes] exI [of _ te'] exI [of _ td'] exI [of _ fs] exI [of _ ?rq2] conjI)
      (simp_all add: Let_def empty_request_def del: str_Cons)
qed

theorem request_read_back_witness:
  "\<exists>bytes te' td' fs rq.
    flatten_request [] (empty_table 4096) 100 1 16384 (str ''PUT'') H2O_URL_SCHEME_HTTPS (str ''a.b'') (str ''/x'') None [sample_header]
      False True = Some ([] @ bytes, te') \<and>
    h2o_hpack_parse_request decode_header request_args (empty_table 4096) empty_request (concat (map frame_body fs)) =
      Some (Inr (H2O_HTTP2_ERROR_NONE, None, rq, td')) \<and> rq_path rq = Some (str ''/x'')"
proof -
  have "clean_value (str ''PUT'')" "clean_value (str ''a.b'')" "clean_value (str ''/x'')" by (simp_all add: clean_eval)
  from request_read_back [OF sync_empty [of 4096] this, of None H2O_URL_SCHEME_HTTPS "[sample_header]" request_args 16384 1 "[]"
      100 False True]
  show ?thesis using sample_header_plain by (simp add: request_args_def) blast
qed

end
