(* ===== verification/Absprio.thy ===== *)
theory Absprio
  imports String_Util "HOL-Library.Numeral_Type"
begin

text \<open>
  The priority parameters of \<^verbatim>\<open>lib/common/absprio.c\<close> (Extensible Prioritization Scheme): the parser of the
  \<^verbatim>\<open>priority\<close> header field.
\<close>

definition H2O_ABSPRIO_DEFAULT_URGENCY :: nat where
  "H2O_ABSPRIO_DEFAULT_URGENCY = 3"

definition H2O_ABSPRIO_NUM_URGENCY_LEVELS :: nat where
  "H2O_ABSPRIO_NUM_URGENCY_LEVELS = 8"

text \<open>The fields are bit fields of three bits and one bit; storing truncates.\<close>

record h2o_absprio =
  urgency :: "3 word"
  incremental :: "1 word"

definition h2o_absprio_default :: h2o_absprio where
  "h2o_absprio_default = \<lparr>urgency = of_nat H2O_ABSPRIO_DEFAULT_URGENCY, incremental = 0\<rparr>"

text \<open>The body of the loop of \<^verbatim>\<open>h2o_absprio_parse_priority\<close>.\<close>

definition absprio_token :: "h2o_absprio \<Rightarrow> octets \<Rightarrow> octets option \<Rightarrow> h2o_absprio" where
  "absprio_token prio token v =
    (if length token \<noteq> 1 then prio
     else if token ! 0 = chr CHR ''u'' then
       (case v of
          None \<Rightarrow> prio
        | Some s \<Rightarrow>
            (if length s = 1 \<and> 0x30 \<le> s ! 0 \<and> s ! 0 \<le> 0x30 + of_nat H2O_ABSPRIO_NUM_URGENCY_LEVELS - 1
             then prio\<lparr>urgency := ucast (s ! 0 - 0x30)\<rparr> else prio))
     else if token ! 0 = chr CHR ''i'' then
       (case v of
          None \<Rightarrow> prio\<lparr>incremental := 1\<rparr>
        | Some s \<Rightarrow>
            (if length s = 2 \<and> s ! 0 = chr CHR ''?''
             then
               (if s ! 1 = chr CHR ''0'' then prio\<lparr>incremental := 0\<rparr>
                else if s ! 1 = chr CHR ''1'' then prio\<lparr>incremental := 1\<rparr> else prio)
             else prio))
     else prio)"

function absprio_loop :: "octets \<Rightarrow> h2o_absprio \<Rightarrow> h2o_absprio" where
  "absprio_loop iter prio =
    (case h2o_next_token (chr CHR '','') (chr CHR '','') iter of
       None \<Rightarrow> prio
     | Some (token, v, iter') \<Rightarrow> absprio_loop iter' (absprio_token prio token v))"
  by pat_completeness auto
termination
  by (relation "measure (\<lambda>(iter, prio). length iter)") (auto dest: next_token_shorter)

declare absprio_loop.simps [simp del]

definition h2o_absprio_parse_priority :: "octets \<Rightarrow> h2o_absprio \<Rightarrow> h2o_absprio" where
  "h2o_absprio_parse_priority s prio = absprio_loop s prio"

section \<open>What the parser computes\<close>

function all_tokens :: "octets \<Rightarrow> (octets \<times> octets option) list" where
  "all_tokens iter =
    (case h2o_next_token (chr CHR '','') (chr CHR '','') iter of
       None \<Rightarrow> []
     | Some (token, v, iter') \<Rightarrow> (token, v) # all_tokens iter')"
  by pat_completeness auto
termination
  by (relation "measure length") (auto dest: next_token_shorter)

declare all_tokens.simps [simp del]

definition valid_urgency :: "octets \<times> octets option \<Rightarrow> bool" where
  "valid_urgency tv \<longleftrightarrow> (\<exists>d \<in> {0x30..0x37}. tv = (str ''u'', Some [d]))"

definition urgency_of :: "octets \<times> octets option \<Rightarrow> nat" where
  "urgency_of tv = (case snd tv of Some [d] \<Rightarrow> unat (d - 0x30) | _ \<Rightarrow> 0)"

lemma absprio_loop_foldl: "absprio_loop s prio = foldl (\<lambda>p (t, v). absprio_token p t v) prio (all_tokens s)"
proof (induction s prio rule: absprio_loop.induct)
  case (1 iter prio)
  then show ?case
    by (subst absprio_loop.simps, subst all_tokens.simps) (auto split: option.split)
qed

lemma length_1_iff: "length t = 1 \<and> t ! 0 = c \<longleftrightarrow> t = [c]"
  by (cases t) auto

lemma absprio_token_urgency:
  "unat (urgency (absprio_token prio t v)) =
    (if valid_urgency (t, v) then urgency_of (t, v) else unat (urgency prio))"
proof -
  have fits: "unat (ucast (d - 0x30) :: 3 word) = unat (d - 0x30)" if "0x30 \<le> d" "d \<le> 0x37" for d :: u8
  proof -
    have "unat (d - 0x30) < 8" using that by unat_arith
    then show ?thesis by (simp add: unsigned_ucast_eq take_bit_nat_eq_self)
  qed
  show ?thesis
  proof (cases "t = str ''u'' \<and> (\<exists>d. v = Some [d])")
    case True
    then obtain d where "t = str ''u''" "v = Some [d]" by blast
    then show ?thesis
      using fits [of d] by (auto simp: absprio_token_def valid_urgency_def urgency_of_def H2O_ABSPRIO_NUM_URGENCY_LEVELS_def)
  next
    case False
    then have nv: "\<not> valid_urgency (t, v)" by (auto simp: valid_urgency_def)
    have "urgency (absprio_token prio t v) = urgency prio"
    proof (cases "t = str ''u''")
      case True
      with False have "\<And>s. v = Some s \<Longrightarrow> length s \<noteq> 1" by (auto simp: length_Suc_conv)
      with True show ?thesis by (auto simp: absprio_token_def split: option.split)
    next
      case nu: False
      then have "length t \<noteq> 1 \<or> t ! 0 \<noteq> chr CHR ''u''" using length_1_iff [of t "chr CHR ''u''"] by auto
      then show ?thesis by (auto simp: absprio_token_def split: option.split)
    qed
    with nv show ?thesis by simp
  qed
qed

lemma absprio_foldl_urgency:
  "unat (urgency (foldl (\<lambda>p (t, v). absprio_token p t v) prio tvs)) =
    (case filter valid_urgency tvs of [] \<Rightarrow> unat (urgency prio) | us \<Rightarrow> urgency_of (last us))"
proof (induction tvs arbitrary: prio)
  case (Cons tv tvs)
  obtain t v where tv: "tv = (t, v)" by (cases tv)
  show ?case
    using Cons.IH [of "absprio_token prio t v"] absprio_token_urgency [of prio t v]
    by (auto simp: tv split: list.splits)
qed simp

text \<open>
  C32. The urgency parsed from a priority header field is the one of its last well-formed \<open>u\<close> parameter, in full
  (the three-bit field truncates nothing), or the one that was there before if there is none.
\<close>

theorem absprio_last_urgency_wins:
  "unat (urgency (h2o_absprio_parse_priority s prio)) =
    (case filter valid_urgency (all_tokens s) of [] \<Rightarrow> unat (urgency prio) | us \<Rightarrow> urgency_of (last us))"
  unfolding h2o_absprio_parse_priority_def absprio_loop_foldl by (rule absprio_foldl_urgency)

end
