(* ===== verification/Sched_Queue.thy ===== *)
theory Sched_Queue
  imports Prelude
begin

text \<open>
  The queue of \<^verbatim>\<open>lib/http2/scheduler.c\<close>, a weighted round robin in 64 slots: \<^verbatim>\<open>queue_init\<close>, \<^verbatim>\<open>queue_is_empty\<close>,
  \<^verbatim>\<open>queue_set\<close>, \<^verbatim>\<open>queue_unset\<close> and \<^verbatim>\<open>queue_pop\<close>. The bit field over the ring of slots is shown to implement a plain list of slots, and
  from that contract follows that no entry starves.
\<close>

section \<open>The queue\<close>

text \<open>A linked list of queue nodes is the list of their owners.\<close>

record 'a sched_queue =
  q_bits :: u64
  q_offset :: nat
  q_anchors :: "'a list list"
  q_anchor257 :: "'a list"

definition queue_init :: "'a sched_queue" where
  "queue_init = \<lparr>q_bits = 0, q_offset = 0, q_anchors = replicate 64 [], q_anchor257 = []\<rparr>"

definition queue_is_empty :: "'a sched_queue \<Rightarrow> bool" where
  "queue_is_empty queue \<longleftrightarrow> q_bits queue = 0 \<and> q_anchor257 queue = []"

definition OFFSET_TABLE :: "nat list" where
  "OFFSET_TABLE = [
    4128768, 2064384, 1376256, 1032192, 825754, 688128, 589824, 516096, 458752, 412877, 375343, 344064, 317598, 294912, 275251,
    258048, 242869, 229376, 217304, 206438, 196608, 187671, 179512, 172032, 165151, 158799, 152917, 147456, 142371, 137626,
    133186, 129024, 125114, 121434, 117965, 114688, 111588, 108652, 105866, 103219, 100702, 98304, 96018, 93836, 91750,
    89756, 87846, 86016, 84261, 82575, 80956, 79399, 77901, 76459, 75069, 73728, 72435, 71186, 69979, 68813,
    67685, 66593, 65536, 64512, 63520, 62557, 61623, 60717, 59837, 58982, 58152, 57344, 56558, 55794, 55050,
    54326, 53620, 52933, 52263, 51610, 50972, 50351, 49744, 49152, 48574, 48009, 47457, 46918, 46391, 45875,
    45371, 44878, 44395, 43923, 43461, 43008, 42565, 42130, 41705, 41288, 40879, 40478, 40085, 39700, 39322,
    38951, 38587, 38229, 37879, 37534, 37196, 36864, 36538, 36217, 35902, 35593, 35289, 34990, 34696, 34406,
    34122, 33842, 33567, 33297, 33030, 32768, 32510, 32256, 32006, 31760, 31517, 31279, 31043, 30812, 30583,
    30359, 30137, 29919, 29703, 29491, 29282, 29076, 28873, 28672, 28474, 28279, 28087, 27897, 27710, 27525,
    27343, 27163, 26985, 26810, 26637, 26466, 26298, 26131, 25967, 25805, 25645, 25486, 25330, 25175, 25023,
    24872, 24723, 24576, 24431, 24287, 24145, 24004, 23866, 23729, 23593, 23459, 23326, 23195, 23066, 22938,
    22811, 22686, 22562, 22439, 22318, 22198, 22079, 21962, 21845, 21730, 21617, 21504, 21393, 21282, 21173,
    21065, 20958, 20852, 20748, 20644, 20541, 20439, 20339, 20239, 20140, 20043, 19946, 19850, 19755, 19661,
    19568, 19475, 19384, 19293, 19204, 19115, 19027, 18939, 18853, 18767, 18682, 18598, 18515, 18432, 18350,
    18269, 18188, 18109, 18030, 17951, 17873, 17796, 17720, 17644, 17569, 17495, 17421, 17348, 17275, 17203,
    17132, 17061, 16991, 16921, 16852, 16784, 16716, 16648, 16581, 16515, 16449, 16384, 16319, 16255, 16191,
    16128, 0]"

text \<open>
  The result holds the new deficit of the node. \<^term>\<open>None\<close> is a failing \<^verbatim>\<open>assert\<close> or a shift by more bits than the word has.
\<close>

definition queue_set :: "'a sched_queue \<Rightarrow> 'a \<Rightarrow> nat \<Rightarrow> nat \<Rightarrow> ('a sched_queue \<times> nat) option" where
  "queue_set queue node deficit weight =
    (if weight > 256 then Some (queue\<lparr>q_anchor257 := q_anchor257 queue @ [node]\<rparr>, deficit)
     else if weight < 1 then None
     else
       (let offset = OFFSET_TABLE ! (weight - 1) + deficit;
            deficit' = offset mod 65536;
            offset' = offset div 65536;
            at = (q_offset queue + offset') mod 64
        in if offset' > 63 then None
           else Some (queue\<lparr>q_bits := q_bits queue OR push_bit (63 - offset') 1,
                  q_anchors := (q_anchors queue)[at := q_anchors queue ! at @ [node]]\<rparr>, deficit')))"

text \<open>Unlinking takes the node out of the list that it is in.\<close>

definition queue_unset :: "'a sched_queue \<Rightarrow> 'a \<Rightarrow> 'a sched_queue" where
  "queue_unset queue node =
    queue\<lparr>q_anchors := map (removeAll node) (q_anchors queue), q_anchor257 := removeAll node (q_anchor257 queue)\<rparr>"

text \<open>\<^verbatim>\<open>__builtin_clzll\<close>: the number of zero bits above the highest set bit.\<close>

definition clzll :: "u64 \<Rightarrow> nat" where
  "clzll b = length (takeWhile (\<lambda>i. \<not> bit b (63 - i)) [0..<64])"

definition clear_top :: "u64 \<Rightarrow> u64" where
  "clear_top b = b AND (push_bit 63 1 - 1)"

lemma bit_clear_top [simp]: "bit (clear_top b) i \<longleftrightarrow> i < 63 \<and> bit b i"
proof -
  have *: "clear_top b = b AND mask 63"
    by (simp add: clear_top_def mask_eq_exp_minus_1)
  show ?thesis
    unfolding * by (auto simp: bit_and_iff bit_mask_iff)
qed

lemma clzll_correct:
  assumes "b \<noteq> 0"
  shows "clzll b < 64" "bit b (63 - clzll b)" "\<And>i. i < clzll b \<Longrightarrow> \<not> bit b (63 - i)"
proof -
  obtain i where i: "bit b i" using assms by (auto simp: bit_eq_iff)
  then have "i < 64" using bit_imp_le_length [of b i] by simp
  then have "63 - i \<in> set [0..<64]" "\<not> \<not> bit b (63 - (63 - i))" using i by simp_all
  then have ne: "takeWhile (\<lambda>i. \<not> bit b (63 - i)) [0..<64] \<noteq> [0..<64]"
    by (metis set_takeWhileD)
  then show l: "clzll b < 64"
    using length_takeWhile_le [of "\<lambda>i. \<not> bit b (63 - i)" "[0..<64]"] takeWhile_eq_take [of "\<lambda>i. \<not> bit b (63 - i)" "[0..<64]"]
    by (metis clzll_def le_neq_implies_less length_upt minus_nat.diff_0 take_all_iff order_refl)
  show "bit b (63 - clzll b)"
    using nth_length_takeWhile [of "\<lambda>i. \<not> bit b (63 - i)" "[0..<64]"] l by (simp add: clzll_def)
  show "\<not> bit b (63 - i)" if "i < clzll b" for i
  proof -
    have "takeWhile (\<lambda>i. \<not> bit b (63 - i)) [0..<64] ! i = i"
      using that l takeWhile_nth [of i "\<lambda>i. \<not> bit b (63 - i)" "[0..<64]"] by (simp add: clzll_def)
    then show ?thesis
      using that nth_mem [of i "takeWhile (\<lambda>i. \<not> bit b (63 - i)) [0..<64]"] set_takeWhileD by (fastforce simp: clzll_def)
  qed
qed

definition popcount :: "u64 \<Rightarrow> nat" where
  "popcount b = card {i. bit b i}"

lemma finite_bits [simp]: "finite {i. bit (b :: u64) i}"
  by (rule finite_subset [of _ "{..<64}"]) (auto dest: bit_imp_le_length)

lemma popcount_decreases:
  assumes "b \<noteq> 0"
  shows "popcount (clear_top (push_bit (clzll b) b)) < popcount b"
proof -
  let ?z = "clzll b" and ?f = "\<lambda>i. i - clzll b"
  let ?S = "{i. bit (clear_top (push_bit ?z b)) i}"
  have "?f ` ?S \<subseteq> {i. bit b i} - {63 - ?z}"
    by (auto simp: bit_simps)
  moreover have "inj_on ?f ?S"
    by (rule inj_onI) (auto simp: bit_simps)
  ultimately have "card ?S \<le> card ({i. bit b i} - {63 - ?z})"
    by (metis card_image card_mono finite_Diff finite_bits)
  also have "\<dots> < card {i. bit b i}"
    using clzll_correct(2) [OF assms] by (intro psubset_card_mono) auto
  finally show ?thesis by (simp add: popcount_def)
qed

function pop_loop :: "'a sched_queue \<Rightarrow> 'a option \<times> 'a sched_queue" where
  "pop_loop queue =
    (if q_bits queue = 0 then (None, queue)
     else
       (let zeroes = clzll (q_bits queue);
            queue1 = queue\<lparr>q_bits := push_bit zeroes (q_bits queue), q_offset := (q_offset queue + zeroes) mod 64\<rparr>
        in case q_anchors queue1 ! q_offset queue1 of
             node # rest \<Rightarrow>
               (let queue2 = queue1\<lparr>q_anchors := (q_anchors queue1)[q_offset queue1 := rest]\<rparr>
                in (Some node, if rest = [] then queue2\<lparr>q_bits := clear_top (q_bits queue2)\<rparr> else queue2))
           | [] \<Rightarrow> pop_loop (queue1\<lparr>q_bits := clear_top (q_bits queue1)\<rparr>)))"
  by pat_completeness auto
termination
  by (relation "measure (popcount \<circ> q_bits)") (simp_all add: popcount_decreases)

declare pop_loop.simps [simp del]

definition queue_pop :: "'a sched_queue \<Rightarrow> 'a option \<times> 'a sched_queue" where
  "queue_pop queue =
    (case q_anchor257 queue of
       node # rest \<Rightarrow> (Some node, queue\<lparr>q_anchor257 := rest\<rparr>)
     | [] \<Rightarrow> pop_loop queue)"

section \<open>A list of slots\<close>

text \<open>The slots in the order in which they are visited, and removing the first entry of the first slot that is not empty.\<close>

definition view :: "'a sched_queue \<Rightarrow> 'a list list" where
  "view queue = map (\<lambda>i. q_anchors queue ! ((q_offset queue + i) mod 64)) [0..<64]"

definition slots_pop :: "'a list list \<Rightarrow> 'a option \<times> 'a list list" where
  "slots_pop ss =
    (let k = length (takeWhile (\<lambda>s. s = []) ss)
     in if k = length ss then (None, ss) else (Some (hd (ss ! k)), (rotate k ss)[0 := tl (ss ! k)]))"

text \<open>A slot that is not empty has its bit set; the converse need not hold.\<close>

definition queue_inv :: "'a sched_queue \<Rightarrow> bool" where
  "queue_inv queue \<longleftrightarrow> length (q_anchors queue) = 64 \<and> q_offset queue < 64 \<and>
    (\<forall>i < 64. view queue ! i \<noteq> [] \<longrightarrow> bit (q_bits queue) (63 - i))"

lemma length_view [simp]: "length (view q) = 64"
  by (simp add: view_def)

lemma view_nth: "i < 64 \<Longrightarrow> view q ! i = q_anchors q ! ((q_offset q + i) mod 64)"
  by (simp add: view_def)

lemma view_bits [simp]: "view (q\<lparr>q_bits := b\<rparr>) = view q" "view (q\<lparr>q_anchor257 := l\<rparr>) = view q"
  by (simp_all add: view_def)

lemma view_rotate: "view (q\<lparr>q_bits := b, q_offset := (q_offset q + z) mod 64\<rparr>) = rotate z (view q)"
  by (rule nth_equalityI) (simp_all add: view_nth nth_rotate mod_simps ac_simps)

lemma view_update:
  assumes "length (q_anchors q) = 64" "i < 64"
  shows "view (q\<lparr>q_anchors := (q_anchors q)[(q_offset q + i) mod 64 := l]\<rparr>) = (view q)[i := l]"
proof (rule nth_equalityI)
  fix j
  assume "j < length (view (q\<lparr>q_anchors := (q_anchors q)[(q_offset q + i) mod 64 := l]\<rparr>))"
  then have j: "j < 64" by simp
  then have "(q_offset q + j) mod 64 = (q_offset q + i) mod 64 \<longleftrightarrow> j = i"
    using assms(2) add_mod_inj [of j 64 i "q_offset q"] by (auto simp: add.commute)
  then show "view (q\<lparr>q_anchors := (q_anchors q)[(q_offset q + i) mod 64 := l]\<rparr>) ! j = (view q)[i := l] ! j"
    using j assms by (auto simp: view_nth nth_list_update)
qed simp

lemma empty_before: "i < length (takeWhile (\<lambda>s. s = []) ss) \<Longrightarrow> ss ! i = []"
  by (metis (mono_tags, lifting) nth_mem set_takeWhileD takeWhile_nth)

lemma first_nonempty:
  assumes "z < length ss" "\<And>i. i < z \<Longrightarrow> ss ! i = []" "ss ! z \<noteq> []"
  shows "length (takeWhile (\<lambda>s. s = []) ss) = z"
proof (rule le_antisym)
  show "z \<le> length (takeWhile (\<lambda>s. s = []) ss)"
    using assms(1,2) by (intro length_takeWhile_less_P_nth) simp_all
  show "length (takeWhile (\<lambda>s. s = []) ss) \<le> z"
    using assms(3) empty_before [of z ss] by (simp add: not_le [symmetric]) blast
qed

lemma slots_pop_Some:
  assumes "z < length ss" "\<And>i. i < z \<Longrightarrow> ss ! i = []" "ss ! z = n # r"
  shows "slots_pop ss = (Some n, (rotate z ss)[0 := r])"
  using assms first_nonempty [of z ss] by (simp add: slots_pop_def Let_def)

lemma slots_pop_None: "(\<forall>s\<in>set ss. s = []) \<Longrightarrow> slots_pop ss = (None, ss)"
  by (simp add: slots_pop_def takeWhile_eq_all_conv [THEN iffD2])

lemma slots_cases:
  obtains (empty) "\<forall>s\<in>set ss. s = []"
  | (slot) z n r where "z < length ss" "\<And>i. i < z \<Longrightarrow> ss ! i = []" "ss ! z = n # r"
proof (cases "\<forall>s\<in>set ss. s = []")
  case False
  let ?z = "length (takeWhile (\<lambda>s. s = []) ss)"
  have z: "?z < length ss"
  proof -
    have "0 < length (dropWhile (\<lambda>s. s = []) ss)" using False by (simp add: dropWhile_eq_Nil_conv)
    moreover have "?z + length (dropWhile (\<lambda>s. s = []) ss) = length ss"
      by (metis length_append takeWhile_dropWhile_id)
    ultimately show ?thesis by linarith
  qed
  have "ss ! ?z \<noteq> []"
    using z nth_length_takeWhile [of "\<lambda>s. s = []" ss] by simp
  then obtain n r where "ss ! ?z = n # r" by (cases "ss ! ?z") auto
  moreover have "ss ! i = []" if "i < ?z" for i
    using that by (rule empty_before)
  ultimately show ?thesis using slot z by blast
qed (use empty in blast)

lemma slots_pop_rotate:
  assumes "z \<le> length ss" "\<And>i. i < z \<Longrightarrow> ss ! i = []"
  shows "slots_pop (rotate z ss) = slots_pop ss"
proof (cases ss rule: slots_cases)
  case empty
  then have "rotate z ss = ss"
    by (metis in_set_replicate length_rotate replicate_eqI set_rotate)
  then show ?thesis by simp
next
  case (slot k n r)
  then have k: "z \<le> k" using assms(2) by (metis list.distinct(1) not_le)
  have nth: "rotate z ss ! i = ss ! ((z + i) mod length ss)" if "i < length ss" for i
    using that by (simp add: nth_rotate)
  have "slots_pop (rotate z ss) = (Some n, (rotate (k - z) (rotate z ss))[0 := r])"
    using slot k by (intro slots_pop_Some) (auto simp: nth)
  also have "\<dots> = slots_pop ss"
    using slots_pop_Some [OF slot] k by (simp add: rotate_rotate)
  finally show ?thesis .
qed

section \<open>The bit field implements the list of slots\<close>

lemma queue_invD: "queue_inv q \<Longrightarrow> i < 64 \<Longrightarrow> \<not> bit (q_bits q) (63 - i) \<Longrightarrow> view q ! i = []"
  by (auto simp: queue_inv_def)

text \<open>Moving on to the first slot whose bit is set.\<close>

lemma queue_inv_rotate:
  assumes "queue_inv q" "q_bits q \<noteq> 0"
  shows "queue_inv (q\<lparr>q_bits := push_bit (clzll (q_bits q)) (q_bits q), q_offset := (q_offset q + clzll (q_bits q)) mod 64\<rparr>)"
    (is "queue_inv ?q")
proof -
  let ?z = "clzll (q_bits q)"
  note z = clzll_correct [OF assms(2)]
  have "bit (push_bit ?z (q_bits q)) (63 - i)" if i: "i < 64" "rotate ?z (view q) ! i \<noteq> []" for i
  proof (cases "i + ?z < 64")
    case True
    then have "bit (q_bits q) (63 - (i + ?z))"
      using i queue_invD [OF assms(1) True] by (auto simp: nth_rotate add.commute)
    then show ?thesis using True by (auto simp: bit_push_bit_iff)
  next
    case False
    then have "(?z + i) mod 64 = i + ?z - 64" "i + ?z - 64 < ?z"
      using i(1) z(1) by (simp_all add: mod_if add.commute)
    then have "view q ! ((?z + i) mod 64) = []"
      using z(1,3) by (intro queue_invD [OF assms(1)]) auto
    then show ?thesis using i by (simp add: nth_rotate)
  qed
  then show ?thesis
    using assms(1) unfolding queue_inv_def view_rotate by simp
qed

lemma queue_inv_slot:
  assumes "queue_inv q" "l = [] \<or> bit (q_bits q) 63"
  shows "queue_inv (q\<lparr>q_anchors := (q_anchors q)[q_offset q := l],
      q_bits := (if l = [] then clear_top (q_bits q) else q_bits q)\<rparr>)" (is "queue_inv ?q")
    "view (q\<lparr>q_anchors := (q_anchors q)[q_offset q := l],
      q_bits := (if l = [] then clear_top (q_bits q) else q_bits q)\<rparr>) = (view q)[0 := l]"
proof -
  have len: "length (q_anchors q) = 64" "q_offset q < 64" using assms(1) by (simp_all add: queue_inv_def)
  then show v: "view ?q = (view q)[0 := l]"
    using view_update [of q 0 l] by simp
  have "bit (q_bits ?q) (63 - i)" if "i < 64" "(view q)[0 := l] ! i \<noteq> []" for i
    using that assms queue_invD [OF assms(1) that(1)] by (cases "i = 0") (auto simp: nth_list_update split: if_splits)
  then show "queue_inv ?q"
    using len v by (simp add: queue_inv_def)
qed

lemma pop_loop_correct:
  "queue_inv q \<Longrightarrow> \<exists>r q'. pop_loop q = (r, q') \<and> queue_inv q' \<and> q_anchor257 q' = q_anchor257 q \<and> (r, view q') = slots_pop (view q)"
proof (induction q rule: pop_loop.induct)
  case (1 q)
  show ?case
  proof (cases "q_bits q = 0")
    case True
    then have "\<forall>s\<in>set (view q). s = []"
      using 1(2) by (auto simp: in_set_conv_nth queue_inv_def)
    then show ?thesis
      using True 1(2) by (subst pop_loop.simps) (simp add: slots_pop_None)
  next
    case False
    let ?z = "clzll (q_bits q)"
    define q1 where "q1 = q\<lparr>q_bits := push_bit ?z (q_bits q), q_offset := (q_offset q + ?z) mod 64\<rparr>"
    note z = clzll_correct [OF False]
    have inv1: "queue_inv q1" unfolding q1_def by (rule queue_inv_rotate [OF 1(2) False])
    have v1: "view q1 = rotate ?z (view q)" by (simp add: q1_def view_rotate)
    have before: "view q ! i = []" if "i < ?z" for i
      using that z by (intro queue_invD [OF 1(2)]) auto
    have len: "length (q_anchors q1) = 64" "q_offset q1 < 64" using inv1 by (simp_all add: queue_inv_def)
    have slot: "q_anchors q1 ! q_offset q1 = view q ! ?z"
      using len z(1) view_nth [of 0 q1] by (simp add: v1 nth_rotate)
    have top: "bit (q_bits q1) 63" using z by (simp add: q1_def bit_push_bit_iff)
    show ?thesis
    proof (cases "view q ! ?z")
      case Nil
      let ?q2 = "q1\<lparr>q_bits := clear_top (q_bits q1)\<rparr>"
      have upd: "(q_anchors q1)[q_offset q1 := []] = q_anchors q1"
        using slot Nil by (metis list_update_id)
      have inv2: "queue_inv ?q2"
        using queue_inv_slot(1) [OF inv1, of "[]"] upd by simp
      have step: "pop_loop q = pop_loop ?q2"
        using False slot Nil by (subst pop_loop.simps) (simp add: Let_def q1_def)
      obtain r q' where r: "pop_loop ?q2 = (r, q')" "queue_inv q'" "q_anchor257 q' = q_anchor257 ?q2"
        "(r, view q') = slots_pop (view ?q2)"
        using 1(1) [OF False refl q1_def _ inv2] slot Nil by auto
      have "slots_pop (view ?q2) = slots_pop (view q)"
        using slots_pop_rotate [of ?z "view q"] before z(1) by (simp add: v1)
      then show ?thesis using step r by (simp add: q1_def)
    next
      case (Cons n rest)
      let ?q2 = "q1\<lparr>q_anchors := (q_anchors q1)[q_offset q1 := rest],
        q_bits := (if rest = [] then clear_top (q_bits q1) else q_bits q1)\<rparr>"
      have "pop_loop q = (Some n, ?q2)"
        using False slot Cons by (subst pop_loop.simps) (simp add: Let_def q1_def)
      moreover have "slots_pop (view q) = (Some n, view ?q2)"
        using slots_pop_Some [OF _ before Cons] z(1) queue_inv_slot(2) [OF inv1, of rest] top by (simp add: v1)
      ultimately show ?thesis
        using queue_inv_slot(1) [OF inv1, of rest] top by (simp add: q1_def)
    qed
  qed
qed

lemma offset_table_bounds: "w < 256 \<Longrightarrow> 16128 \<le> OFFSET_TABLE ! w \<and> OFFSET_TABLE ! w \<le> 4128768"
proof -
  have "list_all (\<lambda>x. 16128 \<le> x \<and> x \<le> 4128768) (take 256 OFFSET_TABLE)" "length OFFSET_TABLE = 257"
    by (simp_all add: OFFSET_TABLE_def)
  then show "w < 256 \<Longrightarrow> ?thesis"
    by (simp add: list_all_length)
qed

lemma queue_set_correct:
  assumes "queue_inv q" "1 \<le> w" "w \<le> 256" "d < 65536"
  shows "\<exists>q'. queue_set q n d w = Some (q', (OFFSET_TABLE ! (w - 1) + d) mod 65536) \<and> queue_inv q' \<and>
    q_anchor257 q' = q_anchor257 q \<and>
    view q' = (view q)[(OFFSET_TABLE ! (w - 1) + d) div 65536 := view q ! ((OFFSET_TABLE ! (w - 1) + d) div 65536) @ [n]]"
proof -
  let ?o = "(OFFSET_TABLE ! (w - 1) + d) div 65536"
  have "w - 1 < 256" using assms(2,3) by simp
  then have "OFFSET_TABLE ! (w - 1) + d < 64 * 65536"
    using offset_table_bounds [of "w - 1"] assms(4) by simp
  then have "?o < 64" by (rule less_mult_imp_div_less)
  then have o: "?o \<le> 63" by simp
  let ?q = "q\<lparr>q_anchors := (q_anchors q)[(q_offset q + ?o) mod 64 := view q ! ?o @ [n]]\<rparr>"
  let ?q' = "?q\<lparr>q_bits := q_bits q OR push_bit (63 - ?o) 1\<rparr>"
  have len: "length (q_anchors q) = 64" "q_offset q < 64" using assms(1) by (simp_all add: queue_inv_def)
  have v: "view ?q' = (view q)[?o := view q ! ?o @ [n]]"
    using view_update [OF len(1), of ?o] o by simp
  have "bit (q_bits ?q') (63 - i)" if "i < 64" "(view q)[?o := view q ! ?o @ [n]] ! i \<noteq> []" for i
    using that queue_invD [OF assms(1) that(1)] o by (cases "i = ?o") (auto simp: bit_simps)
  then have "queue_inv ?q'" using len v by (simp add: queue_inv_def)
  moreover have "queue_set q n d w = Some (?q', (OFFSET_TABLE ! (w - 1) + d) mod 65536)"
    using assms(2,3) o view_nth [of ?o q] by (simp add: queue_set_def Let_def)
  ultimately show ?thesis using v by simp
qed

lemma view_unset: "length (q_anchors q) = 64 \<Longrightarrow> view (queue_unset q n) = map (removeAll n) (view q)"
  by (simp add: view_def queue_unset_def)

lemma queue_unset_correct:
  assumes "queue_inv q"
  shows "queue_inv (queue_unset q n)" "view (queue_unset q n) = map (removeAll n) (view q)"
    "q_anchor257 (queue_unset q n) = removeAll n (q_anchor257 q)"
proof -
  show v: "view (queue_unset q n) = map (removeAll n) (view q)"
    using assms by (simp add: view_unset queue_inv_def)
  show "queue_inv (queue_unset q n)"
    using assms unfolding queue_inv_def v by (auto simp: queue_unset_def)
qed (simp add: queue_unset_def)

section \<open>No entry starves\<close>

text \<open>
  Rounds of taking out an entry and putting it back with its weight, as \<^verbatim>\<open>proceed\<close> does with entries that stay active; \<open>d\<close> are the deficits.
  The result lists the entries that were taken out.
\<close>

fun rounds :: "('q \<Rightarrow> 'a option \<times> 'q) \<Rightarrow> ('q \<Rightarrow> 'a \<Rightarrow> nat \<Rightarrow> nat \<Rightarrow> ('q \<times> nat) option) \<Rightarrow> ('a \<Rightarrow> nat) \<Rightarrow> nat \<Rightarrow> 'q \<Rightarrow>
    ('a \<Rightarrow> nat) \<Rightarrow> 'a list" where
  "rounds pop put w 0 q d = []"
| "rounds pop put w (Suc k) q d =
    (case pop q of
       (None, q') \<Rightarrow> []
     | (Some n, q') \<Rightarrow>
         n # (case put q' n (d n) (w n) of
                None \<Rightarrow> []
              | Some (q'', d') \<Rightarrow> rounds pop put w k q'' (d(n := d'))))"

text \<open>Every entry is in one slot, once.\<close>

definition separate :: "'a list list \<Rightarrow> bool" where
  "separate ss \<longleftrightarrow> (\<forall>i < length ss. distinct (ss ! i)) \<and>
    (\<forall>i < length ss. \<forall>j < length ss. i \<noteq> j \<longrightarrow> set (ss ! i) \<inter> set (ss ! j) = {})"

definition queued :: "'a list list \<Rightarrow> 'a set" where
  "queued ss = (\<Union>i < length ss. set (ss ! i))"

definition slot_of :: "'a list list \<Rightarrow> 'a \<Rightarrow> nat" where
  "slot_of ss x = length (takeWhile (\<lambda>s. x \<notin> set s) ss)"

lemma slot_of_eq:
  assumes "separate ss" "i < length ss" "x \<in> set (ss ! i)"
  shows "slot_of ss x = i"
proof -
  have "x \<notin> set (ss ! j)" if "j < i" for j
    using assms that unfolding separate_def by (metis disjoint_iff less_trans nat_neq_iff)
  moreover have "\<not> length (takeWhile (\<lambda>s. x \<notin> set s) ss) > i"
    using assms(3) by (metis (mono_tags, lifting) nth_mem set_takeWhileD takeWhile_nth)
  ultimately show ?thesis
    unfolding slot_of_def using assms(2)
    by (intro le_antisym length_takeWhile_less_P_nth) auto
qed

lemma slot_of_entry:
  assumes "separate ss" "x \<in> queued ss"
  shows "slot_of ss x < length ss" "x \<in> set (ss ! slot_of ss x)"
  using assms slot_of_eq [OF assms(1)] by (auto simp: queued_def)

text \<open>One round at the level of slots.\<close>

lemma round_slots:
  assumes ss: "length ss = 64" "separate ss" and k: "k < 64" "\<forall>i < k. ss ! i = []" "ss ! k = y # r" and off: "off \<le> 63"
    and ss1: "ss1 = (rotate k ss)[0 := r]" and ss2: "ss2 = ss1[off := ss1 ! off @ [y]]"
  shows "length ss2 = 64" "separate ss2" "queued ss2 = queued ss" "slot_of ss2 y = off" "slot_of ss y = k"
    "\<And>z. z \<in> queued ss \<Longrightarrow> z \<noteq> y \<Longrightarrow> slot_of ss z = slot_of ss2 z + k"
proof -
  have nth1: "ss1 ! i = (if i = 0 then r else ss ! ((k + i) mod 64))" if "i < 64" for i
    using that ss(1) ss1 by (simp add: nth_rotate nth_list_update)
  have len1: "length ss1 = 64" using ss1 ss(1) by simp
  show len2: "length ss2 = 64" using ss2 len1 by simp
  have nth2: "ss2 ! i = (if i = off then ss1 ! i @ [y] else ss1 ! i)" if "i < 64" for i
    using that len1 ss2 by (simp add: nth_list_update)
  have sub: "set (ss1 ! i) \<subseteq> set (ss ! ((k + i) mod 64)) - {y}" "distinct (ss1 ! i)" if i: "i < 64" for i
  proof -
    have "distinct (y # r)" using ss k unfolding separate_def by (metis)
    moreover have "y \<notin> set (ss ! ((k + i) mod 64))" if "i \<noteq> 0"
    proof -
      have "(k + i) mod 64 \<noteq> k" using add_mod_inj [of i 64 0 k] i that k(1) by (auto simp: add.commute)
      then show ?thesis
        using ss k unfolding separate_def by (metis disjoint_iff list.set_intros(1) mod_less_divisor zero_less_numeral)
    qed
    ultimately show "set (ss1 ! i) \<subseteq> set (ss ! ((k + i) mod 64)) - {y}" "distinct (ss1 ! i)"
      using nth1 [OF i] k ss unfolding separate_def by (auto split: if_splits)
  qed
  have disj1: "set (ss1 ! i) \<inter> set (ss1 ! j) = {}" if "i < 64" "j < 64" "i \<noteq> j" for i j
  proof -
    have "(k + i) mod 64 \<noteq> (k + j) mod 64" using add_mod_inj [of i 64 j k] that by (auto simp: add.commute)
    then have "set (ss ! ((k + i) mod 64)) \<inter> set (ss ! ((k + j) mod 64)) = {}"
      using ss unfolding separate_def by simp
    then show ?thesis using sub(1) [OF that(1)] sub(1) [OF that(2)] by blast
  qed
  have gone: "y \<notin> set (ss1 ! i)" if "i < 64" for i
    using sub(1) [OF that] by blast
  show sep2: "separate ss2"
    unfolding separate_def len2 using nth2 sub(2) disj1 gone by (auto 0 3)
  have moved: "z \<in> set (ss2 ! (j - k)) \<and> k \<le> j" if z: "z \<noteq> y" "j < 64" "z \<in> set (ss ! j)" for z j
  proof -
    have "k \<le> j" using k(2) z by (metis empty_iff list.set(1) not_le)
    moreover have "ss1 ! (j - k) = (if j = k then r else ss ! j)" if "k \<le> j"
      using nth1 [of "j - k"] z(2) that by auto
    ultimately show ?thesis using z k(3) nth2 [of "j - k"] by auto
  qed
  show "slot_of ss2 y = off" using off nth2 [of off] len2 by (intro slot_of_eq [OF sep2]) simp_all
  show "slot_of ss y = k" using k ss by (intro slot_of_eq) simp_all
  show "slot_of ss z = slot_of ss2 z + k" if "z \<in> queued ss" "z \<noteq> y" for z
  proof -
    note j = slot_of_entry [OF ss(2) that(1), unfolded ss(1)]
    from moved [OF that(2) j] have "slot_of ss2 z = slot_of ss z - k" "k \<le> slot_of ss z"
      using j(1) len2 slot_of_eq [OF sep2] by auto
    then show ?thesis by simp
  qed
  show "queued ss2 = queued ss"
  proof (intro set_eqI iffI)
    fix z assume "z \<in> queued ss2"
    then obtain i where i: "i < 64" "z \<in> set (ss2 ! i)" using len2 by (auto simp: queued_def)
    then have "z = y \<or> z \<in> set (ss ! ((k + i) mod 64))" using nth2 [OF i(1)] sub(1) [OF i(1)] by (auto split: if_splits)
    then show "z \<in> queued ss" using k ss(1) by (force simp: queued_def)
  next
    fix z assume z: "z \<in> queued ss"
    show "z \<in> queued ss2"
    proof (cases "z = y")
      case True
      then have "z \<in> set (ss2 ! off)" using nth2 [of off] off by simp
      then show ?thesis using off len2 by (auto simp: queued_def intro!: bexI [of _ off])
    next
      case False
      from z obtain j where j: "j < 64" "z \<in> set (ss ! j)" using ss(1) by (auto simp: queued_def)
      from moved [OF False j] j(1) len2 show ?thesis by (auto simp: queued_def intro!: bexI [of _ "j - k"])
    qed
  qed
qed

text \<open>
  The contract of the queue. An entry is put \<open>distance w + d\<close> units ahead of the current slot, a slot being 65536 units long and \<open>d\<close> what was
  left over the last time; entries are taken from the nearest slot.
\<close>

locale weighted_queue =
  fixes inv :: "'q \<Rightarrow> bool" and slots :: "'q \<Rightarrow> 'a list list" and urgent :: "'q \<Rightarrow> 'a list"
    and pop :: "'q \<Rightarrow> 'a option \<times> 'q" and put :: "'q \<Rightarrow> 'a \<Rightarrow> nat \<Rightarrow> nat \<Rightarrow> ('q \<times> nat) option"
    and distance :: "nat \<Rightarrow> nat"
  assumes slots_64: "inv q \<Longrightarrow> length (slots q) = 64"
    and pop_urgent: "inv q \<Longrightarrow> urgent q = n # r \<Longrightarrow> \<exists>q'. pop q = (Some n, q') \<and> inv q' \<and> urgent q' = r \<and> slots q' = slots q"
    and pop_slots: "inv q \<Longrightarrow> urgent q = [] \<Longrightarrow>
      \<exists>r q'. pop q = (r, q') \<and> inv q' \<and> urgent q' = [] \<and> (r, slots q') = slots_pop (slots q)"
    and put: "inv q \<Longrightarrow> 1 \<le> w \<Longrightarrow> w \<le> 256 \<Longrightarrow> d < 65536 \<Longrightarrow>
      \<exists>q'. put q n d w = Some (q', (distance w + d) mod 65536) \<and> inv q' \<and> urgent q' = urgent q \<and>
        slots q' = (slots q)[(distance w + d) div 65536 := slots q ! ((distance w + d) div 65536) @ [n]]"
    and distance: "1 \<le> w \<Longrightarrow> w \<le> 256 \<Longrightarrow> 16128 \<le> distance w \<and> distance w \<le> 4128768"
begin

definition fair_state :: "('a \<Rightarrow> nat) \<Rightarrow> 'q \<Rightarrow> ('a \<Rightarrow> nat) \<Rightarrow> bool" where
  "fair_state w q d \<longleftrightarrow> inv q \<and> urgent q = [] \<and> separate (slots q) \<and>
    (\<forall>n \<in> queued (slots q). 1 \<le> w n \<and> w n \<le> 256 \<and> d n < 65536)"

text \<open>How often \<open>y\<close> can be taken out before the turn of \<open>x\<close> comes.\<close>

definition allowed :: "'a \<Rightarrow> 'q \<Rightarrow> ('a \<Rightarrow> nat) \<Rightarrow> 'a \<Rightarrow> nat" where
  "allowed x q d y = (65536 * (slot_of (slots q) x + 1) - (65536 * slot_of (slots q) y + d y) + 16127) div 16128"

definition waiting :: "'a \<Rightarrow> 'q \<Rightarrow> ('a \<Rightarrow> nat) \<Rightarrow> nat" where
  "waiting x q d = (\<Sum>y \<in> queued (slots q) - {x}. allowed x q d y)"

lemma finite_queued [simp]: "finite (queued ss)"
  by (simp add: queued_def)

lemma round:
  assumes f: "fair_state w q d" and x: "x \<in> queued (slots q)"
  obtains y q1 q2 d' where "pop q = (Some y, q1)" "put q1 y (d y) (w y) = Some (q2, d')"
    "y \<noteq> x \<Longrightarrow> fair_state w q2 (d(y := d')) \<and> x \<in> queued (slots q2) \<and> waiting x q2 (d(y := d')) < waiting x q d"
proof -
  have inv: "inv q" "urgent q = []" "separate (slots q)" and len: "length (slots q) = 64"
    and ok: "\<And>n. n \<in> queued (slots q) \<Longrightarrow> 1 \<le> w n \<and> w n \<le> 256 \<and> d n < 65536"
    using f slots_64 by (auto simp: fair_state_def)
  have "\<not> (\<forall>s\<in>set (slots q). s = [])"
    using x nth_mem by (fastforce simp: queued_def)
  then obtain k y r where k: "k < 64" "\<forall>i < k. slots q ! i = []" "slots q ! k = y # r"
    using slots_cases [of "slots q"] len by metis
  obtain q1 where q1: "pop q = (Some y, q1)" "inv q1" "urgent q1 = []" "slots q1 = (rotate k (slots q))[0 := r]"
    using pop_slots [OF inv(1,2)] slots_pop_Some [of k "slots q" y r] k len by auto
  have "y \<in> queued (slots q)" using k len by (force simp: queued_def)
  note y = ok [OF this]
  let ?D = "distance (w y) + d y"
  obtain q2 where q2: "put q1 y (d y) (w y) = Some (q2, ?D mod 65536)" "inv q2" "urgent q2 = []"
    "slots q2 = (slots q1)[?D div 65536 := slots q1 ! (?D div 65536) @ [y]]"
    using put [OF q1(2), of "w y" "d y" y] y q1(3) by auto
  have "?D < 64 * 65536" using y distance [of "w y"] by simp
  then have off: "?D div 65536 \<le> 63" using less_mult_imp_div_less by fastforce
  note r = round_slots [OF len inv(3) k off q1(4) q2(4)]
  let ?d = "d(y := ?D mod 65536)"
  have "fair_state w q2 ?d" if "y \<noteq> x"
    using q2(2,3) r(2,3) ok y by (auto simp: fair_state_def)
  moreover have "waiting x q2 ?d < waiting x q d" if ne: "y \<noteq> x"
  proof -
    have sx: "slot_of (slots q) x = slot_of (slots q2) x + k" using r(6) [OF x] ne by blast
    have same: "allowed x q2 ?d z = allowed x q d z" if "z \<in> queued (slots q)" "z \<noteq> y" for z
      using r(6) [OF that] sx that(2) by (simp add: allowed_def algebra_simps)
    have "65536 * (?D div 65536) + ?D mod 65536 = ?D" by simp
    then have "allowed x q2 ?d y = (65536 * (slot_of (slots q2) x + 1) - ?D + 16127) div 16128"
      by (simp add: allowed_def r(4))
    also have "\<dots> < (65536 * (slot_of (slots q2) x + 1) - d y + 16127) div 16128"
    proof -
      let ?A = "65536 * (slot_of (slots q2) x + 1) - d y"
      have "0 < ?A" "?A - distance (w y) = 65536 * (slot_of (slots q2) x + 1) - ?D" using y by auto
      moreover have "(a - b + 16127) div 16128 < (a + 16127) div 16128" if "0 < a" "16128 \<le> b" for a b :: nat
      proof (cases "b \<le> a")
        case True
        then have "a - b + 16127 + 16128 \<le> a + 16127" using that by simp
        then have "(a - b + 16127 + 16128) div 16128 \<le> (a + 16127) div 16128" by (rule div_le_mono)
        then show ?thesis by simp
      next
        case False
        then show ?thesis using that by (simp add: div_greater_zero_iff)
      qed
      ultimately show ?thesis using distance [of "w y"] y by metis
    qed
    also have "\<dots> = allowed x q d y"
      using sx by (simp add: allowed_def r(5) algebra_simps)
    finally have less: "allowed x q2 ?d y < allowed x q d y" .
    show ?thesis
      unfolding waiting_def r(3)
    proof (rule sum_strict_mono_ex1)
      show "\<forall>z\<in>queued (slots q) - {x}. allowed x q2 ?d z \<le> allowed x q d z"
        using same less by (metis DiffD1 less_imp_le order_refl)
      show "\<exists>z\<in>queued (slots q) - {x}. allowed x q2 ?d z < allowed x q d z"
        using less \<open>y \<in> queued (slots q)\<close> ne by blast
    qed simp
  qed
  ultimately show ?thesis using that q1(1) q2(1) r(3) x by blast
qed

lemma served_within:
  "fair_state w q d \<Longrightarrow> x \<in> queued (slots q) \<Longrightarrow> waiting x q d \<le> k \<Longrightarrow> x \<in> set (rounds pop put w (Suc k) q d)"
proof (induction k arbitrary: q d)
  case 0
  from round [OF 0(1,2)] obtain y q1 q2 d' where "pop q = (Some y, q1)" "put q1 y (d y) (w y) = Some (q2, d')"
    "y \<noteq> x \<Longrightarrow> waiting x q2 (d(y := d')) < waiting x q d" by metis
  with 0(3) show ?case by (cases "y = x") auto
next
  case (Suc k)
  from round [OF Suc(2,3)] obtain y q1 q2 d' where r: "pop q = (Some y, q1)" "put q1 y (d y) (w y) = Some (q2, d')"
    "y \<noteq> x \<Longrightarrow> fair_state w q2 (d(y := d')) \<and> x \<in> queued (slots q2) \<and> waiting x q2 (d(y := d')) < waiting x q d" by metis
  have step: "rounds pop put w (Suc (Suc k)) q d = y # rounds pop put w (Suc k) q2 (d(y := d'))"
    by (subst rounds.simps(2)) (simp only: r(1,2) prod.case option.case)
  show ?case
  proof (cases "y = x")
    case True
    then show ?thesis unfolding step by (simp del: rounds.simps)
  next
    case False
    then have f: "fair_state w q2 (d(y := d'))" "x \<in> queued (slots q2)" and "waiting x q2 (d(y := d')) < waiting x q d"
      using r(3) by simp_all
    then have "waiting x q2 (d(y := d')) \<le> k" using Suc(4) by linarith
    from Suc.IH [OF f this] have "x \<in> set (rounds pop put w (Suc k) q2 (d(y := d')))" .
    then show ?thesis unfolding step by (simp del: rounds.simps)
  qed
qed

lemma waiting_bound:
  assumes "fair_state w q d" "x \<in> queued (slots q)"
  shows "waiting x q d \<le> 261 * (card (queued (slots q)) - 1)"
proof -
  have "slot_of (slots q) x \<le> 63"
    using slot_of_entry(1) [of "slots q" x] assms slots_64 [of q] by (simp add: fair_state_def)
  then have "65536 * (slot_of (slots q) x + 1) - (65536 * slot_of (slots q) y + d y) + 16127 \<le> 4210431" for y
    by simp
  then have "allowed x q d y \<le> 4210431 div 16128" for y
    unfolding allowed_def by (rule div_le_mono)
  then have "allowed x q d y \<le> 261" for y by simp
  then have "waiting x q d \<le> (\<Sum>y \<in> queued (slots q) - {x}. 261)"
    unfolding waiting_def by (rule sum_mono)
  then show ?thesis using assms(2) by simp
qed

end

interpretation wrr: weighted_queue queue_inv view q_anchor257 queue_pop queue_set "\<lambda>w. OFFSET_TABLE ! (w - 1)"
proof
  show "\<exists>q'. queue_pop q = (Some n, q') \<and> queue_inv q' \<and> q_anchor257 q' = r \<and> view q' = view q"
    if "queue_inv q" "q_anchor257 q = n # r" for q :: "'a sched_queue" and n r
    using that by (simp add: queue_pop_def queue_inv_def)
  show "\<exists>r q'. queue_pop q = (r, q') \<and> queue_inv q' \<and> q_anchor257 q' = [] \<and> (r, view q') = slots_pop (view q)"
    if "queue_inv q" "q_anchor257 q = []" for q :: "'a sched_queue"
    using that pop_loop_correct [OF that(1)] by (simp add: queue_pop_def)
qed (use queue_set_correct offset_table_bounds in auto)

lemma view_init [simp]: "view queue_init = replicate 64 []"
  by (rule nth_equalityI) (simp_all add: view_nth queue_init_def)

lemma queue_inv_init [simp]: "queue_inv queue_init"
  by (simp add: queue_inv_def) (simp add: queue_init_def)

lemma anchor257_init [simp]: "q_anchor257 queue_init = []"
  by (simp add: queue_init_def)

section \<open>Properties\<close>

text \<open>
  C34. No stream starves: however the weights from 1 to 256 are distributed, if entries that have been served are put back with their weight,
  an entry that waits among \<open>n\<close> entries is served within \<open>261 (n - 1) + 1\<close> rounds.
\<close>

theorem queue_no_starvation:
  assumes "queue_inv q" "q_anchor257 q = []" "separate (view q)" "x \<in> queued (view q)"
    and "\<forall>n \<in> queued (view q). 1 \<le> w n \<and> w n \<le> 256 \<and> d n < 65536"
  shows "x \<in> set (rounds queue_pop queue_set w (Suc (261 * (card (queued (view q)) - 1))) q d)"
proof -
  have "wrr.fair_state w q d" using assms by (simp add: wrr.fair_state_def)
  from wrr.served_within [OF this assms(4) wrr.waiting_bound [OF this assms(4)]] show ?thesis .
qed

theorem queue_no_starvation_witness:
  "\<exists>q1 d1 q2 d2. queue_set queue_init (1 :: nat) 0 16 = Some (q1, d1) \<and> queue_set q1 2 0 256 = Some (q2, d2) \<and>
    1 \<in> set (rounds queue_pop queue_set (\<lambda>n. if n = 1 then 16 else 256) 262 q2 (\<lambda>n. if n = 1 then d1 else d2))"
proof -
  have t: "OFFSET_TABLE ! 15 = 258048" "OFFSET_TABLE ! 255 = 16128" by (simp_all add: OFFSET_TABLE_def)
  obtain q1 where q1: "queue_set queue_init (1 :: nat) 0 16 = Some (q1, 61440)" "queue_inv q1" "q_anchor257 q1 = []"
    "view q1 = (replicate 64 [])[3 := [1]]"
    using queue_set_correct [of "queue_init :: nat sched_queue" 16 0 1] t by auto
  obtain q2 where q2: "queue_set q1 2 0 256 = Some (q2, 16128)" "queue_inv q2" "q_anchor257 q2 = []"
    "view q2 = (replicate 64 [])[3 := [1], 0 := [2]]"
    using queue_set_correct [OF q1(2), of 256 0 2] t q1(3,4) by auto
  have nth: "view q2 ! i = (if i = 0 then [2] else if i = 3 then [1] else [])" if "i < 64" for i
    using that q2(4) by (simp add: nth_list_update)
  then have "separate (view q2)" by (auto simp: separate_def)
  moreover have u: "queued (view q2) = {1, 2}"
    using nth by (force simp: queued_def split: if_splits)
  ultimately have "1 \<in> set (rounds queue_pop queue_set (\<lambda>n. if n = 1 then 16 else 256)
      (Suc (261 * (card (queued (view q2)) - 1))) q2 (\<lambda>n. if n = 1 then 61440 else 16128))"
    using q2 by (intro queue_no_starvation) auto
  then show ?thesis using q1(1) q2(1) u by (simp del: rounds.simps)
qed

end
