(* ===== verification/Scheduler.thy ===== *)
theory Scheduler
  imports Sched_Queue
begin

text \<open>
  The operations of \<^verbatim>\<open>lib/http2/scheduler.c\<close> on the dependency tree of the streams: opening, closing, moving, relocating, activating and running
  them. Memory is a function from addresses to nodes, and a linked list is the list of the addresses of its members.
\<close>

section \<open>State\<close>

text \<open>
  \<^verbatim>\<open>h2o_http2_scheduler_openref_t\<close> with the node it contains; the root uses the node only. \<open>s_open\<close> and \<open>s_queued\<close> tell whether
  \<^verbatim>\<open>_all_link\<close> and \<^verbatim>\<open>_queue_node._link\<close> are linked.
\<close>

record sched_ref =
  s_parent :: "nat option"
  s_all_refs :: "nat list"
  s_queue :: "nat sched_queue option"
  s_weight :: nat
  s_open :: bool
  s_active_cnt :: nat
  s_self_is_active :: bool
  s_deficit :: nat
  s_queued :: bool
  s_is_relocated :: bool

type_synonym sched = "nat \<Rightarrow> sched_ref"

section \<open>Operations\<close>

definition init_node :: "sched \<Rightarrow> nat \<Rightarrow> nat option \<Rightarrow> sched" where
  "init_node s n parent = s(n := (s n)\<lparr>s_parent := parent, s_all_refs := [], s_queue := None\<rparr>)"

definition get_queue :: "sched \<Rightarrow> nat \<Rightarrow> nat sched_queue" where
  "get_queue s n = (case s_queue (s n) of None \<Rightarrow> queue_init | Some q \<Rightarrow> q)"

text \<open>\<^verbatim>\<open>queue_set\<close> on the queue of a node, and \<^verbatim>\<open>queue_unset\<close> wherever the reference is queued. \<^term>\<open>None\<close> is a failing \<^verbatim>\<open>assert\<close>.\<close>

definition set_in_queue :: "sched \<Rightarrow> nat \<Rightarrow> nat \<Rightarrow> sched option" where
  "set_in_queue s n ref =
    (if s_queued (s ref) then None
     else
       (case queue_set (get_queue s n) ref (s_deficit (s ref)) (s_weight (s ref)) of
          None \<Rightarrow> None
        | Some (q, d) \<Rightarrow>
            (let s1 = s(n := (s n)\<lparr>s_queue := Some q\<rparr>)
             in Some (s1(ref := (s1 ref)\<lparr>s_deficit := d, s_queued := True\<rparr>)))))"

definition unset_from_queue :: "sched \<Rightarrow> nat \<Rightarrow> sched option" where
  "unset_from_queue s ref =
    (if \<not> s_queued (s ref) then None
     else
       (let s1 = (\<lambda>n. (s n)\<lparr>s_queue := map_option (\<lambda>q. queue_unset q ref) (s_queue (s n))\<rparr>)
        in Some (s1(ref := (s1 ref)\<lparr>s_queued := False\<rparr>))))"

text \<open>\<open>_active_cnt\<close> is a \<^verbatim>\<open>size_t\<close>: counting down from zero wraps around.\<close>

partial_function (option) incr_active_cnt :: "sched \<Rightarrow> nat \<Rightarrow> sched option" where
  "incr_active_cnt s n =
    (case s_parent (s n) of
       None \<Rightarrow> Some s
     | Some parent \<Rightarrow>
         (let cnt = (s_active_cnt (s n) + 1) mod 2 ^ 64;
              s1 = s(n := (s n)\<lparr>s_active_cnt := cnt\<rparr>)
          in if cnt \<noteq> 1 then Some s1
             else
               (case set_in_queue s1 parent n of
                  None \<Rightarrow> None
                | Some s2 \<Rightarrow> incr_active_cnt s2 parent)))"

partial_function (option) decr_active_cnt :: "sched \<Rightarrow> nat \<Rightarrow> sched option" where
  "decr_active_cnt s n =
    (case s_parent (s n) of
       None \<Rightarrow> Some s
     | Some parent \<Rightarrow>
         (let cnt = (s_active_cnt (s n) + 2 ^ 64 - 1) mod 2 ^ 64;
              s1 = s(n := (s n)\<lparr>s_active_cnt := cnt\<rparr>)
          in if cnt \<noteq> 0 then Some s1
             else
               (case unset_from_queue s1 n of
                  None \<Rightarrow> None
                | Some s2 \<Rightarrow> decr_active_cnt s2 parent)))"

text \<open>Unlinking \<^verbatim>\<open>_all_link\<close> and linking it at the end of the list of a node.\<close>

definition unlink_ref :: "sched \<Rightarrow> nat \<Rightarrow> sched" where
  "unlink_ref s ref =
    (let s1 = (\<lambda>n. (s n)\<lparr>s_all_refs := removeAll ref (s_all_refs (s n))\<rparr>)
     in s1(ref := (s1 ref)\<lparr>s_open := False\<rparr>))"

definition link_ref :: "sched \<Rightarrow> nat \<Rightarrow> nat \<Rightarrow> sched" where
  "link_ref s n ref =
    (let s1 = s(n := (s n)\<lparr>s_all_refs := s_all_refs (s n) @ [ref]\<rparr>)
     in s1(ref := (s1 ref)\<lparr>s_open := True\<rparr>))"

text \<open>
  \<^verbatim>\<open>do_rebind\<close> up to the test of \<open>exclusive\<close>. \<^verbatim>\<open>convert_to_exclusive\<close> calls \<^verbatim>\<open>h2o_http2_scheduler_rebind\<close> without
  \<open>exclusive\<close> only, which is therefore defined first.
\<close>

definition do_rebind_plain :: "sched \<Rightarrow> nat \<Rightarrow> nat \<Rightarrow> sched option" where
  "do_rebind_plain s ref new_parent =
    (let s1 = link_ref (unlink_ref s ref) new_parent ref
     in case (if s_active_cnt (s1 ref) \<noteq> 0 then
                (case unset_from_queue s1 ref of
                   None \<Rightarrow> None
                 | Some s2 \<Rightarrow>
                     (case set_in_queue s2 new_parent ref of
                        None \<Rightarrow> None
                      | Some s3 \<Rightarrow>
                          (case s_parent (s3 ref) of
                             None \<Rightarrow> None
                           | Some parent \<Rightarrow>
                               (case decr_active_cnt s3 parent of
                                  None \<Rightarrow> None
                                | Some s4 \<Rightarrow> incr_active_cnt s4 new_parent))))
              else Some s1) of
          None \<Rightarrow> None
        | Some s5 \<Rightarrow> Some (s5(ref := (s5 ref)\<lparr>s_parent := Some new_parent\<rparr>)))"

text \<open>The search for \<open>ref\<close> above \<open>t\<close>.\<close>

partial_function (option) depends_on :: "sched \<Rightarrow> nat \<Rightarrow> nat \<Rightarrow> bool option" where
  "depends_on s ref t =
    (case s_parent (s t) of
       None \<Rightarrow> Some False
     | Some p \<Rightarrow> if p = ref then Some True else depends_on s ref p)"

definition rebind_plain :: "sched \<Rightarrow> nat \<Rightarrow> nat \<Rightarrow> nat \<Rightarrow> sched option" where
  "rebind_plain s ref new_parent weight =
    (let s1 = s(ref := (s ref)\<lparr>s_weight := weight\<rparr>)
     in case (if s_all_refs (s1 ref) \<noteq> [] then
                (case depends_on s1 ref new_parent of
                   None \<Rightarrow> None
                 | Some True \<Rightarrow>
                     (case s_parent (s1 ref) of None \<Rightarrow> None | Some parent \<Rightarrow> do_rebind_plain s1 new_parent parent)
                 | Some False \<Rightarrow> Some s1)
              else Some s1) of
          None \<Rightarrow> None
        | Some s2 \<Rightarrow> do_rebind_plain s2 ref new_parent)"

definition rebind_asserts :: "sched \<Rightarrow> nat \<Rightarrow> nat \<Rightarrow> nat \<Rightarrow> bool" where
  "rebind_asserts s ref new_parent weight \<longleftrightarrow> s_open (s ref) \<and> ref \<noteq> new_parent \<and> 1 \<le> weight \<and> weight \<le> 257"

partial_function (option) convert_to_exclusive :: "sched \<Rightarrow> nat \<Rightarrow> nat \<Rightarrow> sched option" where
  "convert_to_exclusive s parent added =
    (case s_all_refs (s parent) of
       [] \<Rightarrow> Some s
     | child # _ \<Rightarrow>
         if child = added then (if last (s_all_refs (s parent)) = added then Some s else None)
         else if \<not> rebind_asserts s child added (s_weight (s child)) then None
         else
           (case (if s_parent (s child) = Some added then Some s else rebind_plain s child added (s_weight (s child))) of
              None \<Rightarrow> None
            | Some s1 \<Rightarrow> convert_to_exclusive s1 parent added))"

definition h2o_http2_scheduler_rebind :: "sched \<Rightarrow> nat \<Rightarrow> nat \<Rightarrow> nat \<Rightarrow> bool \<Rightarrow> sched option" where
  "h2o_http2_scheduler_rebind s ref new_parent weight exclusive =
    (if \<not> rebind_asserts s ref new_parent weight then None
     else if s_parent (s ref) = Some new_parent \<and> s_weight (s ref) = weight \<and> \<not> exclusive then Some s
     else
       (case rebind_plain s ref new_parent weight of
          None \<Rightarrow> None
        | Some s1 \<Rightarrow> if exclusive then convert_to_exclusive s1 new_parent ref else Some s1))"

definition h2o_http2_scheduler_open :: "sched \<Rightarrow> nat \<Rightarrow> nat \<Rightarrow> nat \<Rightarrow> bool \<Rightarrow> sched option" where
  "h2o_http2_scheduler_open s ref parent weight exclusive =
    (let s1 = init_node s ref (Some parent);
         s2 = s1(ref := (s1 ref)\<lparr>s_weight := weight, s_open := False, s_active_cnt := 0, s_self_is_active := False,
           s_deficit := 0, s_queued := False, s_is_relocated := False\<rparr>);
         s3 = link_ref s2 parent ref
     in if exclusive then convert_to_exclusive s3 parent ref else Some s3)"

text \<open>The new weight of a child of a node that is closed; the arithmetic is that of \<^verbatim>\<open>uint32_t\<close> with a final \<^verbatim>\<open>uint16_t\<close>.\<close>

definition close_factor :: "nat \<Rightarrow> nat \<Rightarrow> nat" where
  "close_factor weight total_weight = (weight * 65536 + total_weight div 2) mod 2 ^ 32 div total_weight"

definition close_weight :: "nat \<Rightarrow> nat \<Rightarrow> nat" where
  "close_weight child_weight factor =
    (let weight = ((child_weight * factor) mod 2 ^ 32 div 32768 + 1) div 2 mod 2 ^ 16
     in if weight < 1 then 1 else if weight > 256 then 256 else weight)"

partial_function (option) close_children :: "sched \<Rightarrow> nat \<Rightarrow> nat \<Rightarrow> sched option" where
  "close_children s ref factor =
    (case (s_all_refs (s ref), s_parent (s ref)) of
       ([], _) \<Rightarrow> Some s
     | (_, None) \<Rightarrow> None
     | (child # _, Some parent) \<Rightarrow>
         (case h2o_http2_scheduler_rebind s child parent (close_weight (s_weight (s child)) factor) False of
            None \<Rightarrow> None
          | Some s1 \<Rightarrow> close_children s1 ref factor))"

definition h2o_http2_scheduler_close :: "sched \<Rightarrow> nat \<Rightarrow> sched option" where
  "h2o_http2_scheduler_close s ref =
    (if \<not> s_open (s ref) then None
     else
       (case (if s_all_refs (s ref) \<noteq> [] then
                (let total_weight = sum_list (map (\<lambda>c. s_weight (s c)) (s_all_refs (s ref))) mod 2 ^ 32
                 in if total_weight = 0 then None
                    else close_children s ref (close_factor (s_weight (s ref)) total_weight))
              else Some s) of
          None \<Rightarrow> None
        | Some s1 \<Rightarrow>
            (let s2 = unlink_ref (s1(ref := (s1 ref)\<lparr>s_queue := None\<rparr>)) ref
             in if s_self_is_active (s2 ref) then
                  (if s_active_cnt (s2 ref) \<noteq> 1 then None
                   else
                     (case unset_from_queue s2 ref of
                        None \<Rightarrow> None
                      | Some s3 \<Rightarrow> (case s_parent (s3 ref) of None \<Rightarrow> None | Some parent \<Rightarrow> decr_active_cnt s3 parent)))
                else if s_active_cnt (s2 ref) \<noteq> 0 then None
                else Some s2)))"

text \<open>
  Relocation puts \<open>dst\<close> in the place of \<open>src\<close> in every list. A list of children is moved as a whole; \<^term>\<open>None\<close> is a failing
  \<^verbatim>\<open>assert\<close> on a child or the use of the null link of a reference that is not open.
\<close>

definition replace_ref :: "nat \<Rightarrow> nat \<Rightarrow> nat \<Rightarrow> nat" where
  "replace_ref dst src x = (if x = src then dst else x)"

definition replace_in_queue :: "nat \<Rightarrow> nat \<Rightarrow> nat sched_queue \<Rightarrow> nat sched_queue" where
  "replace_in_queue dst src q =
    q\<lparr>q_anchors := map (map (replace_ref dst src)) (q_anchors q), q_anchor257 := map (replace_ref dst src) (q_anchor257 q)\<rparr>"

definition relocate_children :: "sched \<Rightarrow> nat \<Rightarrow> nat \<Rightarrow> sched option" where
  "relocate_children s dst src =
    (if s_all_refs (s src) \<noteq> [] then
       (if list_all (\<lambda>child. s_parent (s child) = Some src) (s_all_refs (s src)) then
          (let s1 = (\<lambda>n. if n \<in> set (s_all_refs (s src)) then (s n)\<lparr>s_parent := Some dst\<rparr> else s n);
               s2 = s1(dst := (s1 dst)\<lparr>s_all_refs := s_all_refs (s1 dst) @ s_all_refs (s1 src), s_queue := s_queue (s1 src)\<rparr>)
           in Some (s2(src := (s2 src)\<lparr>s_all_refs := [], s_queue := None\<rparr>)))
        else None)
     else Some (s(src := (s src)\<lparr>s_queue := None\<rparr>)))"

definition swap_links :: "sched \<Rightarrow> nat \<Rightarrow> nat \<Rightarrow> sched option" where
  "swap_links s dst src =
    (if \<not> s_open (s src) then None
     else
       (let s1 = (\<lambda>n. (s n)\<lparr>s_all_refs := map (replace_ref dst src) (s_all_refs (s n))\<rparr>);
            s2 = s1(dst := (s1 dst)\<lparr>s_open := True\<rparr>, src := (s1 src)\<lparr>s_open := False\<rparr>)
        in if s_queued (s2 src) then
             (let s3 = (\<lambda>n. (s2 n)\<lparr>s_queue := map_option (replace_in_queue dst src) (s_queue (s2 n))\<rparr>)
              in Some (s3(dst := (s3 dst)\<lparr>s_queued := True\<rparr>, src := (s3 src)\<lparr>s_queued := False\<rparr>)))
           else Some s2))"

definition h2o_http2_scheduler_relocate :: "sched \<Rightarrow> nat \<Rightarrow> nat \<Rightarrow> sched option" where
  "h2o_http2_scheduler_relocate s dst src =
    (let s1 = init_node s dst (s_parent (s src));
         s2 = s1(dst := (s1 dst)\<lparr>s_weight := s_weight (s1 src), s_open := False, s_active_cnt := s_active_cnt (s1 src),
           s_self_is_active := s_self_is_active (s1 src), s_deficit := s_deficit (s1 src), s_queued := False,
           s_is_relocated := True\<rparr>)
     in case relocate_children s2 dst src of
          None \<Rightarrow> None
        | Some s3 \<Rightarrow> swap_links s3 dst src)"

definition h2o_http2_scheduler_init :: "sched \<Rightarrow> nat \<Rightarrow> sched" where
  "h2o_http2_scheduler_init s root = init_node s root None"

definition h2o_http2_scheduler_dispose :: "sched \<Rightarrow> nat \<Rightarrow> sched" where
  "h2o_http2_scheduler_dispose s root = s(root := (s root)\<lparr>s_queue := None\<rparr>)"

definition h2o_http2_scheduler_deactivate :: "sched \<Rightarrow> nat \<Rightarrow> sched option" where
  "h2o_http2_scheduler_deactivate s ref =
    (if \<not> s_self_is_active (s ref) then Some s
     else decr_active_cnt (s(ref := (s ref)\<lparr>s_self_is_active := False\<rparr>)) ref)"

definition h2o_http2_scheduler_activate :: "sched \<Rightarrow> nat \<Rightarrow> sched option" where
  "h2o_http2_scheduler_activate s ref =
    (if s_self_is_active (s ref) then Some s
     else incr_active_cnt (s(ref := (s ref)\<lparr>s_self_is_active := True\<rparr>)) ref)"

text \<open>
  The callback is a parameter: from a state of its own and the reference it is called for, it gives the value to bail out with, whether the
  reference is still active, and its next state. It does not change the scheduler.
\<close>

type_synonym 'e run_cb = "'e \<Rightarrow> nat \<Rightarrow> int \<times> bool \<times> 'e"

text \<open>The end of \<^verbatim>\<open>proceed\<close>, once the callback has returned.\<close>

definition after_callback :: "sched \<Rightarrow> nat \<Rightarrow> nat \<Rightarrow> bool \<Rightarrow> sched option" where
  "after_callback s n ref still_is_active =
    (if still_is_active then set_in_queue s n ref
     else
       (let cnt = (s_active_cnt (s ref) + 2 ^ 64 - 1) mod 2 ^ 64;
            s1 = s(ref := (s ref)\<lparr>s_self_is_active := False, s_active_cnt := cnt\<rparr>)
        in if cnt \<noteq> 0 then set_in_queue s1 n ref
           else (case s_parent (s1 ref) of None \<Rightarrow> Some s1 | Some parent \<Rightarrow> decr_active_cnt s1 parent)))"

partial_function (option) proceed :: "'e run_cb \<Rightarrow> sched \<Rightarrow> 'e \<Rightarrow> nat \<Rightarrow> (int \<times> sched \<times> 'e) option" where
  "proceed cb s e n =
    (case s_queue (s n) of
       None \<Rightarrow> Some (0, s, e)
     | Some q \<Rightarrow>
         (case queue_pop q of
            (None, q1) \<Rightarrow> Some (0, s(n := (s n)\<lparr>s_queue := Some q1\<rparr>), e)
          | (Some ref, q1) \<Rightarrow>
              (let s1 = s(n := (s n)\<lparr>s_queue := Some q1\<rparr>);
                   s2 = s1(ref := (s1 ref)\<lparr>s_queued := False\<rparr>)
               in if \<not> s_self_is_active (s2 ref) then
                    (case set_in_queue s2 n ref of None \<Rightarrow> None | Some s3 \<Rightarrow> proceed cb s3 e ref)
                  else if s_active_cnt (s2 ref) = 0 then None
                  else
                    (case cb e ref of
                       (bail_out, still_is_active, e1) \<Rightarrow>
                         (case after_callback s2 n ref still_is_active of
                            None \<Rightarrow> None
                          | Some s3 \<Rightarrow> Some (bail_out, s3, e1))))))"

partial_function (option) h2o_http2_scheduler_run :: "'e run_cb \<Rightarrow> sched \<Rightarrow> 'e \<Rightarrow> nat \<Rightarrow> (int \<times> sched \<times> 'e) option" where
  "h2o_http2_scheduler_run cb s e root =
    (case s_queue (s root) of
       None \<Rightarrow> Some (0, s, e)
     | Some q \<Rightarrow>
         if queue_is_empty q then Some (0, s, e)
         else
           (case proceed cb s e root of
              None \<Rightarrow> None
            | Some (bail_out, s1, e1) \<Rightarrow>
                if bail_out \<noteq> 0 then Some (bail_out, s1, e1) else h2o_http2_scheduler_run cb s1 e1 root))"

definition h2o_http2_scheduler_is_active :: "sched \<Rightarrow> nat \<Rightarrow> bool" where
  "h2o_http2_scheduler_is_active s root =
    (case s_queue (s root) of None \<Rightarrow> False | Some q \<Rightarrow> \<not> queue_is_empty q)"

partial_function (option) h2o_http2_scheduler_find_parent_by_weight :: "sched \<Rightarrow> nat \<Rightarrow> nat \<Rightarrow> nat option" where
  "h2o_http2_scheduler_find_parent_by_weight s n new_weight =
    (case s_all_refs (s n) of
       [] \<Rightarrow> Some n
     | child # _ \<Rightarrow>
         if \<not> s_is_relocated (s child) \<and> s_weight (s child) < new_weight then Some n
         else h2o_http2_scheduler_find_parent_by_weight s child new_weight)"

end
