(* ===== verification/Sched_Tree.thy ===== *)
theory Sched_Tree
  imports Scheduler "HOL-Library.Multiset"
begin

text \<open>
  The invariant of the dependency tree of \<^verbatim>\<open>lib/http2/scheduler.c\<close> and what counting active nodes does to it. It ties the parent pointers, the
  lists of children, the counters of active nodes and the queues together.
\<close>

section \<open>What a queue holds\<close>

definition entries_of :: "'a sched_queue \<Rightarrow> 'a list" where
  "entries_of q = q_anchor257 q @ concat (view q)"

definition queue_holds :: "'a sched_queue option \<Rightarrow> 'a set \<Rightarrow> bool" where
  "queue_holds qo A \<longleftrightarrow>
    (case qo of None \<Rightarrow> A = {} | Some q \<Rightarrow> queue_inv q \<and> distinct (entries_of q) \<and> set (entries_of q) = A)"

lemma queue_holds_None [simp]: "queue_holds None A \<longleftrightarrow> A = {}"
  by (simp add: queue_holds_def)

lemma queue_holds_init [simp]: "queue_holds (Some queue_init) {}"
  by (simp add: queue_holds_def entries_of_def)

lemma mset_concat_update:
  "i < length ss \<Longrightarrow> mset (concat (ss[i := l])) + mset (ss ! i) = mset (concat ss) + mset l"
  by (induction ss arbitrary: i) (auto simp: nth_Cons ac_simps split: nat.split)

lemma mset_concat_rotate: "mset (concat (rotate k ss)) = mset (concat ss)"
proof -
  have "mset (concat (take m ss @ drop m ss)) = mset (concat (drop m ss @ take m ss))" for m
    by (simp only: concat_append mset_append add.commute)
  then show ?thesis by (simp add: rotate_drop_take del: concat_append mset_append)
qed

lemma distinct_set_mset: "mset xs = add_mset x (mset ys) \<Longrightarrow> distinct xs \<longleftrightarrow> x \<notin> set ys \<and> distinct ys"
  by (metis distinct.simps(2) mset.simps(2) mset_eq_imp_distinct_iff)

lemma set_mset_add: "mset xs = add_mset x (mset ys) \<Longrightarrow> set xs = insert x (set ys)"
  by (metis set_mset_add_mset_insert set_mset_mset)

lemma queue_set_holds:
  assumes "queue_holds (Some q) A" "x \<notin> A" "1 \<le> w" "w \<le> 257" "d < 65536"
  obtains q' d' where "queue_set q x d w = Some (q', d')" "d' < 65536" "queue_holds (Some q') (insert x A)"
proof (cases "w = 257")
  case True
  have "queue_inv (q\<lparr>q_anchor257 := q_anchor257 q @ [x]\<rparr>)"
    using assms(1) by (simp add: queue_holds_def queue_inv_def)
  then show ?thesis
    using that [of "q\<lparr>q_anchor257 := q_anchor257 q @ [x]\<rparr>" d] True assms(1,2,5)
    by (auto simp: queue_set_def queue_holds_def entries_of_def)
next
  case False
  let ?o = "(OFFSET_TABLE ! (w - 1) + d) div 65536"
  have inv: "queue_inv q" using assms(1) by (simp add: queue_holds_def)
  obtain q' where q': "queue_set q x d w = Some (q', (OFFSET_TABLE ! (w - 1) + d) mod 65536)" "queue_inv q'"
    "q_anchor257 q' = q_anchor257 q" "view q' = (view q)[?o := view q ! ?o @ [x]]"
    using queue_set_correct [OF inv assms(3) _ assms(5), of x] False assms(4) by auto
  have "OFFSET_TABLE ! (w - 1) \<le> 4128768" using offset_table_bounds [of "w - 1"] assms(3,4) False by simp
  then have "?o < 64" using assms(5) by simp
  then have "mset (entries_of q') = add_mset x (mset (entries_of q))"
    using mset_concat_update [of ?o "view q" "view q ! ?o @ [x]"] q'(3,4) by (simp add: entries_of_def)
  then have "queue_holds (Some q') (insert x A)"
    using assms(1,2) q'(2) distinct_set_mset set_mset_add by (fastforce simp: queue_holds_def)
  then show ?thesis using that q'(1) by simp
qed

lemma get_queue_set_holds:
  assumes "queue_holds (s_queue (s n)) A" "x \<notin> A" "1 \<le> w" "w \<le> 257" "d < 65536"
  obtains q' d' where "queue_set (get_queue s n) x d w = Some (q', d')" "d' < 65536" "queue_holds (Some q') (insert x A)"
proof -
  have "queue_holds (Some (get_queue s n)) A"
    using assms(1) by (cases "s_queue (s n)") (auto simp: get_queue_def)
  from queue_set_holds [OF this assms(2-5)] that show ?thesis by blast
qed

lemma concat_removeAll: "concat (map (removeAll x) ss) = removeAll x (concat ss)"
  by (induction ss) auto

lemma queue_unset_holds:
  assumes "queue_holds qo A"
  shows "queue_holds (map_option (\<lambda>q. queue_unset q x) qo) (A - {x})"
proof (cases qo)
  case (Some q)
  then have "queue_inv q" using assms by (simp add: queue_holds_def)
  note u = queue_unset_correct [OF this, of x]
  have "entries_of (queue_unset q x) = removeAll x (entries_of q)"
    unfolding entries_of_def u(2,3) concat_removeAll by simp
  then show ?thesis using assms Some u(1) by (auto simp: queue_holds_def distinct_removeAll)
qed (use assms in simp)

lemma queue_pop_holds:
  assumes "queue_holds (Some q) A"
  obtains (none) q' where "A = {}" "queue_pop q = (None, q')" "queue_holds (Some q') {}"
  | (some) x q' where "x \<in> A" "queue_pop q = (Some x, q')" "queue_holds (Some q') (A - {x})"
proof (cases "q_anchor257 q")
  case (Cons x r)
  have inv: "queue_inv q" using assms by (simp add: queue_holds_def)
  obtain q' where q': "queue_pop q = (Some x, q')" "queue_inv q'" "q_anchor257 q' = r" "view q' = view q"
    using wrr.pop_urgent [OF inv Cons] by blast
  then have "entries_of q = x # entries_of q'" using Cons by (simp add: entries_of_def)
  then show ?thesis using some [of x q'] q' assms by (auto simp: queue_holds_def)
next
  case Nil
  have inv: "queue_inv q" using assms by (simp add: queue_holds_def)
  obtain r q' where q': "queue_pop q = (r, q')" "queue_inv q'" "q_anchor257 q' = []" "(r, view q') = slots_pop (view q)"
    using wrr.pop_slots [OF inv Nil] by blast
  show ?thesis
  proof (cases "view q" rule: slots_cases)
    case empty
    then have "r = None" "view q' = view q" using q'(4) slots_pop_None [OF empty] by simp_all
    moreover have "entries_of q = []" using empty Nil by (simp add: entries_of_def)
    ultimately have "entries_of q' = []" "A = {}"
      using q'(3) assms Nil by (auto simp: queue_holds_def entries_of_def)
    then show ?thesis using none [of q'] q'(1,2) \<open>r = None\<close> by (simp add: queue_holds_def)
  next
    case (slot z x t)
    then have v: "r = Some x" "view q' = (rotate z (view q))[0 := t]" using q'(4) slots_pop_Some [OF slot] by simp_all
    have "rotate z (view q) ! 0 = x # t" using slot by (simp add: nth_rotate)
    then have "mset (concat (view q')) + mset (x # t) = mset (concat (view q)) + mset t"
      using mset_concat_update [of 0 "rotate z (view q)" t] v(2) by (simp add: mset_concat_rotate)
    then have m: "mset (entries_of q) = add_mset x (mset (entries_of q'))"
      using Nil q'(3) by (simp add: entries_of_def)
    then show ?thesis
      using some [of x q'] v(1) q'(1,2) assms distinct_set_mset [OF m] set_mset_add [OF m] by (auto simp: queue_holds_def)
  qed
qed

lemma queue_is_empty_holds: "queue_holds (Some q) A \<Longrightarrow> queue_is_empty q \<Longrightarrow> A = {}"
  by (auto simp: queue_holds_def queue_is_empty_def entries_of_def queue_inv_def in_set_conv_nth)

section \<open>The invariant\<close>

text \<open>
  The structure is described over a parent function \<open>par\<close>, which runs ahead of the pointers while a reference is being moved. \<open>V\<close> is the set
  of the nodes in the tree and \<open>r\<close> its root.
\<close>

definition parent_rel :: "(nat \<Rightarrow> nat option) \<Rightarrow> nat set \<Rightarrow> (nat \<times> nat) set" where
  "parent_rel par V = {(n, p). n \<in> V \<and> par n = Some p}"

definition tree :: "(nat \<Rightarrow> nat option) \<Rightarrow> nat set \<Rightarrow> nat \<Rightarrow> bool" where
  "tree par V r \<longleftrightarrow> finite V \<and> card V \<le> 2 ^ 23 \<and> r \<in> V \<and> par r = None \<and> (\<forall>n \<in> V - {r}. \<exists>p \<in> V. par n = Some p) \<and>
    acyclic (parent_rel par V)"

definition linked :: "(nat \<Rightarrow> nat option) \<Rightarrow> nat set \<Rightarrow> nat \<Rightarrow> sched \<Rightarrow> bool" where
  "linked par V r s \<longleftrightarrow>
    (\<forall>n \<in> V. distinct (s_all_refs (s n)) \<and> set (s_all_refs (s n)) = {c \<in> V. par c = Some n}) \<and> (\<forall>n \<in> V - {r}. s_open (s n))"

definition active_children :: "(nat \<Rightarrow> nat option) \<Rightarrow> nat set \<Rightarrow> sched \<Rightarrow> nat \<Rightarrow> nat set" where
  "active_children par V s n = {c \<in> V. par c = Some n \<and> s_active_cnt (s c) \<noteq> 0}"

text \<open>The counter of a node counts its active children and the node itself; \<open>\<delta>\<close> is what is still to be added to it.\<close>

definition counted :: "(nat \<Rightarrow> nat option) \<Rightarrow> nat set \<Rightarrow> (nat \<Rightarrow> int) \<Rightarrow> sched \<Rightarrow> nat \<Rightarrow> bool" where
  "counted par V \<delta> s n \<longleftrightarrow>
    int (s_active_cnt (s n)) + \<delta> n = of_bool (s_self_is_active (s n)) + int (card (active_children par V s n))"

definition ref_ok :: "sched_ref \<Rightarrow> bool" where
  "ref_ok x \<longleftrightarrow> (s_queued x \<longleftrightarrow> s_active_cnt x \<noteq> 0) \<and> 1 \<le> s_weight x \<and> s_weight x \<le> 257 \<and> s_deficit x < 65536"

definition acts :: "(nat \<Rightarrow> nat option) \<Rightarrow> nat set \<Rightarrow> nat \<Rightarrow> (nat \<Rightarrow> int) \<Rightarrow> sched \<Rightarrow> bool" where
  "acts par V r \<delta> s \<longleftrightarrow> (\<forall>n \<in> V - {r}. counted par V \<delta> s n \<and> ref_ok (s n)) \<and>
    (\<forall>n \<in> V. queue_holds (s_queue (s n)) (active_children par V s n))"

definition sched_ok :: "nat \<Rightarrow> nat set \<Rightarrow> sched \<Rightarrow> bool" where
  "sched_ok r V s \<longleftrightarrow> tree (s_parent \<circ> s) V r \<and> linked (s_parent \<circ> s) V r s \<and> acts (s_parent \<circ> s) V r (\<lambda>_. 0) s"

text \<open>The fields that counting does not change.\<close>

definition same_links :: "sched \<Rightarrow> sched \<Rightarrow> bool" where
  "same_links s s' \<longleftrightarrow> (\<forall>n. s_parent (s' n) = s_parent (s n) \<and> s_all_refs (s' n) = s_all_refs (s n) \<and>
    s_weight (s' n) = s_weight (s n) \<and> s_open (s' n) = s_open (s n) \<and> s_self_is_active (s' n) = s_self_is_active (s n) \<and>
    s_is_relocated (s' n) = s_is_relocated (s n))"

lemma same_links_refl [simp]: "same_links s s"
  by (simp add: same_links_def)

lemma same_links_trans: "same_links s s' \<Longrightarrow> same_links s' s'' \<Longrightarrow> same_links s s''"
  by (simp add: same_links_def)

lemma same_linksD:
  assumes "same_links s s'"
  shows "s_parent (s' n) = s_parent (s n)" "s_all_refs (s' n) = s_all_refs (s n)" "s_weight (s' n) = s_weight (s n)"
    "s_open (s' n) = s_open (s n)" "s_self_is_active (s' n) = s_self_is_active (s n)" "s_is_relocated (s' n) = s_is_relocated (s n)"
  using assms by (simp_all add: same_links_def)

section \<open>Trees\<close>

lemma tree_root: "tree par V r \<Longrightarrow> par r = None" "tree par V r \<Longrightarrow> r \<in> V" "tree par V r \<Longrightarrow> finite V"
  by (simp_all add: tree_def)

lemma tree_parent:
  assumes "tree par V r" "n \<in> V" "n \<noteq> r"
  obtains p where "p \<in> V" "par n = Some p" "p \<noteq> n" "(n, p) \<in> parent_rel par V"
proof -
  obtain p where p: "p \<in> V" "par n = Some p" using assms by (auto simp: tree_def)
  then have "(n, p) \<in> parent_rel par V" using assms(2) by (simp add: parent_rel_def)
  moreover from this have "p \<noteq> n" using assms(1) by (auto simp: tree_def acyclic_def)
  ultimately show ?thesis using that p by blast
qed

lemma finite_parent_rel: "finite V \<Longrightarrow> finite (parent_rel par V)"
proof -
  assume "finite V"
  moreover have "parent_rel par V \<subseteq> (\<lambda>n. (n, the (par n))) ` V" by (auto simp: parent_rel_def image_iff)
  ultimately show ?thesis by (meson finite_imageI finite_subset)
qed

lemma tree_wf: "tree par V r \<Longrightarrow> wf ((parent_rel par V)\<inverse>)"
  by (simp add: finite_parent_rel finite_acyclic_wf_converse tree_def)

text \<open>Induction from the root towards the leaves.\<close>

lemma tree_induct [consumes 2, case_names root node]:
  assumes t: "tree par V r" and "x \<in> V" and root: "P r"
    and node: "\<And>n p. n \<in> V \<Longrightarrow> n \<noteq> r \<Longrightarrow> par n = Some p \<Longrightarrow> p \<in> V \<Longrightarrow> p \<noteq> n \<Longrightarrow> P p \<Longrightarrow> P n"
  shows "P x"
  using tree_wf [OF t] \<open>x \<in> V\<close>
proof (induction x rule: wf_induct_rule)
  case (less x)
  show ?case
  proof (cases "x = r")
    case False
    then obtain p where "p \<in> V" "par x = Some p" "p \<noteq> x" "(x, p) \<in> parent_rel par V"
      using tree_parent [OF t less(2)] by blast
    then show ?thesis using node [of x p] less(2) less(1) [of p] False by simp
  qed (use root in simp)
qed

definition above :: "(nat \<Rightarrow> nat option) \<Rightarrow> nat set \<Rightarrow> nat \<Rightarrow> nat \<Rightarrow> bool" where
  "above par V x y \<longleftrightarrow> (x, y) \<in> (parent_rel par V)\<^sup>*"

lemma above_refl [simp]: "above par V x x"
  by (simp add: above_def)

lemma above_step: "par x = Some p \<Longrightarrow> x \<in> V \<Longrightarrow> above par V x y \<longleftrightarrow> y = x \<or> above par V p y"
proof -
  assume "par x = Some p" "x \<in> V"
  then have "(x, z) \<in> parent_rel par V \<longleftrightarrow> z = p" for z by (auto simp: parent_rel_def)
  then show ?thesis unfolding above_def by (metis converse_rtranclE converse_rtrancl_into_rtrancl rtrancl.rtrancl_refl)
qed

lemma above_root: "par r = None \<Longrightarrow> above par V r y \<longleftrightarrow> y = r"
proof -
  assume "par r = None"
  then have "(r, z) \<notin> parent_rel par V" for z by (simp add: parent_rel_def)
  then show ?thesis unfolding above_def by (metis converse_rtranclE rtrancl.rtrancl_refl)
qed

lemma above_trans: "above par V x y \<Longrightarrow> above par V y z \<Longrightarrow> above par V x z"
  by (auto simp: above_def)

lemma above_parent_False: "tree par V r \<Longrightarrow> n \<in> V \<Longrightarrow> par n = Some p \<Longrightarrow> \<not> above par V p n"
proof
  assume "tree par V r" "n \<in> V" "par n = Some p" "above par V p n"
  then have "(n, p) \<in> parent_rel par V" "(p, n) \<in> (parent_rel par V)\<^sup>*" by (simp_all add: parent_rel_def above_def)
  then have "(n, n) \<in> (parent_rel par V)\<^sup>+" by (rule rtrancl_into_trancl2)
  then show False using \<open>tree par V r\<close> by (simp add: tree_def acyclic_def)
qed

lemma above_update:
  assumes "above (par(n := y)) V x n"
  shows "above par V x n"
  using assms unfolding above_def
proof (induction rule: converse_rtrancl_induct)
  case (step x z)
  then show ?case
    by (cases "x = n") (auto simp: parent_rel_def intro: converse_rtrancl_into_rtrancl)
qed simp

lemma above_update_other:
  assumes "\<not> above par V x n"
  shows "above (par(n := y)) V x z \<longleftrightarrow> above par V x z"
proof
  assume "above (par(n := y)) V x z"
  then show "above par V x z"
    using assms unfolding above_def
  proof (induction rule: converse_rtrancl_induct)
    case (step x w)
    have "x \<noteq> n" using step.prems by auto
    then have e: "(x, w) \<in> parent_rel par V" using step.hyps(1) by (simp add: parent_rel_def)
    then have "(w, n) \<notin> (parent_rel par V)\<^sup>*" using step.prems converse_rtrancl_into_rtrancl by metis
    then show ?case using step.IH e by (meson converse_rtrancl_into_rtrancl)
  qed simp
next
  assume "above par V x z"
  then show "above (par(n := y)) V x z"
    using assms unfolding above_def
  proof (induction rule: converse_rtrancl_induct)
    case (step x w)
    have "x \<noteq> n" using step.prems by auto
    then have e: "(x, w) \<in> parent_rel (par(n := y)) V" using step.hyps(1) by (simp add: parent_rel_def)
    have "(w, n) \<notin> (parent_rel par V)\<^sup>*" using step.prems step.hyps(1) converse_rtrancl_into_rtrancl by metis
    then show ?case using step.IH e by (meson converse_rtrancl_into_rtrancl)
  qed simp
qed

lemma tree_update:
  assumes "tree par V r" "n \<in> V" "n \<noteq> r" "m \<in> V" "\<not> above par V m n"
  shows "tree (par(n := Some m)) V r"
proof -
  have "parent_rel (par(n := Some m)) V \<subseteq> insert (n, m) (parent_rel par V)"
    by (auto simp: parent_rel_def split: if_splits)
  moreover have "acyclic (insert (n, m) (parent_rel par V))"
    using assms(1,5) by (simp add: tree_def above_def)
  ultimately show ?thesis
    using assms by (auto simp: tree_def intro: acyclic_subset)
qed

section \<open>Queueing\<close>

lemma set_in_queue_ok:
  assumes "queue_holds (s_queue (s p)) A" "x \<notin> A" "p \<noteq> x" "\<not> s_queued (s x)" "1 \<le> s_weight (s x)" "s_weight (s x) \<le> 257"
    "s_deficit (s x) < 65536"
  obtains q d where "set_in_queue s p x = Some (s(p := (s p)\<lparr>s_queue := Some q\<rparr>, x := (s x)\<lparr>s_deficit := d, s_queued := True\<rparr>))"
    "d < 65536" "queue_holds (Some q) (insert x A)"
proof -
  obtain q d where "queue_set (get_queue s p) x (s_deficit (s x)) (s_weight (s x)) = Some (q, d)" "d < 65536"
    "queue_holds (Some q) (insert x A)"
    using get_queue_set_holds [where s = s and n = p, OF assms(1,2,5,6,7)] by blast
  then show ?thesis using that [of q d] assms(3,4) by (simp add: set_in_queue_def Let_def)
qed

definition dequeued :: "sched \<Rightarrow> nat \<Rightarrow> sched" where
  "dequeued s x = (\<lambda>n. (s n)\<lparr>s_queue := map_option (\<lambda>q. queue_unset q x) (s_queue (s n)), s_queued := (n \<noteq> x \<and> s_queued (s n))\<rparr>)"

lemma unset_from_queue_ok: "s_queued (s x) \<Longrightarrow> unset_from_queue s x = Some (dequeued s x)"
  by (auto simp: unset_from_queue_def dequeued_def Let_def fun_eq_iff)

lemma dequeued_links [simp]: "same_links s (dequeued s x)"
  by (simp add: same_links_def dequeued_def)

section \<open>Counting\<close>

lemma active_children_cong:
  "(\<And>c. c \<in> V \<Longrightarrow> s_active_cnt (s' c) = 0 \<longleftrightarrow> s_active_cnt (s c) = 0) \<Longrightarrow> active_children par V s' n = active_children par V s n"
  unfolding active_children_def by (rule Collect_cong) metis

lemma active_children_on:
  assumes "x \<in> V" "par x = Some p" "s_active_cnt (s' x) \<noteq> 0" "\<And>c. c \<noteq> x \<Longrightarrow> s_active_cnt (s' c) = s_active_cnt (s c)"
  shows "active_children par V s' n = (if n = p then insert x (active_children par V s n) else active_children par V s n)"
proof (rule set_eqI)
  show "c \<in> active_children par V s' n \<longleftrightarrow> c \<in> (if n = p then insert x (active_children par V s n) else active_children par V s n)" for c
    using assms by (cases "c = x") (simp_all add: active_children_def)
qed

lemma active_children_off:
  assumes "x \<in> V" "par x = Some p" "s_active_cnt (s' x) = 0" "\<And>c. c \<noteq> x \<Longrightarrow> s_active_cnt (s' c) = s_active_cnt (s c)"
  shows "active_children par V s' n = (if n = p then active_children par V s n - {x} else active_children par V s n)"
proof (rule set_eqI)
  show "c \<in> active_children par V s' n \<longleftrightarrow> c \<in> (if n = p then active_children par V s n - {x} else active_children par V s n)" for c
    using assms by (cases "c = x") (simp_all add: active_children_def)
qed

lemma finite_active_children: "finite V \<Longrightarrow> finite (active_children par V s n)"
  by (simp add: active_children_def)

lemma card_active_children: "tree par V r \<Longrightarrow> card (active_children par V s n) \<le> 2 ^ 23"
proof -
  assume "tree par V r"
  then have "finite V" "card V \<le> 2 ^ 23" by (simp_all add: tree_def)
  moreover have "active_children par V s n \<subseteq> V" by (auto simp: active_children_def)
  ultimately show ?thesis by (meson card_mono le_trans)
qed

lemma actsD:
  assumes "acts par V r \<delta> s"
  shows "n \<in> V \<Longrightarrow> n \<noteq> r \<Longrightarrow> counted par V \<delta> s n" "n \<in> V \<Longrightarrow> n \<noteq> r \<Longrightarrow> ref_ok (s n)"
    "n \<in> V \<Longrightarrow> queue_holds (s_queue (s n)) (active_children par V s n)"
  using assms by (auto simp: acts_def)

lemma acts_root: "acts par V r (\<delta>(r := d)) s \<longleftrightarrow> acts par V r \<delta> s"
  by (auto simp: acts_def counted_def)

lemma cnt_bound:
  assumes "tree par V r" "acts par V r \<delta> s" "n \<in> V" "n \<noteq> r" "-2 \<le> \<delta> n"
  shows "s_active_cnt (s n) < 2 ^ 24"
  using card_active_children [OF assms(1), of s n] actsD(1) [OF assms(2-4)] assms(5) unfolding counted_def
  by (cases "s_self_is_active (s n)") simp_all

text \<open>A node that changes to active is queued at its parent, whose counter is then one behind.\<close>

lemma acts_on:
  assumes t: "tree par V r" and a: "acts par V r (\<delta>(x := \<delta> x + 1)) s" and x: "x \<in> V" "x \<noteq> r" "par x = Some p"
    and zero: "s_active_cnt (s x) = 0"
  obtains s' where "set_in_queue (s(x := (s x)\<lparr>s_active_cnt := 1\<rparr>)) p x = Some s'" "acts par V r (\<delta>(p := \<delta> p + 1)) s'"
    "same_links s s'" "\<And>n. n \<noteq> x \<Longrightarrow> s_active_cnt (s' n) = s_active_cnt (s n)"
proof -
  let ?s1 = "s(x := (s x)\<lparr>s_active_cnt := 1\<rparr>)"
  have p: "p \<in> V" "p \<noteq> x" using tree_parent [OF t x(1,2)] x(3) by auto
  have notin: "x \<notin> active_children par V s n" for n using zero by (simp add: active_children_def)
  have rok: "ref_ok (s x)" using actsD(2) [OF a x(1,2)] .
  have "queue_holds (s_queue (?s1 p)) (active_children par V s p)" using actsD(3) [OF a p(1)] p(2) by simp
  from set_in_queue_ok [where s = ?s1 and p = p and x = x, OF this notin p(2)] rok zero p(2)
  obtain q d where q: "set_in_queue ?s1 p x = Some (?s1(p := (?s1 p)\<lparr>s_queue := Some q\<rparr>, x := (?s1 x)\<lparr>s_deficit := d, s_queued := True\<rparr>))"
    "d < 65536" "queue_holds (Some q) (insert x (active_children par V s p))"
    by (auto simp: ref_ok_def)
  let ?s' = "?s1(p := (?s1 p)\<lparr>s_queue := Some q\<rparr>, x := (?s1 x)\<lparr>s_deficit := d, s_queued := True\<rparr>)"
  have cnt: "s_active_cnt (?s' n) = (if n = x then 1 else s_active_cnt (s n))" for n using p(2) by simp
  have ac: "active_children par V ?s' n = (if n = p then insert x (active_children par V s n) else active_children par V s n)" for n
    by (rule active_children_on [where x = x]) (use x cnt in auto)
  have "counted par V (\<delta>(p := \<delta> p + 1)) ?s' n" if n: "n \<in> V" "n \<noteq> r" for n
    using actsD(1) [OF a n] zero p(2) notin finite_active_children [of V] tree_root(3) [OF t] unfolding counted_def ac cnt
    by (cases "n = x"; cases "n = p") simp_all
  moreover have "ref_ok (?s' n)" if n: "n \<in> V" "n \<noteq> r" for n
    using actsD(2) [OF a n] q(2) p(2) by (cases "n = x"; cases "n = p") (simp_all add: ref_ok_def)
  moreover have "queue_holds (s_queue (?s' n)) (active_children par V ?s' n)" if "n \<in> V" for n
    using actsD(3) [OF a that] q(3) p(2) unfolding ac by (cases "n = x") simp_all
  ultimately have "acts par V r (\<delta>(p := \<delta> p + 1)) ?s'" by (simp only: acts_def) blast
  moreover have "same_links s ?s'" using p(2) by (simp add: same_links_def)
  ultimately show ?thesis using that [OF q(1)] cnt by presburger
qed

lemma acts_off:
  assumes t: "tree par V r" and a: "acts par V r (\<delta>(x := \<delta> x - 1)) s" and x: "x \<in> V" "x \<noteq> r" "par x = Some p"
    and one: "s_active_cnt (s x) = 1"
  obtains s' where "unset_from_queue (s(x := (s x)\<lparr>s_active_cnt := 0\<rparr>)) x = Some s'" "acts par V r (\<delta>(p := \<delta> p - 1)) s'"
    "same_links s s'" "\<And>n. n \<noteq> x \<Longrightarrow> s_active_cnt (s' n) = s_active_cnt (s n)"
proof -
  let ?s1 = "s(x := (s x)\<lparr>s_active_cnt := 0\<rparr>)"
  let ?s' = "dequeued ?s1 x"
  have p: "p \<in> V" "p \<noteq> x" using tree_parent [OF t x(1,2)] x(3) by auto
  have isin: "x \<in> active_children par V s p" using one x by (simp add: active_children_def)
  have notin: "x \<notin> active_children par V s n" if "n \<noteq> p" for n using that x(3) by (simp add: active_children_def)
  have "s_queued (?s1 x)" using actsD(2) [OF a x(1,2)] one by (simp add: ref_ok_def)
  note u = unset_from_queue_ok [where s = ?s1 and x = x, OF this]
  have cnt: "s_active_cnt (?s' n) = (if n = x then 0 else s_active_cnt (s n))" for n by (simp add: dequeued_def)
  have ac: "active_children par V ?s' n = (if n = p then active_children par V s n - {x} else active_children par V s n)" for n
    by (rule active_children_off [where x = x]) (use x cnt in auto)
  obtain k where k: "card (active_children par V s p) = Suc k" "card (active_children par V s p - {x}) = k"
    using isin finite_active_children [of V] tree_root(3) [OF t] by (metis card.remove)
  have self: "s_self_is_active (?s' n) = s_self_is_active (s n)" for n by (simp add: dequeued_def)
  have "counted par V (\<delta>(p := \<delta> p - 1)) ?s' n" if n: "n \<in> V" "n \<noteq> r" for n
    using actsD(1) [OF a n] one p(2) k unfolding counted_def ac cnt self
    by (cases "n = x"; cases "n = p") simp_all
  moreover have "ref_ok (?s' n)" if n: "n \<in> V" "n \<noteq> r" for n
    using actsD(2) [OF a n] by (cases "n = x") (simp_all add: ref_ok_def dequeued_def)
  moreover have "queue_holds (s_queue (?s' n)) (active_children par V ?s' n)" if "n \<in> V" for n
    using queue_unset_holds [OF actsD(3) [OF a that], of x] notin unfolding ac by (cases "n = p") (auto simp: dequeued_def)
  ultimately have "acts par V r (\<delta>(p := \<delta> p - 1)) ?s'" by (simp only: acts_def) blast
  moreover have "same_links s ?s'" by (simp add: same_links_def dequeued_def)
  ultimately show ?thesis using that [OF u] cnt by presburger
qed

lemma acts_still:
  assumes "acts par V r (\<delta>(x := \<delta> x + d)) s" "s_active_cnt (s x) \<noteq> 0" "c \<noteq> 0" "int c = int (s_active_cnt (s x)) + d"
  shows "acts par V r \<delta> (s(x := (s x)\<lparr>s_active_cnt := c\<rparr>))"
proof -
  let ?s' = "s(x := (s x)\<lparr>s_active_cnt := c\<rparr>)"
  have ac: "active_children par V ?s' n = active_children par V s n" for n
    by (rule active_children_cong) (use assms(2,3) in simp)
  have "counted par V \<delta> ?s' n" if n: "n \<in> V" "n \<noteq> r" for n
    using actsD(1) [OF assms(1) n] assms(4) unfolding counted_def ac by (cases "n = x") simp_all
  moreover have "ref_ok (?s' n)" if n: "n \<in> V" "n \<noteq> r" for n
    using actsD(2) [OF assms(1) n] assms(2,3) by (cases "n = x") (simp_all add: ref_ok_def)
  moreover have "queue_holds (s_queue (?s' n)) (active_children par V ?s' n)" if "n \<in> V" for n
    using actsD(3) [OF assms(1) that] unfolding ac by (cases "n = x") simp_all
  ultimately show ?thesis by (simp only: acts_def) blast
qed

text \<open>Counting up and down returns, and settles what was to be added at the node.\<close>

lemma incr_active_cnt_ok:
  assumes t: "tree par V r" and "x \<in> V" and "\<And>n. above par V x n \<Longrightarrow> s_parent (s n) = par n"
    and "acts par V r (\<delta>(x := \<delta> x + 1)) s" and low: "\<And>n. -1 \<le> \<delta> n"
  shows "\<exists>s'. incr_active_cnt s x = Some s' \<and> acts par V r \<delta> s' \<and> same_links s s' \<and>
    (\<forall>n. \<not> above par V x n \<longrightarrow> s_active_cnt (s' n) = s_active_cnt (s n))"
  using t assms(2-4)
proof (induction x arbitrary: s rule: tree_induct)
  case root
  then have "s_parent (s r) = None" using tree_root(1) [OF t] by simp
  moreover have "acts par V r \<delta> s" using root(2) by (simp only: acts_root)
  ultimately show ?case by (subst incr_active_cnt.simps) simp
next
  case (node x p)
  have par: "s_parent (s x) = Some p" using node.prems(1) node.hyps by simp
  have lt: "s_active_cnt (s x) < 2 ^ 24"
    using cnt_bound [OF t node.prems(2)] node.hyps low [of x] by simp
  then have m: "(s_active_cnt (s x) + 1) mod 2 ^ 64 = s_active_cnt (s x) + 1" by simp
  show ?case
  proof (cases "s_active_cnt (s x) = 0")
    case True
    obtain s2 where s2: "set_in_queue (s(x := (s x)\<lparr>s_active_cnt := 1\<rparr>)) p x = Some s2" "acts par V r (\<delta>(p := \<delta> p + 1)) s2"
      "same_links s s2" "\<And>n. n \<noteq> x \<Longrightarrow> s_active_cnt (s2 n) = s_active_cnt (s n)"
      using acts_on [OF t node.prems(2) node.hyps(1-3) True] by blast
    have ab: "above par V x n \<longleftrightarrow> n = x \<or> above par V p n" for n
      using above_step [of par x p V, OF node.hyps(3,1)] .
    have "s_parent (s2 n) = par n" if "above par V p n" for n
      using that node.prems(1) ab same_linksD(1) [OF s2(3)] by simp
    from node.IH [OF this s2(2)] obtain s' where s': "incr_active_cnt s2 p = Some s'" "acts par V r \<delta> s'" "same_links s2 s'"
      "\<forall>n. \<not> above par V p n \<longrightarrow> s_active_cnt (s' n) = s_active_cnt (s2 n)"
      by blast
    have "incr_active_cnt s x = Some s'"
      using par s2(1) s'(1) True by (subst incr_active_cnt.simps) simp
    then show ?thesis using s' s2(3,4) ab same_links_trans by auto
  next
    case False
    let ?s' = "s(x := (s x)\<lparr>s_active_cnt := s_active_cnt (s x) + 1\<rparr>)"
    have "incr_active_cnt s x = Some ?s'"
      using par False m by (subst incr_active_cnt.simps) (simp add: Let_def)
    moreover have "acts par V r \<delta> ?s'"
      using acts_still [OF node.prems(2) False] by simp
    moreover have "same_links s ?s'" by (simp add: same_links_def)
    moreover have "\<forall>n. \<not> above par V x n \<longrightarrow> s_active_cnt (?s' n) = s_active_cnt (s n)" by auto
    ultimately show ?thesis by blast
  qed
qed

lemma decr_active_cnt_ok:
  assumes t: "tree par V r" and "x \<in> V" and "\<And>n. above par V x n \<Longrightarrow> s_parent (s n) = par n"
    and "acts par V r (\<delta>(x := \<delta> x - 1)) s" and low: "\<And>n. -1 \<le> \<delta> n \<and> \<delta> n \<le> 1"
    and "\<And>n. \<delta> n = 1 \<Longrightarrow> \<exists>c \<in> V. par c = Some n \<and> s_active_cnt (s c) \<noteq> 0 \<and> \<not> above par V x c"
  shows "\<exists>s'. decr_active_cnt s x = Some s' \<and> acts par V r \<delta> s' \<and> same_links s s' \<and>
    (\<forall>n. \<not> above par V x n \<longrightarrow> s_active_cnt (s' n) = s_active_cnt (s n))"
  using t assms(2-4,6)
proof (induction x arbitrary: s rule: tree_induct)
  case root
  then have "s_parent (s r) = None" using tree_root(1) [OF t] by simp
  moreover have "acts par V r \<delta> s" using root(2) by (simp only: acts_root)
  ultimately show ?case by (subst decr_active_cnt.simps) simp
next
  case (node x p)
  have par: "s_parent (s x) = Some p" using node.prems(1) node.hyps by simp
  have lt: "s_active_cnt (s x) < 2 ^ 24"
    using cnt_bound [OF t node.prems(2)] node.hyps low [of x] by simp
  have pos: "0 < s_active_cnt (s x)"
  proof (cases "\<delta> x = 1")
    case True
    then obtain c where "c \<in> active_children par V s x" using node.prems(3) by (auto simp: active_children_def)
    then have "0 < card (active_children par V s x)"
      using finite_active_children [of V] tree_root(3) [OF t] by (auto simp: card_gt_0_iff)
    then show ?thesis
      using actsD(1) [OF node.prems(2) node.hyps(1,2)] True unfolding counted_def by (cases "s_self_is_active (s x)") simp_all
  next
    case False
    then have "\<delta> x \<le> 0" using low [of x] by linarith
    then show ?thesis
      using actsD(1) [OF node.prems(2) node.hyps(1,2)] unfolding counted_def by (cases "s_self_is_active (s x)") simp_all
  qed
  have m: "(s_active_cnt (s x) + 2 ^ 64 - 1) mod 2 ^ 64 = s_active_cnt (s x) - 1"
    using pos lt by (simp add: mod_if)
  have ab: "above par V x n \<longleftrightarrow> n = x \<or> above par V p n" for n
    using above_step [of par x p V, OF node.hyps(3,1)] .
  show ?case
  proof (cases "s_active_cnt (s x) = 1")
    case True
    obtain s2 where s2: "unset_from_queue (s(x := (s x)\<lparr>s_active_cnt := 0\<rparr>)) x = Some s2" "acts par V r (\<delta>(p := \<delta> p - 1)) s2"
      "same_links s s2" "\<And>n. n \<noteq> x \<Longrightarrow> s_active_cnt (s2 n) = s_active_cnt (s n)"
      using acts_off [OF t node.prems(2) node.hyps(1-3) True] by blast
    have up: "s_parent (s2 n) = par n" if "above par V p n" for n
      using that node.prems(1) ab same_linksD(1) [OF s2(3)] by simp
    have wit: "\<exists>c \<in> V. par c = Some n \<and> s_active_cnt (s2 c) \<noteq> 0 \<and> \<not> above par V p c" if "\<delta> n = 1" for n
      using node.prems(3) [OF that] ab s2(4) by metis
    from node.IH [OF up s2(2) wit] obtain s' where s': "decr_active_cnt s2 p = Some s'" "acts par V r \<delta> s'" "same_links s2 s'"
      "\<forall>n. \<not> above par V p n \<longrightarrow> s_active_cnt (s' n) = s_active_cnt (s2 n)"
      by blast
    have "decr_active_cnt s x = Some s'"
      using par s2(1) s'(1) True by (subst decr_active_cnt.simps) simp
    then show ?thesis using s' s2(3,4) ab same_links_trans by auto
  next
    case False
    let ?s' = "s(x := (s x)\<lparr>s_active_cnt := s_active_cnt (s x) - 1\<rparr>)"
    have "decr_active_cnt s x = Some ?s'"
      using par False m pos by (subst decr_active_cnt.simps) (simp add: Let_def)
    moreover have "acts par V r \<delta> ?s'"
      using acts_still [of par V r \<delta> x "-1" s] node.prems(2) False pos by simp
    moreover have "same_links s ?s'" by (simp add: same_links_def)
    moreover have "\<forall>n. \<not> above par V x n \<longrightarrow> s_active_cnt (?s' n) = s_active_cnt (s n)" by auto
    ultimately show ?thesis by blast
  qed
qed

section \<open>Moving a reference\<close>

lemma acts_cong:
  assumes "\<And>n. n \<in> V \<Longrightarrow> s_active_cnt (s' n) = s_active_cnt (s n) \<and> s_queue (s' n) = s_queue (s n)"
    and "\<And>n. n \<in> V \<Longrightarrow> n \<noteq> r \<Longrightarrow> s_self_is_active (s' n) = s_self_is_active (s n) \<and> (ref_ok (s n) \<longrightarrow> ref_ok (s' n))"
    and "acts par V r \<delta> s"
  shows "acts par V r \<delta> s'"
proof -
  have "active_children par V s' n = active_children par V s n" for n
    by (rule active_children_cong) (simp add: assms(1))
  then show ?thesis using assms by (simp add: acts_def counted_def)
qed

definition moved :: "sched \<Rightarrow> nat \<Rightarrow> nat \<Rightarrow> sched \<Rightarrow> bool" where
  "moved s ref np s' \<longleftrightarrow> (\<forall>n. s_parent (s' n) = (if n = ref then Some np else s_parent (s n)) \<and>
    s_all_refs (s' n) = removeAll ref (s_all_refs (s n)) @ (if n = np then [ref] else []) \<and> s_weight (s' n) = s_weight (s n) \<and>
    s_self_is_active (s' n) = s_self_is_active (s n) \<and> s_is_relocated (s' n) = s_is_relocated (s n) \<and>
    s_open (s' n) = (n = ref \<or> s_open (s n)))"

lemma movedD:
  assumes "moved s ref np s'"
  shows "s_parent \<circ> s' = (s_parent \<circ> s)(ref := Some np)"
    "s_all_refs (s' n) = removeAll ref (s_all_refs (s n)) @ (if n = np then [ref] else [])" "s_weight (s' n) = s_weight (s n)"
    "s_self_is_active (s' n) = s_self_is_active (s n)" "s_is_relocated (s' n) = s_is_relocated (s n)"
    "s_open (s' n) = (n = ref \<or> s_open (s n))"
  using assms by (auto simp: moved_def)

lemma linked_move:
  assumes "linked par V r s" "ref \<in> V" "np \<in> V"
    and "\<And>n. s_all_refs (s' n) = removeAll ref (s_all_refs (s n)) @ (if n = np then [ref] else [])"
    and "\<And>n. s_open (s' n) = (n = ref \<or> s_open (s n))"
  shows "linked (par(ref := Some np)) V r s'"
proof -
  have "distinct (s_all_refs (s' n)) \<and> set (s_all_refs (s' n)) = {c \<in> V. (par(ref := Some np)) c = Some n}" if n: "n \<in> V" for n
  proof -
    have "distinct (s_all_refs (s n))" "set (s_all_refs (s n)) = {c \<in> V. par c = Some n}"
      using assms(1) n by (simp_all add: linked_def)
    then show ?thesis unfolding assms(4) using assms(2) by (auto simp: distinct_removeAll)
  qed
  then show ?thesis using assms(1,5) by (auto simp: linked_def)
qed

lemma acts_move_inactive:
  assumes "acts par V r \<delta> s" "s_active_cnt (s ref) = 0"
  shows "acts (par(ref := y)) V r \<delta> s"
proof -
  have "active_children (par(ref := y)) V s n = active_children par V s n" for n
    using assms(2) by (auto simp: active_children_def)
  then show ?thesis using assms(1) by (simp add: acts_def counted_def)
qed

lemma acts_move_active:
  assumes t: "tree par V r" and a: "acts par V r (\<lambda>_. 0) s" and ref: "ref \<in> V" "ref \<noteq> r" "par ref = Some old" "s_active_cnt (s ref) \<noteq> 0"
    and np: "np \<in> V" "np \<noteq> ref"
  obtains s' where "set_in_queue (dequeued s ref) np ref = Some s'"
    "acts (par(ref := Some np)) V r (((\<lambda>_. 0)(np := 1))(old := ((\<lambda>_. 0)(np := 1)) old - 1)) s'" "same_links s s'"
    "\<And>n. s_active_cnt (s' n) = s_active_cnt (s n)"
proof -
  let ?d = "dequeued s ref" and ?par = "par(ref := Some np)" and ?ac = "active_children par V s"
  have old: "old \<in> V" "old \<noteq> ref" using tree_parent [OF t ref(1,2)] ref(3) by auto
  have rok: "ref_ok (s ref)" using actsD(2) [OF a ref(1,2)] .
  have dq: "queue_holds (s_queue (?d n)) (?ac n - {ref})" if "n \<in> V" for n
    using queue_unset_holds [OF actsD(3) [OF a that], of ref] by (simp add: dequeued_def)
  have d: "\<not> s_queued (?d ref)" "s_weight (?d ref) = s_weight (s ref)" "s_deficit (?d ref) = s_deficit (s ref)"
    by (simp_all add: dequeued_def)
  obtain q e where q: "set_in_queue ?d np ref = Some (?d(np := (?d np)\<lparr>s_queue := Some q\<rparr>, ref := (?d ref)\<lparr>s_deficit := e, s_queued := True\<rparr>))"
    "e < 65536" "queue_holds (Some q) (insert ref (?ac np - {ref}))"
    using set_in_queue_ok [where s = ?d and p = np and x = ref, OF dq [OF np(1)] _ np(2)] rok d by (auto simp: ref_ok_def)
  let ?s' = "?d(np := (?d np)\<lparr>s_queue := Some q\<rparr>, ref := (?d ref)\<lparr>s_deficit := e, s_queued := True\<rparr>)"
  have f: "s_active_cnt (?s' n) = s_active_cnt (s n)" "s_self_is_active (?s' n) = s_self_is_active (s n)" for n
    by (simp_all add: dequeued_def)
  have ac: "active_children ?par V ?s' n = (if n = np then insert ref (?ac n - {ref}) else ?ac n - {ref})" for n
    using ref np(2) unfolding active_children_def f by auto
  have notin: "ref \<notin> ?ac n" if "n \<noteq> old" for n using that ref(3) by (simp add: active_children_def)
  have fin: "finite (?ac n)" for n using finite_active_children [OF tree_root(3) [OF t]] .
  have isin: "ref \<in> ?ac old" using ref by (simp add: active_children_def)
  obtain k where k: "card (?ac old) = Suc k" "card (?ac old - {ref}) = k"
    using card.remove [OF fin isin] by simp
  have "counted ?par V (((\<lambda>_. 0)(np := 1))(old := ((\<lambda>_. 0)(np := 1)) old - 1)) ?s' n" if n: "n \<in> V" "n \<noteq> r" for n
    using actsD(1) [OF a n] k isin notin [of n] fin [of n] unfolding counted_def ac f
    by (cases "n = old"; cases "n = np") (simp_all add: card_insert_if)
  moreover have "ref_ok (?s' n)" if n: "n \<in> V" "n \<noteq> r" for n
    using actsD(2) [OF a n] q(2) ref(4) np(2) by (cases "n = ref"; cases "n = np") (simp_all add: ref_ok_def dequeued_def)
  moreover have "queue_holds (s_queue (?s' n)) (active_children ?par V ?s' n)" if "n \<in> V" for n
    using dq [OF that] q(3) np(2) unfolding ac by (cases "n = ref"; cases "n = np") simp_all
  ultimately have "acts ?par V r (((\<lambda>_. 0)(np := 1))(old := ((\<lambda>_. 0)(np := 1)) old - 1)) ?s'"
    by (simp only: acts_def) blast
  moreover have "same_links s ?s'" by (simp add: same_links_def dequeued_def)
  ultimately show ?thesis using that [OF q(1)] f(1) by presburger
qed

definition relinked :: "sched \<Rightarrow> nat \<Rightarrow> nat \<Rightarrow> sched" where
  "relinked s ref np = link_ref (unlink_ref s ref) np ref"

lemma relinked_simps:
  "s_parent (relinked s ref np n) = s_parent (s n)"
  "s_all_refs (relinked s ref np n) = removeAll ref (s_all_refs (s n)) @ (if n = np then [ref] else [])"
  "s_weight (relinked s ref np n) = s_weight (s n)" "s_self_is_active (relinked s ref np n) = s_self_is_active (s n)"
  "s_is_relocated (relinked s ref np n) = s_is_relocated (s n)" "s_open (relinked s ref np n) = (n = ref \<or> s_open (s n))"
  "s_active_cnt (relinked s ref np n) = s_active_cnt (s n)" "s_queue (relinked s ref np n) = s_queue (s n)"
  "ref_ok (relinked s ref np n) = ref_ok (s n)"
  by (auto simp: relinked_def link_ref_def unlink_ref_def Let_def ref_ok_def)

end
