(* ===== verification/Sched_Ops.thy ===== *)
theory Sched_Ops
  imports Sched_Tree
begin

text \<open>
  Every operation of \<^verbatim>\<open>lib/http2/scheduler.c\<close> keeps the invariant of the dependency tree, and none of its assertions fails. The tree that
  results from opening, moving and closing a reference is given by a specification on parent functions.
\<close>

section \<open>Moving a reference\<close>

lemma sched_okD:
  assumes "sched_ok r V s"
  shows "tree (s_parent \<circ> s) V r" "linked (s_parent \<circ> s) V r s" "acts (s_parent \<circ> s) V r (\<lambda>_. 0) s"
  using assms by (simp_all add: sched_ok_def)

lemma do_rebind_plain_ok:
  assumes ok: "sched_ok r V s" and ref: "ref \<in> V" "ref \<noteq> r" and np: "np \<in> V" "\<not> above (s_parent \<circ> s) V np ref"
  shows "\<exists>s'. do_rebind_plain s ref np = Some s' \<and> sched_ok r V s' \<and> moved s ref np s'"
proof -
  let ?par = "s_parent \<circ> s" and ?s1 = "relinked s ref np"
  let ?par' = "?par(ref := Some np)"
  note t = sched_okD(1) [OF ok]
  have ne: "np \<noteq> ref" using np(2) by auto
  have t': "tree ?par' V r" by (rule tree_update [OF t ref np])
  obtain old where old: "old \<in> V" "?par ref = Some old" using tree_parent [OF t ref] by metis
  have a1: "acts ?par V r (\<lambda>_. 0) ?s1"
    by (rule acts_cong [OF _ _ sched_okD(3) [OF ok]]) (simp_all add: relinked_simps)
  have "\<exists>s5. (if s_active_cnt (?s1 ref) \<noteq> 0 then
                (case unset_from_queue ?s1 ref of
                   None \<Rightarrow> None
                 | Some s2 \<Rightarrow>
                     (case set_in_queue s2 np ref of
                        None \<Rightarrow> None
                      | Some s3 \<Rightarrow>
                          (case s_parent (s3 ref) of
                             None \<Rightarrow> None
                           | Some parent \<Rightarrow>
                               (case decr_active_cnt s3 parent of
                                  None \<Rightarrow> None
                                | Some s4 \<Rightarrow> incr_active_cnt s4 np))))
              else Some ?s1) = Some s5 \<and> acts ?par' V r (\<lambda>_. 0) s5 \<and> same_links ?s1 s5"
  proof (cases "s_active_cnt (?s1 ref) = 0")
    case True
    then show ?thesis using acts_move_inactive [OF a1 True] by simp
  next
    case False
    let ?\<delta> = "(\<lambda>_. 0)(np := 1 :: int)"
    have u: "unset_from_queue ?s1 ref = Some (dequeued ?s1 ref)"
      using actsD(2) [OF a1 ref] False by (intro unset_from_queue_ok) (simp add: ref_ok_def)
    obtain s3 where s3: "set_in_queue (dequeued ?s1 ref) np ref = Some s3" "acts ?par' V r (?\<delta>(old := ?\<delta> old - 1)) s3"
      "same_links ?s1 s3" "\<And>n. s_active_cnt (s3 n) = s_active_cnt (?s1 n)"
      using acts_move_active [OF t a1 ref old(2) False np(1) ne] by metis
    have par3: "s_parent (s3 n) = ?par n" for n using same_linksD(1) [OF s3(3)] by (simp add: relinked_simps)
    have nold: "\<not> above ?par' V old ref"
      using above_update [of ?par ref "Some np" V old] above_parent_False [OF t ref(1) old(2)] by blast
    have nnp: "\<not> above ?par' V np ref" using above_update [of ?par ref "Some np" V np] np(2) by blast
    have "\<exists>s4. decr_active_cnt s3 old = Some s4 \<and> acts ?par' V r ?\<delta> s4 \<and> same_links s3 s4 \<and>
      (\<forall>n. \<not> above ?par' V old n \<longrightarrow> s_active_cnt (s4 n) = s_active_cnt (s3 n))"
    proof (rule decr_active_cnt_ok [OF t' old(1) _ s3(2)])
      show "s_parent (s3 n) = ?par' n" if "above ?par' V old n" for n
        using that nold par3 [of n] by (cases "n = ref") simp_all
      show "\<exists>c\<in>V. ?par' c = Some n \<and> s_active_cnt (s3 c) \<noteq> 0 \<and> \<not> above ?par' V old c" if "?\<delta> n = 1" for n
        using that ref(1) False nold s3(4) by (intro bexI [of _ ref]) (simp_all split: if_splits)
    qed simp
    then obtain s4 where s4: "decr_active_cnt s3 old = Some s4" "acts ?par' V r ?\<delta> s4" "same_links s3 s4" by blast
    have "\<exists>s5. incr_active_cnt s4 np = Some s5 \<and> acts ?par' V r (\<lambda>_. 0) s5 \<and> same_links s4 s5 \<and>
      (\<forall>n. \<not> above ?par' V np n \<longrightarrow> s_active_cnt (s5 n) = s_active_cnt (s4 n))"
    proof (rule incr_active_cnt_ok [OF t' np(1)])
      show "s_parent (s4 n) = ?par' n" if "above ?par' V np n" for n
        using that nnp par3 [of n] same_linksD(1) [OF s4(3), of n] by (cases "n = ref") simp_all
    qed (use s4(2) in simp_all)
    then obtain s5 where s5: "incr_active_cnt s4 np = Some s5" "acts ?par' V r (\<lambda>_. 0) s5" "same_links s4 s5" by blast
    have "same_links ?s1 s5" using s3(3) s4(3) s5(3) same_links_trans by blast
    moreover have "s_parent (s3 ref) = Some old" using par3 [of ref] old(2) by simp
    ultimately show ?thesis using False u s3(1) s4(1) s5(1,2) by simp
  qed
  then obtain s5 where s5: "do_rebind_plain s ref np = Some (s5(ref := (s5 ref)\<lparr>s_parent := Some np\<rparr>))"
    "acts ?par' V r (\<lambda>_. 0) s5" "same_links ?s1 s5"
    unfolding do_rebind_plain_def relinked_def [symmetric] Let_def by auto
  let ?s' = "s5(ref := (s5 ref)\<lparr>s_parent := Some np\<rparr>)"
  have mv: "moved s ref np ?s'"
    using same_linksD [OF s5(3)] by (simp add: moved_def relinked_simps)
  have "linked ?par' V r ?s'"
    using movedD(2,6) [OF mv] by (rule linked_move [OF sched_okD(2) [OF ok] ref(1) np(1)])
  moreover have "acts ?par' V r (\<lambda>_. 0) ?s'"
    by (rule acts_cong [OF _ _ s5(2)]) (auto simp: ref_ok_def)
  ultimately have "sched_ok r V ?s'"
    using t' unfolding sched_ok_def movedD(1) [OF mv] by blast
  then show ?thesis using s5(1) mv by blast
qed

lemma depends_on_ok:
  assumes t: "tree par V r" and "t \<in> V" and par: "\<And>n. s_parent (s n) = par n"
  shows "depends_on s ref t = Some (\<exists>p. par t = Some p \<and> above par V p ref)"
  using t assms(2)
proof (induction t rule: tree_induct)
  case root
  then show ?case using tree_root(1) [OF t] by (subst depends_on.simps) (simp add: par)
next
  case (node n p)
  have "above par V p ref \<longleftrightarrow> ref = p \<or> (\<exists>p'. par p = Some p' \<and> above par V p' ref)"
  proof (cases "par p")
    case None
    then show ?thesis using above_root [of par p V ref] by auto
  next
    case (Some p')
    then show ?thesis using above_step [of par p p' V ref] node.hyps(4) by auto
  qed
  then show ?case using node.IH node.hyps(3) by (subst depends_on.simps) (auto simp: par)
qed

lemma above_child:
  assumes "above par V x y" "x \<noteq> y"
  shows "\<exists>c \<in> V. par c = Some y"
proof -
  obtain c where "(c, y) \<in> parent_rel par V" using assms unfolding above_def by (meson rtranclE)
  then show ?thesis by (auto simp: parent_rel_def)
qed

text \<open>The tree after \<^verbatim>\<open>h2o_http2_scheduler_rebind\<close>, RFC 7540 section 5.3.3: a new parent below the moved node takes its place first.\<close>

definition spec_move :: "nat set \<Rightarrow> (nat \<Rightarrow> nat option) \<Rightarrow> nat \<Rightarrow> nat \<Rightarrow> nat \<Rightarrow> nat option" where
  "spec_move V par ref np = (if above par V np ref then par(np := par ref, ref := Some np) else par(ref := Some np))"

lemma sched_ok_weight:
  assumes "sched_ok r V s" "1 \<le> w" "w \<le> 257"
  shows "sched_ok r V (s(ref := (s ref)\<lparr>s_weight := w\<rparr>))"
proof -
  let ?s' = "s(ref := (s ref)\<lparr>s_weight := w\<rparr>)"
  have par: "s_parent \<circ> ?s' = s_parent \<circ> s" by auto
  have "linked (s_parent \<circ> s) V r ?s'"
    using sched_okD(2) [OF assms(1)] by (simp add: linked_def)
  moreover have "acts (s_parent \<circ> s) V r (\<lambda>_. 0) ?s'"
    by (rule acts_cong [OF _ _ sched_okD(3) [OF assms(1)]]) (use assms(2,3) in \<open>auto simp: ref_ok_def\<close>)
  ultimately show ?thesis
    using sched_okD(1) [OF assms(1)] unfolding sched_ok_def par by blast
qed

lemma linkedD:
  assumes "sched_ok r V s" "n \<in> V"
  shows "distinct (s_all_refs (s n))" "set (s_all_refs (s n)) = {c \<in> V. s_parent (s c) = Some n}" "n \<noteq> r \<Longrightarrow> s_open (s n)"
  using assms by (simp_all add: sched_ok_def linked_def)

text \<open>What moving keeps of the other fields.\<close>

definition reweighted :: "sched \<Rightarrow> nat \<Rightarrow> nat \<Rightarrow> sched \<Rightarrow> bool" where
  "reweighted s ref w s' \<longleftrightarrow> (\<forall>n. s_weight (s' n) = (if n = ref then w else s_weight (s n)) \<and>
    s_self_is_active (s' n) = s_self_is_active (s n) \<and> s_is_relocated (s' n) = s_is_relocated (s n))"

lemma rebind_plain_simple:
  assumes ok: "sched_ok r V s" and ref: "ref \<in> V" "ref \<noteq> r" and np: "np \<in> V" "\<not> above (s_parent \<circ> s) V np ref"
    and w: "1 \<le> w" "w \<le> 257"
  shows "\<exists>s'. rebind_plain s ref np w = Some s' \<and> sched_ok r V s' \<and> moved (s(ref := (s ref)\<lparr>s_weight := w\<rparr>)) ref np s'"
proof -
  let ?s1 = "s(ref := (s ref)\<lparr>s_weight := w\<rparr>)"
  have par: "s_parent \<circ> ?s1 = s_parent \<circ> s" by auto
  note ok1 = sched_ok_weight [OF ok w, of ref]
  have "np \<noteq> ref" using np(2) by auto
  then have "\<not> (\<exists>p. (s_parent \<circ> s) np = Some p \<and> above (s_parent \<circ> s) V p ref)"
    using np(2) above_step [of "s_parent \<circ> s" np _ V ref] np(1) by blast
  then have "depends_on ?s1 ref np = Some False"
    using depends_on_ok [OF sched_okD(1) [OF ok] np(1), of ?s1 ref] by simp
  moreover obtain s' where "do_rebind_plain ?s1 ref np = Some s'" "sched_ok r V s'" "moved ?s1 ref np s'"
    using do_rebind_plain_ok [OF ok1 ref np(1)] np(2) unfolding par by blast
  ultimately show ?thesis by (simp add: rebind_plain_def Let_def)
qed

lemma rebind_plain_nested:
  assumes ok: "sched_ok r V s" and ref: "ref \<in> V" "ref \<noteq> r" and np: "np \<in> V" "above (s_parent \<circ> s) V np ref" "np \<noteq> ref"
    and w: "1 \<le> w" "w \<le> 257"
  obtains old s2 s' where "s_parent (s ref) = Some old" "rebind_plain s ref np w = Some s'" "sched_ok r V s'"
    "moved (s(ref := (s ref)\<lparr>s_weight := w\<rparr>)) np old s2" "moved s2 ref np s'"
proof -
  let ?s1 = "s(ref := (s ref)\<lparr>s_weight := w\<rparr>)" and ?par = "s_parent \<circ> s"
  have par: "s_parent \<circ> ?s1 = ?par" by auto
  note t = sched_okD(1) [OF ok] and ok1 = sched_ok_weight [OF ok w, of ref]
  obtain old where old: "old \<in> V" "?par ref = Some old" using tree_parent [OF t ref] by metis
  have "np \<noteq> r" using above_root [of ?par r V ref] tree_root(1) [OF t] np(2) ref(2) by blast
  have nold: "\<not> above ?par V old np"
    using above_trans [of ?par V old np ref] np(2) above_parent_False [OF t ref(1) old(2)] by blast
  obtain s2 where s2: "do_rebind_plain ?s1 np old = Some s2" "sched_ok r V s2" "moved ?s1 np old s2"
    using do_rebind_plain_ok [OF ok1 np(1) \<open>np \<noteq> r\<close> old(1)] nold unfolding par by blast
  have par2: "s_parent \<circ> s2 = ?par(np := Some old)" using movedD(1) [OF s2(3)] unfolding par .
  have "above (?par(np := Some old)) V old ref \<longleftrightarrow> above ?par V old ref"
    by (rule above_update_other [OF nold])
  then have "\<not> above (s_parent \<circ> s2) V np ref"
    using above_step [of "?par(np := Some old)" np old V ref] np(1,3) above_parent_False [OF t ref(1) old(2)] unfolding par2 by simp
  then obtain s' where s': "do_rebind_plain s2 ref np = Some s'" "sched_ok r V s'" "moved s2 ref np s'"
    using do_rebind_plain_ok [OF s2(2) ref np(1)] by blast
  have "\<exists>c \<in> V. ?par c = Some ref" using above_child [OF np(2,3)] .
  then have "s_all_refs (s ref) \<noteq> []" using linkedD(2) [OF ok ref(1)] by force
  moreover have "\<exists>p. ?par np = Some p \<and> above ?par V p ref"
    using tree_parent [OF t np(1) \<open>np \<noteq> r\<close>] above_step [of ?par np _ V ref] np by metis
  then have "depends_on ?s1 ref np = Some True"
    using depends_on_ok [OF t np(1), of ?s1 ref] by simp
  ultimately have "rebind_plain s ref np w = Some s'"
    using s2(1) s'(1) old(2) by (simp add: rebind_plain_def Let_def)
  then show ?thesis using that old(2) s'(2,3) s2(3) by auto
qed

lemma rebind_plain_ok:
  assumes ok: "sched_ok r V s" and ref: "ref \<in> V" "ref \<noteq> r" and np: "np \<in> V" "np \<noteq> ref" and w: "1 \<le> w" "w \<le> 257"
  obtains s' xs where "rebind_plain s ref np w = Some s'" "sched_ok r V s'" "s_parent \<circ> s' = spec_move V (s_parent \<circ> s) ref np"
    "reweighted s ref w s'" "s_all_refs (s' np) = xs @ [ref]"
proof (cases "above (s_parent \<circ> s) V np ref")
  case False
  let ?s1 = "s(ref := (s ref)\<lparr>s_weight := w\<rparr>)"
  obtain s' where s': "rebind_plain s ref np w = Some s'" "sched_ok r V s'" "moved ?s1 ref np s'"
    using rebind_plain_simple [OF ok ref np(1) False w] by blast
  have "s_parent \<circ> ?s1 = s_parent \<circ> s" by auto
  then have "s_parent \<circ> s' = spec_move V (s_parent \<circ> s) ref np"
    using False movedD(1) [OF s'(3)] by (simp add: spec_move_def)
  moreover have "reweighted s ref w s'" using movedD [OF s'(3)] by (simp add: reweighted_def)
  moreover have "s_all_refs (s' np) = removeAll ref (s_all_refs (s np)) @ [ref]" using movedD(2) [OF s'(3), of np] np(2) by simp
  ultimately show ?thesis using that s'(1,2) by blast
next
  case True
  let ?s1 = "s(ref := (s ref)\<lparr>s_weight := w\<rparr>)"
  obtain old s2 s' where s': "s_parent (s ref) = Some old" "rebind_plain s ref np w = Some s'" "sched_ok r V s'"
    "moved ?s1 np old s2" "moved s2 ref np s'"
    using rebind_plain_nested [OF ok ref np(1) True np(2) w] by blast
  have "s_parent \<circ> ?s1 = s_parent \<circ> s" by auto
  then have "s_parent \<circ> s' = spec_move V (s_parent \<circ> s) ref np"
    using True movedD(1) [OF s'(5)] movedD(1) [OF s'(4)] s'(1) by (simp add: spec_move_def)
  moreover have "reweighted s ref w s'" using movedD [OF s'(4)] movedD [OF s'(5)] by (simp add: reweighted_def)
  moreover have "s_all_refs (s' np) = removeAll ref (s_all_refs (s2 np)) @ [ref]" using movedD(2) [OF s'(5), of np] by simp
  ultimately show ?thesis using that s'(2,3) by blast
qed

section \<open>Exclusive dependencies\<close>

definition spec_exclusive :: "nat set \<Rightarrow> (nat \<Rightarrow> nat option) \<Rightarrow> nat \<Rightarrow> nat \<Rightarrow> nat \<Rightarrow> nat option" where
  "spec_exclusive V par parent added = (\<lambda>n. if n \<in> V \<and> n \<noteq> added \<and> par n = Some parent then Some added else par n)"

definition spec_rebind :: "nat set \<Rightarrow> (nat \<Rightarrow> nat option) \<Rightarrow> nat \<Rightarrow> nat \<Rightarrow> bool \<Rightarrow> nat \<Rightarrow> nat option" where
  "spec_rebind V par ref np exclusive =
    (let par1 = spec_move V par ref np in if exclusive then spec_exclusive V par1 np ref else par1)"

definition spec_open :: "nat set \<Rightarrow> (nat \<Rightarrow> nat option) \<Rightarrow> nat \<Rightarrow> nat \<Rightarrow> bool \<Rightarrow> nat \<Rightarrow> nat option" where
  "spec_open V par ref parent exclusive =
    (let par1 = par(ref := Some parent) in if exclusive then spec_exclusive V par1 parent ref else par1)"

definition spec_close :: "nat set \<Rightarrow> (nat \<Rightarrow> nat option) \<Rightarrow> nat \<Rightarrow> nat \<Rightarrow> nat option" where
  "spec_close V par ref = (\<lambda>n. if n \<in> V \<and> par n = Some ref then par ref else par n)"

definition same_state :: "sched \<Rightarrow> sched \<Rightarrow> bool" where
  "same_state s s' \<longleftrightarrow> (\<forall>n. s_weight (s' n) = s_weight (s n) \<and> s_self_is_active (s' n) = s_self_is_active (s n) \<and>
    s_is_relocated (s' n) = s_is_relocated (s n))"

lemma child_of:
  assumes ok: "sched_ok r V s" and n: "n \<in> V" "c \<in> set (s_all_refs (s n))"
  shows "c \<in> V" "c \<noteq> r" "s_parent (s c) = Some n" "c \<noteq> n" "s_open (s c)" "1 \<le> s_weight (s c)" "s_weight (s c) \<le> 257"
    "\<not> above (s_parent \<circ> s) V n c"
proof -
  note t = sched_okD(1) [OF ok]
  show c: "c \<in> V" "s_parent (s c) = Some n" using n linkedD(2) [OF ok n(1)] by auto
  then show r: "c \<noteq> r" using tree_root(1) [OF t] by auto
  show "s_open (s c)" using linkedD(3) [OF ok c(1) r] .
  show "1 \<le> s_weight (s c)" "s_weight (s c) \<le> 257" using actsD(2) [OF sched_okD(3) [OF ok] c(1) r] by (simp_all add: ref_ok_def)
  show na: "\<not> above (s_parent \<circ> s) V n c" using above_parent_False [OF t c(1)] c(2) by simp
  then show "c \<noteq> n" by auto
qed

lemma convert_to_exclusive_ok:
  assumes "sched_ok r V s" "added \<in> V" "parent \<in> V" "s_all_refs (s parent) = cs @ [added]"
  shows "\<exists>s'. convert_to_exclusive s parent added = Some s' \<and> sched_ok r V s' \<and> same_state s s' \<and>
    s_parent \<circ> s' = (\<lambda>n. if n \<in> set cs then Some added else s_parent (s n))"
  using assms
proof (induction cs arbitrary: s)
  case Nil
  then show ?case by (subst convert_to_exclusive.simps) (auto simp: same_state_def)
next
  case (Cons child cs)
  note ch = child_of [OF Cons.prems(1,3), of child] and ad = child_of [OF Cons.prems(1,3), of added]
  have d: "distinct (child # cs @ [added])" using linkedD(1) [OF Cons.prems(1,3)] Cons.prems(4) by simp
  have "\<not> above (s_parent \<circ> s) V added child"
    using above_step [of "s_parent \<circ> s" added parent V child] ad(3) ch(8) Cons.prems(2,4) d by auto
  then obtain s1 where s1: "rebind_plain s child added (s_weight (s child)) = Some s1" "sched_ok r V s1"
    "moved (s(child := (s child)\<lparr>s_weight := s_weight (s child)\<rparr>)) child added s1"
    using rebind_plain_simple [OF Cons.prems(1) _ _ Cons.prems(2), of child "s_weight (s child)"] ch Cons.prems(4) by auto
  have mv: "moved s child added s1" using s1(3) by simp
  have "s_all_refs (s1 parent) = cs @ [added]"
    using movedD(2) [OF mv, of parent] Cons.prems(4) d ad(4) by (auto simp: removeAll_id)
  from Cons.IH [OF s1(2) Cons.prems(2,3) this] obtain s' where s': "convert_to_exclusive s1 parent added = Some s'" "sched_ok r V s'"
    "same_state s1 s'" "s_parent \<circ> s' = (\<lambda>n. if n \<in> set cs then Some added else s_parent (s1 n))"
    by blast
  have "rebind_asserts s child added (s_weight (s child))" "s_parent (s child) \<noteq> Some added"
    using ch ad(4) d Cons.prems(4) by (auto simp: rebind_asserts_def)
  then have "convert_to_exclusive s parent added = Some s'"
    using Cons.prems(4) d s1(1) s'(1) by (subst convert_to_exclusive.simps) simp
  moreover have "same_state s s'" using s'(3) movedD [OF mv] by (simp add: same_state_def)
  moreover have "s_parent (s1 n) = (if n = child then Some added else s_parent (s n))" for n
    using movedD(1) [OF mv] by (metis comp_apply fun_upd_apply)
  then have "s_parent \<circ> s' = (\<lambda>n. if n \<in> set (child # cs) then Some added else s_parent (s n))"
    unfolding s'(4) by auto
  ultimately show ?case using s'(2) by blast
qed

lemma exclusive_spec:
  assumes "sched_ok r V s" "parent \<in> V" "s_all_refs (s parent) = cs @ [added]"
  shows "(\<lambda>n. if n \<in> set cs then Some added else s_parent (s n)) = spec_exclusive V (s_parent \<circ> s) parent added"
proof -
  have "n \<in> set cs \<longleftrightarrow> n \<in> V \<and> n \<noteq> added \<and> s_parent (s n) = Some parent" for n
    using linkedD(1,2) [OF assms(1,2)] assms(3) by (auto simp: set_eq_iff)
  then show ?thesis by (simp add: spec_exclusive_def fun_eq_iff)
qed

lemma h2o_http2_scheduler_rebind_ok:
  assumes ok: "sched_ok r V s" and ref: "ref \<in> V" "ref \<noteq> r" and np: "np \<in> V" "np \<noteq> ref" and w: "1 \<le> w" "w \<le> 257"
  shows "\<exists>s'. h2o_http2_scheduler_rebind s ref np w exclusive = Some s' \<and> sched_ok r V s' \<and> reweighted s ref w s' \<and>
    s_parent \<circ> s' = spec_rebind V (s_parent \<circ> s) ref np exclusive"
proof -
  have as: "rebind_asserts s ref np w" using linkedD(3) [OF ok ref] np(2) w by (simp add: rebind_asserts_def)
  show ?thesis
  proof (cases "s_parent (s ref) = Some np \<and> s_weight (s ref) = w \<and> \<not> exclusive")
    case True
    then have "\<not> above (s_parent \<circ> s) V np ref" using above_parent_False [OF sched_okD(1) [OF ok] ref(1)] by simp
    then have "s_parent \<circ> s = spec_rebind V (s_parent \<circ> s) ref np exclusive"
      using True by (auto simp: spec_rebind_def spec_move_def Let_def)
    then show ?thesis using True as ok by (auto simp: h2o_http2_scheduler_rebind_def reweighted_def)
  next
    case False
    obtain s1 xs where s1: "rebind_plain s ref np w = Some s1" "sched_ok r V s1"
      "s_parent \<circ> s1 = spec_move V (s_parent \<circ> s) ref np" "reweighted s ref w s1" "s_all_refs (s1 np) = xs @ [ref]"
      using rebind_plain_ok [OF ok ref np w] by blast
    show ?thesis
    proof (cases exclusive)
      case True
      obtain s' where s': "convert_to_exclusive s1 np ref = Some s'" "sched_ok r V s'" "same_state s1 s'"
        "s_parent \<circ> s' = spec_exclusive V (s_parent \<circ> s1) np ref"
        using convert_to_exclusive_ok [OF s1(2) ref(1) np(1) s1(5)] exclusive_spec [OF s1(2) np(1) s1(5)] by auto
      have "reweighted s ref w s'" using s1(4) s'(3) by (simp add: reweighted_def same_state_def)
      then show ?thesis using True as s1(1,3) s' by (simp add: h2o_http2_scheduler_rebind_def spec_rebind_def Let_def)
    next
      case F: False
      then have "h2o_http2_scheduler_rebind s ref np w exclusive = Some s1"
        using False as s1(1) by (auto simp: h2o_http2_scheduler_rebind_def)
      then show ?thesis using F s1 by (simp add: spec_rebind_def Let_def)
    qed
  qed
qed

section \<open>Opening\<close>

lemma above_closed:
  assumes "tree par V r" "above par V x y" "x \<in> V"
  shows "y \<in> V"
  using assms(2,3) unfolding above_def
proof (induction rule: converse_rtrancl_induct)
  case (step x z)
  then have "x \<noteq> r" using tree_root(1) [OF assms(1)] by (auto simp: parent_rel_def)
  then have "z \<in> V" using tree_parent [OF assms(1) step.prems] step.hyps(1) by (auto simp: parent_rel_def)
  then show ?case by (rule step.IH)
qed simp

lemma tree_insert:
  assumes t: "tree par V r" and "ref \<notin> V" "parent \<in> V" "card V < 2 ^ 23"
  shows "tree (par(ref := Some parent)) (insert ref V) r"
proof -
  have rel: "parent_rel (par(ref := Some parent)) (insert ref V) = insert (ref, parent) (parent_rel par V)"
    using assms(2) by (auto simp: parent_rel_def split: if_splits)
  have "\<not> above par V parent ref" using above_closed [OF t] assms(2,3) by blast
  then have "acyclic (insert (ref, parent) (parent_rel par V))"
    using t by (simp add: tree_def above_def)
  then show ?thesis
    using t assms(2-4) unfolding tree_def rel by auto
qed

definition opened :: "sched \<Rightarrow> nat \<Rightarrow> nat \<Rightarrow> nat \<Rightarrow> sched" where
  "opened s ref parent weight =
    link_ref ((init_node s ref (Some parent))(ref := (init_node s ref (Some parent) ref)\<lparr>s_weight := weight, s_open := False,
      s_active_cnt := 0, s_self_is_active := False, s_deficit := 0, s_queued := False, s_is_relocated := False\<rparr>)) parent ref"

lemma opened_other:
  assumes "parent \<noteq> ref" "n \<noteq> ref"
  shows "opened s ref parent weight n = (s n)\<lparr>s_all_refs := s_all_refs (s n) @ (if n = parent then [ref] else [])\<rparr>"
  using assms by (simp add: opened_def link_ref_def init_node_def Let_def)

lemma opened_ref:
  assumes "parent \<noteq> ref"
  shows "opened s ref parent weight ref = \<lparr>s_parent = Some parent, s_all_refs = [], s_queue = None, s_weight = weight, s_open = True,
    s_active_cnt = 0, s_self_is_active = False, s_deficit = 0, s_queued = False, s_is_relocated = False\<rparr>"
  using assms by (cases "s ref") (simp add: opened_def link_ref_def init_node_def Let_def)

lemma opened_ok:
  assumes ok: "sched_ok r V s" and ref: "ref \<notin> V" "parent \<in> V" "card V < 2 ^ 23" and w: "1 \<le> w" "w \<le> 257"
  shows "sched_ok r (insert ref V) (opened s ref parent w)"
    "s_parent \<circ> opened s ref parent w = (s_parent \<circ> s)(ref := Some parent)"
proof -
  let ?s = "opened s ref parent w" and ?V = "insert ref V" and ?par = "(s_parent \<circ> s)(ref := Some parent)"
  note t = sched_okD(1) [OF ok] and a = sched_okD(3) [OF ok]
  have ne: "parent \<noteq> ref" using ref by auto
  note o = opened_other [OF ne] opened_ref [OF ne]
  show par: "s_parent \<circ> ?s = ?par" by (rule ext) (simp add: o fun_upd_def)
  have t': "tree ?par ?V r" by (rule tree_insert [OF t ref])
  have inV: "p \<in> V" if "c \<in> V" "s_parent (s c) = Some p" for c p
    using that tree_parent [OF t that(1)] tree_root(1) [OF t] by (cases "c = r") auto
  have "distinct (s_all_refs (?s n)) \<and> set (s_all_refs (?s n)) = {c \<in> ?V. ?par c = Some n}" if n: "n \<in> ?V" for n
  proof (cases "n = ref")
    case True
    then show ?thesis using inV ref(1) ne by (auto simp: o)
  next
    case False
    then show ?thesis using n linkedD(1,2) [OF ok, of n] ref(1) by (auto simp: o)
  qed
  moreover have "s_open (?s n)" if "n \<in> ?V - {r}" for n
    using that linkedD(3) [OF ok, of n] by (cases "n = ref") (auto simp: o)
  ultimately have l: "linked ?par ?V r ?s" by (simp add: linked_def)
  have ac: "active_children ?par ?V ?s n = (if n = ref then {} else active_children (s_parent \<circ> s) V s n)" for n
  proof -
    have "c \<in> active_children ?par ?V ?s n \<longleftrightarrow> c \<in> (if n = ref then {} else active_children (s_parent \<circ> s) V s n)" for c
      using inV [of c n] ref(1) by (cases "c = ref") (auto simp: active_children_def o)
    then show ?thesis by blast
  qed
  have c: "counted ?par ?V (\<lambda>_. 0) ?s n \<and> ref_ok (?s n)" if "n \<in> ?V - {r}" for n
    using that actsD(1,2) [OF a, of n] w unfolding counted_def ac by (cases "n = ref") (simp_all add: o ref_ok_def)
  have "queue_holds (s_queue (?s n)) (active_children ?par ?V ?s n)" if "n \<in> ?V" for n
    using that actsD(3) [OF a, of n] unfolding ac by (cases "n = ref") (simp_all add: o)
  with c have "acts ?par ?V r (\<lambda>_. 0) ?s" by (simp only: acts_def) blast
  then show "sched_ok r ?V ?s" using t' l unfolding sched_ok_def par by blast
qed

lemma h2o_http2_scheduler_open_ok:
  assumes ok: "sched_ok r V s" and ref: "ref \<notin> V" "parent \<in> V" "card V < 2 ^ 23" and w: "1 \<le> w" "w \<le> 257"
  shows "\<exists>s'. h2o_http2_scheduler_open s ref parent w exclusive = Some s' \<and> sched_ok r (insert ref V) s' \<and>
    s_parent \<circ> s' = spec_open (insert ref V) (s_parent \<circ> s) ref parent exclusive \<and> s_weight (s' ref) = w"
proof -
  let ?s = "opened s ref parent w"
  have ne: "parent \<noteq> ref" using ref by auto
  have op: "h2o_http2_scheduler_open s ref parent w exclusive = (if exclusive then convert_to_exclusive ?s parent ref else Some ?s)"
    by (simp add: h2o_http2_scheduler_open_def opened_def Let_def)
  note ok' = opened_ok [OF ok ref w]
  have w': "s_weight (?s ref) = w" by (simp add: opened_ref [OF ne])
  show ?thesis
  proof (cases exclusive)
    case True
    have l: "s_all_refs (?s parent) = s_all_refs (s parent) @ [ref]" by (simp add: opened_other [OF ne ne])
    have pV: "parent \<in> insert ref V" using ref(2) by simp
    obtain s' where s': "convert_to_exclusive ?s parent ref = Some s'" "sched_ok r (insert ref V) s'" "same_state ?s s'"
      "s_parent \<circ> s' = spec_exclusive (insert ref V) (s_parent \<circ> ?s) parent ref"
      using convert_to_exclusive_ok [OF ok'(1) _ pV l] exclusive_spec [OF ok'(1) pV l] by auto
    then show ?thesis using True op ok'(2) w' by (simp add: spec_open_def same_state_def)
  qed (use op ok' w' in \<open>simp add: spec_open_def\<close>)
qed

section \<open>Activating and deactivating\<close>

lemma set_self:
  assumes "sched_ok r V s" "s_self_is_active (s ref) = (\<not> b)"
  shows "acts (s_parent \<circ> s) V r ((\<lambda>_. 0)(ref := if b then 1 else -1)) (s(ref := (s ref)\<lparr>s_self_is_active := b\<rparr>))"
proof -
  let ?s = "s(ref := (s ref)\<lparr>s_self_is_active := b\<rparr>)" and ?par = "s_parent \<circ> s"
  note a = sched_okD(3) [OF assms(1)]
  have ac: "active_children ?par V ?s n = active_children ?par V s n" for n
    by (rule active_children_cong) simp
  have "counted ?par V ((\<lambda>_. 0)(ref := if b then 1 else -1)) ?s n" "ref_ok (?s n)" if "n \<in> V" "n \<noteq> r" for n
    using actsD(1,2) [OF a that] assms(2) unfolding counted_def ac by (cases "n = ref"; simp add: ref_ok_def)+
  moreover have "queue_holds (s_queue (?s n)) (active_children ?par V ?s n)" if "n \<in> V" for n
    using actsD(3) [OF a that] unfolding ac by (cases "n = ref") simp_all
  ultimately show ?thesis by (simp only: acts_def) blast
qed

lemma sched_ok_recount:
  assumes "sched_ok r V s" "acts (s_parent \<circ> s) V r (\<lambda>_. 0) s'"
    and "\<And>n. s_parent (s' n) = s_parent (s n) \<and> s_all_refs (s' n) = s_all_refs (s n) \<and> s_open (s' n) = s_open (s n)"
  shows "sched_ok r V s'"
proof -
  have "s_parent \<circ> s' = s_parent \<circ> s" using assms(3) by auto
  then show ?thesis using assms by (simp add: sched_ok_def linked_def)
qed

lemma h2o_http2_scheduler_activate_ok:
  assumes ok: "sched_ok r V s" and ref: "ref \<in> V" "ref \<noteq> r"
  shows "\<exists>s'. h2o_http2_scheduler_activate s ref = Some s' \<and> sched_ok r V s' \<and> s_parent \<circ> s' = s_parent \<circ> s \<and>
    (\<forall>n. s_self_is_active (s' n) = (n = ref \<or> s_self_is_active (s n)))"
proof (cases "s_self_is_active (s ref)")
  case True
  then show ?thesis using ok by (auto simp: h2o_http2_scheduler_activate_def)
next
  case False
  let ?s = "s(ref := (s ref)\<lparr>s_self_is_active := True\<rparr>)"
  have "\<exists>s'. incr_active_cnt ?s ref = Some s' \<and> acts (s_parent \<circ> s) V r (\<lambda>_. 0) s' \<and> same_links ?s s' \<and>
    (\<forall>n. \<not> above (s_parent \<circ> s) V ref n \<longrightarrow> s_active_cnt (s' n) = s_active_cnt (?s n))"
    by (rule incr_active_cnt_ok [OF sched_okD(1) [OF ok] ref(1)]) (use set_self [OF ok, of ref True] False in simp_all)
  then obtain s' where s': "incr_active_cnt ?s ref = Some s'" "acts (s_parent \<circ> s) V r (\<lambda>_. 0) s'" "same_links ?s s'" by blast
  have "sched_ok r V s'"
    by (rule sched_ok_recount [OF ok s'(2)]) (use same_linksD [OF s'(3)] in simp)
  moreover have "s_parent \<circ> s' = s_parent \<circ> s" using same_linksD(1) [OF s'(3)] by (auto simp: fun_eq_iff)
  ultimately show ?thesis using False s'(1) same_linksD(5) [OF s'(3)] by (simp add: h2o_http2_scheduler_activate_def)
qed

lemma h2o_http2_scheduler_deactivate_ok:
  assumes ok: "sched_ok r V s" and ref: "ref \<in> V" "ref \<noteq> r"
  shows "\<exists>s'. h2o_http2_scheduler_deactivate s ref = Some s' \<and> sched_ok r V s' \<and> s_parent \<circ> s' = s_parent \<circ> s \<and>
    (\<forall>n. s_self_is_active (s' n) = (n \<noteq> ref \<and> s_self_is_active (s n)))"
proof (cases "s_self_is_active (s ref)")
  case False
  then show ?thesis using ok by (auto simp: h2o_http2_scheduler_deactivate_def)
next
  case True
  let ?s = "s(ref := (s ref)\<lparr>s_self_is_active := False\<rparr>)"
  have "\<exists>s'. decr_active_cnt ?s ref = Some s' \<and> acts (s_parent \<circ> s) V r (\<lambda>_. 0) s' \<and> same_links ?s s' \<and>
    (\<forall>n. \<not> above (s_parent \<circ> s) V ref n \<longrightarrow> s_active_cnt (s' n) = s_active_cnt (?s n))"
    by (rule decr_active_cnt_ok [OF sched_okD(1) [OF ok] ref(1)]) (use set_self [OF ok, of ref False] True in simp_all)
  then obtain s' where s': "decr_active_cnt ?s ref = Some s'" "acts (s_parent \<circ> s) V r (\<lambda>_. 0) s'" "same_links ?s s'" by blast
  have "sched_ok r V s'"
    by (rule sched_ok_recount [OF ok s'(2)]) (use same_linksD [OF s'(3)] in simp)
  moreover have "s_parent \<circ> s' = s_parent \<circ> s" using same_linksD(1) [OF s'(3)] by (auto simp: fun_eq_iff)
  ultimately show ?thesis using True s'(1) same_linksD(5) [OF s'(3)] by (simp add: h2o_http2_scheduler_deactivate_def)
qed

section \<open>Closing\<close>

lemma close_weight_bounds: "1 \<le> close_weight c f" "close_weight c f \<le> 256"
  by (simp_all add: close_weight_def Let_def)

lemma total_weight:
  assumes ok: "sched_ok r V s" and ref: "ref \<in> V" and "s_all_refs (s ref) \<noteq> []"
  shows "sum_list (map (\<lambda>c. s_weight (s c)) (s_all_refs (s ref))) mod 2 ^ 32 \<noteq> 0"
proof -
  let ?cs = "s_all_refs (s ref)" and ?w = "\<lambda>c. s_weight (s c)"
  have sub: "set ?cs \<subseteq> V" using linkedD(2) [OF ok ref] by auto
  have V: "finite V" "card V \<le> 2 ^ 23" using sched_okD(1) [OF ok] by (simp_all add: tree_def)
  have b: "\<forall>c \<in> set ?cs. 1 \<le> ?w c \<and> ?w c \<le> 257" using child_of(6,7) [OF ok ref] by simp
  have len: "length ?cs \<le> 2 ^ 23"
    using distinct_card [OF linkedD(1) [OF ok ref]] card_mono [OF V(1) sub] V(2) by linarith
  have "\<forall>c \<in> set cs. 1 \<le> ?w c \<and> ?w c \<le> 257 \<Longrightarrow> length cs \<le> sum_list (map ?w cs) \<and> sum_list (map ?w cs) \<le> 257 * length cs" for cs
    by (induction cs) auto
  from this [OF b] have "0 < sum_list (map ?w ?cs)" "sum_list (map ?w ?cs) \<le> 257 * 2 ^ 23"
    using len assms(3) by (simp_all add: less_le_trans [of 0 "length ?cs"])
  then have "sum_list (map ?w ?cs) mod 2 ^ 32 = sum_list (map ?w ?cs)" by (intro mod_less) simp
  then show ?thesis using \<open>0 < sum_list (map ?w ?cs)\<close> by linarith
qed

lemma close_children_ok:
  assumes "sched_ok r V s" "ref \<in> V" "ref \<noteq> r" "s_parent (s ref) = Some old" "s_all_refs (s ref) = cs"
  shows "\<exists>s'. close_children s ref f = Some s' \<and> sched_ok r V s' \<and> s_all_refs (s' ref) = [] \<and>
    s_parent \<circ> s' = (\<lambda>n. if n \<in> set cs then Some old else s_parent (s n)) \<and>
    (\<forall>n. s_self_is_active (s' n) = s_self_is_active (s n) \<and>
      s_weight (s' n) = (if n \<in> set cs then close_weight (s_weight (s n)) f else s_weight (s n)))"
  using assms
proof (induction cs arbitrary: s)
  case Nil
  then show ?case by (subst close_children.simps) auto
next
  case (Cons child cs)
  note ch = child_of [OF Cons.prems(1,2), of child] and t = sched_okD(1) [OF Cons.prems(1)]
  have d: "distinct (child # cs)" using linkedD(1) [OF Cons.prems(1,2)] Cons.prems(5) by simp
  let ?w = "close_weight (s_weight (s child)) f"
  have old: "old \<in> V" using tree_parent [OF t Cons.prems(2,3)] Cons.prems(4) by auto
  have "above (s_parent \<circ> s) V child ref"
    using above_step [of "s_parent \<circ> s" child ref V ref] ch Cons.prems(5) by simp
  then have na: "\<not> above (s_parent \<circ> s) V old child"
    using above_trans above_parent_False [OF t Cons.prems(2)] Cons.prems(4) by (metis comp_apply)
  have w: "1 \<le> ?w" "?w \<le> 257" using close_weight_bounds [of "s_weight (s child)" f] by simp_all
  obtain s1 where s1: "rebind_plain s child old ?w = Some s1" "sched_ok r V s1"
    "moved (s(child := (s child)\<lparr>s_weight := ?w\<rparr>)) child old s1"
    using rebind_plain_simple [OF Cons.prems(1) _ _ old na w] ch Cons.prems(5) by auto
  have "\<not> above (s_parent \<circ> s) V old ref" using above_parent_False [OF t Cons.prems(2)] Cons.prems(4) by simp
  then have neq: "old \<noteq> ref" "child \<noteq> ref" "child \<noteq> old" using Cons.prems(5) ch(4) na by auto
  have s1': "s_parent (s1 n) = (if n = child then Some old else s_parent (s n))"
    "s_all_refs (s1 ref) = cs" "s_self_is_active (s1 n) = s_self_is_active (s n)"
    "s_weight (s1 n) = (if n = child then ?w else s_weight (s n))" for n
    using s1(3) Cons.prems(5) d neq by (auto simp: moved_def)
  have "s_parent (s1 ref) = Some old" using s1'(1) [of ref] neq Cons.prems(4) by simp
  from Cons.IH [OF s1(2) Cons.prems(2,3) this s1'(2)] obtain s' where s': "close_children s1 ref f = Some s'" "sched_ok r V s'"
    "s_all_refs (s' ref) = []" "s_parent \<circ> s' = (\<lambda>n. if n \<in> set cs then Some old else s_parent (s1 n))"
    "\<forall>n. s_self_is_active (s' n) = s_self_is_active (s1 n) \<and>
      s_weight (s' n) = (if n \<in> set cs then close_weight (s_weight (s1 n)) f else s_weight (s1 n))"
    by blast
  have "rebind_asserts s child old ?w" "s_parent (s child) \<noteq> Some old"
    using ch(3,5) Cons.prems(5) neq w by (auto simp: rebind_asserts_def)
  then have "h2o_http2_scheduler_rebind s child old ?w False = Some s1"
    using s1(1) by (simp add: h2o_http2_scheduler_rebind_def)
  then have "close_children s ref f = Some s'"
    using Cons.prems(4,5) s'(1) by (subst close_children.simps) simp
  moreover have "s_parent \<circ> s' = (\<lambda>n. if n \<in> set (child # cs) then Some old else s_parent (s n))"
    unfolding s'(4) using s1'(1) by auto
  moreover have "\<forall>n. s_self_is_active (s' n) = s_self_is_active (s n) \<and>
      s_weight (s' n) = (if n \<in> set (child # cs) then close_weight (s_weight (s n)) f else s_weight (s n))"
    using s'(5) s1'(3,4) d by simp
  ultimately show ?case using s'(2,3) by blast
qed

lemma tree_remove:
  assumes "tree par V r" "ref \<noteq> r" "\<And>c. c \<in> V \<Longrightarrow> par c \<noteq> Some ref"
  shows "tree par (V - {ref}) r"
proof -
  have "parent_rel par (V - {ref}) \<subseteq> parent_rel par V" by (auto simp: parent_rel_def)
  then have "acyclic (parent_rel par (V - {ref}))" using assms(1) by (auto simp: tree_def intro: acyclic_subset)
  moreover have "card (V - {ref}) \<le> card V" using assms(1) by (simp add: tree_def card_Diff1_le)
  moreover have "\<exists>p \<in> V - {ref}. par n = Some p" if "n \<in> V - {ref} - {r}" for n
    using that tree_parent [OF assms(1), of n] assms(3) [of n] by (metis DiffE DiffI insertCI singletonD)
  ultimately show ?thesis using assms(1,2) by (simp add: tree_def)
qed

definition detached :: "sched \<Rightarrow> nat \<Rightarrow> sched" where
  "detached s ref = unlink_ref (s(ref := (s ref)\<lparr>s_queue := None\<rparr>)) ref"

lemma detached_simps:
  "s_parent (detached s ref n) = s_parent (s n)" "s_all_refs (detached s ref n) = removeAll ref (s_all_refs (s n))"
  "s_weight (detached s ref n) = s_weight (s n)" "s_self_is_active (detached s ref n) = s_self_is_active (s n)"
  "s_active_cnt (detached s ref n) = s_active_cnt (s n)" "s_queued (detached s ref n) = s_queued (s n)"
  "n \<noteq> ref \<Longrightarrow> s_queue (detached s ref n) = s_queue (s n)" "n \<noteq> ref \<Longrightarrow> s_open (detached s ref n) = s_open (s n)"
  "ref_ok (detached s ref n) = ref_ok (s n)"
  by (auto simp: detached_def unlink_ref_def Let_def ref_ok_def)

lemma linked_remove:
  assumes "sched_ok r V s" "ref \<in> V"
    and "\<And>n. s_all_refs (s' n) = removeAll ref (s_all_refs (s n))" "\<And>n. n \<noteq> ref \<Longrightarrow> s_open (s' n) = s_open (s n)"
  shows "linked (s_parent \<circ> s) (V - {ref}) r s'"
proof -
  have "distinct (s_all_refs (s' n)) \<and> set (s_all_refs (s' n)) = {c \<in> V - {ref}. (s_parent \<circ> s) c = Some n}" if "n \<in> V - {ref}" for n
    using that linkedD(1,2) [OF assms(1), of n] unfolding assms(3) by (auto simp: distinct_removeAll)
  then show ?thesis using assms(4) linkedD(3) [OF assms(1)] by (simp add: linked_def)
qed

lemma active_children_remove: "active_children par (V - {ref}) s n = active_children par V s n - {ref}"
  by (auto simp: active_children_def)

text \<open>A reference without children is taken out; its parent is then one ahead if the reference was active.\<close>

lemma acts_detach:
  assumes t: "tree par V r" and a: "acts par V r (\<lambda>_. 0) s" and ref: "ref \<in> V" "ref \<noteq> r" "par ref = Some old"
    and f: "\<And>n. s_active_cnt (s' n) = s_active_cnt (s n)" "\<And>n. s_self_is_active (s' n) = s_self_is_active (s n)"
      "\<And>n. n \<noteq> ref \<Longrightarrow> ref_ok (s n) \<Longrightarrow> ref_ok (s' n)"
      "\<And>n. n \<in> V \<Longrightarrow> n \<noteq> ref \<Longrightarrow> queue_holds (s_queue (s' n)) (active_children par V s n - {ref})"
  shows "acts par (V - {ref}) r ((\<lambda>_. 0)(old := if s_active_cnt (s ref) = 0 then 0 else -1)) s'"
proof -
  have ac: "active_children par (V - {ref}) s' n = active_children par V s n - {ref}" for n
    using f(1) by (auto simp: active_children_def)
  have fin: "finite (active_children par V s n)" for n using finite_active_children [OF tree_root(3) [OF t]] .
  have notin: "ref \<notin> active_children par V s n" if "n \<noteq> old \<or> s_active_cnt (s ref) = 0" for n
    using that ref(3) by (auto simp: active_children_def)
  have isin: "ref \<in> active_children par V s old" if "s_active_cnt (s ref) \<noteq> 0"
    using that ref by (simp add: active_children_def)
  have "counted par (V - {ref}) ((\<lambda>_. 0)(old := if s_active_cnt (s ref) = 0 then 0 else -1)) s' n" if n: "n \<in> V" "n \<noteq> r" for n
  proof (cases "n = old \<and> s_active_cnt (s ref) \<noteq> 0")
    case True
    then obtain k where "card (active_children par V s old) = Suc k" "card (active_children par V s old - {ref}) = k"
      using card.remove [OF fin isin] by auto
    then show ?thesis using True actsD(1) [OF a n] unfolding counted_def ac f(1,2) by simp
  next
    case False
    then have "active_children par V s n - {ref} = active_children par V s n" using notin by blast
    then show ?thesis using False actsD(1) [OF a n] unfolding counted_def ac f(1,2) by auto
  qed
  moreover have "ref_ok (s' n)" if "n \<in> V - {ref}" "n \<noteq> r" for n using that f(3) actsD(2) [OF a] by blast
  moreover have "queue_holds (s_queue (s' n)) (active_children par (V - {ref}) s' n)" if "n \<in> V - {ref}" for n
    using that f(4) unfolding ac by blast
  ultimately show ?thesis by (simp only: acts_def) blast
qed

definition detach_self :: "sched \<Rightarrow> nat \<Rightarrow> sched option" where
  "detach_self s ref =
    (let s2 = detached s ref
     in if s_self_is_active (s2 ref) then
          (if s_active_cnt (s2 ref) \<noteq> 1 then None
           else
             (case unset_from_queue s2 ref of
                None \<Rightarrow> None
              | Some s3 \<Rightarrow> (case s_parent (s3 ref) of None \<Rightarrow> None | Some parent \<Rightarrow> decr_active_cnt s3 parent)))
        else if s_active_cnt (s2 ref) \<noteq> 0 then None
        else Some s2)"

lemma detach_self_ok:
  assumes ok: "sched_ok r V s" and ref: "ref \<in> V" "ref \<noteq> r" and leaf: "s_all_refs (s ref) = []"
  shows "\<exists>s'. detach_self s ref = Some s' \<and> sched_ok r (V - {ref}) s' \<and> s_parent \<circ> s' = s_parent \<circ> s \<and>
    (\<forall>n. s_self_is_active (s' n) = s_self_is_active (s n) \<and> s_weight (s' n) = s_weight (s n))"
proof -
  let ?par = "s_parent \<circ> s" and ?s2 = "detached s ref"
  note t = sched_okD(1) [OF ok] and a = sched_okD(3) [OF ok]
  obtain old where old: "old \<in> V" "?par ref = Some old" "old \<noteq> ref" using tree_parent [OF t ref] by metis
  have nc: "?par c \<noteq> Some ref" if "c \<in> V" for c using that linkedD(2) [OF ok ref(1)] leaf by auto
  have t': "tree ?par (V - {ref}) r" using tree_remove [OF t ref(2) nc] .
  have "active_children ?par V s ref = {}" using nc by (auto simp: active_children_def)
  then have cnt: "s_active_cnt (s ref) = of_bool (s_self_is_active (s ref))"
    using actsD(1) [OF a ref] by (cases "s_self_is_active (s ref)") (simp_all add: counted_def)
  show ?thesis
  proof (cases "s_self_is_active (s ref)")
    case False
    have "active_children ?par V s n - {ref} = active_children ?par V s n" for n
      using False cnt by (auto simp: active_children_def)
    then have "acts ?par (V - {ref}) r ((\<lambda>_. 0)(old := if s_active_cnt (s ref) = 0 then 0 else -1)) ?s2"
      using actsD(3) [OF a] by (intro acts_detach [OF t a ref old(2)]) (simp_all add: detached_simps comp_def)
    then have "acts ?par (V - {ref}) r (\<lambda>_. 0) ?s2" using False cnt by (simp add: fun_upd_idem)
    moreover have "linked ?par (V - {ref}) r ?s2" by (rule linked_remove [OF ok ref(1)]) (simp_all add: detached_simps)
    moreover have "s_parent \<circ> ?s2 = ?par" by (auto simp: detached_simps)
    ultimately have "sched_ok r (V - {ref}) ?s2" using t' by (simp add: sched_ok_def)
    then show ?thesis using False cnt by (auto simp: detach_self_def detached_simps Let_def fun_eq_iff)
  next
    case True
    let ?s3 = "dequeued ?s2 ref"
    have u: "unset_from_queue ?s2 ref = Some ?s3"
      using actsD(2) [OF a ref] True cnt by (intro unset_from_queue_ok) (simp add: ref_ok_def detached_simps)
    have l3: "same_links ?s2 ?s3" by simp
    have "acts ?par (V - {ref}) r ((\<lambda>_. 0)(old := if s_active_cnt (s ref) = 0 then 0 else -1)) ?s3"
    proof (rule acts_detach [OF t a ref old(2)])
      show "ref_ok (?s3 n)" if "n \<noteq> ref" "ref_ok (s n)" for n
      proof -
        have "ref_ok (?s2 n)" using that(2) by (simp add: detached_simps)
        then show ?thesis using that(1) by (simp add: ref_ok_def dequeued_def)
      qed
      show "queue_holds (s_queue (?s3 n)) (active_children ?par V s n - {ref})" if "n \<in> V" "n \<noteq> ref" for n
        using queue_unset_holds [OF actsD(3) [OF a that(1)], of ref] that(2) by (simp add: dequeued_def detached_simps)
    qed (simp_all add: dequeued_def detached_simps)
    then have a3: "acts ?par (V - {ref}) r ((\<lambda>_. 0)(old := -1)) ?s3" using True cnt by simp
    have "\<exists>s'. decr_active_cnt ?s3 old = Some s' \<and> acts ?par (V - {ref}) r (\<lambda>_. 0) s' \<and> same_links ?s3 s' \<and>
      (\<forall>n. \<not> above ?par (V - {ref}) old n \<longrightarrow> s_active_cnt (s' n) = s_active_cnt (?s3 n))"
      by (rule decr_active_cnt_ok [OF t']) (use old a3 same_linksD(1) [OF l3] in \<open>simp_all add: detached_simps\<close>)
    then obtain s' where s': "decr_active_cnt ?s3 old = Some s'" "acts ?par (V - {ref}) r (\<lambda>_. 0) s'" "same_links ?s3 s'" by blast
    have l: "same_links ?s2 s'" using same_links_trans [OF l3 s'(3)] .
    note l' = same_linksD [OF l, unfolded detached_simps]
    have par: "s_parent \<circ> s' = ?par" using l'(1) by auto
    have "linked ?par (V - {ref}) r s'"
      by (rule linked_remove [OF ok ref(1)]) (use same_linksD [OF l] in \<open>simp_all add: detached_simps\<close>)
    then have "sched_ok r (V - {ref}) s'" using t' s'(2) unfolding sched_ok_def par by blast
    moreover have "s_parent (?s3 ref) = Some old" using old(2) same_linksD(1) [OF l3] by (simp add: detached_simps)
    ultimately show ?thesis using True cnt u s'(1) par l' by (simp add: detach_self_def detached_simps Let_def)
  qed
qed

lemma h2o_http2_scheduler_close_ok:
  assumes ok: "sched_ok r V s" and ref: "ref \<in> V" "ref \<noteq> r"
  shows "\<exists>s'. h2o_http2_scheduler_close s ref = Some s' \<and> sched_ok r (V - {ref}) s' \<and>
    s_parent \<circ> s' = spec_close V (s_parent \<circ> s) ref \<and> (\<forall>n. s_self_is_active (s' n) = s_self_is_active (s n))"
proof -
  let ?total = "sum_list (map (\<lambda>c. s_weight (s c)) (s_all_refs (s ref))) mod 2 ^ 32"
  obtain old where old: "s_parent (s ref) = Some old" using tree_parent [OF sched_okD(1) [OF ok] ref] by (metis comp_apply)
  define f where "f = close_factor (s_weight (s ref)) ?total"
  obtain s1 where s1: "close_children s ref f = Some s1" "sched_ok r V s1" "s_all_refs (s1 ref) = []"
    "s_parent \<circ> s1 = (\<lambda>n. if n \<in> set (s_all_refs (s ref)) then Some old else s_parent (s n))"
    "\<forall>n. s_self_is_active (s1 n) = s_self_is_active (s n)"
    using close_children_ok [OF ok ref old refl, of f] by blast
  obtain s' where s': "detach_self s1 ref = Some s'" "sched_ok r (V - {ref}) s'" "s_parent \<circ> s' = s_parent \<circ> s1"
    "\<forall>n. s_self_is_active (s' n) = s_self_is_active (s1 n)"
    using detach_self_ok [OF s1(2) ref s1(3)] by blast
  have "s_all_refs (s ref) = [] \<Longrightarrow> s1 = s" using s1(1) by (subst (asm) close_children.simps) simp
  moreover have "s_all_refs (s ref) \<noteq> [] \<Longrightarrow> ?total \<noteq> 0" by (rule total_weight [OF ok ref(1)])
  ultimately have pre: "(if s_all_refs (s ref) \<noteq> [] then
       (let total_weight = ?total in if total_weight = 0 then None else close_children s ref (close_factor (s_weight (s ref)) total_weight))
     else Some s) = Some s1"
    using s1(1) unfolding f_def Let_def by (cases "s_all_refs (s ref) = []") (simp_all only: if_False if_True not_False_eq_True simp_thms)
  have "h2o_http2_scheduler_close s ref = detach_self s1 ref"
    using linkedD(3) [OF ok ref] unfolding h2o_http2_scheduler_close_def pre detach_self_def detached_def by simp
  moreover have "s_parent \<circ> s' = spec_close V (s_parent \<circ> s) ref"
    unfolding s'(3) s1(4) spec_close_def using linkedD(2) [OF ok ref(1)] old by auto
  ultimately show ?thesis using s' s1(5) by simp
qed

section \<open>Relocating\<close>

lemma replace_ref_inj: "dst \<notin> A \<Longrightarrow> inj_on (replace_ref dst src) A"
  by (auto simp: inj_on_def replace_ref_def)

lemma replace_holds:
  assumes "queue_holds (Some q) A" "dst \<notin> A"
  shows "queue_holds (Some (replace_in_queue dst src q)) (replace_ref dst src ` A)"
proof -
  let ?f = "replace_ref dst src"
  have len: "length (q_anchors q) = 64" using assms(1) by (simp add: queue_holds_def queue_inv_def)
  have v: "view (replace_in_queue dst src q) = map (map ?f) (view q)"
    using len by (intro nth_equalityI) (simp_all add: view_nth replace_in_queue_def)
  have e: "entries_of (replace_in_queue dst src q) = map ?f (entries_of q)"
    unfolding entries_of_def v by (simp add: map_concat replace_in_queue_def)
  have "queue_inv (replace_in_queue dst src q)"
    using assms(1) unfolding queue_inv_def v by (auto simp: queue_holds_def queue_inv_def replace_in_queue_def)
  then show ?thesis
    using assms replace_ref_inj [OF assms(2), of src] by (auto simp: queue_holds_def e distinct_map)
qed

text \<open>A state that is another one with the nodes renamed.\<close>

definition renamed :: "(nat \<Rightarrow> nat) \<Rightarrow> nat set \<Rightarrow> nat \<Rightarrow> sched \<Rightarrow> sched \<Rightarrow> bool" where
  "renamed f V r s s' \<longleftrightarrow> (\<forall>n \<in> V. s_parent (s' (f n)) = map_option f (s_parent (s n)) \<and>
    s_all_refs (s' (f n)) = map f (s_all_refs (s n)) \<and> s_active_cnt (s' (f n)) = s_active_cnt (s n) \<and>
    queue_holds (s_queue (s' (f n))) (f ` active_children (s_parent \<circ> s) V s n) \<and>
    (n \<noteq> r \<longrightarrow> s_open (s' (f n)) = s_open (s n) \<and> s_self_is_active (s' (f n)) = s_self_is_active (s n) \<and>
      (ref_ok (s n) \<longrightarrow> ref_ok (s' (f n)))))"

lemma tree_parent_in: "tree par V r \<Longrightarrow> n \<in> V \<Longrightarrow> par n = Some p \<Longrightarrow> p \<in> V"
  using tree_parent [of par V r n] tree_root(1) [of par V r] by (metis option.distinct(1) option.inject)

lemma renamed_parent:
  assumes inj: "inj_on f V" and t: "tree (s_parent \<circ> s) V r" and rn: "renamed f V r s s'" and n: "n \<in> V" "p \<in> V"
  shows "s_parent (s' (f n)) = Some (f p) \<longleftrightarrow> s_parent (s n) = Some p"
proof (cases "s_parent (s n)")
  case (Some p')
  then have "p' \<in> V" using tree_parent_in [OF t n(1)] by simp
  then show ?thesis using rn n Some inj_on_eq_iff [OF inj, of p' p] by (simp add: renamed_def)
qed (use rn n in \<open>simp add: renamed_def\<close>)

lemma tree_rename:
  assumes inj: "inj_on f V" "f r = r" and t: "tree (s_parent \<circ> s) V r" and rn: "renamed f V r s s'"
  shows "tree (s_parent \<circ> s') (f ` V) r"
proof -
  let ?R = "parent_rel (s_parent \<circ> s) V" and ?R' = "parent_rel (s_parent \<circ> s') (f ` V)" and ?g = "the_inv_into V f"
  have g: "?g (f n) = n" if "n \<in> V" for n using the_inv_into_f_f [OF inj(1) that] .
  have edge: "\<exists>n p. a = f n \<and> b = f p \<and> n \<in> V \<and> p \<in> V \<and> s_parent (s n) = Some p" if ab: "(a, b) \<in> ?R'" for a b
  proof -
    obtain n where n: "n \<in> V" "a = f n" "s_parent (s' a) = Some b" using ab by (auto simp: parent_rel_def)
    then have "map_option f (s_parent (s n)) = Some b" using rn by (simp add: renamed_def)
    then obtain p where "s_parent (s n) = Some p" "b = f p" by auto
    then show ?thesis using n tree_parent_in [OF t n(1)] by auto
  qed
  then have ge: "(?g a, ?g b) \<in> ?R" if "(a, b) \<in> ?R'" for a b
    using that g by (fastforce simp: parent_rel_def)
  have "(?g a, ?g b) \<in> ?R\<^sup>+" if "(a, b) \<in> ?R'\<^sup>+" for a b
    using that by (induction rule: trancl_induct) (meson ge trancl.intros)+
  then have "acyclic ?R'" using t unfolding tree_def acyclic_def by blast
  moreover have "\<exists>p \<in> f ` V. (s_parent \<circ> s') m = Some p" if m: "m \<in> f ` V - {r}" for m
  proof -
    obtain n where n: "n \<in> V" "m = f n" "n \<noteq> r" using m inj(2) by auto
    then obtain p where "p \<in> V" "s_parent (s n) = Some p" using tree_parent [OF t n(1,3)] by (metis comp_apply)
    then show ?thesis using n rn by (auto simp: renamed_def)
  qed
  moreover have "r \<in> f ` V" using tree_root(2) [OF t] inj(2) by (metis image_eqI)
  moreover have "s_parent (s' r) = None" using rn tree_root(1,2) [OF t] inj(2) by (fastforce simp: renamed_def)
  moreover have "card (f ` V) = card V" using inj(1) by (rule card_image)
  ultimately show ?thesis using t by (simp add: tree_def)
qed

lemma sched_ok_rename:
  assumes inj: "inj_on f V" "f r = r" and ok: "sched_ok r V s" and rn: "renamed f V r s s'"
  shows "sched_ok r (f ` V) s'"
proof -
  let ?par = "s_parent \<circ> s" and ?par' = "s_parent \<circ> s'"
  note t = sched_okD(1) [OF ok]
  have nr: "n \<noteq> r" if "n \<in> V" "f n \<noteq> r" for n using that inj(2) by auto
  have ch: "{c \<in> f ` V. ?par' c = Some (f n)} = f ` {c \<in> V. ?par c = Some n}" if "n \<in> V" for n
    using renamed_parent [OF inj(1) t rn _ that] by auto
  have ac: "active_children ?par' (f ` V) s' (f n) = f ` active_children ?par V s n" if "n \<in> V" for n
    using renamed_parent [OF inj(1) t rn _ that] rn by (auto simp: active_children_def renamed_def)
  have "distinct (s_all_refs (s' (f n))) \<and> set (s_all_refs (s' (f n))) = {c \<in> f ` V. ?par' c = Some (f n)}" if "n \<in> V" for n
  proof -
    have "s_all_refs (s' (f n)) = map f (s_all_refs (s n))" using rn that by (simp add: renamed_def)
    moreover have "inj_on f (set (s_all_refs (s n)))" using linkedD(2) [OF ok that] by (auto intro: inj_on_subset [OF inj(1)])
    ultimately show ?thesis using linkedD(1,2) [OF ok that] unfolding ch [OF that] by (simp add: distinct_map)
  qed
  moreover have "s_open (s' (f n))" if "n \<in> V" "f n \<noteq> r" for n
    using rn linkedD(3) [OF ok that(1) nr [OF that]] that nr [OF that] by (simp add: renamed_def)
  ultimately have l: "linked ?par' (f ` V) r s'" by (auto simp: linked_def)
  have card: "card (f ` active_children ?par V s n) = card (active_children ?par V s n)" for n
    by (rule card_image) (auto intro: inj_on_subset [OF inj(1)] simp: active_children_def)
  have "counted ?par' (f ` V) (\<lambda>_. 0) s' (f n) \<and> ref_ok (s' (f n))" if "n \<in> V" "f n \<noteq> r" for n
    using rn actsD(1,2) [OF sched_okD(3) [OF ok] that(1) nr [OF that]] that nr [OF that]
    unfolding counted_def ac [OF that(1)] card by (simp add: renamed_def)
  moreover have "queue_holds (s_queue (s' (f n))) (active_children ?par' (f ` V) s' (f n))" if "n \<in> V" for n
    using rn that unfolding ac [OF that] by (simp add: renamed_def)
  ultimately have "acts ?par' (f ` V) r (\<lambda>_. 0) s'" by (auto simp: acts_def)
  then show ?thesis using tree_rename [OF inj t rn] l by (simp add: sched_ok_def)
qed

definition relocated_queue :: "sched \<Rightarrow> nat \<Rightarrow> nat \<Rightarrow> nat sched_queue option \<Rightarrow> nat sched_queue option" where
  "relocated_queue s dst src qo = (if s_queued (s src) then map_option (replace_in_queue dst src) qo else qo)"

lemma relocate_children_eq:
  assumes "s_all_refs (s dst) = []" "s_queue (s dst) = None" "dst \<notin> set (s_all_refs (s src))" "src \<notin> set (s_all_refs (s src))" "dst \<noteq> src"
    and "\<And>c. c \<in> set (s_all_refs (s src)) \<Longrightarrow> s_parent (s c) = Some src"
  shows "relocate_children s dst src = Some (\<lambda>n. if n = dst then (s dst)\<lparr>s_all_refs := s_all_refs (s src),
      s_queue := (if s_all_refs (s src) = [] then None else s_queue (s src))\<rparr>
    else if n = src then (s src)\<lparr>s_all_refs := [], s_queue := None\<rparr>
    else if n \<in> set (s_all_refs (s src)) then (s n)\<lparr>s_parent := Some dst\<rparr> else s n)"
  using assms by (cases "s dst"; cases "s src") (auto simp: relocate_children_def Let_def list_all_iff fun_eq_iff)

lemma swap_links_eq:
  assumes "s_open (s src)" "dst \<noteq> src" "\<not> s_queued (s dst)"
  shows "swap_links s dst src = Some (\<lambda>n. (s n)\<lparr>s_all_refs := map (replace_ref dst src) (s_all_refs (s n)),
    s_queue := relocated_queue s dst src (s_queue (s n)), s_open := (n = dst \<or> n \<noteq> src \<and> s_open (s n)),
    s_queued := (if n = dst then s_queued (s src) else n \<noteq> src \<and> s_queued (s n))\<rparr>)"
  using assms by (auto simp: swap_links_def relocated_queue_def Let_def fun_eq_iff)

lemma map_replace_id: "src \<notin> set xs \<Longrightarrow> map (replace_ref dst src) xs = xs"
  by (induction xs) (auto simp: replace_ref_def)

lemma relocate_eq:
  assumes ok: "sched_ok r V s" and src: "src \<in> V" "src \<noteq> r" and dst: "dst \<notin> V"
  shows "\<exists>s'. h2o_http2_scheduler_relocate s dst src = Some s' \<and>
    (\<forall>n \<in> V - {src}. s' n = (s n)\<lparr>s_parent := map_option (replace_ref dst src) (s_parent (s n)),
      s_all_refs := map (replace_ref dst src) (s_all_refs (s n)), s_queue := relocated_queue s dst src (s_queue (s n))\<rparr>) \<and>
    s' dst = (s src)\<lparr>s_queue := relocated_queue s dst src (if s_all_refs (s src) = [] then None else s_queue (s src)),
      s_is_relocated := True\<rparr>"
proof -
  let ?s1 = "s(dst := (s src)\<lparr>s_all_refs := [], s_queue := None, s_open := False, s_queued := False, s_is_relocated := True\<rparr>)"
  note t = sched_okD(1) [OF ok]
  have ne: "dst \<noteq> src" "dst \<noteq> r" using src dst tree_root(2) [OF t] by auto
  have ch: "c \<in> set (s_all_refs (s src)) \<longleftrightarrow> c \<in> V \<and> s_parent (s c) = Some src" for c
    using linkedD(2) [OF ok src(1)] by auto
  have nochild: "src \<notin> set (s_all_refs (s src))" "dst \<notin> set (s_all_refs (s src))"
    using child_of(4) [OF ok src(1)] dst ch by auto
  let ?s2 = "\<lambda>n. if n = dst then (?s1 dst)\<lparr>s_all_refs := s_all_refs (s src), s_queue := (if s_all_refs (s src) = [] then None else s_queue (s src))\<rparr>
    else if n = src then (s src)\<lparr>s_all_refs := [], s_queue := None\<rparr>
    else if n \<in> set (s_all_refs (s src)) then (s n)\<lparr>s_parent := Some dst\<rparr> else s n"
  have "relocate_children ?s1 dst src = Some (\<lambda>n. if n = dst then (?s1 dst)\<lparr>s_all_refs := s_all_refs (?s1 src),
      s_queue := (if s_all_refs (?s1 src) = [] then None else s_queue (?s1 src))\<rparr>
    else if n = src then (?s1 src)\<lparr>s_all_refs := [], s_queue := None\<rparr>
    else if n \<in> set (s_all_refs (?s1 src)) then (?s1 n)\<lparr>s_parent := Some dst\<rparr> else ?s1 n)"
    by (rule relocate_children_eq) (use ne nochild ch dst in auto)
  also have "\<dots> = Some ?s2" using ne by (auto simp: fun_eq_iff)
  finally have s2: "relocate_children ?s1 dst src = Some ?s2" .
  have "swap_links ?s2 dst src = Some (\<lambda>n. (?s2 n)\<lparr>s_all_refs := map (replace_ref dst src) (s_all_refs (?s2 n)),
    s_queue := relocated_queue ?s2 dst src (s_queue (?s2 n)), s_open := (n = dst \<or> n \<noteq> src \<and> s_open (?s2 n)),
    s_queued := (if n = dst then s_queued (?s2 src) else n \<noteq> src \<and> s_queued (?s2 n))\<rparr>)" (is "_ = Some ?s'")
    by (rule swap_links_eq) (use ne linkedD(3) [OF ok src] in simp_all)
  moreover have e: "(s dst)\<lparr>s_parent := s_parent (s src), s_all_refs := [], s_queue := None, s_weight := s_weight (s src), s_open := False,
      s_active_cnt := s_active_cnt (s src), s_self_is_active := s_self_is_active (s src), s_deficit := s_deficit (s src),
      s_queued := False, s_is_relocated := True\<rparr> =
    (s src)\<lparr>s_all_refs := [], s_queue := None, s_open := False, s_queued := False, s_is_relocated := True\<rparr>" (is "?big = _")
    by (cases "s dst"; cases "s src") simp
  have "h2o_http2_scheduler_relocate s dst src =
      (case relocate_children (s(dst := ?big)) dst src of None \<Rightarrow> None | Some s3 \<Rightarrow> swap_links s3 dst src)"
    using ne by (simp add: h2o_http2_scheduler_relocate_def init_node_def Let_def)
  ultimately have "h2o_http2_scheduler_relocate s dst src = Some ?s'" unfolding e s2 by simp
  moreover have q: "relocated_queue ?s2 dst src = relocated_queue s dst src" using ne by (auto simp: relocated_queue_def fun_eq_iff)
  have "?s' n = (s n)\<lparr>s_parent := map_option (replace_ref dst src) (s_parent (s n)),
      s_all_refs := map (replace_ref dst src) (s_all_refs (s n)), s_queue := relocated_queue s dst src (s_queue (s n))\<rparr>"
    if n: "n \<in> V" "n \<noteq> src" for n
    using n dst ne ch [of n] unfolding q by (cases "s_parent (s n)") (auto simp: replace_ref_def)
  moreover have "?s' dst = (s src)\<lparr>s_queue := relocated_queue s dst src (if s_all_refs (s src) = [] then None else s_queue (s src)),
      s_is_relocated := True\<rparr>"
    using ne linkedD(3) [OF ok src] map_replace_id [OF nochild(1)] unfolding q by simp
  ultimately show ?thesis by blast
qed

lemma relocated_queue_holds:
  assumes "queue_holds qo A" "dst \<notin> A" "src \<in> A \<Longrightarrow> s_queued (s src)"
  shows "queue_holds (relocated_queue s dst src qo) (replace_ref dst src ` A)"
proof (cases "s_queued (s src)")
  case True
  then show ?thesis using assms(1,2) replace_holds [of _ A dst src] by (cases qo) (auto simp: relocated_queue_def)
next
  case False
  then have "replace_ref dst src ` A = A" using assms(3) by (auto simp: replace_ref_def image_iff)
  then show ?thesis using False assms(1) by (simp add: relocated_queue_def)
qed

lemma h2o_http2_scheduler_relocate_ok:
  assumes ok: "sched_ok r V s" and src: "src \<in> V" "src \<noteq> r" and dst: "dst \<notin> V"
  shows "\<exists>s'. h2o_http2_scheduler_relocate s dst src = Some s' \<and> sched_ok r (insert dst (V - {src})) s'"
proof -
  let ?f = "replace_ref dst src"
  note t = sched_okD(1) [OF ok] and a = sched_okD(3) [OF ok]
  obtain s' where s': "h2o_http2_scheduler_relocate s dst src = Some s'"
    "\<And>n. n \<in> V \<Longrightarrow> n \<noteq> src \<Longrightarrow> s' n = (s n)\<lparr>s_parent := map_option ?f (s_parent (s n)),
      s_all_refs := map ?f (s_all_refs (s n)), s_queue := relocated_queue s dst src (s_queue (s n))\<rparr>"
    "s' dst = (s src)\<lparr>s_queue := relocated_queue s dst src (if s_all_refs (s src) = [] then None else s_queue (s src)), s_is_relocated := True\<rparr>"
    using relocate_eq [OF ok src dst] by blast
  have q: "queue_holds (relocated_queue s dst src (s_queue (s n))) (?f ` active_children (s_parent \<circ> s) V s n)" if "n \<in> V" for n
  proof (rule relocated_queue_holds [OF actsD(3) [OF a that]])
    show "dst \<notin> active_children (s_parent \<circ> s) V s n" using dst by (auto simp: active_children_def)
    show "s_queued (s src)" if "src \<in> active_children (s_parent \<circ> s) V s n"
      using that actsD(2) [OF a src] by (simp add: active_children_def ref_ok_def)
  qed
  obtain p where p: "s_parent (s src) = Some p" "p \<noteq> src" using tree_parent [OF t src] by (metis comp_apply)
  have self: "src \<notin> set (s_all_refs (s src))" using child_of(4) [OF ok src(1), of src] by blast
  have leaf: "active_children (s_parent \<circ> s) V s src = {}" if "s_all_refs (s src) = []"
    using that linkedD(2) [OF ok src(1)] by (auto simp: active_children_def)
  have other: "?f n = n" if "n \<noteq> src" for n using that by (simp add: replace_ref_def)
  have here: "?f src = dst" by (simp add: replace_ref_def)
  have "renamed ?f V r s s'"
    unfolding renamed_def
  proof (intro ballI)
    fix n assume n: "n \<in> V"
    show "s_parent (s' (?f n)) = map_option ?f (s_parent (s n)) \<and> s_all_refs (s' (?f n)) = map ?f (s_all_refs (s n)) \<and>
      s_active_cnt (s' (?f n)) = s_active_cnt (s n) \<and> queue_holds (s_queue (s' (?f n))) (?f ` active_children (s_parent \<circ> s) V s n) \<and>
      (n \<noteq> r \<longrightarrow> s_open (s' (?f n)) = s_open (s n) \<and> s_self_is_active (s' (?f n)) = s_self_is_active (s n) \<and>
      (ref_ok (s n) \<longrightarrow> ref_ok (s' (?f n))))"
    proof (cases "n = src")
      case True
      have "queue_holds (s_queue (s' dst)) (?f ` active_children (s_parent \<circ> s) V s src)"
        using q [OF src(1)] leaf by (cases "s_all_refs (s src) = []") (simp_all add: s'(3) relocated_queue_def)
      then show ?thesis
        unfolding True here using p map_replace_id [OF self] other by (simp add: s'(3) ref_ok_def)
    next
      case False
      then show ?thesis using n q [OF n] by (simp add: other s'(2) ref_ok_def)
    qed
  qed
  moreover have "?f ` V = insert dst (V - {src})" using src(1) by (auto simp: replace_ref_def)
  moreover have "?f r = r" using src(2) by (simp add: replace_ref_def)
  ultimately show ?thesis
    using sched_ok_rename [OF replace_ref_inj [OF dst, of src] _ ok] s'(1) by auto
qed

end
