(* ===== verification/Sched_Run.thy ===== *)
theory Sched_Run
  imports Sched_Ops
begin

text \<open>
  Running the scheduler of \<^verbatim>\<open>lib/http2/scheduler.c\<close>: \<^verbatim>\<open>proceed\<close> calls back for one active stream none of whose ancestors is active,
  \<^verbatim>\<open>h2o_http2_scheduler_run\<close> returns, and \<^verbatim>\<open>h2o_http2_scheduler_is_active\<close> misses no active stream. The states that
  the operations reach from \<^verbatim>\<open>h2o_http2_scheduler_init\<close> are an inductive set.
\<close>

section \<open>Active streams\<close>

lemma counted_pos:
  assumes "sched_ok r V s" "n \<in> V" "n \<noteq> r"
  shows "s_active_cnt (s n) \<noteq> 0 \<longleftrightarrow> s_self_is_active (s n) \<or> active_children (s_parent \<circ> s) V s n \<noteq> {}"
proof -
  have "finite (active_children (s_parent \<circ> s) V s n)"
    using finite_active_children [OF tree_root(3) [OF sched_okD(1) [OF assms(1)]]] .
  then show ?thesis
    using actsD(1) [OF sched_okD(3) [OF assms(1)] assms(2,3)] unfolding counted_def
    by (cases "s_self_is_active (s n)") (auto simp: card_gt_0_iff)
qed

lemma active_reaches_root:
  assumes ok: "sched_ok r V s" and "n \<in> V" "n \<noteq> r" "s_active_cnt (s n) \<noteq> 0"
  shows "active_children (s_parent \<circ> s) V s r \<noteq> {}"
proof -
  have "n \<noteq> r \<longrightarrow> s_active_cnt (s n) \<noteq> 0 \<longrightarrow> active_children (s_parent \<circ> s) V s r \<noteq> {}"
    using sched_okD(1) [OF ok] assms(2)
  proof (induction n rule: tree_induct)
    case (node n p)
    have "n \<in> active_children (s_parent \<circ> s) V s p" if "s_active_cnt (s n) \<noteq> 0"
      using node.hyps that by (simp add: active_children_def)
    then show ?case using node.hyps node.IH counted_pos [OF ok, of p] by blast
  qed simp
  then show ?thesis using assms by blast
qed

lemma is_active_complete:
  assumes ok: "sched_ok r V s" and "n \<in> V" "n \<noteq> r" "s_self_is_active (s n)"
  shows "h2o_http2_scheduler_is_active s r"
proof -
  have "active_children (s_parent \<circ> s) V s r \<noteq> {}"
    using active_reaches_root [OF ok assms(2,3)] counted_pos [OF ok assms(2,3)] assms(4) by blast
  then show ?thesis
    using actsD(3) [OF sched_okD(3) [OF ok] tree_root(2) [OF sched_okD(1) [OF ok]]] queue_is_empty_holds
    by (cases "s_queue (s r)") (auto simp: h2o_http2_scheduler_is_active_def)
qed

section \<open>One stream\<close>

text \<open>All is well but that \<open>ref\<close>, which is active, is in no queue.\<close>

definition acts_but :: "(nat \<Rightarrow> nat option) \<Rightarrow> nat set \<Rightarrow> nat \<Rightarrow> nat \<Rightarrow> sched \<Rightarrow> bool" where
  "acts_but par V r ref s \<longleftrightarrow> (\<forall>n \<in> V - {r}. counted par V (\<lambda>_. 0) s n \<and> (n \<noteq> ref \<longrightarrow> ref_ok (s n))) \<and>
    \<not> s_queued (s ref) \<and> s_active_cnt (s ref) \<noteq> 0 \<and> 1 \<le> s_weight (s ref) \<and> s_weight (s ref) \<le> 257 \<and> s_deficit (s ref) < 65536 \<and>
    (\<forall>n \<in> V. queue_holds (s_queue (s n)) (active_children par V s n - {ref}))"

lemma set_back:
  assumes a: "acts_but par V r ref s" and n: "n \<in> V" "n \<noteq> ref" "par ref = Some n" "ref \<in> V"
  shows "\<exists>s'. set_in_queue s n ref = Some s' \<and> acts par V r (\<lambda>_. 0) s' \<and> same_links s s' \<and> (\<forall>m. s_active_cnt (s' m) = s_active_cnt (s m))"
proof -
  have isin: "ref \<in> active_children par V s n" using a n by (simp add: active_children_def acts_but_def)
  have "queue_holds (s_queue (s n)) (active_children par V s n - {ref})" using a n(1) by (simp add: acts_but_def)
  then obtain q d where q: "set_in_queue s n ref = Some (s(n := (s n)\<lparr>s_queue := Some q\<rparr>, ref := (s ref)\<lparr>s_deficit := d, s_queued := True\<rparr>))"
    "d < 65536" "queue_holds (Some q) (insert ref (active_children par V s n - {ref}))"
    using set_in_queue_ok [where s = s and p = n and x = ref and A = "active_children par V s n - {ref}"] a n(2)
    by (auto simp: acts_but_def)
  let ?s' = "s(n := (s n)\<lparr>s_queue := Some q\<rparr>, ref := (s ref)\<lparr>s_deficit := d, s_queued := True\<rparr>)"
  have f: "s_active_cnt (?s' m) = s_active_cnt (s m)" "s_self_is_active (?s' m) = s_self_is_active (s m)" for m using n(2) by simp_all
  have ac: "active_children par V ?s' m = active_children par V s m" for m by (rule active_children_cong) (simp only: f)
  have "counted par V (\<lambda>_. 0) ?s' m" "ref_ok (?s' m)" if "m \<in> V" "m \<noteq> r" for m
    using a that q(2) unfolding counted_def ac f by (auto simp: acts_but_def counted_def ref_ok_def)
  moreover have "queue_holds (s_queue (?s' m)) (active_children par V ?s' m)" if "m \<in> V" for m
  proof (cases "m = n")
    case True
    then show ?thesis using q(3) n(2) isin unfolding ac by (simp add: insert_absorb)
  next
    case False
    then have "ref \<notin> active_children par V s m" using n(3) by (simp add: active_children_def)
    then show ?thesis using False a that unfolding ac by (cases "m = ref") (auto simp: acts_but_def)
  qed
  ultimately have "acts par V r (\<lambda>_. 0) ?s'" by (simp only: acts_def) blast
  moreover have "same_links s ?s'" using n(2) by (simp add: same_links_def)
  ultimately show ?thesis using q(1) f(1) by blast
qed

lemma popped_ok:
  assumes ok: "sched_ok r V s" and n: "n \<in> V" "s_queue (s n) = Some q"
    and q1: "ref \<in> active_children (s_parent \<circ> s) V s n" "queue_holds (Some q1) (active_children (s_parent \<circ> s) V s n - {ref})"
    and s2: "s2 = s(n := (s n)\<lparr>s_queue := Some q1\<rparr>, ref := ((s(n := (s n)\<lparr>s_queue := Some q1\<rparr>)) ref)\<lparr>s_queued := False\<rparr>)"
  shows "acts_but (s_parent \<circ> s) V r ref s2" "same_links s s2" "\<And>m. s_active_cnt (s2 m) = s_active_cnt (s m)"
    "ref \<in> V" "ref \<noteq> r" "ref \<noteq> n" "s_parent (s ref) = Some n"
proof -
  let ?par = "s_parent \<circ> s"
  note a = sched_okD(3) [OF ok] and t = sched_okD(1) [OF ok]
  show ref: "ref \<in> V" "s_parent (s ref) = Some n" using q1(1) by (simp_all add: active_children_def)
  show r: "ref \<noteq> r" using ref tree_root(1) [OF t] by auto
  have "\<not> above ?par V n ref" using above_parent_False [OF t ref(1)] ref(2) by simp
  then show ne: "ref \<noteq> n" by auto
  show cnt: "s_active_cnt (s2 m) = s_active_cnt (s m)" for m by (simp add: s2)
  show "same_links s s2" by (simp add: same_links_def s2)
  have ac: "active_children ?par V s2 m = active_children ?par V s m" for m by (rule active_children_cong) (simp only: cnt)
  have self: "s_self_is_active (s2 m) = s_self_is_active (s m)" for m by (simp add: s2)
  have c: "counted ?par V (\<lambda>_. 0) s2 m \<and> (m \<noteq> ref \<longrightarrow> ref_ok (s2 m))" if "m \<in> V - {r}" for m
    using that actsD(1,2) [OF a, of m] unfolding counted_def ac cnt self by (cases "m = n") (simp_all add: s2 ref_ok_def)
  have "queue_holds (s_queue (s2 m)) (active_children ?par V s2 m - {ref})" if "m \<in> V" for m
  proof (cases "m = n")
    case True
    then show ?thesis using q1(2) ne unfolding ac by (simp add: s2)
  next
    case False
    then have "active_children ?par V s m - {ref} = active_children ?par V s m" using ref(2) by (auto simp: active_children_def)
    then show ?thesis using False actsD(3) [OF a that] unfolding ac by (cases "m = ref") (simp_all add: s2)
  qed
  moreover have "\<not> s_queued (s2 ref) \<and> s_active_cnt (s2 ref) \<noteq> 0 \<and> 1 \<le> s_weight (s2 ref) \<and> s_weight (s2 ref) \<le> 257 \<and>
    s_deficit (s2 ref) < 65536"
    using actsD(2) [OF a ref(1) r] q1(1) ne by (simp add: s2 ref_ok_def active_children_def)
  ultimately show "acts_but ?par V r ref s2" using c unfolding acts_but_def by blast
qed

lemma after_callback_ok:
  assumes t: "tree par V r" and a: "acts_but par V r ref s" and par: "\<And>m. s_parent (s m) = par m"
    and ref: "ref \<in> V" "ref \<noteq> r" "par ref = Some n" "s_self_is_active (s ref)"
  shows "\<exists>s'. after_callback s n ref still = Some s' \<and> acts par V r (\<lambda>_. 0) s' \<and>
    (\<forall>m. s_parent (s' m) = s_parent (s m) \<and> s_all_refs (s' m) = s_all_refs (s m) \<and> s_open (s' m) = s_open (s m) \<and>
      s_self_is_active (s' m) = (if m = ref then still else s_self_is_active (s m)))"
proof -
  have n: "n \<in> V" "n \<noteq> ref" using tree_parent [OF t ref(1,2)] ref(3) by auto
  show ?thesis
  proof (cases still)
    case True
    from set_back [OF a n ref(3,1)] obtain s' where s': "set_in_queue s n ref = Some s'" "acts par V r (\<lambda>_. 0) s'" "same_links s s'"
      by blast
    then show ?thesis using True ref(4) same_linksD [OF s'(3)] by (simp add: after_callback_def)
  next
    case False
    let ?c = "s_active_cnt (s ref)"
    let ?s1 = "s(ref := (s ref)\<lparr>s_self_is_active := False, s_active_cnt := ?c - 1\<rparr>)"
    have c: "counted par V (\<lambda>_. 0) s m" "m \<noteq> ref \<Longrightarrow> ref_ok (s m)" if "m \<in> V" "m \<noteq> r" for m
      using a that by (auto simp: acts_but_def)
    have pos: "?c \<noteq> 0" and q: "\<And>m. m \<in> V \<Longrightarrow> queue_holds (s_queue (s m)) (active_children par V s m - {ref})"
      using a by (auto simp: acts_but_def)
    have "?c < 2 ^ 24"
      using c(1) [OF ref(1,2)] card_active_children [OF t, of s ref] ref(4) by (simp add: counted_def)
    then have m: "(?c + 2 ^ 64 - 1) mod 2 ^ 64 = ?c - 1" using pos by (simp add: mod_if)
    have eq: "after_callback s n ref still = (if ?c - 1 \<noteq> 0 then set_in_queue ?s1 n ref else decr_active_cnt ?s1 n)"
      using False par [of ref] ref(3) unfolding after_callback_def m by (simp add: Let_def)
    show ?thesis
    proof (cases "?c - 1 = 0")
      case F: False
      have ac: "active_children par V ?s1 m = active_children par V s m" for m
        by (rule active_children_cong) (use F pos in auto)
      have "counted par V (\<lambda>_. 0) ?s1 m" if "m \<in> V" "m \<noteq> r" for m
        using c(1) [OF that] ref(4) pos unfolding counted_def ac by (cases "m = ref") auto
      then have "acts_but par V r ref ?s1"
        using a c(2) q F unfolding acts_but_def ac by simp
      from set_back [OF this n ref(3,1)] obtain s' where s': "set_in_queue ?s1 n ref = Some s'" "acts par V r (\<lambda>_. 0) s'" "same_links ?s1 s'"
        by blast
      then show ?thesis using False F same_linksD [OF s'(3)] unfolding eq by simp
    next
      case T: True
      then have one: "?c = 1" using pos by simp
      have ac: "active_children par V ?s1 m = (if m = n then active_children par V s m - {ref} else active_children par V s m)" for m
        by (rule active_children_off [where x = ref]) (use ref one in auto)
      have isin: "ref \<in> active_children par V s n" using ref one by (simp add: active_children_def)
      have fin: "finite (active_children par V s n)" using finite_active_children [OF tree_root(3) [OF t]] .
      obtain k where k: "card (active_children par V s n) = Suc k" "card (active_children par V s n - {ref}) = k"
        using card.remove [OF fin isin] by simp
      have "counted par V ((\<lambda>_. 0)(n := -1)) ?s1 m" if "m \<in> V" "m \<noteq> r" for m
        using c(1) [OF that] ref(4) one n(2) k unfolding counted_def ac by (cases "m = ref"; cases "m = n") auto
      moreover have "ref_ok (?s1 m)" if "m \<in> V" "m \<noteq> r" for m
        using a that one by (cases "m = ref") (auto simp: acts_but_def ref_ok_def)
      moreover have "queue_holds (s_queue (?s1 m)) (active_children par V ?s1 m)" if "m \<in> V" for m
      proof -
        have "m \<noteq> n \<Longrightarrow> ref \<notin> active_children par V s m" using ref(3) by (simp add: active_children_def)
        then show ?thesis using q [OF that] unfolding ac by (cases "m = ref"; cases "m = n") auto
      qed
      ultimately have a1: "acts par V r ((\<lambda>_. 0)(n := -1)) ?s1" by (simp only: acts_def) blast
      have "\<exists>s'. decr_active_cnt ?s1 n = Some s' \<and> acts par V r (\<lambda>_. 0) s' \<and> same_links ?s1 s' \<and>
        (\<forall>m. \<not> above par V n m \<longrightarrow> s_active_cnt (s' m) = s_active_cnt (?s1 m))"
        by (rule decr_active_cnt_ok [OF t n(1)]) (use a1 par in simp_all)
      then obtain s' where s': "decr_active_cnt ?s1 n = Some s'" "acts par V r (\<lambda>_. 0) s'" "same_links ?s1 s'" by blast
      then show ?thesis using False T same_linksD [OF s'(3)] unfolding eq by simp
    qed
  qed
qed

text \<open>What one call of the callback does, and which reference it is called for.\<close>

definition serves :: "'e run_cb \<Rightarrow> nat set \<Rightarrow> nat \<Rightarrow> sched \<Rightarrow> 'e \<Rightarrow> nat \<Rightarrow> nat \<Rightarrow> int \<Rightarrow> sched \<Rightarrow> 'e \<Rightarrow> bool" where
  "serves cb V r s e n ref bail_out s' e' \<longleftrightarrow> ref \<in> V \<and> ref \<noteq> r \<and> s_self_is_active (s ref) \<and> above (s_parent \<circ> s) V ref n \<and>
    (\<forall>m. above (s_parent \<circ> s) V ref m \<longrightarrow> m = ref \<or> above (s_parent \<circ> s) V n m \<or> \<not> s_self_is_active (s m)) \<and>
    (\<exists>still. cb e ref = (bail_out, still, e') \<and>
      (\<forall>m. s_self_is_active (s' m) = (if m = ref then still else s_self_is_active (s m))))"

lemma tree_wf_down: "tree par V r \<Longrightarrow> wf (parent_rel par V)"
  by (simp add: finite_acyclic_wf finite_parent_rel tree_def)

lemma proceed_pop:
  assumes "s_queue (s n) = Some q" "queue_pop q = (Some ref, q1)"
    and s2: "s2 = s(n := (s n)\<lparr>s_queue := Some q1\<rparr>, ref := ((s(n := (s n)\<lparr>s_queue := Some q1\<rparr>)) ref)\<lparr>s_queued := False\<rparr>)"
  shows "proceed cb s e n =
    (if \<not> s_self_is_active (s2 ref) then (case set_in_queue s2 n ref of None \<Rightarrow> None | Some s3 \<Rightarrow> proceed cb s3 e ref)
     else if s_active_cnt (s2 ref) = 0 then None
     else
       (case cb e ref of
          (bail_out, still_is_active, e1) \<Rightarrow>
            (case after_callback s2 n ref still_is_active of None \<Rightarrow> None | Some s3 \<Rightarrow> Some (bail_out, s3, e1))))"
  unfolding s2 by (subst proceed.simps) (simp only: assms(1,2) option.case prod.case Let_def)

lemma proceed_ok:
  assumes "tree par V r" "sched_ok r V s" "s_parent \<circ> s = par" "n \<in> V" "active_children par V s n \<noteq> {}"
  shows "\<exists>bail_out s' e' ref. proceed cb s e n = Some (bail_out, s', e') \<and> sched_ok r V s' \<and> s_parent \<circ> s' = s_parent \<circ> s \<and>
    serves cb V r s e n ref bail_out s' e'"
  using tree_wf_down [OF assms(1)] assms(2-5)
proof (induction n arbitrary: s rule: wf_induct_rule)
  case (less n)
  note ok = less.prems(1) and par = less.prems(2) [symmetric]
  note t = sched_okD(1) [OF ok]
  obtain q where q: "s_queue (s n) = Some q"
    using actsD(3) [OF sched_okD(3) [OF ok] less.prems(3)] less.prems(4) unfolding par by (cases "s_queue (s n)") auto
  have "queue_holds (Some q) (active_children (s_parent \<circ> s) V s n)"
    using actsD(3) [OF sched_okD(3) [OF ok] less.prems(3)] q by simp
  then obtain ref q1 where pop: "ref \<in> active_children (s_parent \<circ> s) V s n" "queue_pop q = (Some ref, q1)"
    "queue_holds (Some q1) (active_children (s_parent \<circ> s) V s n - {ref})"
    using less.prems(4) unfolding par by (cases rule: queue_pop_holds) (blast, metis)
  define s2 where "s2 = s(n := (s n)\<lparr>s_queue := Some q1\<rparr>, ref := ((s(n := (s n)\<lparr>s_queue := Some q1\<rparr>)) ref)\<lparr>s_queued := False\<rparr>)"
  note p = popped_ok [OF ok less.prems(3) q pop(1,3) s2_def]
  note l2 = same_linksD [OF p(2)]
  have pr: "(s_parent \<circ> s) ref = Some n" using p(7) by simp
  have ab: "above (s_parent \<circ> s) V ref m \<longleftrightarrow> m = ref \<or> above (s_parent \<circ> s) V n m" for m
    using above_step [of "s_parent \<circ> s" ref n V m, OF pr p(4)] .
  show ?case
  proof (cases "s_self_is_active (s ref)")
    case False
    obtain s3 where s3: "set_in_queue s2 n ref = Some s3" "acts (s_parent \<circ> s) V r (\<lambda>_. 0) s3" "same_links s2 s3"
      "\<And>m. s_active_cnt (s3 m) = s_active_cnt (s2 m)"
      using set_back [OF p(1) less.prems(3) not_sym [OF p(6)] pr p(4)] by blast
    note l3 = same_linksD [OF same_links_trans [OF p(2) s3(3)]]
    have par3: "s_parent \<circ> s3 = s_parent \<circ> s" using l3(1) by auto
    have ok3: "sched_ok r V s3" by (rule sched_ok_recount [OF ok s3(2)]) (use l3 in simp)
    have "s_active_cnt (s3 ref) \<noteq> 0" using pop(1) s3(4) p(3) by (simp add: active_children_def)
    then have "active_children par V s3 ref \<noteq> {}"
      using counted_pos [OF ok3 p(4,5)] False l3(5) unfolding par3 par by simp
    moreover have "(ref, n) \<in> parent_rel par V" using p(4) pr unfolding par by (simp add: parent_rel_def)
    ultimately obtain b s' e' x where s': "proceed cb s3 e ref = Some (b, s', e')" "sched_ok r V s'" "s_parent \<circ> s' = s_parent \<circ> s3"
      "serves cb V r s3 e ref x b s' e'"
      using less.IH [of ref s3] ok3 par3 par p(4) by metis
    have "proceed cb s e n = Some (b, s', e')"
      using False l2(5) s3(1) s'(1) unfolding proceed_pop [OF q pop(2) s2_def] by simp
    moreover have "serves cb V r s e n x b s' e'"
    proof -
      note sv = s'(4) [unfolded serves_def par3 l3(5)]
      have "above (s_parent \<circ> s) V x n" using sv above_trans [of "s_parent \<circ> s" V x ref n] ab [of n] by simp
      moreover have "m = x \<or> above (s_parent \<circ> s) V n m \<or> \<not> s_self_is_active (s m)" if "above (s_parent \<circ> s) V x m" for m
        using sv that ab [of m] False by metis
      ultimately show ?thesis using sv unfolding serves_def by simp
    qed
    ultimately show ?thesis using s'(2,3) unfolding par3 by blast
  next
    case True
    obtain b still e' where cb: "cb e ref = (b, still, e')" by (cases "cb e ref")
    have par2: "s_parent (s2 m) = (s_parent \<circ> s) m" and self2: "s_self_is_active (s2 ref)" for m using l2(1,5) True by simp_all
    obtain s' where s': "after_callback s2 n ref still = Some s'" "acts (s_parent \<circ> s) V r (\<lambda>_. 0) s'"
      "\<And>m. s_parent (s' m) = s_parent (s2 m) \<and> s_all_refs (s' m) = s_all_refs (s2 m) \<and> s_open (s' m) = s_open (s2 m) \<and>
        s_self_is_active (s' m) = (if m = ref then still else s_self_is_active (s2 m))"
      using after_callback_ok [OF t p(1) par2 p(4,5) pr self2, of still] by blast
    have "s_active_cnt (s2 ref) \<noteq> 0" using pop(1) p(3) by (simp add: active_children_def)
    then have "proceed cb s e n = Some (b, s', e')"
      using True l2(5) cb s'(1) unfolding proceed_pop [OF q pop(2) s2_def] by simp
    moreover have "sched_ok r V s'" by (rule sched_ok_recount [OF ok s'(2)]) (use l2 s'(3) in simp)
    moreover have "s_parent \<circ> s' = s_parent \<circ> s" using l2(1) s'(3) by (auto simp: fun_eq_iff)
    moreover have "serves cb V r s e n ref b s' e'"
      using p(4,5) True ab cb s'(3) l2(5) unfolding serves_def by auto
    ultimately show ?thesis by blast
  qed
qed

section \<open>Running until no stream is active\<close>

lemma pop_loop_None: "pop_loop q = (None, q') \<Longrightarrow> q_bits q' = 0 \<and> q_anchor257 q' = q_anchor257 q"
proof (induction q rule: pop_loop.induct)
  case (1 q)
  show ?case
  proof (cases "q_bits q = 0")
    case True
    then show ?thesis using 1(2) by (subst (asm) pop_loop.simps) simp
  next
    case False
    then show ?thesis using 1 by (subst (asm) (2) pop_loop.simps) (auto simp: Let_def split: list.splits)
  qed
qed

lemma queue_pop_None: "queue_pop q = (None, q') \<Longrightarrow> queue_is_empty q'"
  using pop_loop_None [of q q'] by (auto simp: queue_pop_def queue_is_empty_def split: list.splits)

lemma proceed_idle:
  assumes ok: "sched_ok r V s" and q: "s_queue (s r) = Some q" and idle: "active_children (s_parent \<circ> s) V s r = {}"
  obtains q' where "proceed cb s e r = Some (0, s(r := (s r)\<lparr>s_queue := Some q'\<rparr>), e)" "queue_is_empty q'"
    "sched_ok r V (s(r := (s r)\<lparr>s_queue := Some q'\<rparr>))"
proof -
  note a = sched_okD(3) [OF ok] and rV = tree_root(2) [OF sched_okD(1) [OF ok]]
  have "queue_holds (Some q) {}" using actsD(3) [OF a rV] q idle by simp
  then obtain q' where q': "queue_pop q = (None, q')" "queue_holds (Some q') {}" by (cases rule: queue_pop_holds) auto
  let ?s = "s(r := (s r)\<lparr>s_queue := Some q'\<rparr>)"
  have f: "s_active_cnt (?s n) = s_active_cnt (s n)" "s_self_is_active (?s n) = s_self_is_active (s n)" for n by simp_all
  have ac: "active_children (s_parent \<circ> s) V ?s n = active_children (s_parent \<circ> s) V s n" for n
    by (rule active_children_cong) (simp only: f)
  have "counted (s_parent \<circ> s) V (\<lambda>_. 0) ?s n" "ref_ok (?s n)" if "n \<in> V" "n \<noteq> r" for n
    using actsD(1,2) [OF a that] that(2) unfolding counted_def ac f by simp_all
  moreover have "queue_holds (s_queue (?s n)) (active_children (s_parent \<circ> s) V ?s n)" if "n \<in> V" for n
    using actsD(3) [OF a that] q'(2) idle unfolding ac by (cases "n = r") simp_all
  ultimately have "acts (s_parent \<circ> s) V r (\<lambda>_. 0) ?s" by (simp only: acts_def) blast
  then have "sched_ok r V ?s" by (rule sched_ok_recount [OF ok]) simp
  moreover have "proceed cb s e r = Some (0, ?s, e)" using q q'(1) by (subst proceed.simps) simp
  ultimately show ?thesis using that queue_pop_None [OF q'(1)] by blast
qed

text \<open>
  The callback makes progress: unless it bails out, a measure of its state decreases, or it stays and the stream is no longer active.
\<close>

definition makes_progress :: "'e run_cb \<Rightarrow> ('e \<Rightarrow> nat) \<Rightarrow> bool" where
  "makes_progress cb \<mu> \<longleftrightarrow> (\<forall>e ref bail_out still e'. cb e ref = (bail_out, still, e') \<longrightarrow>
    bail_out \<noteq> 0 \<or> (if still then \<mu> e' < \<mu> e else \<mu> e' \<le> \<mu> e))"

definition active_streams :: "nat \<Rightarrow> nat set \<Rightarrow> sched \<Rightarrow> nat set" where
  "active_streams r V s = {n \<in> V - {r}. s_self_is_active (s n)}"

lemma inactive_queue:
  assumes ok: "sched_ok r V s" and "\<not> h2o_http2_scheduler_is_active s r"
  shows "active_streams r V s = {}"
  using is_active_complete [OF ok] assms(2) by (auto simp: active_streams_def)

lemma idle_streams:
  assumes ok: "sched_ok r V s" and "active_children (s_parent \<circ> s) V s r = {}"
  shows "active_streams r V s = {}"
proof -
  have "\<not> s_self_is_active (s n)" if "n \<in> V" "n \<noteq> r" for n
    using active_reaches_root [OF ok that] assms(2) counted_pos [OF ok that] by blast
  then show ?thesis by (auto simp: active_streams_def)
qed

lemma run_ok:
  assumes cb: "makes_progress cb \<mu>" and "sched_ok r V s"
  shows "\<exists>bail_out s' e'. h2o_http2_scheduler_run cb s e r = Some (bail_out, s', e') \<and> sched_ok r V s' \<and>
    s_parent \<circ> s' = s_parent \<circ> s \<and>
    (if bail_out = 0 then active_streams r V s' = {} else \<exists>e ref still. cb e ref = (bail_out, still, e'))"
  using assms(2)
proof (induction "(\<mu> e, card (active_streams r V s))" arbitrary: s e rule: wf_induct_rule [OF wf_lex_prod [OF wf_less_than wf_less_than]])
  case (1 s e)
  note ok = \<open>sched_ok r V s\<close>
  have rV: "r \<in> V" using tree_root(2) [OF sched_okD(1) [OF ok]] .
  show ?case
  proof (cases "h2o_http2_scheduler_is_active s r")
    case False
    then have "h2o_http2_scheduler_run cb s e r = Some (0, s, e)"
      by (subst h2o_http2_scheduler_run.simps) (auto simp: h2o_http2_scheduler_is_active_def split: option.splits)
    then show ?thesis using ok inactive_queue [OF ok False] by simp
  next
    case True
    then obtain q where q: "s_queue (s r) = Some q" "\<not> queue_is_empty q"
      by (auto simp: h2o_http2_scheduler_is_active_def split: option.splits)
    have run: "h2o_http2_scheduler_run cb s e r =
      (case proceed cb s e r of None \<Rightarrow> None | Some (b, s1, e1) \<Rightarrow> if b \<noteq> 0 then Some (b, s1, e1) else h2o_http2_scheduler_run cb s1 e1 r)"
      using q by (subst h2o_http2_scheduler_run.simps) simp
    show ?thesis
    proof (cases "active_children (s_parent \<circ> s) V s r = {}")
      case idle: True
      obtain q' where q': "proceed cb s e r = Some (0, s(r := (s r)\<lparr>s_queue := Some q'\<rparr>), e)" "queue_is_empty q'"
        "sched_ok r V (s(r := (s r)\<lparr>s_queue := Some q'\<rparr>))"
        by (rule proceed_idle [OF ok q(1) idle])
      let ?s = "s(r := (s r)\<lparr>s_queue := Some q'\<rparr>)"
      have "h2o_http2_scheduler_run cb ?s e r = Some (0, ?s, e)"
        using q'(2) by (subst h2o_http2_scheduler_run.simps) simp
      then have "h2o_http2_scheduler_run cb s e r = Some (0, ?s, e)" unfolding run q'(1) by simp
      moreover have "active_streams r V ?s = {}" using idle_streams [OF ok idle] by (auto simp: active_streams_def)
      moreover have "s_parent \<circ> ?s = s_parent \<circ> s" by auto
      ultimately show ?thesis using q'(3) by (intro exI [of _ 0] exI [of _ ?s] exI [of _ e]) simp
    next
      case busy: False
      obtain b s1 e1 ref where p: "proceed cb s e r = Some (b, s1, e1)" "sched_ok r V s1" "s_parent \<circ> s1 = s_parent \<circ> s"
        "serves cb V r s e r ref b s1 e1"
        using proceed_ok [OF sched_okD(1) [OF ok] ok refl rV busy, of cb e] by blast
      show ?thesis
      proof (cases "b = 0")
        case False
        moreover obtain still where "cb e ref = (b, still, e1)" using p(4) unfolding serves_def by blast
        ultimately show ?thesis using p(1-3) unfolding run by auto
      next
        case zero: True
        obtain still where still: "cb e ref = (b, still, e1)" "\<And>m. s_self_is_active (s1 m) = (if m = ref then still else s_self_is_active (s m))"
          and ref: "ref \<in> V" "ref \<noteq> r" "s_self_is_active (s ref)"
          using p(4) unfolding serves_def by blast
        have fin: "finite (active_streams r V s)"
          using tree_root(3) [OF sched_okD(1) [OF ok]] by (simp add: active_streams_def)
        have "((\<mu> e1, card (active_streams r V s1)), (\<mu> e, card (active_streams r V s))) \<in> less_than <*lex*> less_than"
        proof (cases still)
          case True
          then show ?thesis using cb still(1) zero unfolding makes_progress_def by fastforce
        next
          case False
          then have "active_streams r V s1 = active_streams r V s - {ref}" using still(2) by (auto simp: active_streams_def)
          moreover have "ref \<in> active_streams r V s" using ref by (simp add: active_streams_def)
          ultimately have "card (active_streams r V s1) < card (active_streams r V s)"
            using card_Diff1_less [OF fin] by simp
          moreover have "\<mu> e1 \<le> \<mu> e" using cb still(1) zero False unfolding makes_progress_def by fastforce
          ultimately show ?thesis by (auto simp: less_le)
        qed
        from 1(1) [OF this p(2)] obtain b' s' e' where "h2o_http2_scheduler_run cb s1 e1 r = Some (b', s', e')" "sched_ok r V s'"
          "s_parent \<circ> s' = s_parent \<circ> s1"
          "if b' = 0 then active_streams r V s' = {} else \<exists>e ref still. cb e ref = (b', still, e')" by blast
        then show ?thesis using zero p(1,3) unfolding run by simp
      qed
    qed
  qed
qed

section \<open>Looking for a parent by weight\<close>

text \<open>
  The search ends at a node of the tree that has no dependent, or whose first dependent is lighter than the new stream; every node passed on the
  way is at least as heavy as the new stream or has been relocated.
\<close>

lemma find_parent_by_weight_ok:
  assumes ok: "sched_ok r V s" and "n \<in> V"
  shows "\<exists>p. h2o_http2_scheduler_find_parent_by_weight s n w = Some p \<and> p \<in> V \<and> above (s_parent \<circ> s) V p n \<and>
    (case s_all_refs (s p) of [] \<Rightarrow> True | c # _ \<Rightarrow> \<not> s_is_relocated (s c) \<and> s_weight (s c) < w) \<and>
    (p = n \<or> s_is_relocated (s p) \<or> w \<le> s_weight (s p))"
  using tree_wf_down [OF sched_okD(1) [OF ok]] assms(2)
proof (induction n rule: wf_induct_rule)
  case (less n)
  show ?case
  proof (cases "s_all_refs (s n)")
    case Nil
    then show ?thesis using less.prems by (subst h2o_http2_scheduler_find_parent_by_weight.simps) simp
  next
    case (Cons c cs)
    note c = child_of [OF ok less.prems, of c, unfolded Cons, OF list.set_intros(1)]
    show ?thesis
    proof (cases "\<not> s_is_relocated (s c) \<and> s_weight (s c) < w")
      case True
      then show ?thesis using Cons less.prems by (subst h2o_http2_scheduler_find_parent_by_weight.simps) simp
    next
      case False
      have "(c, n) \<in> parent_rel (s_parent \<circ> s) V" using c(1,3) by (simp add: parent_rel_def)
      from less.IH [OF this c(1)] obtain p where p: "h2o_http2_scheduler_find_parent_by_weight s c w = Some p" "p \<in> V"
        "above (s_parent \<circ> s) V p c" "case s_all_refs (s p) of [] \<Rightarrow> True | c # _ \<Rightarrow> \<not> s_is_relocated (s c) \<and> s_weight (s c) < w"
        "p = c \<or> s_is_relocated (s p) \<or> w \<le> s_weight (s p)" by blast
      have "above (s_parent \<circ> s) V c n" using above_step [of "s_parent \<circ> s" c n V n] c(1,3) by simp
      then have "above (s_parent \<circ> s) V p n" by (rule above_trans [OF p(3)])
      moreover have "h2o_http2_scheduler_find_parent_by_weight s n w = Some p"
        using Cons False p(1) by (subst h2o_http2_scheduler_find_parent_by_weight.simps) auto
      moreover have "s_is_relocated (s p) \<or> w \<le> s_weight (s p)" using p(5) False by auto
      ultimately show ?thesis using p(2,4) by blast
    qed
  qed
qed

section \<open>Reachable states\<close>

text \<open>
  The states that the callers of the scheduler can bring about, with the nodes in the tree. A stream is opened under a node of the tree with a
  weight from 1 to 257, as long as there are fewer than \<open>2\<^sup>2\<^sup>3\<close> streams; a stream of the tree is moved, relocated, activated or closed. A call
  of \<^verbatim>\<open>proceed\<close> calls back at most once, so that the callbacks without a state of their own show every effect it can have.
\<close>

inductive sched_reachable :: "nat \<Rightarrow> sched \<Rightarrow> nat set \<Rightarrow> bool" for r where
  init: "sched_reachable r (h2o_http2_scheduler_init s r) {r}"
| open_ref: "sched_reachable r s V \<Longrightarrow> ref \<notin> V \<Longrightarrow> parent \<in> V \<Longrightarrow> card V < 2 ^ 23 \<Longrightarrow> 1 \<le> w \<Longrightarrow> w \<le> 257 \<Longrightarrow>
    h2o_http2_scheduler_open s ref parent w exclusive = Some s' \<Longrightarrow> sched_reachable r s' (insert ref V)"
| close_ref: "sched_reachable r s V \<Longrightarrow> ref \<in> V \<Longrightarrow> ref \<noteq> r \<Longrightarrow> h2o_http2_scheduler_close s ref = Some s' \<Longrightarrow>
    sched_reachable r s' (V - {ref})"
| rebind_ref: "sched_reachable r s V \<Longrightarrow> ref \<in> V \<Longrightarrow> ref \<noteq> r \<Longrightarrow> np \<in> V \<Longrightarrow> np \<noteq> ref \<Longrightarrow> 1 \<le> w \<Longrightarrow> w \<le> 257 \<Longrightarrow>
    h2o_http2_scheduler_rebind s ref np w exclusive = Some s' \<Longrightarrow> sched_reachable r s' V"
| relocate_ref: "sched_reachable r s V \<Longrightarrow> src \<in> V \<Longrightarrow> src \<noteq> r \<Longrightarrow> dst \<notin> V \<Longrightarrow>
    h2o_http2_scheduler_relocate s dst src = Some s' \<Longrightarrow> sched_reachable r s' (insert dst (V - {src}))"
| activate_ref: "sched_reachable r s V \<Longrightarrow> ref \<in> V \<Longrightarrow> ref \<noteq> r \<Longrightarrow> h2o_http2_scheduler_activate s ref = Some s' \<Longrightarrow>
    sched_reachable r s' V"
| deactivate_ref: "sched_reachable r s V \<Longrightarrow> ref \<in> V \<Longrightarrow> ref \<noteq> r \<Longrightarrow> h2o_http2_scheduler_deactivate s ref = Some s' \<Longrightarrow>
    sched_reachable r s' V"
| proceed_ref: "sched_reachable r s V \<Longrightarrow> proceed cb s () r = Some (bail_out, s', u) \<Longrightarrow> sched_reachable r s' V"

lemma init_ok: "sched_ok r {r} (h2o_http2_scheduler_init s r)"
proof -
  have p: "s_parent (h2o_http2_scheduler_init s r r) = None" by (simp add: h2o_http2_scheduler_init_def init_node_def)
  then have "parent_rel (s_parent \<circ> h2o_http2_scheduler_init s r) {r} = {}" by (auto simp: parent_rel_def)
  then have "tree (s_parent \<circ> h2o_http2_scheduler_init s r) {r} r"
    using p by (simp add: tree_def acyclic_def)
  moreover have "linked (s_parent \<circ> h2o_http2_scheduler_init s r) {r} r (h2o_http2_scheduler_init s r)"
    using p by (auto simp: linked_def h2o_http2_scheduler_init_def init_node_def)
  moreover have "acts (s_parent \<circ> h2o_http2_scheduler_init s r) {r} r (\<lambda>_. 0) (h2o_http2_scheduler_init s r)"
    using p by (auto simp: acts_def active_children_def h2o_http2_scheduler_init_def init_node_def)
  ultimately show ?thesis by (simp add: sched_ok_def)
qed

lemma proceed_root_ok:
  assumes ok: "sched_ok r V s"
  shows "\<exists>bail_out s' e'. proceed cb s e r = Some (bail_out, s', e') \<and> sched_ok r V s' \<and>
    (active_streams r V s = {} \<and> bail_out = 0 \<and> e' = e \<or> (\<exists>ref. serves cb V r s e r ref bail_out s' e'))"
proof (cases "active_children (s_parent \<circ> s) V s r = {}")
  case True
  show ?thesis
  proof (cases "s_queue (s r)")
    case None
    then show ?thesis using ok idle_streams [OF ok True] by (subst proceed.simps) simp
  next
    case (Some q)
    obtain q' where "proceed cb s e r = Some (0, s(r := (s r)\<lparr>s_queue := Some q'\<rparr>), e)" "sched_ok r V (s(r := (s r)\<lparr>s_queue := Some q'\<rparr>))"
      by (rule proceed_idle [OF ok Some True])
    then show ?thesis using idle_streams [OF ok True] by simp
  qed
next
  case False
  then show ?thesis
    using proceed_ok [OF sched_okD(1) [OF ok] ok refl tree_root(2) [OF sched_okD(1) [OF ok]], of cb e] by blast
qed

lemma reachable_ok: "sched_reachable r s V \<Longrightarrow> sched_ok r V s"
proof (induction rule: sched_reachable.induct)
  case (open_ref s V ref parent w exclusive s')
  then show ?case using h2o_http2_scheduler_open_ok [of r V s ref parent w exclusive] by auto
next
  case (close_ref s V ref s')
  then show ?case using h2o_http2_scheduler_close_ok [of r V s ref] by auto
next
  case (rebind_ref s V ref np w exclusive s')
  then show ?case using h2o_http2_scheduler_rebind_ok [of r V s ref np w exclusive] by auto
next
  case (relocate_ref s V src dst s')
  then show ?case using h2o_http2_scheduler_relocate_ok [of r V s src dst] by auto
next
  case (activate_ref s V ref s')
  then show ?case using h2o_http2_scheduler_activate_ok [of r V s ref] by auto
next
  case (deactivate_ref s V ref s')
  then show ?case using h2o_http2_scheduler_deactivate_ok [of r V s ref] by auto
next
  case (proceed_ref s V cb bail_out s' u)
  then show ?case using proceed_root_ok [of r V s cb "()"] by auto
qed (rule init_ok)

section \<open>Properties\<close>

text \<open>A state with one stream, for the examples.\<close>

definition blank_ref :: sched_ref where
  "blank_ref = \<lparr>s_parent = None, s_all_refs = [], s_queue = None, s_weight = 0, s_open = False, s_active_cnt = 0,
    s_self_is_active = False, s_deficit = 0, s_queued = False, s_is_relocated = False\<rparr>"

lemma one_stream:
  obtains s1 s2 where "h2o_http2_scheduler_open (h2o_http2_scheduler_init (\<lambda>_. blank_ref) 0) 1 0 16 False = Some s1"
    "h2o_http2_scheduler_activate s1 1 = Some s2" "sched_reachable 0 s1 {1, 0}" "sched_reachable 0 s2 {1, 0}" "active_streams 0 {1, 0} s2 = {1}"
    "s_parent (s1 1) = Some 0"
proof -
  let ?s = "h2o_http2_scheduler_init (\<lambda>_. blank_ref) 0"
  obtain s1 where s1: "h2o_http2_scheduler_open ?s 1 0 16 False = Some s1" "s_parent \<circ> s1 = spec_open {1, 0} (s_parent \<circ> ?s) 1 0 False"
    using h2o_http2_scheduler_open_ok [OF init_ok, of 1 0 0 16 "\<lambda>_. blank_ref" False] by auto
  have r1: "sched_reachable 0 s1 {1, 0}"
    using sched_reachable.open_ref [OF sched_reachable.init, of 1 0 0 16 _ False] s1(1) by simp
  obtain s2 where s2: "h2o_http2_scheduler_activate s1 1 = Some s2" "\<forall>n. s_self_is_active (s2 n) = (n = 1 \<or> s_self_is_active (s1 n))"
    using h2o_http2_scheduler_activate_ok [OF reachable_ok [OF r1], of 1] by auto
  have r2: "sched_reachable 0 s2 {1, 0}" using sched_reachable.activate_ref [OF r1 _ _ s2(1)] by simp
  have "active_streams 0 {1, 0} s2 = {1}" using s2(2) by (auto simp: active_streams_def)
  moreover have "s_parent (s1 1) = Some 0" using fun_cong [OF s1(2), of 1] by (simp add: spec_open_def)
  ultimately show ?thesis using that s1(1) s2(1) r1 r2 by blast
qed

text \<open>
  C1. Whatever sequence of operations led to a state of the scheduler, its invariant holds: parent pointers, lists of children, counters of active
  nodes, queues and queue links agree, and the dependencies are acyclic. None of the operations that can follow fails an assertion or loops.
\<close>

theorem scheduler_never_fails:
  assumes "sched_reachable r s V"
  shows "sched_ok r V s \<and>
    (\<forall>ref parent w exclusive. ref \<notin> V \<and> parent \<in> V \<and> card V < 2 ^ 23 \<and> 1 \<le> w \<and> w \<le> 257 \<longrightarrow>
      h2o_http2_scheduler_open s ref parent w exclusive \<noteq> None) \<and>
    (\<forall>ref \<in> V - {r}. h2o_http2_scheduler_close s ref \<noteq> None \<and> h2o_http2_scheduler_activate s ref \<noteq> None \<and>
      h2o_http2_scheduler_deactivate s ref \<noteq> None \<and>
      (\<forall>np \<in> V - {ref}. \<forall>w exclusive. 1 \<le> w \<and> w \<le> 257 \<longrightarrow> h2o_http2_scheduler_rebind s ref np w exclusive \<noteq> None) \<and>
      (\<forall>dst. dst \<notin> V \<longrightarrow> h2o_http2_scheduler_relocate s dst ref \<noteq> None)) \<and>
    (\<forall>cb :: unit run_cb. proceed cb s () r \<noteq> None)"
proof -
  note ok = reachable_ok [OF assms]
  have "h2o_http2_scheduler_open s ref parent w exclusive \<noteq> None"
    if "ref \<notin> V" "parent \<in> V" "card V < 2 ^ 23" "1 \<le> w" "w \<le> 257" for ref parent w exclusive
    using h2o_http2_scheduler_open_ok [OF ok that, of exclusive] by auto
  moreover have "h2o_http2_scheduler_close s ref \<noteq> None \<and> h2o_http2_scheduler_activate s ref \<noteq> None \<and> h2o_http2_scheduler_deactivate s ref \<noteq> None"
    if "ref \<in> V" "ref \<noteq> r" for ref
    using h2o_http2_scheduler_close_ok [OF ok that] h2o_http2_scheduler_activate_ok [OF ok that] h2o_http2_scheduler_deactivate_ok [OF ok that]
    by auto
  moreover have "h2o_http2_scheduler_rebind s ref np w exclusive \<noteq> None"
    if "ref \<in> V" "ref \<noteq> r" "np \<in> V" "np \<noteq> ref" "1 \<le> w" "w \<le> 257" for ref np w exclusive
    using h2o_http2_scheduler_rebind_ok [OF ok that, of exclusive] by auto
  moreover have "h2o_http2_scheduler_relocate s dst ref \<noteq> None" if "ref \<in> V" "ref \<noteq> r" "dst \<notin> V" for ref dst
    using h2o_http2_scheduler_relocate_ok [OF ok that] by auto
  moreover have "proceed cb s () r \<noteq> None" for cb :: "unit run_cb"
    using proceed_root_ok [OF ok, of cb "()"] by auto
  ultimately show ?thesis using ok by simp
qed

theorem scheduler_never_fails_witness:
  "\<exists>s1. h2o_http2_scheduler_open (h2o_http2_scheduler_init (\<lambda>_. blank_ref) 0) 1 0 16 False = Some s1 \<and>
    h2o_http2_scheduler_open s1 2 1 257 True \<noteq> None \<and> h2o_http2_scheduler_close s1 1 \<noteq> None"
proof -
  obtain s1 where s1: "h2o_http2_scheduler_open (h2o_http2_scheduler_init (\<lambda>_. blank_ref) 0) 1 0 16 False = Some s1" "sched_reachable 0 s1 {1, 0}"
    by (rule one_stream)
  show ?thesis using s1(1) scheduler_never_fails [OF s1(2)] by simp
qed

text \<open>
  C35. The dependency tree is the one of RFC 7540, section 5.3: a stream that is opened depends on the given parent, a stream that is moved takes its
  dependents along and, when moved below one of them, that one first takes its place; an exclusive dependency adopts all siblings, and the
  dependents of a closed stream move to its parent.
\<close>

theorem scheduler_dependencies:
  assumes "sched_reachable r s V"
  shows "(\<forall>ref parent w exclusive. ref \<notin> V \<and> parent \<in> V \<and> card V < 2 ^ 23 \<and> 1 \<le> w \<and> w \<le> 257 \<longrightarrow>
      (\<exists>s'. h2o_http2_scheduler_open s ref parent w exclusive = Some s' \<and> s_weight (s' ref) = w \<and>
        s_parent \<circ> s' = spec_open (insert ref V) (s_parent \<circ> s) ref parent exclusive)) \<and>
    (\<forall>ref \<in> V - {r}. \<forall>np \<in> V - {ref}. \<forall>w exclusive. 1 \<le> w \<and> w \<le> 257 \<longrightarrow>
      (\<exists>s'. h2o_http2_scheduler_rebind s ref np w exclusive = Some s' \<and> reweighted s ref w s' \<and>
        s_parent \<circ> s' = spec_rebind V (s_parent \<circ> s) ref np exclusive)) \<and>
    (\<forall>ref \<in> V - {r}. \<exists>s'. h2o_http2_scheduler_close s ref = Some s' \<and> s_parent \<circ> s' = spec_close V (s_parent \<circ> s) ref)"
proof (intro conjI ballI allI impI)
  note ok = reachable_ok [OF assms]
  show "\<exists>s'. h2o_http2_scheduler_open s ref parent w exclusive = Some s' \<and> s_weight (s' ref) = w \<and>
      s_parent \<circ> s' = spec_open (insert ref V) (s_parent \<circ> s) ref parent exclusive"
    if "ref \<notin> V \<and> parent \<in> V \<and> card V < 2 ^ 23 \<and> 1 \<le> w \<and> w \<le> 257" for ref parent w exclusive
    using h2o_http2_scheduler_open_ok [OF ok, of ref parent w exclusive] that by blast
  show "\<exists>s'. h2o_http2_scheduler_rebind s ref np w exclusive = Some s' \<and> reweighted s ref w s' \<and>
      s_parent \<circ> s' = spec_rebind V (s_parent \<circ> s) ref np exclusive"
    if "ref \<in> V - {r}" "np \<in> V - {ref}" "1 \<le> w \<and> w \<le> 257" for ref np w exclusive
    using h2o_http2_scheduler_rebind_ok [OF ok, of ref np w exclusive] that by blast
  show "\<exists>s'. h2o_http2_scheduler_close s ref = Some s' \<and> s_parent \<circ> s' = spec_close V (s_parent \<circ> s) ref" if "ref \<in> V - {r}" for ref
    using h2o_http2_scheduler_close_ok [OF ok, of ref] that by blast
qed

theorem scheduler_dependencies_witness:
  "\<exists>s1 s2. h2o_http2_scheduler_open (h2o_http2_scheduler_init (\<lambda>_. blank_ref) 0) 1 0 16 False = Some s1 \<and>
    h2o_http2_scheduler_open s1 2 0 32 True = Some s2 \<and> s_parent (s2 2) = Some 0 \<and> s_parent (s2 1) = Some 2"
proof -
  obtain s1 where s1: "h2o_http2_scheduler_open (h2o_http2_scheduler_init (\<lambda>_. blank_ref) 0) 1 0 16 False = Some s1" "sched_reachable 0 s1 {1, 0}"
    "s_parent (s1 1) = Some 0"
    by (rule one_stream)
  obtain s2 where s2: "h2o_http2_scheduler_open s1 2 0 32 True = Some s2"
    "s_parent \<circ> s2 = spec_open {2, 1, 0} (s_parent \<circ> s1) 2 0 True"
    using scheduler_dependencies [OF s1(2), THEN conjunct1, rule_format, of 2 0 32 True] by auto
  have "s_parent (s2 2) = Some 0" "s_parent (s2 1) = Some 2"
    using fun_cong [OF s2(2), of 2] fun_cong [OF s2(2), of 1] s1(3) by (simp_all add: spec_open_def spec_exclusive_def)
  then show ?thesis using s1(1) s2(1) by blast
qed

text \<open>
  C36. The scheduler misses no active stream: if one is active, \<^verbatim>\<open>h2o_http2_scheduler_is_active\<close> says so, and \<^verbatim>\<open>proceed\<close> on the root calls
  back exactly once, for an active stream that depends on no other active stream, and records whether it is still active.
\<close>

theorem scheduler_serves:
  assumes "sched_reachable r s V" "active_streams r V s \<noteq> {}"
  shows "h2o_http2_scheduler_is_active s r \<and>
    (\<exists>ref \<in> active_streams r V s. \<exists>bail_out still e' s'. cb e ref = (bail_out, still, e') \<and> proceed cb s e r = Some (bail_out, s', e') \<and>
      sched_ok r V s' \<and> (\<forall>m \<in> active_streams r V s. above (s_parent \<circ> s) V ref m \<longrightarrow> m = ref) \<and>
      (\<forall>m. s_self_is_active (s' m) = (if m = ref then still else s_self_is_active (s m))))"
proof -
  note ok = reachable_ok [OF assms(1)]
  have "h2o_http2_scheduler_is_active s r" using inactive_queue [OF ok] assms(2) by blast
  moreover obtain b s' e' ref where p: "proceed cb s e r = Some (b, s', e')" "sched_ok r V s'" "serves cb V r s e r ref b s' e'"
    using proceed_root_ok [OF ok, of cb e] assms(2) by blast
  have top: "above (s_parent \<circ> s) V r m \<longleftrightarrow> m = r" for m
    using above_root [of "s_parent \<circ> s" r V m] tree_root(1) [OF sched_okD(1) [OF ok]] by blast
  have "m = ref" if "m \<in> active_streams r V s" "above (s_parent \<circ> s) V ref m" for m
    using p(3) that top [of m] unfolding serves_def active_streams_def by blast
  moreover have "ref \<in> active_streams r V s" using p(3) by (simp add: serves_def active_streams_def)
  moreover obtain still where "cb e ref = (b, still, e')" "\<forall>m. s_self_is_active (s' m) = (if m = ref then still else s_self_is_active (s m))"
    using p(3) unfolding serves_def by blast
  ultimately show ?thesis using p(1,2) by blast
qed

theorem scheduler_serves_witness:
  "\<exists>s1 s2 s3. h2o_http2_scheduler_open (h2o_http2_scheduler_init (\<lambda>_. blank_ref) 0) 1 0 16 False = Some s1 \<and>
    h2o_http2_scheduler_activate s1 1 = Some s2 \<and> proceed (\<lambda>e ref. (7, False, ref # e)) s2 [] 0 = Some (7, s3, [1]) \<and>
    \<not> s_self_is_active (s3 1)"
proof -
  obtain s1 s2 where s: "h2o_http2_scheduler_open (h2o_http2_scheduler_init (\<lambda>_. blank_ref) 0) 1 0 16 False = Some s1"
    "h2o_http2_scheduler_activate s1 1 = Some s2" "sched_reachable 0 s2 {1, 0}" "active_streams 0 {1, 0} s2 = {1}"
    by (rule one_stream)
  have "active_streams 0 {1, 0} s2 \<noteq> {}" using s(4) by simp
  from scheduler_serves [OF s(3) this, of "\<lambda>e ref. (7, False, ref # e)" "[]"] s(4)
  obtain s3 where "proceed (\<lambda>e ref. (7, False, ref # e)) s2 [] 0 = Some (7, s3, [1])" "\<not> s_self_is_active (s3 1)" by auto
  then show ?thesis using s(1,2) by blast
qed

text \<open>
  C37. \<^verbatim>\<open>h2o_http2_scheduler_run\<close> returns for every callback that makes progress, that is, which cannot keep streams active for ever without
  using up what it has to send. When it returns zero, no stream is active any more; another value is the one that the callback bailed out with.
\<close>

theorem scheduler_run_returns:
  assumes "sched_reachable r s V" "makes_progress cb \<mu>"
  shows "\<exists>bail_out s' e'. h2o_http2_scheduler_run cb s e r = Some (bail_out, s', e') \<and> sched_ok r V s' \<and>
    s_parent \<circ> s' = s_parent \<circ> s \<and>
    (if bail_out = 0 then active_streams r V s' = {} else \<exists>e ref still. cb e ref = (bail_out, still, e'))"
  using run_ok [OF assms(2) reachable_ok [OF assms(1)]] .

theorem scheduler_run_returns_witness:
  "\<exists>s1 s2 s3 e. h2o_http2_scheduler_open (h2o_http2_scheduler_init (\<lambda>_. blank_ref) 0) 1 0 16 False = Some s1 \<and>
    h2o_http2_scheduler_activate s1 1 = Some s2 \<and>
    h2o_http2_scheduler_run (\<lambda>e ref. (0, 0 < e, e - 1)) s2 (5 :: nat) 0 = Some (0, s3, e) \<and> active_streams 0 {1, 0} s3 = {}"
proof -
  obtain s1 s2 where s: "h2o_http2_scheduler_open (h2o_http2_scheduler_init (\<lambda>_. blank_ref) 0) 1 0 16 False = Some s1"
    "h2o_http2_scheduler_activate s1 1 = Some s2" "sched_reachable 0 s2 {1, 0}"
    by (rule one_stream)
  have "makes_progress (\<lambda>e ref. (0, 0 < e, e - 1)) (\<lambda>e :: nat. e)" by (auto simp: makes_progress_def)
  from scheduler_run_returns [OF s(3) this, of 5] obtain b s3 e
    where "h2o_http2_scheduler_run (\<lambda>e ref. (0, 0 < e, e - 1)) s2 (5 :: nat) 0 = Some (b, s3, e)" "b = 0" "active_streams 0 {1, 0} s3 = {}"
    by (auto split: if_splits)
  then show ?thesis using s(1,2) by blast
qed

end
