(* ===== verification/Quic_Ranges.thy ===== *)
theory Quic_Ranges
  imports Prelude
begin

text \<open>
  Sets of 64-bit numbers as sorted arrays of intervals: \<^verbatim>\<open>deps/quicly/lib/ranges.c\<close>, on which the bookkeeping of sent, acknowledged and received data
  of a QUIC stream rests. The array operations refine union and difference of sets.
\<close>

section \<open>The data structure\<close>

text \<open>\<^verbatim>\<open>quicly_range_t\<close>, the start and the end that is not included; an array of them is a list, whose length is \<^verbatim>\<open>num_ranges\<close>.\<close>

type_synonym quicly_range = "nat \<times> nat"

abbreviation (input) r_start :: "quicly_range \<Rightarrow> nat" where "r_start \<equiv> fst"
abbreviation (input) r_end :: "quicly_range \<Rightarrow> nat" where "r_end \<equiv> snd"

record quicly_ranges =
  ranges :: "quicly_range list"
  capacity :: nat

definition PTLS_ERROR_NO_MEMORY :: nat where
  "PTLS_ERROR_NO_MEMORY = 0x201"

definition quicly_ranges_init :: quicly_ranges where
  "quicly_ranges_init = \<lparr>ranges = [], capacity = 1\<rparr>"

definition quicly_ranges_clear :: "quicly_ranges \<Rightarrow> quicly_ranges" where
  "quicly_ranges_clear rs = rs\<lparr>ranges := [], capacity := 1\<rparr>"

text \<open>
  \<open>alloc\<close> tells for a number of ranges whether memory for them can be had. The functions return their error code, 0 if there is none, with the new
  state; \<^term>\<open>None\<close> is a failing \<^verbatim>\<open>assert\<close>.
\<close>

definition insert_at :: "(nat \<Rightarrow> bool) \<Rightarrow> quicly_ranges \<Rightarrow> nat \<Rightarrow> nat \<Rightarrow> nat \<Rightarrow> nat \<times> quicly_ranges" where
  "insert_at alloc rs start end slot =
    (let xs = take slot (ranges rs) @ (start, end) # drop slot (ranges rs)
     in if length (ranges rs) = capacity rs then
          (let new_capacity = (if capacity rs < 4 then 4 else capacity rs * 2)
           in if \<not> alloc new_capacity then (PTLS_ERROR_NO_MEMORY, rs) else (0, rs\<lparr>ranges := xs, capacity := new_capacity\<rparr>))
        else (0, rs\<lparr>ranges := xs\<rparr>))"

definition quicly_ranges_drop_by_range_indices :: "(nat \<Rightarrow> bool) \<Rightarrow> quicly_ranges \<Rightarrow> nat \<Rightarrow> nat \<Rightarrow> quicly_ranges option" where
  "quicly_ranges_drop_by_range_indices alloc rs begin_range_index end_range_index =
    (if \<not> begin_range_index < end_range_index then None
     else
       (let xs = take begin_range_index (ranges rs) @ drop end_range_index (ranges rs);
            new_capacity = capacity rs div 2
        in Some (if capacity rs > 4 \<and> length xs * 3 \<le> capacity rs \<and> alloc new_capacity
                 then rs\<lparr>ranges := xs, capacity := new_capacity\<rparr> else rs\<lparr>ranges := xs\<rparr>)))"

definition merge_update :: "(nat \<Rightarrow> bool) \<Rightarrow> quicly_ranges \<Rightarrow> nat \<Rightarrow> nat \<Rightarrow> nat \<Rightarrow> nat \<Rightarrow> (nat \<times> quicly_ranges) option" where
  "merge_update alloc rs start end slot end_slot =
    (let xs = ranges rs;
         start' = (if start < r_start (xs ! slot) then start else r_start (xs ! slot));
         end' = (if end < r_end (xs ! end_slot) then r_end (xs ! end_slot) else end);
         rs1 = rs\<lparr>ranges := xs[slot := (start', end')]\<rparr>
     in if slot \<noteq> end_slot then
          map_option (Pair 0) (quicly_ranges_drop_by_range_indices alloc rs1 (slot + 1) (end_slot + 1))
        else Some (0, rs1))"

definition quicly_ranges_init_with_range :: "(nat \<Rightarrow> bool) \<Rightarrow> nat \<Rightarrow> nat \<Rightarrow> nat \<times> quicly_ranges" where
  "quicly_ranges_init_with_range alloc start end = insert_at alloc quicly_ranges_init start end 0"

text \<open>The two searches of \<^verbatim>\<open>quicly_ranges_add\<close>, towards the front of the array.\<close>

fun find_end_slot :: "quicly_range list \<Rightarrow> nat \<Rightarrow> nat \<Rightarrow> nat option" where
  "find_end_slot xs end slot =
    (if r_start (xs ! slot) \<le> end then Some slot
     else (case slot of 0 \<Rightarrow> None | Suc slot' \<Rightarrow> find_end_slot xs end slot'))"

fun add_from :: "(nat \<Rightarrow> bool) \<Rightarrow> quicly_ranges \<Rightarrow> nat \<Rightarrow> nat \<Rightarrow> nat \<Rightarrow> nat \<Rightarrow> (nat \<times> quicly_ranges) option" where
  "add_from alloc rs start end end_slot slot =
    (if r_end (ranges rs ! slot) = start then merge_update alloc rs start end slot end_slot
     else if r_end (ranges rs ! slot) < start then
       (if slot = end_slot then Some (insert_at alloc rs start end (slot + 1))
        else merge_update alloc rs start end (slot + 1) end_slot)
     else (case slot of 0 \<Rightarrow> merge_update alloc rs start end 0 end_slot | Suc slot' \<Rightarrow> add_from alloc rs start end end_slot slot'))"

declare find_end_slot.simps [simp del] add_from.simps [simp del]

definition quicly_ranges_add :: "(nat \<Rightarrow> bool) \<Rightarrow> quicly_ranges \<Rightarrow> nat \<Rightarrow> nat \<Rightarrow> (nat \<times> quicly_ranges) option" where
  "quicly_ranges_add alloc rs start end =
    (if \<not> start \<le> end then None
     else if start = end then Some (0, rs)
     else if ranges rs = [] then Some (insert_at alloc rs start end 0)
     else if r_end (ranges rs ! (length (ranges rs) - 1)) < start then Some (insert_at alloc rs start end (length (ranges rs)))
     else
       (case find_end_slot (ranges rs) end (length (ranges rs) - 1) of
          None \<Rightarrow> Some (insert_at alloc rs start end 0)
        | Some slot \<Rightarrow> add_from alloc rs start end slot slot))"

text \<open>The first slot that does not end before \<open>start\<close>, and the end of the slots that are covered.\<close>

definition first_slot :: "quicly_range list \<Rightarrow> nat \<Rightarrow> nat" where
  "first_slot xs start = length (takeWhile (\<lambda>r. r_end r < start) xs)"

function last_slot :: "quicly_range list \<Rightarrow> nat \<Rightarrow> nat \<Rightarrow> nat \<times> quicly_range list" where
  "last_slot xs end slot =
    (if slot \<ge> length xs then (slot, xs)
     else if end \<le> r_start (xs ! slot) then (slot, xs)
     else if end < r_end (xs ! slot) then (slot, xs[slot := (end, r_end (xs ! slot))])
     else last_slot xs end (slot + 1))"
  by pat_completeness auto
termination
  by (relation "measure (\<lambda>(xs, end, slot). length xs - slot)") auto

declare last_slot.simps [simp del]

definition quicly_ranges_subtract :: "(nat \<Rightarrow> bool) \<Rightarrow> quicly_ranges \<Rightarrow> nat \<Rightarrow> nat \<Rightarrow> (nat \<times> quicly_ranges) option" where
  "quicly_ranges_subtract alloc rs start end =
    (let xs = ranges rs; slot = first_slot xs start; a = r_start (xs ! slot); b = r_end (xs ! slot)
     in if \<not> start \<le> end then None
        else if start = end then Some (0, rs)
        else if xs = [] then Some (0, rs)
        else if end \<le> r_start (xs ! 0) then Some (0, rs)
        else if r_end (xs ! (length xs - 1)) \<le> start then Some (0, rs)
        else if end \<le> b then
          (if end \<le> a then Some (0, rs)
           else if start \<le> a \<or> end = b then
             (let (a', b') = (if start \<le> a then (end, b) else (a, start)); rs1 = rs\<lparr>ranges := xs[slot := (a', b')]\<rparr>
              in if a' = b' then map_option (Pair 0) (quicly_ranges_drop_by_range_indices alloc rs1 slot (slot + 1))
                 else Some (0, rs1))
           else
             (case insert_at alloc rs end b (slot + 1) of
                (ret, rs1) \<Rightarrow> if ret \<noteq> 0 then Some (ret, rs1) else Some (0, rs1\<lparr>ranges := (ranges rs1)[slot := (a, start)]\<rparr>)))
        else
          (let (shrink_from, xs1) = (if start \<le> a then (slot, xs) else (slot + 1, xs[slot := (a, start)]));
               (slot', xs2) = last_slot xs1 end (slot + 1); rs1 = rs\<lparr>ranges := xs2\<rparr>
           in if shrink_from \<noteq> slot' then map_option (Pair 0) (quicly_ranges_drop_by_range_indices alloc rs1 shrink_from slot')
              else Some (0, rs1)))"

text \<open>The search for a gap, from the last slot towards the first; the result has the number of slots that were looked at.\<close>

fun next_missing_loop :: "quicly_range list \<Rightarrow> nat \<Rightarrow> nat \<Rightarrow> nat \<Rightarrow> nat \<times> nat" where
  "next_missing_loop xs lower_bound 0 result = (result, length xs)"
| "next_missing_loop xs lower_bound (Suc slot) result =
    (if r_end (xs ! slot) \<ge> lower_bound then
       (if slot \<noteq> 0 \<and> r_start (xs ! slot) > lower_bound \<and> lower_bound > r_end (xs ! (slot - 1)) then (lower_bound, length xs - slot)
        else next_missing_loop xs lower_bound slot (r_end (xs ! slot)))
     else (result, length xs - Suc slot))"

definition quicly_ranges_next_missing :: "quicly_ranges \<Rightarrow> nat \<Rightarrow> nat \<times> nat" where
  "quicly_ranges_next_missing rs lower_bound = next_missing_loop (ranges rs) lower_bound (length (ranges rs)) lower_bound"

section \<open>Sorted ranges\<close>

text \<open>Ranges are in order with gaps between them. A range may be empty where a state starts with the empty range at 0.\<close>

definition ordered :: "quicly_range list \<Rightarrow> bool" where
  "ordered xs \<longleftrightarrow> sorted_wrt (\<lambda>r r'. snd r < fst r') xs \<and> (\<forall>r \<in> set xs. fst r \<le> snd r)"

definition nonempty :: "quicly_range list \<Rightarrow> bool" where
  "nonempty xs \<longleftrightarrow> (\<forall>r \<in> set xs. fst r < snd r)"

definition elements :: "quicly_range list \<Rightarrow> nat set" where
  "elements xs = (\<Union>(a, b) \<in> set xs. {a..<b})"

lemma elements_simps [simp]:
  "elements [] = {}" "elements (r # xs) = {fst r..<snd r} \<union> elements xs" "elements (xs @ ys) = elements xs \<union> elements ys"
  by (auto simp: elements_def)

lemma ordered_Nil [simp]: "ordered []"
  by (simp add: ordered_def)

lemma ordered_Cons: "ordered (r # xs) \<longleftrightarrow> fst r \<le> snd r \<and> (\<forall>r' \<in> set xs. snd r < fst r') \<and> ordered xs"
  by (auto simp: ordered_def)

lemma ordered_append: "ordered (xs @ ys) \<longleftrightarrow> ordered xs \<and> ordered ys \<and> (\<forall>r \<in> set xs. \<forall>r' \<in> set ys. snd r < fst r')"
  by (auto simp: ordered_def sorted_wrt_append)

lemma nonempty_simps [simp]:
  "nonempty []" "nonempty (r # xs) \<longleftrightarrow> fst r < snd r \<and> nonempty xs" "nonempty (xs @ ys) \<longleftrightarrow> nonempty xs \<and> nonempty ys"
  by (auto simp: nonempty_def)

text \<open>Adding splits the list into the ranges before, those that touch the new one, and those behind.\<close>

definition before :: "quicly_range list \<Rightarrow> nat \<Rightarrow> nat" where
  "before xs start = length (takeWhile (\<lambda>r. snd r < start) xs)"

definition reached :: "quicly_range list \<Rightarrow> nat \<Rightarrow> nat" where
  "reached xs end = length (takeWhile (\<lambda>r. fst r \<le> end) xs)"

definition spec_add :: "quicly_range list \<Rightarrow> nat \<Rightarrow> nat \<Rightarrow> quicly_range list" where
  "spec_add xs start end =
    (let lo = before xs start; hi = reached xs end
     in take lo xs @ [if lo < hi then (min start (fst (xs ! lo)), max end (snd (xs ! (hi - 1)))) else (start, end)] @ drop hi xs)"

lemma ordered_nth: "ordered xs \<Longrightarrow> i < j \<Longrightarrow> j < length xs \<Longrightarrow> snd (xs ! i) < fst (xs ! j)"
  by (simp add: ordered_def sorted_wrt_iff_nth_less)

lemma ordered_nth_le: "ordered xs \<Longrightarrow> i < length xs \<Longrightarrow> fst (xs ! i) \<le> snd (xs ! i)"
  by (simp add: ordered_def)

lemma takeWhile_prefix:
  assumes "\<And>i j. i < j \<Longrightarrow> j < length xs \<Longrightarrow> P (xs ! j) \<Longrightarrow> P (xs ! i)" "i < length xs"
  shows "i < length (takeWhile P xs) \<longleftrightarrow> P (xs ! i)"
proof
  assume "i < length (takeWhile P xs)"
  then show "P (xs ! i)" by (metis nth_mem set_takeWhileD takeWhile_nth)
next
  assume p: "P (xs ! i)"
  show "i < length (takeWhile P xs)"
  proof (rule ccontr)
    assume n: "\<not> i < length (takeWhile P xs)"
    let ?k = "length (takeWhile P xs)"
    have "\<not> P (xs ! ?k)" using n assms(2) by (intro nth_length_takeWhile) simp
    moreover have "P (xs ! ?k)" using n p assms(1) [of ?k i] assms(2) by (cases "?k = i") auto
    ultimately show False by blast
  qed
qed

lemma ordered_mono:
  assumes "ordered xs" "i < j" "j < length xs"
  shows "snd (xs ! i) < snd (xs ! j)" "fst (xs ! i) < fst (xs ! j)"
  using ordered_nth [OF assms] ordered_nth_le [OF assms(1), of i] ordered_nth_le [OF assms(1) assms(3)] assms(2,3) by linarith+

lemma before_iff: "ordered xs \<Longrightarrow> i < length xs \<Longrightarrow> i < before xs s \<longleftrightarrow> snd (xs ! i) < s"
  unfolding before_def by (rule takeWhile_prefix) (meson ordered_mono(1) less_trans)+

lemma reached_iff: "ordered xs \<Longrightarrow> i < length xs \<Longrightarrow> i < reached xs e \<longleftrightarrow> fst (xs ! i) \<le> e"
  unfolding reached_def by (rule takeWhile_prefix) (meson ordered_mono(2) less_imp_le order_trans)+

lemma before_le: "before xs s \<le> length xs" and reached_le: "reached xs e \<le> length xs"
  by (simp_all add: before_def reached_def length_takeWhile_le)

lemma before_reached:
  assumes "ordered xs" "s \<le> e"
  shows "before xs s \<le> reached xs e"
proof (rule ccontr)
  let ?u = "reached xs e"
  assume "\<not> before xs s \<le> ?u"
  then have "?u < before xs s" by simp
  then have u: "?u < length xs" using before_le [of xs s] by simp
  then have "snd (xs ! ?u) < s" using before_iff [OF assms(1) u] \<open>?u < before xs s\<close> by blast
  then have "fst (xs ! ?u) \<le> e" using ordered_nth_le [OF assms(1) u] assms(2) by linarith
  then show False using reached_iff [OF assms(1) u, of e] by simp
qed

lemma in_take_before: "r \<in> set (take (before xs s) xs) \<Longrightarrow> snd r < s"
  unfolding before_def takeWhile_eq_take [symmetric] by (auto dest: set_takeWhileD)

lemma in_drop_reached:
  assumes "ordered xs" "r \<in> set (drop (reached xs e) xs)"
  shows "e < fst r"
proof -
  obtain k where k: "k < length xs - reached xs e" "r = xs ! (reached xs e + k)" using assms(2) by (auto simp: in_set_conv_nth)
  then have "reached xs e + k < length xs" by simp
  then show ?thesis using reached_iff [OF assms(1), of "reached xs e + k" e] k(2) by simp
qed

text \<open>The ranges in the middle lie between the first start and the last end of them.\<close>

lemma middle:
  assumes "ordered xs" "lo < hi" "hi \<le> length xs" "r \<in> set (take (hi - lo) (drop lo xs))"
  shows "fst (xs ! lo) \<le> fst r" "snd r \<le> snd (xs ! (hi - 1))" "fst r \<le> snd r"
proof -
  obtain k where k: "k < hi - lo" "r = xs ! (lo + k)" using assms(3,4) by (auto simp: in_set_conv_nth)
  then have l: "lo + k < length xs" using assms(3) by simp
  show le: "fst r \<le> snd r" using ordered_nth_le [OF assms(1) l] k(2) by simp
  have lo: "lo < length xs" "hi - 1 < length xs" using assms(2,3) by auto
  show "fst (xs ! lo) \<le> fst r"
    using ordered_nth [OF assms(1), of lo "lo + k"] ordered_nth_le [OF assms(1) lo(1)] l k(2) by (cases "k = 0") auto
  have "lo + k = hi - 1 \<or> lo + k < hi - 1" using k(1) by linarith
  then show "snd r \<le> snd (xs ! (hi - 1))" using ordered_mono(1) [OF assms(1) _ lo(2), of "lo + k"] k(2) by auto
qed

lemma split_middle: "lo \<le> hi \<Longrightarrow> xs = take lo xs @ take (hi - lo) (drop lo xs) @ drop hi xs"
  by (metis append_assoc append_take_drop_id le_add_diff_inverse take_add)

lemma spec_add_correct:
  assumes o: "ordered xs" and se: "s < e"
  shows "ordered (spec_add xs s e)" "elements (spec_add xs s e) = elements xs \<union> {s..<e}" "nonempty xs \<Longrightarrow> nonempty (spec_add xs s e)"
proof -
  let ?lo = "before xs s" and ?hi = "reached xs e"
  let ?m = "if ?lo < ?hi then (min s (fst (xs ! ?lo)), max e (snd (xs ! (?hi - 1)))) else (s, e)"
  have le: "?lo \<le> ?hi" by (rule before_reached [OF o]) (use se in simp)
  note sp = split_middle [OF le, of xs]
  have sadd: "spec_add xs s e = take ?lo xs @ [?m] @ drop ?hi xs" by (simp add: spec_add_def Let_def)
  have os: "ordered (take ?lo xs)" "ordered (drop ?hi xs)"
    "\<forall>r \<in> set (take ?lo xs). \<forall>r' \<in> set (take (?hi - ?lo) (drop ?lo xs)) \<union> set (drop ?hi xs). snd r < fst r'"
    "\<forall>r \<in> set (take (?hi - ?lo) (drop ?lo xs)). \<forall>r' \<in> set (drop ?hi xs). snd r < fst r'"
    using o by (subst (asm) sp; auto simp: ordered_append)+
  have ne: "xs ! ?lo \<in> set (take (?hi - ?lo) (drop ?lo xs))" "xs ! (?hi - 1) \<in> set (take (?hi - ?lo) (drop ?lo xs))" if "?lo < ?hi"
    using that reached_le [of xs e] by (auto simp: in_set_conv_nth intro: exI [of _ 0] exI [of _ "?hi - ?lo - 1"])
  have b: "snd r < fst ?m" if "r \<in> set (take ?lo xs)" for r
    using in_take_before [OF that] os(3) that ne by auto
  have a: "snd ?m < fst r" if "r \<in> set (drop ?hi xs)" for r
    using in_drop_reached [OF o that] os(4) that ne by auto
  have m: "fst ?m < snd ?m" using se by (auto simp: min_def max_def)
  show "ordered (spec_add xs s e)"
    unfolding sadd using os(1-3) a b m by (auto simp: ordered_append ordered_Cons)
  show "nonempty xs \<Longrightarrow> nonempty (spec_add xs s e)"
    unfolding sadd using m by (subst (asm) sp) simp
  have "elements (take (?hi - ?lo) (drop ?lo xs)) \<union> {s..<e} = {fst ?m..<snd ?m}"
  proof (cases "?lo < ?hi")
    case True
    have l: "?lo < length xs" "?hi - 1 < length xs" using True reached_le [of xs e] by auto
    have t: "s \<le> snd (xs ! ?lo)" "fst (xs ! (?hi - 1)) \<le> e"
      using before_iff [OF o l(1), of s] reached_iff [OF o l(2), of e] True by auto
    let ?mid = "take (?hi - ?lo) (drop ?lo xs)"
    have "x \<in> elements ?mid \<union> {s..<e} \<longleftrightarrow> x \<in> {fst ?m..<snd ?m}" for x
    proof
      assume "x \<in> elements ?mid \<union> {s..<e}"
      then consider r where "r \<in> set ?mid" "fst r \<le> x" "x < snd r" | "s \<le> x" "x < e" by (auto simp: elements_def)
      then show "x \<in> {fst ?m..<snd ?m}"
      proof cases
        case 1
        then show ?thesis using middle(1,2) [OF o True reached_le 1(1)] True by (simp add: min_le_iff_disj less_max_iff_disj)
      qed (simp add: min_le_iff_disj less_max_iff_disj)
    next
      assume x: "x \<in> {fst ?m..<snd ?m}"
      then have "fst (xs ! ?lo) \<le> x \<or> \<not> x < s" "x < snd (xs ! (?hi - 1)) \<or> \<not> e \<le> x"
        using True by (simp_all add: min_le_iff_disj less_max_iff_disj) linarith+
      then consider "s \<le> x" "x < e" | "x < s" "fst (xs ! ?lo) \<le> x" | "e \<le> x" "x < snd (xs ! (?hi - 1))"
        by (meson not_le)
      then show "x \<in> elements ?mid \<union> {s..<e}"
      proof cases
        case 2
        then have "x < snd (xs ! ?lo)" using t(1) by simp
        then show ?thesis using 2 ne(1) [OF True] unfolding elements_def by (auto intro!: bexI [of _ "xs ! ?lo"])
      next
        case 3
        then have "fst (xs ! (?hi - 1)) \<le> x" using t(2) by simp
        then show ?thesis using 3 ne(2) [OF True] unfolding elements_def by (auto intro!: bexI [of _ "xs ! (?hi - 1)"])
      qed simp
    qed
    then show ?thesis by blast
  qed (use le in simp)
  moreover have "elements xs = elements (take ?lo xs) \<union> elements (take (?hi - ?lo) (drop ?lo xs)) \<union> elements (drop ?hi xs)"
    by (subst sp) (simp add: Un_assoc)
  ultimately show "elements (spec_add xs s e) = elements xs \<union> {s..<e}" unfolding sadd by auto
qed

section \<open>Adding\<close>

definition ranges_ok :: "quicly_ranges \<Rightarrow> bool" where
  "ranges_ok rs \<longleftrightarrow> ordered (ranges rs) \<and> length (ranges rs) \<le> capacity rs \<and> 1 \<le> capacity rs"

text \<open>What the functions return: success with the given ranges, or lack of memory with nothing changed.\<close>

definition outcome :: "(nat \<Rightarrow> bool) \<Rightarrow> quicly_ranges \<Rightarrow> quicly_range list \<Rightarrow> nat \<Rightarrow> quicly_ranges \<Rightarrow> bool" where
  "outcome alloc rs xs ret rs' \<longleftrightarrow> length (ranges rs') \<le> capacity rs' \<and> 1 \<le> capacity rs' \<and>
    (ret = 0 \<and> ranges rs' = xs \<or> ret = PTLS_ERROR_NO_MEMORY \<and> rs' = rs \<and> (\<exists>n. \<not> alloc n))"

lemma insert_at_outcome:
  assumes "ranges_ok rs" "slot \<le> length (ranges rs)"
  shows "\<exists>ret rs'. insert_at alloc rs s e slot = (ret, rs') \<and> outcome alloc rs (take slot (ranges rs) @ (s, e) # drop slot (ranges rs)) ret rs'"
  using assms by (auto simp: insert_at_def outcome_def ranges_ok_def Let_def)

lemma drop_outcome:
  assumes "length (ranges rs) \<le> capacity rs" "1 \<le> capacity rs" "b < e" "e \<le> length (ranges rs)"
  shows "\<exists>rs'. quicly_ranges_drop_by_range_indices alloc rs b e = Some rs' \<and> outcome alloc rs (take b (ranges rs) @ drop e (ranges rs)) 0 rs'"
  using assms by (auto simp: quicly_ranges_drop_by_range_indices_def outcome_def Let_def)

lemma outcome_start: "outcome alloc rs1 xs 0 rs' \<longleftrightarrow> outcome alloc rs2 xs 0 rs'"
  by (auto simp: outcome_def PTLS_ERROR_NO_MEMORY_def)

lemma merge_update_outcome:
  assumes "ranges_ok rs" "slot \<le> end_slot" "end_slot < length (ranges rs)"
  shows "\<exists>rs'. merge_update alloc rs s e slot end_slot = Some (0, rs') \<and> outcome alloc rs
    (take slot (ranges rs) @ (min s (fst (ranges rs ! slot)), max e (snd (ranges rs ! end_slot))) # drop (Suc end_slot) (ranges rs)) 0 rs'"
proof -
  let ?xs = "ranges rs" and ?m = "(min s (fst (ranges rs ! slot)), max e (snd (ranges rs ! end_slot)))"
  let ?rs1 = "rs\<lparr>ranges := ?xs[slot := ?m]\<rparr>"
  have len: "length ?xs \<le> capacity rs" "1 \<le> capacity rs" using assms(1) by (simp_all add: ranges_ok_def)
  have m: "merge_update alloc rs s e slot end_slot = (if slot \<noteq> end_slot then
      map_option (Pair 0) (quicly_ranges_drop_by_range_indices alloc ?rs1 (slot + 1) (end_slot + 1)) else Some (0, ?rs1))"
  proof -
    have "(if s < fst (?xs ! slot) then s else fst (?xs ! slot)) = min s (fst (?xs ! slot))"
      "(if e < snd (?xs ! end_slot) then snd (?xs ! end_slot) else e) = max e (snd (?xs ! end_slot))" by (simp_all add: min_def max_def)
    then show ?thesis by (simp only: merge_update_def Let_def)
  qed
  have upd: "take (Suc slot) (?xs[slot := ?m]) = take slot ?xs @ [?m]" using assms by (simp add: take_Suc_conv_app_nth)
  show ?thesis
  proof (cases "slot = end_slot")
    case True
    then have "?xs[slot := ?m] = take slot ?xs @ ?m # drop (Suc end_slot) ?xs" using assms(3) by (simp add: upd_conv_take_nth_drop)
    then show ?thesis using m True len assms(3) by (simp add: outcome_def)
  next
    case False
    then obtain rs' where "quicly_ranges_drop_by_range_indices alloc ?rs1 (slot + 1) (end_slot + 1) = Some rs'"
      "outcome alloc ?rs1 (take (slot + 1) (ranges ?rs1) @ drop (end_slot + 1) (ranges ?rs1)) 0 rs'"
      using drop_outcome [of ?rs1 "slot + 1" "end_slot + 1" alloc] assms len by auto
    then show ?thesis using m False upd assms(2) outcome_start [of alloc ?rs1 _ rs' rs] by simp
  qed
qed

lemma find_end_slot_correct:
  assumes "ordered xs" "slot < length xs" "reached xs e \<le> Suc slot"
  shows "find_end_slot xs e slot = (if reached xs e = 0 then None else Some (reached xs e - 1))"
  using assms(2,3)
proof (induction slot)
  case 0
  then show ?case using reached_iff [OF assms(1) 0(1), of e] by (subst find_end_slot.simps) auto
next
  case (Suc slot)
  show ?case
  proof (cases "fst (xs ! Suc slot) \<le> e")
    case True
    then show ?thesis using reached_iff [OF assms(1) Suc.prems(1), of e] Suc.prems(2) by (subst find_end_slot.simps) simp
  next
    case False
    then have "reached xs e \<le> Suc slot" using reached_iff [OF assms(1) Suc.prems(1), of e] by simp
    then show ?thesis using False Suc.IH Suc.prems(1) by (subst find_end_slot.simps) simp
  qed
qed

lemma add_from_correct:
  assumes o: "ordered (ranges rs)" and hi: "end_slot < length (ranges rs)" and "before (ranges rs) s \<le> Suc end_slot"
    and "slot \<le> end_slot" "\<And>j. slot < j \<Longrightarrow> j \<le> end_slot \<Longrightarrow> s < snd (ranges rs ! j)"
  shows "add_from alloc rs s e end_slot slot =
    (if before (ranges rs) s = Suc end_slot then Some (insert_at alloc rs s e (Suc end_slot))
     else merge_update alloc rs s e (before (ranges rs) s) end_slot)"
  using assms(4,5)
proof (induction slot)
  case 0
  have b: "0 < before (ranges rs) s \<longleftrightarrow> snd (ranges rs ! 0) < s" using hi by (intro before_iff [OF o]) auto
  have one: "before (ranges rs) s \<le> 1"
    using before_iff [OF o, of 1 s] 0(2) [of 1] hi assms(3) by (cases "1 \<le> end_slot") auto
  then consider "before (ranges rs) s = 0" "\<not> snd (ranges rs ! 0) < s" | "before (ranges rs) s = 1" "snd (ranges rs ! 0) < s" using b by linarith
  then show ?case by cases (subst add_from.simps; auto)+
next
  case (Suc slot)
  have l: "Suc slot < length (ranges rs)" using Suc.prems(1) hi by simp
  have b: "Suc slot < before (ranges rs) s \<longleftrightarrow> snd (ranges rs ! Suc slot) < s" using before_iff [OF o l] .
  have up: "before (ranges rs) s \<le> Suc (Suc slot)"
    using before_iff [OF o, of "Suc (Suc slot)" s] Suc.prems(2) [of "Suc (Suc slot)"] hi assms(3) by (cases "Suc (Suc slot) \<le> end_slot") auto
  consider "snd (ranges rs ! Suc slot) = s" | "snd (ranges rs ! Suc slot) < s" | "s < snd (ranges rs ! Suc slot)" by linarith
  then show ?case
  proof cases
    case 1
    have "snd (ranges rs ! slot) < s" using ordered_mono(1) [OF o, of slot "Suc slot"] l 1 by simp
    then have "before (ranges rs) s = Suc slot" using before_iff [OF o, of slot s] b l 1 by simp
    then show ?thesis using 1 Suc.prems(1) by (subst add_from.simps) simp
  next
    case 2
    then have "before (ranges rs) s = Suc (Suc slot)" using b up by simp
    then show ?thesis using 2 Suc.prems(1) by (subst add_from.simps) auto
  next
    case 3
    have "s < snd (ranges rs ! j)" if "slot < j" "j \<le> end_slot" for j
      using that 3 Suc.prems(2) [of j] by (cases "j = Suc slot") auto
    note ih = Suc.IH [OF Suc_leD [OF Suc.prems(1)] this]
    have "snd (ranges rs ! Suc slot) \<noteq> s" "\<not> snd (ranges rs ! Suc slot) < s" using 3 by simp_all
    then show ?thesis by (subst add_from.simps) (simp add: ih)
  qed
qed

lemma quicly_ranges_add_outcome:
  assumes ok: "ranges_ok rs" and se: "s < e"
  shows "\<exists>ret rs'. quicly_ranges_add alloc rs s e = Some (ret, rs') \<and> outcome alloc rs (spec_add (ranges rs) s e) ret rs'"
proof -
  let ?xs = "ranges rs" and ?lo = "before (ranges rs) s" and ?hi = "reached (ranges rs) e"
  have o: "ordered ?xs" using ok by (simp add: ranges_ok_def)
  have le: "?lo \<le> ?hi" by (rule before_reached [OF o]) (use se in simp)
  have ins: "\<exists>ret rs'. Some (insert_at alloc rs s e ?lo) = Some (ret, rs') \<and> outcome alloc rs (spec_add ?xs s e) ret rs'" if "?lo = ?hi"
    using insert_at_outcome [OF ok before_le, of alloc s e s] that by (simp add: spec_add_def Let_def)
  show ?thesis
  proof (cases "?xs = []")
    case True
    then have "?lo = 0" "?hi = 0" by (simp_all add: before_def reached_def)
    then show ?thesis using ins True se by (simp add: quicly_ranges_add_def)
  next
    case False
    let ?n = "length ?xs - 1"
    have n: "?n < length ?xs" using False by simp
    show ?thesis
    proof (cases "snd (?xs ! ?n) < s")
      case True
      then have "length ?xs \<le> ?lo" using before_iff [OF o n, of s] by simp
      then have "?lo = length ?xs" "?hi = length ?xs" using before_le [of ?xs s] reached_le [of ?xs e] le by auto
      then show ?thesis using ins True False se by (simp add: quicly_ranges_add_def)
    next
      case last: False
      have f: "find_end_slot ?xs e ?n = (if ?hi = 0 then None else Some (?hi - 1))"
        by (rule find_end_slot_correct [OF o n]) (use reached_le [of ?xs e] False in simp)
      show ?thesis
      proof (cases "?hi = 0")
        case True
        then show ?thesis using ins f last False se le by (simp add: quicly_ranges_add_def)
      next
        case hi: False
        have "add_from alloc rs s e (?hi - 1) (?hi - 1) = (if ?lo = Suc (?hi - 1) then Some (insert_at alloc rs s e (Suc (?hi - 1)))
          else merge_update alloc rs s e ?lo (?hi - 1))"
          by (rule add_from_correct [OF o]) (use hi le reached_le [of ?xs e] in auto)
        then have a: "quicly_ranges_add alloc rs s e = (if ?lo = ?hi then Some (insert_at alloc rs s e ?hi) else merge_update alloc rs s e ?lo (?hi - 1))"
          using f hi last False se by (simp add: quicly_ranges_add_def)
        show ?thesis
        proof (cases "?lo = ?hi")
          case True
          then show ?thesis using a ins by simp
        next
          case False
          then have lt: "?lo < ?hi" using le by simp
          have "?lo \<le> ?hi - 1" "?hi - 1 < length ?xs" "Suc (?hi - 1) = ?hi" using lt reached_le [of ?xs e] by linarith+
          with merge_update_outcome [OF ok this(1,2), of alloc s e] obtain rs' where "merge_update alloc rs s e ?lo (?hi - 1) = Some (0, rs')"
            "outcome alloc rs (spec_add ?xs s e) 0 rs'" using lt by (auto simp: spec_add_def Let_def)
          then show ?thesis using a False by simp
        qed
      qed
    qed
  qed
qed

section \<open>Subtracting\<close>

definition cut :: "nat \<Rightarrow> nat \<Rightarrow> quicly_range \<Rightarrow> quicly_range list" where
  "cut s e r = filter (\<lambda>(a, b). a < b) [(fst r, min (snd r) s), (max (fst r) e, snd r)]"

definition spec_subtract :: "quicly_range list \<Rightarrow> nat \<Rightarrow> nat \<Rightarrow> quicly_range list" where
  "spec_subtract xs s e = concat (map (cut s e) xs)"

lemma spec_subtract_simps [simp]:
  "spec_subtract [] s e = []" "spec_subtract (r # xs) s e = cut s e r @ spec_subtract xs s e"
  "spec_subtract (xs @ ys) s e = spec_subtract xs s e @ spec_subtract ys s e"
  by (simp_all add: spec_subtract_def)

lemma cut_bounds:
  assumes "fst r < snd r" "s < e"
  shows "\<forall>p \<in> set (cut s e r). fst r \<le> fst p \<and> snd p \<le> snd r" "ordered (cut s e r)" "nonempty (cut s e r)"
    "elements (cut s e r) = {fst r..<snd r} - {s..<e}"
  using assms by (auto simp: cut_def ordered_Cons min_def max_def)

lemma spec_subtract_correct:
  assumes "ordered xs" "nonempty xs" "s < e"
  shows "ordered (spec_subtract xs s e)" "nonempty (spec_subtract xs s e)" "elements (spec_subtract xs s e) = elements xs - {s..<e}"
    "\<forall>p \<in> set (spec_subtract xs s e). \<exists>r \<in> set xs. fst r \<le> fst p \<and> snd p \<le> snd r"
proof -
  have "ordered (spec_subtract xs s e) \<and> nonempty (spec_subtract xs s e) \<and> elements (spec_subtract xs s e) = elements xs - {s..<e} \<and>
    (\<forall>p \<in> set (spec_subtract xs s e). \<exists>r \<in> set xs. fst r \<le> fst p \<and> snd p \<le> snd r)"
    using assms(1,2)
  proof (induction xs)
    case (Cons r xs)
    have r: "fst r < snd r" "\<forall>r' \<in> set xs. snd r < fst r'" "ordered xs" "nonempty xs" using Cons.prems by (simp_all add: ordered_Cons)
    note c = cut_bounds [OF r(1) assms(3)] and ih = Cons.IH [OF r(3,4)]
    have "snd p < fst p'" if p: "p \<in> set (cut s e r)" "p' \<in> set (spec_subtract xs s e)" for p p'
    proof -
      obtain r' where "r' \<in> set xs" "fst r' \<le> fst p'" using ih p(2) by blast
      then show ?thesis using c(1) p(1) r(2) by fastforce
    qed
    then have "ordered (spec_subtract (r # xs) s e)" using c(2) ih by (simp add: ordered_append)
    moreover have "elements (spec_subtract (r # xs) s e) = elements (r # xs) - {s..<e}" using c(4) ih by auto
    moreover have "\<forall>p \<in> set (spec_subtract (r # xs) s e). \<exists>r' \<in> set (r # xs). fst r' \<le> fst p \<and> snd p \<le> snd r'"
      using c(1) ih by auto
    ultimately show ?case using c(3) ih by simp
  qed simp
  then show "ordered (spec_subtract xs s e)" "nonempty (spec_subtract xs s e)" "elements (spec_subtract xs s e) = elements xs - {s..<e}"
    "\<forall>p \<in> set (spec_subtract xs s e). \<exists>r \<in> set xs. fst r \<le> fst p \<and> snd p \<le> snd r" by blast+
qed

lemma cut_cases:
  assumes "fst r < snd r" "s < e"
  shows "snd r \<le> s \<Longrightarrow> cut s e r = [r]" "e \<le> fst r \<Longrightarrow> cut s e r = [r]" "s \<le> fst r \<Longrightarrow> snd r \<le> e \<Longrightarrow> cut s e r = []"
    "s \<le> fst r \<Longrightarrow> fst r < e \<Longrightarrow> e < snd r \<Longrightarrow> cut s e r = [(e, snd r)]"
    "fst r < s \<Longrightarrow> s \<le> snd r \<Longrightarrow> snd r \<le> e \<Longrightarrow> cut s e r = [(fst r, s)]"
    "fst r < s \<Longrightarrow> e < snd r \<Longrightarrow> cut s e r = [(fst r, s), (e, snd r)]"
  using assms by (cases r; auto simp: cut_def min_def max_def)+

lemma spec_subtract_before: "nonempty xs \<Longrightarrow> s < e \<Longrightarrow> \<forall>r \<in> set xs. snd r \<le> s \<Longrightarrow> spec_subtract xs s e = xs"
  by (induction xs) (simp_all add: cut_cases(1))

lemma spec_subtract_behind: "nonempty xs \<Longrightarrow> s < e \<Longrightarrow> \<forall>r \<in> set xs. e \<le> fst r \<Longrightarrow> spec_subtract xs s e = xs"
  by (induction xs) (simp_all add: cut_cases(2))

lemma last_slot_correct:
  assumes "ordered xs" "nonempty xs" "s < e" "slot \<le> length xs" "\<forall>r \<in> set (drop slot xs). s \<le> fst r" "last_slot xs e slot = (m, ys)"
  shows "slot \<le> m \<and> m \<le> length xs \<and> length ys = length xs \<and> take m ys = take m xs \<and> drop m ys = spec_subtract (drop slot xs) s e"
  using assms
proof (induction xs e slot arbitrary: m ys rule: last_slot.induct)
  case (1 xs e slot)
  show ?case
  proof (cases "length xs \<le> slot")
    case True
    then show ?thesis using 1(5,7) by (subst (asm) last_slot.simps) simp
  next
    case False
    let ?r = "xs ! slot"
    have dr: "drop slot xs = ?r # drop (Suc slot) xs" using False by (simp add: Cons_nth_drop_Suc)
    have ne: "fst ?r < snd ?r" "nonempty (drop (Suc slot) xs)" "nonempty (drop slot xs)"
      using 1(3) False by (auto simp: nonempty_def dest: in_set_dropD)
    have behind: "\<forall>r' \<in> set (drop (Suc slot) xs). snd ?r < fst r'"
      using 1(2) False by (subst (asm) id_take_nth_drop [of slot xs]) (simp_all add: ordered_append ordered_Cons)
    have s: "s \<le> fst ?r" using 1(6) dr by simp
    consider "e \<le> fst ?r" | "fst ?r < e" "e < snd ?r" | "fst ?r < e" "snd ?r \<le> e" by linarith
    then show ?thesis
    proof cases
      case 1
      then have "m = slot" "ys = xs" using False "1.prems"(6) by (subst (asm) last_slot.simps; simp)+
      moreover have "spec_subtract (drop slot xs) s e = drop slot xs"
        using 1 behind ne(1) by (intro spec_subtract_behind [OF ne(3) "1.prems"(3)]) (auto simp: dr)
      ultimately show ?thesis using False by simp
    next
      case 2
      then have "m = slot" "ys = xs[slot := (e, snd ?r)]" using False "1.prems"(6) by (subst (asm) last_slot.simps; simp)+
      moreover have "spec_subtract (drop (Suc slot) xs) s e = drop (Suc slot) xs"
        using 2 behind by (intro spec_subtract_behind [OF ne(2) "1.prems"(3)]) auto
      moreover have "cut s e ?r = [(e, snd ?r)]" using cut_cases(4) [OF ne(1) "1.prems"(3) s] 2 by blast
      ultimately show ?thesis using False by (simp add: dr drop_update_cancel Cons_nth_drop_Suc [symmetric])
    next
      case 3
      then have l: "last_slot xs e (slot + 1) = (m, ys)" using False "1.prems"(6) by (subst (asm) last_slot.simps) simp
      have n: "\<not> e \<le> fst ?r" "\<not> e < snd ?r" using 3 by simp_all
      have "\<forall>r \<in> set (drop (slot + 1) xs). s \<le> fst r" using "1.prems"(5) dr by simp
      from "1.IH" [OF False n "1.prems"(1-3) _ this l] False
      have "slot + 1 \<le> m \<and> m \<le> length xs \<and> length ys = length xs \<and> take m ys = take m xs \<and> drop m ys = spec_subtract (drop (slot + 1) xs) s e"
        by simp
      moreover have "cut s e ?r = []" using cut_cases(3) [OF ne(1) "1.prems"(3) s] 3 by blast
      ultimately show ?thesis by (simp add: dr)
    qed
  qed
qed

lemma subtract_parts:
  assumes o: "ordered xs" and ne: "nonempty xs" and se: "s < e" and xs: "xs \<noteq> []" "s < snd (xs ! (length xs - 1))"
  shows "first_slot xs s < length xs" "s \<le> snd (xs ! first_slot xs s)" "fst (xs ! first_slot xs s) < snd (xs ! first_slot xs s)"
    "\<forall>r \<in> set (drop (Suc (first_slot xs s)) xs). snd (xs ! first_slot xs s) < fst r" "nonempty (drop (Suc (first_slot xs s)) xs)"
    "spec_subtract xs s e = take (first_slot xs s) xs @ cut s e (xs ! first_slot xs s) @ spec_subtract (drop (Suc (first_slot xs s)) xs) s e"
proof -
  let ?k = "first_slot xs s"
  have k: "?k = before xs s" by (simp add: first_slot_def before_def)
  have n: "length xs - 1 < length xs" using xs(1) by simp
  have "\<not> length xs - 1 < ?k" using before_iff [OF o n, of s] xs(2) by (simp add: k)
  then show l: "?k < length xs" using n by linarith
  show "s \<le> snd (xs ! ?k)" using before_iff [OF o l, of s] by (simp add: k)
  have sp: "xs = take ?k xs @ xs ! ?k # drop (Suc ?k) xs" by (rule id_take_nth_drop [OF l])
  show "fst (xs ! ?k) < snd (xs ! ?k)" using ne l by (simp add: nonempty_def)
  show "\<forall>r \<in> set (drop (Suc ?k) xs). snd (xs ! ?k) < fst r" using o by (subst (asm) sp) (simp add: ordered_append ordered_Cons)
  show "nonempty (drop (Suc ?k) xs)" using ne by (auto simp: nonempty_def dest: in_set_dropD)
  have "spec_subtract (take ?k xs) s e = take ?k xs"
  proof (rule spec_subtract_before [OF _ se])
    show "nonempty (take ?k xs)" using ne by (auto simp: nonempty_def dest: in_set_takeD)
    show "\<forall>r \<in> set (take ?k xs). snd r \<le> s" using in_take_before [of _ xs s] by (auto simp: k less_imp_le)
  qed
  then show "spec_subtract xs s e = take ?k xs @ cut s e (xs ! ?k) @ spec_subtract (drop (Suc ?k) xs) s e"
    by (subst sp) simp
qed

lemma take_update: "k < length xs \<Longrightarrow> take (Suc k) (xs[k := r]) = take k xs @ [r]"
  by (simp add: take_Suc_conv_app_nth)

lemma subtract_within:
  assumes ok: "ranges_ok rs" and ne: "nonempty (ranges rs)" and se: "s < e"
    and xs: "ranges rs \<noteq> []" "\<not> e \<le> fst (ranges rs ! 0)" "s < snd (ranges rs ! (length (ranges rs) - 1))"
    and eb: "e \<le> snd (ranges rs ! first_slot (ranges rs) s)"
  shows "\<exists>ret rs'. quicly_ranges_subtract alloc rs s e = Some (ret, rs') \<and> outcome alloc rs (spec_subtract (ranges rs) s e) ret rs'"
proof -
  let ?xs = "ranges rs" and ?k = "first_slot (ranges rs) s"
  let ?a = "fst (?xs ! ?k)" and ?b = "snd (?xs ! ?k)" and ?d = "drop (Suc ?k) ?xs"
  have o: "ordered ?xs" and len: "length ?xs \<le> capacity rs" "1 \<le> capacity rs" using ok by (simp_all add: ranges_ok_def)
  note p = subtract_parts [OF o ne se xs(1,3)]
  have same: "outcome alloc rs ?xs 0 rs" using len by (simp add: outcome_def)
  have sub: "quicly_ranges_subtract alloc rs s e =
     (if e \<le> ?a then Some (0, rs)
      else if s \<le> ?a \<or> e = ?b then
        (let (a', b') = (if s \<le> ?a then (e, ?b) else (?a, s)); rs1 = rs\<lparr>ranges := ?xs[?k := (a', b')]\<rparr>
         in if a' = b' then map_option (Pair 0) (quicly_ranges_drop_by_range_indices alloc rs1 ?k (?k + 1))
            else Some (0, rs1))
      else
        (case insert_at alloc rs e ?b (?k + 1) of
           (ret, rs1) \<Rightarrow> if ret \<noteq> 0 then Some (ret, rs1) else Some (0, rs1\<lparr>ranges := (ranges rs1)[?k := (?a, s)]\<rparr>)))"
    using xs se eb unfolding quicly_ranges_subtract_def Let_def by simp
  have rest: "spec_subtract ?d s e = ?d"
    by (rule spec_subtract_behind [OF p(5) se]) (use p(4) eb in fastforce)
  note spec = p(6) [unfolded rest]
  consider "e \<le> ?a" | "?a < e" "s \<le> ?a" "e = ?b" | "?a < e" "s \<le> ?a" "e < ?b" | "?a < s" "e = ?b" | "?a < s" "e < ?b"
    using eb se by linarith
  then show ?thesis
  proof cases
    case 1
    then have "spec_subtract ?xs s e = ?xs" using spec cut_cases(2) [OF p(3) se] id_take_nth_drop [OF p(1)] by simp
    then show ?thesis using sub 1 same by simp
  next
    case 2
    let ?rs1 = "rs\<lparr>ranges := ?xs[?k := (e, ?b)]\<rparr>"
    obtain rs' where "quicly_ranges_drop_by_range_indices alloc ?rs1 ?k (?k + 1) = Some rs'"
      "outcome alloc ?rs1 (take ?k (ranges ?rs1) @ drop (?k + 1) (ranges ?rs1)) 0 rs'"
      using drop_outcome [of ?rs1 ?k "?k + 1" alloc] len p(1) by auto
    then have "quicly_ranges_subtract alloc rs s e = Some (0, rs')" "outcome alloc rs (spec_subtract ?xs s e) 0 rs'"
      using sub 2 outcome_start [of alloc ?rs1 _ rs' rs] spec cut_cases(3) [OF p(3) se] by simp_all
    then show ?thesis by blast
  next
    case 3
    have "spec_subtract ?xs s e = ?xs[?k := (e, ?b)]" using spec cut_cases(4) [OF p(3) se] 3 p(1) by (simp add: upd_conv_take_nth_drop)
    then show ?thesis using sub 3 len by (simp add: outcome_def)
  next
    case 4
    have "spec_subtract ?xs s e = ?xs[?k := (?a, s)]" using spec cut_cases(5) [OF p(3) se] 4 se p(1) by (simp add: upd_conv_take_nth_drop)
    then show ?thesis using sub 4 se len by (simp add: outcome_def)
  next
    case 5
    have spec5: "spec_subtract ?xs s e = take ?k ?xs @ (?a, s) # (e, ?b) # ?d" using spec cut_cases(6) [OF p(3) se] 5 by simp
    obtain ret rs1 where i: "insert_at alloc rs e ?b (?k + 1) = (ret, rs1)"
      "outcome alloc rs (take (?k + 1) ?xs @ (e, ?b) # drop (?k + 1) ?xs) ret rs1"
      using insert_at_outcome [OF ok, of "?k + 1" alloc e ?b] p(1) by auto
    show ?thesis
    proof (cases "ret = 0")
      case False
      then have "quicly_ranges_subtract alloc rs s e = Some (ret, rs1)" using sub 5 se i(1) by simp
      then show ?thesis using False i(2) by (auto simp: outcome_def)
    next
      case zero: True
      then have rs1: "ranges rs1 = take (?k + 1) ?xs @ (e, ?b) # ?d" "length (ranges rs1) \<le> capacity rs1" "1 \<le> capacity rs1"
        using i(2) by (auto simp: outcome_def PTLS_ERROR_NO_MEMORY_def)
      have "quicly_ranges_subtract alloc rs s e = Some (0, rs1\<lparr>ranges := (ranges rs1)[?k := (?a, s)]\<rparr>)"
        using sub 5 se i(1) zero by simp
      moreover have "(ranges rs1)[?k := (?a, s)] = take ?k ?xs @ (?a, s) # (e, ?b) # ?d"
        using p(1) by (simp add: rs1(1) take_Suc_conv_app_nth list_update_append)
      ultimately show ?thesis using rs1(2,3) spec5 by (metis (no_types, lifting) outcome_def quicly_ranges.select_convs quicly_ranges.update_convs(1) quicly_ranges.surjective length_list_update)
    qed
  qed
qed

lemma subtract_across:
  assumes ok: "ranges_ok rs" and ne: "nonempty (ranges rs)" and se: "s < e"
    and xs: "ranges rs \<noteq> []" "\<not> e \<le> fst (ranges rs ! 0)" "s < snd (ranges rs ! (length (ranges rs) - 1))"
    and eb: "\<not> e \<le> snd (ranges rs ! first_slot (ranges rs) s)"
  shows "\<exists>ret rs'. quicly_ranges_subtract alloc rs s e = Some (ret, rs') \<and> outcome alloc rs (spec_subtract (ranges rs) s e) ret rs'"
proof -
  let ?xs = "ranges rs" and ?k = "first_slot (ranges rs) s"
  let ?a = "fst (?xs ! ?k)" and ?b = "snd (?xs ! ?k)" and ?d = "drop (Suc ?k) ?xs"
  have o: "ordered ?xs" and len: "length ?xs \<le> capacity rs" "1 \<le> capacity rs" using ok by (simp_all add: ranges_ok_def)
  note p = subtract_parts [OF o ne se xs(1,3)]
  have sub: "quicly_ranges_subtract alloc rs s e =
     (let (shrink_from, xs1) = (if s \<le> ?a then (?k, ?xs) else (?k + 1, ?xs[?k := (?a, s)]));
          (slot', xs2) = last_slot xs1 e (?k + 1); rs1 = rs\<lparr>ranges := xs2\<rparr>
      in if shrink_from \<noteq> slot' then map_option (Pair 0) (quicly_ranges_drop_by_range_indices alloc rs1 shrink_from slot')
         else Some (0, rs1))"
    using xs se eb unfolding quicly_ranges_subtract_def Let_def by simp
  let ?sh = "if s \<le> ?a then ?k else ?k + 1" and ?xs1 = "if s \<le> ?a then ?xs else ?xs[?k := (?a, s)]"
  obtain m ys where l: "last_slot ?xs1 e (?k + 1) = (m, ys)" by (cases "last_slot ?xs1 e (?k + 1)")
  have sp: "?xs = take ?k ?xs @ ?xs ! ?k # ?d" by (rule id_take_nth_drop [OF p(1)])
  have x1: "?xs1 = take ?k ?xs @ (if s \<le> ?a then ?xs ! ?k else (?a, s)) # ?d"
    using p(1) sp by (simp add: upd_conv_take_nth_drop)
  have o1: "ordered ?xs1"
    using o p(2) unfolding x1 by (subst (asm) sp) (auto simp: ordered_append ordered_Cons)
  have n1: "nonempty ?xs1"
    using ne unfolding x1 by (subst (asm) sp) auto
  have d1: "drop (?k + 1) ?xs1 = ?d" "length ?xs1 = length ?xs" "?k + 1 \<le> length ?xs1" using p(1) by simp_all
  have "?k + 1 \<le> m \<and> m \<le> length ?xs1 \<and> length ys = length ?xs1 \<and> take m ys = take m ?xs1 \<and> drop m ys = spec_subtract (drop (?k + 1) ?xs1) s e"
    by (rule last_slot_correct [OF o1 n1 se d1(3) _ l]) (use p(2,4) d1(1) in fastforce)
  then have ls: "?k + 1 \<le> m" "m \<le> length ?xs" "length ys = length ?xs" "take m ys = take m ?xs1" "drop m ys = spec_subtract ?d s e"
    using d1(1,2) by simp_all
  have tk: "take ?sh ys = take ?k ?xs @ cut s e (?xs ! ?k)"
  proof -
    have "take ?sh ys = take ?sh (take m ys)" using ls(1) by (simp add: min_def)
    also have "\<dots> = take ?sh ?xs1" unfolding ls(4) using ls(1) by (simp add: min_def)
    also have "\<dots> = take ?k ?xs @ cut s e (?xs ! ?k)"
      using cut_cases(3,5) [OF p(3) se] p(1,2) eb by (cases "s \<le> ?a") (simp_all add: take_update)
    finally show ?thesis .
  qed
  then have spec: "spec_subtract ?xs s e = take ?sh ys @ drop m ys" using p(6) ls(5) by simp
  let ?rs1 = "rs\<lparr>ranges := ys\<rparr>"
  have q: "quicly_ranges_subtract alloc rs s e = (if ?sh \<noteq> m then map_option (Pair 0) (quicly_ranges_drop_by_range_indices alloc ?rs1 ?sh m) else Some (0, ?rs1))"
    using sub l by (cases "s \<le> ?a") (simp_all add: Let_def)
  show ?thesis
  proof (cases "?sh = m")
    case True
    then have "spec_subtract ?xs s e = ys" using spec by simp
    then show ?thesis using q True ls(3) len by (simp add: outcome_def)
  next
    case ne: False
    have "?sh < m" using ne ls(1) by (simp split: if_splits)
    then obtain rs' where "quicly_ranges_drop_by_range_indices alloc ?rs1 ?sh m = Some rs'"
      "outcome alloc ?rs1 (take ?sh (ranges ?rs1) @ drop m (ranges ?rs1)) 0 rs'"
      using drop_outcome [of ?rs1 ?sh m alloc] len ls(2,3) by auto
    then show ?thesis using q ne spec outcome_start [of alloc ?rs1 _ rs' rs] by auto
  qed
qed

lemma quicly_ranges_subtract_outcome:
  assumes ok: "ranges_ok rs" and ne: "nonempty (ranges rs)" and se: "s < e"
  shows "\<exists>ret rs'. quicly_ranges_subtract alloc rs s e = Some (ret, rs') \<and> outcome alloc rs (spec_subtract (ranges rs) s e) ret rs'"
proof -
  let ?xs = "ranges rs"
  have o: "ordered ?xs" and len: "length ?xs \<le> capacity rs" "1 \<le> capacity rs" using ok by (simp_all add: ranges_ok_def)
  have same: "outcome alloc rs ?xs 0 rs" using len by (simp add: outcome_def)
  have n: "length ?xs - 1 < length ?xs" if "?xs \<noteq> []" using that by simp
  consider "?xs = []" | "?xs \<noteq> []" "e \<le> fst (?xs ! 0)" | "?xs \<noteq> []" "\<not> e \<le> fst (?xs ! 0)" "snd (?xs ! (length ?xs - 1)) \<le> s"
    | "?xs \<noteq> []" "\<not> e \<le> fst (?xs ! 0)" "s < snd (?xs ! (length ?xs - 1))" by linarith
  then show ?thesis
  proof cases
    case 1
    then show ?thesis using se same by (simp add: quicly_ranges_subtract_def)
  next
    case 2
    have "e \<le> fst r" if r: "r \<in> set ?xs" for r
    proof -
      obtain i where "i < length ?xs" "r = ?xs ! i" using r by (auto simp: in_set_conv_nth)
      then show ?thesis using 2(2) ordered_mono(2) [OF o, of 0 i] by (cases "i = 0") auto
    qed
    then have "spec_subtract ?xs s e = ?xs" using spec_subtract_behind [OF ne se] by blast
    then show ?thesis using 2 se same by (simp add: quicly_ranges_subtract_def)
  next
    case 3
    have "snd r \<le> s" if r: "r \<in> set ?xs" for r
    proof -
      obtain i where i: "i < length ?xs" "r = ?xs ! i" using r by (auto simp: in_set_conv_nth)
      then have "i = length ?xs - 1 \<or> i < length ?xs - 1" by linarith
      then show ?thesis using i(2) 3(3) ordered_mono(1) [OF o _ n [OF 3(1)], of i] by auto
    qed
    then have "spec_subtract ?xs s e = ?xs" using spec_subtract_before [OF ne se] by blast
    then show ?thesis using 3 se same by (simp add: quicly_ranges_subtract_def)
  next
    case 4
    then show ?thesis
      using subtract_within [OF ok ne se, of alloc] subtract_across [OF ok ne se, of alloc] by (cases "e \<le> snd (?xs ! first_slot ?xs s)") blast+
  qed
qed

section \<open>The next number that is missing\<close>

lemma elements_nth: "x \<in> elements xs \<longleftrightarrow> (\<exists>i < length xs. fst (xs ! i) \<le> x \<and> x < snd (xs ! i))"
proof
  assume "x \<in> elements xs"
  then obtain r where "r \<in> set xs" "fst r \<le> x" "x < snd r" by (auto simp: elements_def)
  then show "\<exists>i < length xs. fst (xs ! i) \<le> x \<and> x < snd (xs ! i)" by (auto simp: in_set_conv_nth)
next
  assume "\<exists>i < length xs. fst (xs ! i) \<le> x \<and> x < snd (xs ! i)"
  then obtain i where "xs ! i \<in> set xs" "fst (xs ! i) \<le> x" "x < snd (xs ! i)" using nth_mem by blast
  then show "x \<in> elements xs" unfolding elements_def by (auto intro!: bexI [of _ "xs ! i"])
qed

lemma end_missing:
  assumes o: "ordered xs" and i: "i < length xs"
  shows "snd (xs ! i) \<notin> elements xs"
proof
  assume "snd (xs ! i) \<in> elements xs"
  then obtain j where j: "j < length xs" "fst (xs ! j) \<le> snd (xs ! i)" "snd (xs ! i) < snd (xs ! j)" by (auto simp: elements_nth)
  then show False using ordered_nth [OF o, of i j] ordered_mono(1) [OF o, of j i] i by (cases i j rule: linorder_cases) auto
qed

lemma gap_missing:
  assumes o: "ordered xs" and i: "i \<le> length xs" and x: "i \<noteq> 0 \<Longrightarrow> snd (xs ! (i - 1)) < x" "i < length xs \<Longrightarrow> x < fst (xs ! i)"
  shows "x \<notin> elements xs"
proof
  assume "x \<in> elements xs"
  then obtain j where j: "j < length xs" "fst (xs ! j) \<le> x" "x < snd (xs ! j)" by (auto simp: elements_nth)
  show False
  proof (cases "j < i")
    case True
    then have "j = i - 1 \<or> j < i - 1" "i - 1 < length xs" using i by linarith+
    then have "snd (xs ! j) \<le> snd (xs ! (i - 1))" using ordered_mono(1) [OF o, of j "i - 1"] by auto
    then show ?thesis using x(1) True j(3) by simp
  next
    case False
    then have "j = i \<or> i < j" by linarith
    then have "fst (xs ! i) \<le> fst (xs ! j)" using ordered_mono(2) [OF o, of i j] j(1) by auto
    then show ?thesis using x(2) j(1,2) False by simp
  qed
qed

definition next_missing :: "nat set \<Rightarrow> nat \<Rightarrow> nat \<Rightarrow> bool" where
  "next_missing A lower_bound x \<longleftrightarrow> lower_bound \<le> x \<and> x \<notin> A \<and> {lower_bound..<x} \<subseteq> A"

lemma next_missing_range:
  assumes "ordered xs" "i < length xs" "fst (xs ! i) \<le> lb" "lb \<le> snd (xs ! i)"
  shows "next_missing (elements xs) lb (snd (xs ! i))"
proof -
  have "x \<in> elements xs" if "lb \<le> x" "x < snd (xs ! i)" for x
    unfolding elements_nth using assms(2,3) that by (intro exI [of _ i]) simp
  then show ?thesis using assms(4) end_missing [OF assms(1,2)] by (auto simp: next_missing_def)
qed

lemma next_missing_loop_correct:
  assumes o: "ordered xs" and lb: "xs \<noteq> [] \<Longrightarrow> fst (xs ! 0) \<le> lb" and "n \<le> length xs"
    and "if n = length xs then result = lb
      else result = snd (xs ! n) \<and> lb \<le> snd (xs ! n) \<and> (n \<noteq> 0 \<longrightarrow> fst (xs ! n) \<le> lb \<or> lb \<le> snd (xs ! (n - 1)))"
  shows "next_missing (elements xs) lb (fst (next_missing_loop xs lb n result))"
  using assms(3,4)
proof (induction n arbitrary: result)
  case 0
  then show ?case
    using next_missing_range [OF o, of 0 lb] lb by (cases "xs = []") (auto simp: next_missing_def)
next
  case (Suc slot)
  have l: "slot < length xs" using Suc.prems(1) by simp
  show ?case
  proof (cases "lb \<le> snd (xs ! slot)")
    case False
    show ?thesis
    proof (cases "Suc slot = length xs")
      case True
      have "lb \<notin> elements xs"
      proof (rule gap_missing [OF o Suc.prems(1)])
        show "snd (xs ! (Suc slot - 1)) < lb" using False by simp
        show "lb < fst (xs ! Suc slot)" if "Suc slot < length xs" using that True by simp
      qed
      moreover have "result = lb" using True Suc.prems(2) by simp
      ultimately show ?thesis using False by (simp add: next_missing_def)
    next
      case n: False
      then show ?thesis using False Suc.prems next_missing_range [OF o, of "Suc slot" lb] by simp
    qed
  next
    case True
    show ?thesis
    proof (cases "slot \<noteq> 0 \<and> fst (xs ! slot) > lb \<and> lb > snd (xs ! (slot - 1))")
      case stop: True
      then have "lb \<notin> elements xs" using l by (intro gap_missing [OF o, of slot]) auto
      then show ?thesis using stop True by (simp add: next_missing_def)
    next
      case False
      then show ?thesis using True l Suc.IH [of "snd (xs ! slot)"] by auto
    qed
  qed
qed

lemma next_missing_loop_low:
  assumes o: "ordered xs" and lb: "lb < fst (xs ! 0)" and "n \<le> length xs" "0 < n"
  shows "fst (next_missing_loop xs lb n result) = snd (xs ! 0)"
  using assms(3,4)
proof (induction n arbitrary: result)
  case (Suc slot)
  have "0 < length xs" using Suc.prems(1) by linarith
  then have le: "fst (xs ! 0) \<le> snd (xs ! i)" if "i < length xs" for i
    using that ordered_mono(1) [OF o, of 0 i] ordered_nth_le [OF o, of 0] by (cases "i = 0") auto
  have "slot < length xs" "slot - 1 < length xs" using Suc.prems(1) by linarith+
  then have "lb \<le> snd (xs ! slot)" "lb \<le> snd (xs ! (slot - 1))" using le lb by (meson less_imp_le order_trans)+
  then show ?case using Suc by (cases "slot = 0") auto
qed simp

section \<open>Properties\<close>

text \<open>
  C4. Range sets refine sets of numbers: adding and subtracting a range compute union and difference on arrays of ranges that stay sorted with gaps in
  between, or report that memory is exhausted and change nothing; no access is outside the array and no assertion fails.
\<close>

theorem ranges_refine_sets:
  assumes "ranges_ok rs" "s \<le> e"
  shows "(\<exists>ret rs'. quicly_ranges_add alloc rs s e = Some (ret, rs') \<and> ranges_ok rs' \<and> (nonempty (ranges rs) \<longrightarrow> nonempty (ranges rs')) \<and>
      (ret = 0 \<and> elements (ranges rs') = elements (ranges rs) \<union> {s..<e} \<or>
       ret = PTLS_ERROR_NO_MEMORY \<and> rs' = rs \<and> (\<exists>n. \<not> alloc n))) \<and>
    (nonempty (ranges rs) \<longrightarrow>
      (\<exists>ret rs'. quicly_ranges_subtract alloc rs s e = Some (ret, rs') \<and> ranges_ok rs' \<and> nonempty (ranges rs') \<and>
      (ret = 0 \<and> elements (ranges rs') = elements (ranges rs) - {s..<e} \<or>
       ret = PTLS_ERROR_NO_MEMORY \<and> rs' = rs \<and> (\<exists>n. \<not> alloc n))))"
proof (cases "s = e")
  case True
  then show ?thesis using assms(1) by (simp add: quicly_ranges_add_def quicly_ranges_subtract_def Let_def)
next
  case False
  then have se: "s < e" using assms(2) by simp
  have o: "ordered (ranges rs)" using assms(1) by (simp add: ranges_ok_def)
  obtain ret rs' where "quicly_ranges_add alloc rs s e = Some (ret, rs')" "outcome alloc rs (spec_add (ranges rs) s e) ret rs'"
    using quicly_ranges_add_outcome [OF assms(1) se] by blast
  moreover from this(2) spec_add_correct [OF o se] assms(1)
  have "ranges_ok rs' \<and> (nonempty (ranges rs) \<longrightarrow> nonempty (ranges rs')) \<and> (ret = 0 \<and> elements (ranges rs') = elements (ranges rs) \<union> {s..<e} \<or>
       ret = PTLS_ERROR_NO_MEMORY \<and> rs' = rs \<and> (\<exists>n. \<not> alloc n))"
    unfolding outcome_def ranges_ok_def by metis
  moreover have "\<exists>ret rs'. quicly_ranges_subtract alloc rs s e = Some (ret, rs') \<and> ranges_ok rs' \<and> nonempty (ranges rs') \<and>
      (ret = 0 \<and> elements (ranges rs') = elements (ranges rs) - {s..<e} \<or> ret = PTLS_ERROR_NO_MEMORY \<and> rs' = rs \<and> (\<exists>n. \<not> alloc n))"
    if "nonempty (ranges rs)"
    using quicly_ranges_subtract_outcome [OF assms(1) that se, of alloc] spec_subtract_correct(1-3) [OF o that se] that assms(1)
    unfolding outcome_def ranges_ok_def by metis
  ultimately show ?thesis by blast
qed

theorem ranges_refine_sets_witness:
  "\<exists>ret rs'. quicly_ranges_add (\<lambda>n. n \<le> 8) \<lparr>ranges = [(0, 3), (5, 9)], capacity = 4\<rparr> 2 6 = Some (ret, rs') \<and> ret = 0 \<and>
    elements (ranges rs') = {0..<9}"
proof -
  let ?rs = "\<lparr>ranges = [(0, 3), (5, 9)], capacity = 4\<rparr>"
  have "ranges_ok ?rs" by (simp add: ranges_ok_def ordered_Cons)
  from ranges_refine_sets [OF this, of 2 6 "\<lambda>n. n \<le> 8"] obtain ret rs' where r: "quicly_ranges_add (\<lambda>n. n \<le> 8) ?rs 2 6 = Some (ret, rs')"
    "ret = 0 \<and> elements (ranges rs') = elements [(0, 3), (5, 9)] \<union> {2..<6} \<or> ret = PTLS_ERROR_NO_MEMORY" by auto
  have "ret = 0"
    using r(1) by (simp add: quicly_ranges_add_def find_end_slot.simps add_from.simps merge_update_def quicly_ranges_drop_by_range_indices_def
      Let_def split: if_splits)
  moreover have "elements [(0, 3), (5, 9)] \<union> {2..<6} = {0..<9 :: nat}" by auto
  ultimately show ?thesis using r by (auto simp: PTLS_ERROR_NO_MEMORY_def)
qed

text \<open>
  C38. The search for a missing number finds the smallest one from the lower bound on, provided that the lower bound is not below the first range. Below
  the first range it returns the end of that range although the lower bound itself is missing.
\<close>

theorem next_missing_correct:
  assumes "ordered (ranges rs)"
  shows "if ranges rs = [] \<or> fst (ranges rs ! 0) \<le> lb
    then next_missing (elements (ranges rs)) lb (fst (quicly_ranges_next_missing rs lb))
    else fst (quicly_ranges_next_missing rs lb) = snd (ranges rs ! 0) \<and> lb \<notin> elements (ranges rs)"
proof (cases "ranges rs = [] \<or> fst (ranges rs ! 0) \<le> lb")
  case True
  then show ?thesis unfolding quicly_ranges_next_missing_def by (auto intro!: next_missing_loop_correct [OF assms])
next
  case False
  then have "lb \<notin> elements (ranges rs)" by (intro gap_missing [OF assms, of 0]) auto
  then show ?thesis using False next_missing_loop_low [OF assms, of lb "length (ranges rs)"] by (simp add: quicly_ranges_next_missing_def)
qed

theorem next_missing_correct_witness:
  "next_missing (elements [(0, 3), (5, 9)]) 1 (fst (quicly_ranges_next_missing \<lparr>ranges = [(0, 3), (5, 9)], capacity = 4\<rparr> 1)) \<and>
    fst (quicly_ranges_next_missing \<lparr>ranges = [(5, 9)], capacity = 4\<rparr> 1) = 9 \<and> 1 \<notin> elements [(5, 9)]"
  using next_missing_correct [of "\<lparr>ranges = [(0, 3), (5, 9)], capacity = 4\<rparr>" 1]
    next_missing_correct [of "\<lparr>ranges = [(5, 9)], capacity = 4\<rparr>" 1] by (simp add: ordered_Cons)

end
