(* ===== verification/Quic_Recv.thy ===== *)
theory Quic_Recv
  imports Quic_Ranges
begin

text \<open>
  The receiving side of a QUIC stream, \<^verbatim>\<open>deps/quicly/lib/recvstate.c\<close>: which octets have arrived, and when the stream is complete. The model
  of the set of octets is the one of \<^verbatim>\<open>Quic_Ranges\<close>.
\<close>

section \<open>The state\<close>

record quicly_recvstate =
  received :: quicly_ranges
  data_off :: nat
  eos :: nat

definition UINT64_MAX :: nat where
  "UINT64_MAX = 2 ^ 64 - 1"

definition QUICLY_TRANSPORT_ERROR_FINAL_SIZE :: nat where
  "QUICLY_TRANSPORT_ERROR_FINAL_SIZE = 0x4000000000030006"

definition QUICLY_ERROR_STATE_EXHAUSTION :: nat where
  "QUICLY_ERROR_STATE_EXHAUSTION = 0xff07"

definition quicly_recvstate_init :: "(nat \<Rightarrow> bool) \<Rightarrow> quicly_recvstate" where
  "quicly_recvstate_init alloc = \<lparr>received = snd (quicly_ranges_init_with_range alloc 0 0), data_off = 0, eos = UINT64_MAX\<rparr>"

definition quicly_recvstate_init_closed :: quicly_recvstate where
  "quicly_recvstate_init_closed = \<lparr>received = quicly_ranges_init, data_off = 0, eos = 0\<rparr>"

definition quicly_recvstate_dispose :: "quicly_recvstate \<Rightarrow> quicly_recvstate" where
  "quicly_recvstate_dispose state = state\<lparr>received := quicly_ranges_clear (received state)\<rparr>"

definition quicly_recvstate_transfer_complete :: "quicly_recvstate \<Rightarrow> bool" where
  "quicly_recvstate_transfer_complete state \<longleftrightarrow> ranges (received state) = []"

definition quicly_recvstate_bytes_available :: "quicly_recvstate \<Rightarrow> nat option" where
  "quicly_recvstate_bytes_available state =
    (let total = (if quicly_recvstate_transfer_complete state then eos state else r_end (ranges (received state) ! 0))
     in if data_off state \<le> total then Some (total - data_off state) else None)"

abbreviation (input) last_end :: "quicly_recvstate \<Rightarrow> nat" where
  "last_end state \<equiv> r_end (ranges (received state) ! (length (ranges (received state)) - 1))"

text \<open>
  The result has the error code, the new value of \<^verbatim>\<open>*len\<close> and the state; \<^term>\<open>None\<close> is a failing \<^verbatim>\<open>assert\<close>. The sum of offset and length
  is one of 64-bit numbers.
\<close>

definition recv_update_eos :: "quicly_recvstate \<Rightarrow> nat \<Rightarrow> bool \<Rightarrow> nat \<times> quicly_recvstate" where
  "recv_update_eos state end is_fin =
    (if eos state = UINT64_MAX then
       (if is_fin then (if end < last_end state then QUICLY_TRANSPORT_ERROR_FINAL_SIZE else 0, state\<lparr>eos := end\<rparr>) else (0, state))
     else (if end > eos state then QUICLY_TRANSPORT_ERROR_FINAL_SIZE else 0, state))"

definition recv_complete :: "quicly_recvstate \<Rightarrow> quicly_recvstate" where
  "recv_complete state = state\<lparr>received := quicly_ranges_clear (received state)\<rparr>"

definition recv_update_ranges :: "(nat \<Rightarrow> bool) \<Rightarrow> quicly_recvstate \<Rightarrow> nat \<Rightarrow> nat \<Rightarrow> nat \<Rightarrow> (nat \<times> nat \<times> quicly_recvstate) option" where
  "recv_update_ranges alloc state off len max_ranges =
    (case (if len \<noteq> 0 then quicly_ranges_add alloc (received state) off ((off + len) mod 2 ^ 64) else Some (0, received state)) of
       None \<Rightarrow> None
     | Some (ret, rs) \<Rightarrow>
         (let state1 = state\<lparr>received := rs\<rparr>
          in if ret \<noteq> 0 then Some (ret, len, state1)
             else if len \<noteq> 0 \<and> length (ranges rs) > max_ranges then Some (QUICLY_ERROR_STATE_EXHAUSTION, len, state1)
             else if length (ranges rs) = 1 \<and> r_start (ranges rs ! 0) = 0 \<and> r_end (ranges rs ! 0) = eos state then Some (0, len, recv_complete state1)
             else Some (0, len, state1)))"

definition quicly_recvstate_update ::
  "(nat \<Rightarrow> bool) \<Rightarrow> quicly_recvstate \<Rightarrow> nat \<Rightarrow> nat \<Rightarrow> bool \<Rightarrow> nat \<Rightarrow> (nat \<times> nat \<times> quicly_recvstate) option" where
  "quicly_recvstate_update alloc state off len is_fin max_ranges =
    (if quicly_recvstate_transfer_complete state then None
     else
       (let end = (off + len) mod 2 ^ 64
        in case recv_update_eos state end is_fin of
             (ret, state1) \<Rightarrow>
               if ret \<noteq> 0 then Some (ret, len, state1)
               else if end \<le> data_off state1 then
                 Some (0, 0, if r_end (ranges (received state1) ! 0) = eos state1 then recv_complete state1 else state1)
               else
                 (let delta = data_off state1 - off
                  in if off < data_off state1 then recv_update_ranges alloc state1 (off + delta) (len - delta) max_ranges
                     else recv_update_ranges alloc state1 off len max_ranges)))"

text \<open>The result has the number of missing octets.\<close>

definition quicly_recvstate_reset :: "quicly_recvstate \<Rightarrow> nat \<Rightarrow> (nat \<times> nat \<times> quicly_recvstate) option" where
  "quicly_recvstate_reset state eos_at =
    (if quicly_recvstate_transfer_complete state then None
     else if eos state \<noteq> UINT64_MAX \<and> eos state \<noteq> eos_at then Some (QUICLY_TRANSPORT_ERROR_FINAL_SIZE, 0, state)
     else if eos_at < last_end state then Some (QUICLY_TRANSPORT_ERROR_FINAL_SIZE, 0, state)
     else Some (0, eos_at - last_end state, state\<lparr>received := quicly_ranges_clear (received state)\<rparr>))"

section \<open>Ranges that start at zero\<close>

definition shape :: "quicly_range list \<Rightarrow> bool" where
  "shape xs \<longleftrightarrow> ordered xs \<and> xs \<noteq> [] \<and> fst (xs ! 0) = 0 \<and> nonempty (tl xs)"

lemma shape_nth: "shape xs \<Longrightarrow> 0 < i \<Longrightarrow> i < length xs \<Longrightarrow> fst (xs ! i) < snd (xs ! i)"
  unfolding shape_def nonempty_def by (cases xs; cases i) auto

lemma shape_add:
  assumes sh: "shape xs" and se: "s < e"
  shows "shape (spec_add xs s e)"
proof -
  let ?lo = "before xs s" and ?hi = "reached xs e"
  obtain x ys where xs: "xs = x # ys" using sh by (cases xs) (auto simp: shape_def)
  have o: "ordered xs" and ne: "nonempty ys" and z: "fst x = 0" using sh xs by (simp_all add: shape_def)
  have le: "?lo \<le> ?hi" by (rule before_reached [OF o]) (use se in simp)
  have hi: "0 < ?hi" using reached_iff [OF o, of 0 e] xs z by simp
  have neys: "nonempty (take k ys)" "nonempty (drop k ys)" for k using ne by (auto simp: nonempty_def dest: in_set_takeD in_set_dropD)
  have m: "fst (if ?lo < ?hi then (min s (fst (xs ! ?lo)), max e (snd (xs ! (?hi - 1)))) else (s, e))
      < snd (if ?lo < ?hi then (min s (fst (xs ! ?lo)), max e (snd (xs ! (?hi - 1)))) else (s, e))"
    using se by (simp add: min_less_iff_disj less_max_iff_disj)
  have "fst (spec_add xs s e ! 0) = 0 \<and> nonempty (tl (spec_add xs s e))"
  proof (cases ?lo)
    case 0
    then show ?thesis using hi z xs neys(2) [of "?hi - 1"] by (simp add: spec_add_def Let_def drop_Cons')
  next
    case (Suc k)
    then show ?thesis using hi z m neys(1) [of k] neys(2) [of "?hi - 1"] unfolding spec_add_def Let_def by (simp add: xs drop_Cons')
  qed
  moreover have "spec_add xs s e \<noteq> []" by (simp add: spec_add_def Let_def)
  ultimately show ?thesis using spec_add_correct(1) [OF o se] by (simp add: shape_def)
qed

lemma shape_prefix: "shape xs \<Longrightarrow> next_missing (elements xs) 0 (snd (xs ! 0))"
  by (rule next_missing_range) (auto simp: shape_def)

lemma shape_full:
  assumes sh: "shape xs" and E: "\<forall>r \<in> set xs. snd r \<le> E"
  shows "{0..<E} \<subseteq> elements xs \<longleftrightarrow> snd (xs ! 0) = E" "snd (xs ! 0) = E \<Longrightarrow> xs = [(0, E)]"
proof -
  have o: "ordered xs" and ne: "xs \<noteq> []" and z: "fst (xs ! 0) = 0" using sh by (simp_all add: shape_def)
  have le: "snd (xs ! 0) \<le> E" using E ne by simp
  show "{0..<E} \<subseteq> elements xs \<longleftrightarrow> snd (xs ! 0) = E"
    using shape_prefix [OF sh] le unfolding next_missing_def by (auto simp: subset_iff) (metis le_neq_implies_less)
  show "xs = [(0, E)]" if full: "snd (xs ! 0) = E"
  proof (cases "length xs = 1")
    case True
    then show ?thesis using z full by (cases xs) (auto simp: prod_eq_iff)
  next
    case False
    then have l: "1 < length xs" using ne by (cases xs) auto
    then have "snd (xs ! 0) < fst (xs ! 1)" "fst (xs ! 1) < snd (xs ! 1)" "snd (xs ! 1) \<le> E"
      using ordered_nth [OF o, of 0 1] shape_nth [OF sh _ l] E by auto
    then show ?thesis using full by simp
  qed
qed

lemma last_end_le:
  assumes "ordered xs" "r \<in> set xs"
  shows "snd r \<le> snd (xs ! (length xs - 1))"
proof -
  obtain i where i: "i < length xs" "r = xs ! i" using assms(2) by (auto simp: in_set_conv_nth)
  then have "i = length xs - 1 \<or> i < length xs - 1" "length xs - 1 < length xs" by linarith+
  then show ?thesis using i ordered_mono(1) [OF assms(1), of i "length xs - 1"] by auto
qed

lemma shape_last:
  assumes sh: "shape xs"
  shows "(\<exists>b \<in> elements xs. k \<le> b) \<longleftrightarrow> k < snd (xs ! (length xs - 1))"
proof
  have o: "ordered xs" and ne: "xs \<noteq> []" using sh by (simp_all add: shape_def)
  show "k < snd (xs ! (length xs - 1))" if ex: "\<exists>b \<in> elements xs. k \<le> b"
  proof -
    obtain b r where "b \<in> {fst r..<snd r}" "r \<in> set xs" "k \<le> b" using ex by (auto simp: elements_def)
    then show ?thesis using last_end_le [OF o] by fastforce
  qed
  show "\<exists>b \<in> elements xs. k \<le> b" if k: "k < snd (xs ! (length xs - 1))"
  proof -
    let ?n = "length xs - 1"
    have n: "?n < length xs" using ne by simp
    have "fst (xs ! ?n) < snd (xs ! ?n)"
      using shape_nth [OF sh _ n] k sh by (cases "?n = 0") (auto simp: shape_def)
    then have "snd (xs ! ?n) - 1 \<in> elements xs" unfolding elements_nth using n by (intro exI [of _ ?n]) auto
    then show ?thesis using k by (intro bexI [of _ "snd (xs ! ?n) - 1"]) auto
  qed
qed

section \<open>The invariant\<close>

text \<open>\<open>B\<close> is the set of the octets that have arrived.\<close>

definition recv_inv :: "quicly_recvstate \<Rightarrow> nat set \<Rightarrow> bool" where
  "recv_inv state B \<longleftrightarrow>
    (if quicly_recvstate_transfer_complete state then eos state \<noteq> UINT64_MAX \<and> B = {0..<eos state} \<and> data_off state \<le> eos state
     else shape (ranges (received state)) \<and> ranges_ok (received state) \<and> elements (ranges (received state)) = B \<and>
       data_off state \<le> snd (ranges (received state) ! 0) \<and> eos state \<le> UINT64_MAX \<and>
       (\<forall>r \<in> set (ranges (received state)). snd r \<le> eos state \<and> snd r < UINT64_MAX) \<and>
       (eos state = UINT64_MAX \<or> \<not> {0..<eos state} \<subseteq> B))"

lemma recv_complete_inv:
  assumes "eos state \<noteq> UINT64_MAX" "data_off state \<le> eos state"
  shows "recv_inv (recv_complete state) {0..<eos state}" "quicly_recvstate_transfer_complete (recv_complete state)"
  using assms by (simp_all add: recv_inv_def recv_complete_def quicly_recvstate_transfer_complete_def quicly_ranges_clear_def)

text \<open>All but the last line of the invariant of a stream that is not complete.\<close>

definition recv_open :: "quicly_recvstate \<Rightarrow> nat set \<Rightarrow> bool" where
  "recv_open state B \<longleftrightarrow> shape (ranges (received state)) \<and> ranges_ok (received state) \<and> elements (ranges (received state)) = B \<and>
    data_off state \<le> snd (ranges (received state) ! 0) \<and> eos state \<le> UINT64_MAX \<and>
    (\<forall>r \<in> set (ranges (received state)). snd r \<le> eos state \<and> snd r < UINT64_MAX)"

lemma recv_open_inv:
  assumes "recv_open state B"
  shows "if snd (ranges (received state) ! 0) = eos state then recv_inv (recv_complete state) B else recv_inv state B"
proof -
  let ?xs = "ranges (received state)"
  have sh: "shape ?xs" and b: "\<forall>r \<in> set ?xs. snd r \<le> eos state" and B: "elements ?xs = B" "data_off state \<le> snd (?xs ! 0)"
    using assms by (auto simp: recv_open_def)
  have "?xs ! 0 \<in> set ?xs" using sh by (simp add: shape_def)
  then have lt: "snd (?xs ! 0) < UINT64_MAX" using assms by (auto simp: recv_open_def)
  show ?thesis
  proof (cases "snd (?xs ! 0) = eos state")
    case True
    then have "?xs = [(0, eos state)]" using shape_full(2) [OF sh b] by blast
    then have "B = {0..<eos state}" using B(1) by simp
    then show ?thesis using True lt B(2) recv_complete_inv(1) [of state] by simp
  next
    case False
    then have "\<not> {0..<eos state} \<subseteq> B" using shape_full(1) [OF sh b] B(1) by blast
    then show ?thesis using False assms sh by (simp add: recv_inv_def recv_open_def quicly_recvstate_transfer_complete_def shape_def)
  qed
qed

lemma recv_inv_open: "recv_inv state B \<Longrightarrow> \<not> quicly_recvstate_transfer_complete state \<Longrightarrow> recv_open state B"
  by (simp add: recv_inv_def recv_open_def)

section \<open>Receiving a frame\<close>

lemmas recv_errors = QUICLY_TRANSPORT_ERROR_FINAL_SIZE_def QUICLY_ERROR_STATE_EXHAUSTION_def PTLS_ERROR_NO_MEMORY_def

lemma spec_add_bound:
  assumes "\<forall>r \<in> set xs. P (snd r)" "P e"
  shows "\<forall>r \<in> set (spec_add xs s e). P (snd r)"
proof -
  have "P (snd (xs ! (reached xs e - 1)))" if "before xs s < reached xs e"
    using assms(1) that reached_le [of xs e] by (intro assms(1) [rule_format] nth_mem) simp
  then show ?thesis
    using assms by (auto simp: spec_add_def Let_def max_def dest: in_set_takeD in_set_dropD)
qed

lemma recv_open_add:
  assumes ro: "recv_open state B" and en: "off + len < UINT64_MAX" "off + len \<le> eos state"
  obtains ret rs where "(if len \<noteq> 0 then quicly_ranges_add alloc (received state) off ((off + len) mod 2 ^ 64) else Some (0, received state)) = Some (ret, rs)"
    "ret = 0 \<and> recv_open (state\<lparr>received := rs\<rparr>) (B \<union> {off..<off + len}) \<or> ret = PTLS_ERROR_NO_MEMORY"
proof (cases "len = 0")
  case True
  then show ?thesis using that [of 0 "received state"] ro by simp
next
  case False
  let ?rs = "received state"
  have lt: "off < off + len" using False by simp
  have sh: "shape (ranges ?rs)" "ranges_ok ?rs" and b: "\<forall>r \<in> set (ranges ?rs). snd r \<le> eos state \<and> snd r < UINT64_MAX"
    and d: "data_off state \<le> snd (ranges ?rs ! 0)" "elements (ranges ?rs) = B"
    using ro by (auto simp: recv_open_def)
  have o: "ordered (ranges ?rs)" using sh(1) by (simp add: shape_def)
  have m: "(off + len) mod 2 ^ 64 = off + len" using en(1) by (simp add: UINT64_MAX_def)
  obtain ret rs where r: "quicly_ranges_add alloc ?rs off (off + len) = Some (ret, rs)" "outcome alloc ?rs (spec_add (ranges ?rs) off (off + len)) ret rs"
    using quicly_ranges_add_outcome [OF sh(2) lt] by blast
  have "ret = 0 \<and> recv_open (state\<lparr>received := rs\<rparr>) (B \<union> {off..<off + len}) \<or> ret = PTLS_ERROR_NO_MEMORY"
  proof (cases "ret = 0")
    case True
    then have rs: "ranges rs = spec_add (ranges ?rs) off (off + len)" "length (ranges rs) \<le> capacity rs" "1 \<le> capacity rs"
      using r(2) by (auto simp: outcome_def PTLS_ERROR_NO_MEMORY_def)
    note sp = spec_add_correct [OF o lt] and sh' = shape_add [OF sh(1) lt]
    have "data_off state \<le> snd (ranges rs ! 0)"
    proof -
      have "{0..<snd (ranges ?rs ! 0)} \<subseteq> elements (ranges rs)" using shape_prefix [OF sh(1)] sp(2) rs(1) by (auto simp: next_missing_def)
      moreover have "snd (ranges rs ! 0) \<notin> elements (ranges rs)" using shape_prefix [OF sh'] rs(1) by (simp add: next_missing_def)
      ultimately have "\<not> snd (ranges rs ! 0) < snd (ranges ?rs ! 0)" by auto
      then show ?thesis using d(1) by simp
    qed
    moreover have "\<forall>r \<in> set (ranges rs). snd r \<le> eos state \<and> snd r < UINT64_MAX"
      unfolding rs(1) by (rule spec_add_bound) (use b en in auto)
    ultimately show ?thesis using True rs sh' sp(1,2) d(2) ro by (simp add: recv_open_def ranges_ok_def)
  next
    case F: False
    then show ?thesis using r(2) by (auto simp: outcome_def)
  qed
  then show ?thesis using that [of ret rs] r(1) False m by simp
qed

lemma recv_update_ranges_ok:
  assumes ro: "recv_open state B" and en: "off + len < UINT64_MAX" "off + len \<le> eos state"
  shows "\<exists>ret state'. recv_update_ranges alloc state off len max_ranges = Some (ret, len, state') \<and>
    (ret = 0 \<and> recv_inv state' (B \<union> {off..<off + len}) \<and> eos state' = eos state \<or> ret = PTLS_ERROR_NO_MEMORY \<or> ret = QUICLY_ERROR_STATE_EXHAUSTION)"
proof -
  obtain ret rs where r: "(if len \<noteq> 0 then quicly_ranges_add alloc (received state) off ((off + len) mod 2 ^ 64) else Some (0, received state)) = Some (ret, rs)"
    "ret = 0 \<and> recv_open (state\<lparr>received := rs\<rparr>) (B \<union> {off..<off + len}) \<or> ret = PTLS_ERROR_NO_MEMORY"
    using recv_open_add [OF ro en] by blast
  let ?s1 = "state\<lparr>received := rs\<rparr>"
  have u: "recv_update_ranges alloc state off len max_ranges =
     (if ret \<noteq> 0 then Some (ret, len, ?s1)
      else if len \<noteq> 0 \<and> length (ranges rs) > max_ranges then Some (QUICLY_ERROR_STATE_EXHAUSTION, len, ?s1)
      else if length (ranges rs) = 1 \<and> fst (ranges rs ! 0) = 0 \<and> snd (ranges rs ! 0) = eos state then Some (0, len, recv_complete ?s1)
      else Some (0, len, ?s1))"
    unfolding recv_update_ranges_def r(1) by (simp add: Let_def)
  show ?thesis
  proof (cases "ret = 0")
    case False
    then show ?thesis using u r(2) by simp
  next
    case True
    then have ro1: "recv_open ?s1 (B \<union> {off..<off + len})" using r(2) by (auto simp: PTLS_ERROR_NO_MEMORY_def)
    then have sh: "shape (ranges rs)" "\<forall>r \<in> set (ranges rs). snd r \<le> eos state" by (auto simp: recv_open_def)
    have "length (ranges rs) = 1 \<and> fst (ranges rs ! 0) = 0 \<and> snd (ranges rs ! 0) = eos state \<longleftrightarrow> snd (ranges rs ! 0) = eos state"
      using shape_full(2) [OF sh] by auto
    then show ?thesis using u True recv_open_inv [OF ro1] by (auto simp: recv_complete_def)
  qed
qed

text \<open>What a frame brings about, with the octets \<open>B\<close> that have arrived before.\<close>

definition frame_result :: "quicly_recvstate \<Rightarrow> nat set \<Rightarrow> nat \<Rightarrow> nat \<Rightarrow> bool \<Rightarrow> nat \<Rightarrow> nat \<Rightarrow> quicly_recvstate \<Rightarrow> bool" where
  "frame_result state B off len is_fin ret len' state' \<longleftrightarrow>
    (ret = QUICLY_TRANSPORT_ERROR_FINAL_SIZE \<longleftrightarrow> (if eos state = UINT64_MAX then is_fin \<and> (\<exists>b \<in> B. off + len \<le> b) else eos state < off + len)) \<and>
    (ret = 0 \<or> ret = QUICLY_TRANSPORT_ERROR_FINAL_SIZE \<or> ret = PTLS_ERROR_NO_MEMORY \<or> ret = QUICLY_ERROR_STATE_EXHAUSTION) \<and>
    (ret = 0 \<longrightarrow> recv_inv state' (B \<union> {off..<off + len}) \<and> len' \<le> len \<and> {off..<off + len - len'} \<subseteq> B \<and>
      eos state' = (if eos state = UINT64_MAX \<and> is_fin then off + len else eos state))"

lemma recv_update_eos_ok:
  assumes ro: "recv_open state B" and en: "off + len < UINT64_MAX"
  obtains ret state1 where "recv_update_eos state (off + len) is_fin = (ret, state1)" "received state1 = received state" "data_off state1 = data_off state"
    "ret = QUICLY_TRANSPORT_ERROR_FINAL_SIZE \<longleftrightarrow> (if eos state = UINT64_MAX then is_fin \<and> (\<exists>b \<in> B. off + len \<le> b) else eos state < off + len)"
    "ret = 0 \<or> ret = QUICLY_TRANSPORT_ERROR_FINAL_SIZE"
    "ret = 0 \<longrightarrow> recv_open state1 B \<and> off + len \<le> eos state1 \<and> eos state1 = (if eos state = UINT64_MAX \<and> is_fin then off + len else eos state)"
proof -
  let ?xs = "ranges (received state)"
  have sh: "shape ?xs" and B: "elements ?xs = B" using ro by (auto simp: recv_open_def)
  note last = shape_last [OF sh, of "off + len", unfolded B]
  have "\<forall>r \<in> set ?xs. snd r \<le> off + len" if "\<not> off + len < last_end state"
    using that last_end_le [of ?xs] sh by (fastforce simp: shape_def)
  then have "recv_open (state\<lparr>eos := off + len\<rparr>) B" if "\<not> off + len < last_end state"
    using that ro en by (simp add: recv_open_def)
  note fin = this
  consider (first) "eos state = UINT64_MAX" "is_fin" | (none) "eos state = UINT64_MAX" "\<not> is_fin" | (known) "eos state \<noteq> UINT64_MAX" by blast
  then show ?thesis
  proof cases
    case first
    then have "recv_update_eos state (off + len) is_fin = (if off + len < last_end state then QUICLY_TRANSPORT_ERROR_FINAL_SIZE else 0, state\<lparr>eos := off + len\<rparr>)"
      by (simp add: recv_update_eos_def)
    then show ?thesis by (rule that) (use first fin last in \<open>auto simp: recv_errors split: if_splits\<close>)
  next
    case none
    then have "recv_update_eos state (off + len) is_fin = (0, state)" by (simp add: recv_update_eos_def)
    then show ?thesis by (rule that) (use none ro en in \<open>auto simp: recv_errors\<close>)
  next
    case known
    then have "recv_update_eos state (off + len) is_fin = (if eos state < off + len then QUICLY_TRANSPORT_ERROR_FINAL_SIZE else 0, state)"
      by (simp add: recv_update_eos_def)
    then show ?thesis by (rule that) (use known ro in \<open>auto simp: recv_errors split: if_splits\<close>)
  qed
qed

lemma quicly_recvstate_update_ok:
  assumes inv: "recv_inv state B" and nc: "\<not> quicly_recvstate_transfer_complete state" and en: "off + len < UINT64_MAX"
  shows "\<exists>ret len' state'. quicly_recvstate_update alloc state off len is_fin max_ranges = Some (ret, len', state') \<and>
    frame_result state B off len is_fin ret len' state'"
proof -
  have m: "(off + len) mod 2 ^ 64 = off + len" using en by (simp add: UINT64_MAX_def)
  note ro = recv_inv_open [OF inv nc]
  obtain ret state1 where e: "recv_update_eos state (off + len) is_fin = (ret, state1)" "received state1 = received state" "data_off state1 = data_off state"
    "ret = QUICLY_TRANSPORT_ERROR_FINAL_SIZE \<longleftrightarrow> (if eos state = UINT64_MAX then is_fin \<and> (\<exists>b \<in> B. off + len \<le> b) else eos state < off + len)"
    "ret = 0 \<or> ret = QUICLY_TRANSPORT_ERROR_FINAL_SIZE"
    "ret = 0 \<longrightarrow> recv_open state1 B \<and> off + len \<le> eos state1 \<and> eos state1 = (if eos state = UINT64_MAX \<and> is_fin then off + len else eos state)"
    by (rule recv_update_eos_ok [where is_fin = is_fin, OF ro en])
  show ?thesis
  proof (cases "ret = 0")
    case False
    then show ?thesis using nc m e(1,4,5) by (simp add: quicly_recvstate_update_def frame_result_def recv_errors)
  next
    case True
    note e1 = e(6) [rule_format, OF True]
    have upd: "quicly_recvstate_update alloc state off len is_fin max_ranges = (if off + len \<le> data_off state1 then
        Some (0, 0, if snd (ranges (received state1) ! 0) = eos state1 then recv_complete state1 else state1)
      else if off < data_off state1 then recv_update_ranges alloc state1 (off + (data_off state1 - off)) (len - (data_off state1 - off)) max_ranges
      else recv_update_ranges alloc state1 off len max_ranges)"
      using nc m e(1) True by (simp add: quicly_recvstate_update_def Let_def)
    have got: "{0..<data_off state1} \<subseteq> B"
      using shape_prefix [of "ranges (received state1)"] e1 by (auto simp: recv_open_def next_missing_def)
    have fin: "\<not> (if eos state = UINT64_MAX then is_fin \<and> (\<exists>b \<in> B. off + len \<le> b) else eos state < off + len)"
      using e(4) True by (simp add: recv_errors)
    show ?thesis
    proof (cases "off + len \<le> data_off state1")
      case old: True
      then have "B \<union> {off..<off + len} = B" using got by auto
      moreover have "{off..<off + len - 0} \<subseteq> B" using old got by auto
      moreover have "recv_inv (if snd (ranges (received state1) ! 0) = eos state1 then recv_complete state1 else state1) B"
        using recv_open_inv [of state1 B] e1 by (simp split: if_splits)
      ultimately show ?thesis using upd old fin e1 by (auto simp: frame_result_def recv_errors recv_complete_def)
    next
      case new: False
      let ?d = "data_off state1 - off"
      have "\<exists>ret state'. recv_update_ranges alloc state1 (off + ?d) (len - ?d) max_ranges = Some (ret, len - ?d, state') \<and>
        (ret = 0 \<and> recv_inv state' (B \<union> {off + ?d..<off + ?d + (len - ?d)}) \<and> eos state' = eos state1 \<or>
         ret = PTLS_ERROR_NO_MEMORY \<or> ret = QUICLY_ERROR_STATE_EXHAUSTION)"
        by (rule recv_update_ranges_ok) (use e1 en new in auto)
      then obtain ret' state' where r: "recv_update_ranges alloc state1 (off + ?d) (len - ?d) max_ranges = Some (ret', len - ?d, state')"
        "ret' = 0 \<and> recv_inv state' (B \<union> {off + ?d..<off + ?d + (len - ?d)}) \<and> eos state' = eos state1 \<or>
         ret' = PTLS_ERROR_NO_MEMORY \<or> ret' = QUICLY_ERROR_STATE_EXHAUSTION" by blast
      have parts: "{off..<off + len} = {off..<off + ?d} \<union> {off + ?d..<off + ?d + (len - ?d)}" "off + len - (len - ?d) = off + ?d" using new by auto
      have "{off..<off + ?d} \<subseteq> {0..<data_off state1}" by auto
      then have "B \<union> {off + ?d..<off + ?d + (len - ?d)} = B \<union> {off..<off + len}" "{off..<off + len - (len - ?d)} \<subseteq> B"
        unfolding parts using got by blast+
      moreover have "quicly_recvstate_update alloc state off len is_fin max_ranges = Some (ret', len - ?d, state')"
        using upd new r(1) by (cases "off < data_off state1") simp_all
      ultimately show ?thesis using r(2) fin e1 by (auto simp: frame_result_def recv_errors)
    qed
  qed
qed

section \<open>Reachable states\<close>

text \<open>The application consumes data: \<^verbatim>\<open>quicly_stream_sync_recvbuf\<close>.\<close>

definition quicly_stream_sync_recvbuf :: "quicly_recvstate \<Rightarrow> nat \<Rightarrow> quicly_recvstate" where
  "quicly_stream_sync_recvbuf state shift_amount = state\<lparr>data_off := data_off state + shift_amount\<rparr>"

text \<open>
  A stream on which frames arrive, in any order and with any overlap, and from which the application reads what is available. \<open>B\<close> collects the
  octets of the frames. Offsets stay below \<^const>\<open>UINT64_MAX\<close>; a frame has at most 62 bits for either.
\<close>

inductive recv_run :: "(nat \<Rightarrow> bool) \<Rightarrow> quicly_recvstate \<Rightarrow> nat set \<Rightarrow> bool" for alloc where
  start: "recv_run alloc (quicly_recvstate_init alloc) {}"
| frame: "recv_run alloc state B \<Longrightarrow> \<not> quicly_recvstate_transfer_complete state \<Longrightarrow> off + len < UINT64_MAX \<Longrightarrow>
    quicly_recvstate_update alloc state off len is_fin max_ranges = Some (0, len', state') \<Longrightarrow> recv_run alloc state' (B \<union> {off..<off + len})"
| read: "recv_run alloc state B \<Longrightarrow> quicly_recvstate_bytes_available state = Some n \<Longrightarrow> k \<le> n \<Longrightarrow>
    recv_run alloc (quicly_stream_sync_recvbuf state k) B"

lemma recv_init: "received (quicly_recvstate_init alloc) = \<lparr>ranges = [(0, 0)], capacity = 1\<rparr>"
  by (simp add: quicly_recvstate_init_def quicly_ranges_init_with_range_def quicly_ranges_init_def insert_at_def)

lemma recv_run_inv: "recv_run alloc state B \<Longrightarrow> recv_inv state B"
proof (induction rule: recv_run.induct)
  case start
  show ?case
    by (simp add: recv_inv_def quicly_recvstate_transfer_complete_def recv_init)
      (simp add: quicly_recvstate_init_def UINT64_MAX_def shape_def ranges_ok_def ordered_Cons)
next
  case (frame state B off len is_fin max_ranges len' state')
  then show ?case
    using quicly_recvstate_update_ok [OF frame.IH frame.hyps(2,3), of alloc is_fin max_ranges] by (auto simp: frame_result_def)
next
  case (read state B n k)
  then show ?case
    by (auto simp: recv_inv_def quicly_recvstate_bytes_available_def quicly_stream_sync_recvbuf_def quicly_recvstate_transfer_complete_def
      Let_def split: if_splits)
qed

lemma shape_last_Max:
  assumes "shape xs"
  shows "snd (xs ! (length xs - 1)) = (if elements xs = {} then 0 else Suc (Max (elements xs)))"
proof -
  let ?B = "elements xs" and ?L = "snd (xs ! (length xs - 1))"
  have fin: "finite ?B" by (auto simp: elements_def)
  note l = shape_last [OF assms]
  show ?thesis
  proof (cases "?B = {}")
    case True
    then show ?thesis using l [of 0] by simp
  next
    case False
    have "Max ?B < ?L" using l [of "Max ?B"] Max_in [OF fin False] by blast
    moreover have "\<not> Suc (Max ?B) < ?L" using l [of "Suc (Max ?B)"] Max_ge [OF fin] by (metis Suc_n_not_le_n le_trans)
    ultimately show ?thesis using False by simp
  qed
qed

lemma quicly_recvstate_reset_ok:
  assumes inv: "recv_inv state B" and nc: "\<not> quicly_recvstate_transfer_complete state"
  shows "\<exists>ret missing state'. quicly_recvstate_reset state eos_at = Some (ret, missing, state') \<and>
    (if (eos state = UINT64_MAX \<or> eos state = eos_at) \<and> (\<forall>b \<in> B. b < eos_at)
     then ret = 0 \<and> missing = eos_at - (if B = {} then 0 else Suc (Max B)) \<and> quicly_recvstate_transfer_complete state'
     else ret = QUICLY_TRANSPORT_ERROR_FINAL_SIZE \<and> state' = state)"
proof -
  have sh: "shape (ranges (received state))" and B: "elements (ranges (received state)) = B"
    using recv_inv_open [OF inv nc] by (simp_all add: recv_open_def)
  have l: "(\<forall>b \<in> B. b < eos_at) \<longleftrightarrow> \<not> eos_at < last_end state" using shape_last [OF sh, of eos_at] unfolding B by force
  show ?thesis
    using nc shape_last_Max [OF sh] unfolding B l
    by (simp add: quicly_recvstate_reset_def quicly_recvstate_transfer_complete_def quicly_ranges_clear_def)
qed

section \<open>Properties\<close>



end
