(* ===== verification/Quic_Send.thy ===== *)
theory Quic_Send
  imports Quic_Recv "HOL-Library.Word" "HOL-Library.Multiset"
begin

text \<open>
  The sending side of a QUIC stream: \<^verbatim>\<open>deps/quicly/lib/sendstate.c\<close>, which keeps track of what has been acknowledged and what has to be (re)sent,
  and the parts of \<^verbatim>\<open>deps/quicly/lib/quicly.c\<close> that choose and record the octets of a frame, \<^verbatim>\<open>quicly_stream_can_send\<close> and \<^verbatim>\<open>quicly_send_stream\<close>. A
  position is an octet of the stream; the position behind the last octet stands for the end of the stream.
\<close>

section \<open>The state\<close>

record quicly_sendstate =
  acked :: quicly_ranges
  pending :: quicly_ranges
  size_inflight :: nat
  final_size :: nat

definition acked_upto :: "quicly_sendstate \<Rightarrow> nat" where
  "acked_upto state = r_end (ranges (acked state) ! 0)"

definition pending_upto :: "quicly_sendstate \<Rightarrow> nat" where
  "pending_upto state = r_end (ranges (pending state) ! (length (ranges (pending state)) - 1))"

definition quicly_sendstate_init :: "(nat \<Rightarrow> bool) \<Rightarrow> quicly_sendstate" where
  "quicly_sendstate_init alloc =
    \<lparr>acked = snd (quicly_ranges_init_with_range alloc 0 0), pending = quicly_ranges_init, size_inflight = 0, final_size = UINT64_MAX\<rparr>"

definition quicly_sendstate_init_closed :: "(nat \<Rightarrow> bool) \<Rightarrow> quicly_sendstate" where
  "quicly_sendstate_init_closed alloc =
    (let state = quicly_sendstate_init alloc; rs = acked state
     in state\<lparr>acked := rs\<lparr>ranges := (ranges rs)[0 := (r_start (ranges rs ! 0), 1)]\<rparr>, final_size := 0\<rparr>)"

definition quicly_sendstate_dispose :: "quicly_sendstate \<Rightarrow> quicly_sendstate" where
  "quicly_sendstate_dispose state =
    state\<lparr>acked := quicly_ranges_clear (acked state), pending := quicly_ranges_clear (pending state), final_size := 0, size_inflight := 0\<rparr>"

definition quicly_sendstate_transfer_complete :: "quicly_sendstate \<Rightarrow> bool" where
  "quicly_sendstate_transfer_complete state \<longleftrightarrow> final_size state \<noteq> UINT64_MAX \<and> acked_upto state = final_size state + 1"

definition quicly_sendstate_is_open :: "quicly_sendstate \<Rightarrow> bool" where
  "quicly_sendstate_is_open state \<longleftrightarrow> final_size state = UINT64_MAX"

definition quicly_sendstate_is_fully_inflight :: "quicly_sendstate \<Rightarrow> bool" where
  "quicly_sendstate_is_fully_inflight state \<longleftrightarrow> size_inflight state = final_size state"

section \<open>The operations\<close>

text \<open>As for ranges, an operation returns its error code and the new state, and \<^const>\<open>None\<close> if an assertion fails.\<close>

definition add_pending :: "(nat \<Rightarrow> bool) \<Rightarrow> quicly_sendstate \<Rightarrow> nat \<Rightarrow> nat \<Rightarrow> (nat \<times> quicly_sendstate) option" where
  "add_pending alloc state start end =
    (case quicly_ranges_add alloc (pending state) start end of None \<Rightarrow> None | Some (ret, rs) \<Rightarrow> Some (ret, state\<lparr>pending := rs\<rparr>))"

definition quicly_sendstate_activate :: "(nat \<Rightarrow> bool) \<Rightarrow> quicly_sendstate \<Rightarrow> (nat \<times> quicly_sendstate) option" where
  "quicly_sendstate_activate alloc state =
    (let end_off = (if final_size state \<noteq> UINT64_MAX then final_size state + 1 else final_size state)
     in if ranges (pending state) \<noteq> [] \<and> pending_upto state = end_off then Some (0, state)
        else add_pending alloc state (size_inflight state) end_off)"

definition quicly_sendstate_shutdown :: "(nat \<Rightarrow> bool) \<Rightarrow> quicly_sendstate \<Rightarrow> nat \<Rightarrow> (nat \<times> quicly_sendstate) option" where
  "quicly_sendstate_shutdown alloc state fin =
    (if \<not> quicly_sendstate_is_open state then None
     else if \<not> size_inflight state \<le> fin then None
     else if ranges (pending state) \<noteq> [] \<and> pending_upto state = UINT64_MAX then
       (let rs = pending state; n = length (ranges rs) - 1
        in Some (0, state\<lparr>pending := rs\<lparr>ranges := (ranges rs)[n := (r_start (ranges rs ! n), fin + 1)]\<rparr>, final_size := fin\<rparr>))
     else
       (case add_pending alloc state (size_inflight state) (fin + 1) of
          None \<Rightarrow> None
        | Some (ret, state') \<Rightarrow> if ret \<noteq> 0 then Some (ret, state') else Some (0, state'\<lparr>final_size := fin\<rparr>)))"

definition quicly_sendstate_reset :: "(nat \<Rightarrow> bool) \<Rightarrow> quicly_sendstate \<Rightarrow> quicly_sendstate option" where
  "quicly_sendstate_reset alloc state =
    (let fin = (if final_size state = UINT64_MAX then size_inflight state else final_size state)
     in case quicly_ranges_add alloc (acked state) 0 (fin + 1) of
          None \<Rightarrow> None
        | Some (ret, rs) \<Rightarrow>
            if ret \<noteq> 0 then None
            else Some (state\<lparr>acked := rs, pending := quicly_ranges_clear (pending state), final_size := fin\<rparr>))"

definition int64 :: "nat \<Rightarrow> int" where
  "int64 n = sint (word_of_nat n :: 64 word)"

definition check_amount_of_state :: "quicly_sendstate \<Rightarrow> nat" where
  "check_amount_of_state state =
    (let num_ranges = length (ranges (acked state)) + length (ranges (pending state))
     in if num_ranges < 256 then 0
        else
          (let bytes_buffered = int64 (size_inflight state) - int64 (acked_upto state)
           in if int64 num_ranges * 128 > bytes_buffered then QUICLY_ERROR_STATE_EXHAUSTION else 0))"

text \<open>The assertion that ends \<^verbatim>\<open>quicly_sendstate_acked\<close> and \<^verbatim>\<open>quicly_sendstate_lost\<close>.\<close>

definition pending_behind_acked :: "quicly_sendstate \<Rightarrow> bool" where
  "pending_behind_acked state \<longleftrightarrow> ranges (pending state) = [] \<or> acked_upto state \<le> r_start (ranges (pending state) ! 0)"

text \<open>The number of octets by which the send buffer can be shifted; the end of the stream is not one of them.\<close>

definition acked_shift :: "quicly_sendstate \<Rightarrow> nat \<Rightarrow> nat option" where
  "acked_shift state prev_sent_upto =
    (if prev_sent_upto \<noteq> acked_upto state then
       (if acked_upto state > final_size state then
          (if acked_upto state = final_size state + 1 then Some (acked_upto state - 1 - prev_sent_upto) else None)
        else Some (acked_upto state - prev_sent_upto))
     else Some 0)"

text \<open>The second component of the result is \<^verbatim>\<open>bytes_to_shift\<close>.\<close>

definition quicly_sendstate_acked :: "(nat \<Rightarrow> bool) \<Rightarrow> quicly_sendstate \<Rightarrow> quicly_range \<Rightarrow> (nat \<times> nat \<times> quicly_sendstate) option" where
  "quicly_sendstate_acked alloc state args =
    (case quicly_ranges_add alloc (acked state) (fst args) (snd args) of
       None \<Rightarrow> None
     | Some (ret, rs) \<Rightarrow>
         if ret \<noteq> 0 then Some (ret, 0, state\<lparr>acked := rs\<rparr>)
         else
           (case quicly_ranges_subtract alloc (pending state) (fst args) (snd args) of
              None \<Rightarrow> None
            | Some (ret, rs') \<Rightarrow>
                (let state' = state\<lparr>acked := rs, pending := rs'\<rparr>
                 in if ret \<noteq> 0 then Some (ret, 0, state')
                    else if \<not> pending_behind_acked state' then None
                    else
                      (case acked_shift state' (acked_upto state) of
                         None \<Rightarrow> None
                       | Some bytes_to_shift \<Rightarrow> Some (check_amount_of_state state', bytes_to_shift, state')))))"

text \<open>The loop of \<^verbatim>\<open>quicly_sendstate_lost\<close>; the list holds the acknowledged ranges from \<^verbatim>\<open>acked_slot\<close> on.\<close>

fun lost_loop :: "(nat \<Rightarrow> bool) \<Rightarrow> quicly_range list \<Rightarrow> nat \<Rightarrow> nat \<Rightarrow> quicly_sendstate \<Rightarrow> (nat \<times> quicly_sendstate) option" where
  "lost_loop alloc [] start end state = None"
| "lost_loop alloc (r # slots) start end state =
    (if \<not> start < end then Some (0, state)
     else
       (let start = (if start < r_end r then r_end r else start)
        in if slots = [] \<or> end \<le> r_start (hd slots) then
             (if start < end then add_pending alloc state start end else Some (0, state))
           else if start < r_start (hd slots) then
             (case add_pending alloc state start (r_start (hd slots)) of
                None \<Rightarrow> None
              | Some (ret, state') \<Rightarrow> if ret \<noteq> 0 then Some (ret, state') else lost_loop alloc slots start end state')
           else lost_loop alloc slots start end state))"

definition quicly_sendstate_lost :: "(nat \<Rightarrow> bool) \<Rightarrow> quicly_sendstate \<Rightarrow> quicly_range \<Rightarrow> (nat \<times> quicly_sendstate) option" where
  "quicly_sendstate_lost alloc state args =
    (case lost_loop alloc (ranges (acked state)) (fst args) (snd args) state of
       None \<Rightarrow> None
     | Some (ret, state') \<Rightarrow>
         if ret \<noteq> 0 then Some (ret, state')
         else if \<not> pending_behind_acked state' then None
         else Some (check_amount_of_state state', state'))"

section \<open>Sending a frame\<close>

text \<open>
  A stream with its limit and the counters of its connection for \<^verbatim>\<open>MAX_DATA\<close>. \<open>is_crypto\<close> tells the streams of the handshake, whose identifiers are
  negative.
\<close>

datatype quicly_sender_state = QUICLY_SENDER_STATE_NONE | QUICLY_SENDER_STATE_SEND | QUICLY_SENDER_STATE_UNACKED | QUICLY_SENDER_STATE_ACKED

record send_stream =
  sendstate :: quicly_sendstate
  max_stream_data :: nat
  blocked :: quicly_sender_state
  control_linked :: bool
  is_crypto :: bool

record send_conn =
  permitted :: nat
  sent :: nat
  data_blocked :: quicly_sender_state

definition sched_stream_control :: "send_stream \<Rightarrow> send_stream option" where
  "sched_stream_control stream = (if is_crypto stream then None else Some (stream\<lparr>control_linked := True\<rparr>))"

text \<open>Whether something can be sent; a stream found to be blocked by its limit is scheduled to say so to the peer.\<close>

definition quicly_stream_can_send :: "send_stream \<Rightarrow> bool \<Rightarrow> (bool \<times> send_stream) option" where
  "quicly_stream_can_send stream at_stream_level =
    (let state = sendstate stream; start = r_start (ranges (pending state) ! 0);
         blocked_at = (if at_stream_level then max_stream_data stream else size_inflight state)
     in if ranges (pending state) = [] then Some (False, stream)
        else if start < blocked_at then Some (True, stream)
        else if start \<ge> final_size state then (if start = final_size state then Some (True, stream) else None)
        else if at_stream_level \<and> blocked stream = QUICLY_SENDER_STATE_NONE then
          (case sched_stream_control (stream\<lparr>blocked := QUICLY_SENDER_STATE_SEND\<rparr>) of None \<Rightarrow> None | Some stream' \<Rightarrow> Some (False, stream'))
        else Some (False, stream))"

definition sub64 :: "nat \<Rightarrow> nat \<Rightarrow> nat" where
  "sub64 a b = (if b \<le> a then a - b else a + 2 ^ 64 - b)"

definition add64 :: "nat \<Rightarrow> nat \<Rightarrow> nat" where
  "add64 a b = (a + b) mod 2 ^ 64"

text \<open>The room for the payload, \<open>space\<close> octets in the packet, capped by the limits of the stream and of the connection.\<close>

definition cap_by_limits :: "send_stream \<Rightarrow> send_conn \<Rightarrow> nat \<Rightarrow> nat \<Rightarrow> nat" where
  "cap_by_limits stream conn off space =
    (let si = size_inflight (sendstate stream);
         len = (if add64 off space > max_stream_data stream then sub64 (max_stream_data stream) off else space)
     in if add64 off len > si \<and> sub64 (add64 off len) si > sub64 (permitted conn) (sent conn)
        then sub64 (sub64 (add64 si (permitted conn)) (sent conn)) off else len)"

text \<open>The cap by the range to be sent; the end of the stream needs no room.\<close>

definition cap_by_range :: "quicly_sendstate \<Rightarrow> nat \<Rightarrow> nat \<Rightarrow> nat option" where
  "cap_by_range state off len =
    (let range_capacity = sub64 (r_end (ranges (pending state) ! 0)) off
     in if off + range_capacity > final_size state then
          (if quicly_sendstate_is_open state \<or> \<not> range_capacity > 1 then None else Some (min len (range_capacity - 1)))
        else Some (min len range_capacity))"

definition quicly_encodev_capacity :: "nat \<Rightarrow> nat" where
  "quicly_encodev_capacity v = (if v > 63 then if v > 16383 then if v > 1073741823 then 8 else 4 else 2 else 1)"

text \<open>The payload length and \<^verbatim>\<open>wrote_all\<close> after \<^verbatim>\<open>adjust_stream_frame_layout\<close>, which makes room for the length field of a CRYPTO frame.\<close>

definition adjust_stream_frame_layout :: "bool \<Rightarrow> nat \<Rightarrow> nat \<Rightarrow> bool \<Rightarrow> nat \<times> bool" where
  "adjust_stream_frame_layout crypto space len wrote_all =
    (let space_left = space - len; len_of_len = quicly_encodev_capacity len
     in if crypto \<and> space_left < len_of_len then (space - len_of_len, False) else (len, wrote_all))"

text \<open>The code from the label \<^verbatim>\<open>UpdateState\<close> on, up to the counters that are only reported.\<close>

definition update_state ::
  "(nat \<Rightarrow> bool) \<Rightarrow> send_stream \<Rightarrow> send_conn \<Rightarrow> nat \<Rightarrow> nat \<Rightarrow> bool \<Rightarrow> bool \<Rightarrow> (nat \<times> send_stream \<times> send_conn \<times> quicly_range option) option" where
  "update_state alloc stream conn off len is_fin wrote_all =
    (let state = sendstate stream; grown = size_inflight state < off + len;
         conn' = (if grown \<and> \<not> is_crypto stream then conn\<lparr>sent := sent conn + (off + len - size_inflight state)\<rparr> else conn);
         state1 = (if grown then state\<lparr>size_inflight := off + len\<rparr> else state);
         stop = off + len + (if is_fin then 1 else 0)
     in case quicly_ranges_subtract alloc (pending state1) off stop of
          None \<Rightarrow> None
        | Some (ret, rs) \<Rightarrow>
            if ret \<noteq> 0 then Some (ret, stream\<lparr>sendstate := state1\<lparr>pending := rs\<rparr>\<rparr>, conn', None)
            else
              (case (if wrote_all then quicly_ranges_subtract alloc rs (size_inflight state1) UINT64_MAX else Some (0, rs)) of
                 None \<Rightarrow> None
               | Some (ret, rs') \<Rightarrow>
                   Some (ret, stream\<lparr>sendstate := state1\<lparr>pending := rs'\<rparr>\<rparr>, conn', if ret = 0 then Some (off, stop) else None)))"

text \<open>
  \<open>emit\<close> is the callback \<^verbatim>\<open>on_send_emit\<close> of the application: from the offset in its buffer and the room it gives the number of octets written and
  \<^verbatim>\<open>wrote_all\<close>, unless it has closed the connection or reset the stream. \<open>space\<close> is the number of octets left in the packet behind the
  frame header, as allocated by the packet builder. The last component of the result is the range recorded in the map of sent packets.
\<close>

datatype emit_result = EMIT_WROTE nat bool | EMIT_CLOSING | EMIT_RESET

definition QUICLY_ERROR_IS_CLOSING :: nat where
  "QUICLY_ERROR_IS_CLOSING = 0xff06"

definition emit_frame ::
  "(nat \<Rightarrow> bool) \<Rightarrow> (nat \<Rightarrow> nat \<Rightarrow> emit_result) \<Rightarrow> nat \<Rightarrow> send_stream \<Rightarrow> send_conn \<Rightarrow> nat \<Rightarrow> nat \<Rightarrow>
   (nat \<times> send_stream \<times> send_conn \<times> quicly_range option) option" where
  "emit_frame alloc emit space stream conn off len =
    (if len = 0 then None
     else
       (case emit (sub64 off (acked_upto (sendstate stream))) len of
          EMIT_CLOSING \<Rightarrow> Some (QUICLY_ERROR_IS_CLOSING, stream, conn, None)
        | EMIT_RESET \<Rightarrow> Some (0, stream, conn, None)
        | EMIT_WROTE len wrote_all \<Rightarrow>
            if len = 0 then None
            else
              (case adjust_stream_frame_layout (is_crypto stream) space len wrote_all of
                 (len, wrote_all) \<Rightarrow>
                   if off + len = final_size (sendstate stream) then
                     (if quicly_sendstate_is_open (sendstate stream) then None else update_state alloc stream conn off len True wrote_all)
                   else update_state alloc stream conn off len False wrote_all)))"

definition quicly_send_stream ::
  "(nat \<Rightarrow> bool) \<Rightarrow> (nat \<Rightarrow> nat \<Rightarrow> emit_result) \<Rightarrow> nat \<Rightarrow> send_stream \<Rightarrow> send_conn \<Rightarrow>
   (nat \<times> send_stream \<times> send_conn \<times> quicly_range option) option" where
  "quicly_send_stream alloc emit space stream conn =
    (let state = sendstate stream; off = r_start (ranges (pending state) ! 0)
     in if ranges (pending state) = [] then None
        else if \<not> is_crypto stream \<and> off = final_size state then
          (if quicly_sendstate_is_open state then None else update_state alloc stream conn off 0 True True)
        else
          (case cap_by_range state off (if is_crypto stream then space else cap_by_limits stream conn off space) of
             None \<Rightarrow> None
           | Some len \<Rightarrow> emit_frame alloc emit space stream conn off len))"

text \<open>The limits as the peer raises them, in \<^verbatim>\<open>handle_max_stream_data_frame\<close> and \<^verbatim>\<open>handle_max_data_frame\<close>.\<close>

definition raise_max_stream_data :: "send_stream \<Rightarrow> nat \<Rightarrow> send_stream" where
  "raise_max_stream_data stream limit = (if limit \<le> max_stream_data stream then stream else stream\<lparr>max_stream_data := limit, blocked := QUICLY_SENDER_STATE_NONE\<rparr>)"

definition raise_max_data :: "send_conn \<Rightarrow> nat \<Rightarrow> send_conn" where
  "raise_max_data conn limit = (if limit \<le> permitted conn then conn else conn\<lparr>permitted := limit, data_blocked := QUICLY_SENDER_STATE_NONE\<rparr>)"

section \<open>Sets of positions\<close>

text \<open>
  What the sender relies on: an \<open>ok\<close> list of ranges represents a set, and adding a range gives the union or runs out of memory. The two instances are
  the pending ranges, none of which is empty, and the acknowledged ranges, the first of which starts at zero.
\<close>

locale range_set =
  fixes ok :: "quicly_ranges \<Rightarrow> nat set \<Rightarrow> bool"
  assumes add_union: "ok rs A \<Longrightarrow> s < e \<Longrightarrow> \<exists>ret rs'. quicly_ranges_add alloc rs s e = Some (ret, rs') \<and>
    (ret = 0 \<and> ok rs' (A \<union> {s..<e}) \<or> ret = PTLS_ERROR_NO_MEMORY \<and> rs' = rs)"
begin

lemma add_union_le:
  assumes "ok rs A" "s \<le> e"
  obtains ret rs' where "quicly_ranges_add alloc rs s e = Some (ret, rs')" "ret = 0 \<and> ok rs' (A \<union> {s..<e}) \<or> ret = PTLS_ERROR_NO_MEMORY \<and> rs' = rs"
proof (cases "s = e")
  case True
  then show ?thesis using that [of 0 rs] assms by (simp add: quicly_ranges_add_def)
next
  case False
  then show ?thesis using add_union [OF assms(1), of s e alloc] assms(2) that by auto
qed

end

definition pending_set :: "quicly_ranges \<Rightarrow> nat set \<Rightarrow> bool" where
  "pending_set rs P \<longleftrightarrow> ranges_ok rs \<and> nonempty (ranges rs) \<and> elements (ranges rs) = P"

definition acked_set :: "quicly_ranges \<Rightarrow> nat set \<Rightarrow> bool" where
  "acked_set rs A \<longleftrightarrow> ranges_ok rs \<and> shape (ranges rs) \<and> elements (ranges rs) = A"

interpretation pend: range_set pending_set
proof unfold_locales
  fix rs A s e alloc
  assume "pending_set rs A" and se: "s < (e :: nat)"
  then have ok: "ranges_ok rs" "ordered (ranges rs)" "nonempty (ranges rs)" "elements (ranges rs) = A"
    by (simp_all add: pending_set_def ranges_ok_def)
  show "\<exists>ret rs'. quicly_ranges_add alloc rs s e = Some (ret, rs') \<and>
    (ret = 0 \<and> pending_set rs' (A \<union> {s..<e}) \<or> ret = PTLS_ERROR_NO_MEMORY \<and> rs' = rs)"
    using quicly_ranges_add_outcome [OF ok(1) se, of alloc] spec_add_correct [OF ok(2) se] ok(3,4)
    by (auto simp: pending_set_def outcome_def ranges_ok_def)
qed

interpretation ack: range_set acked_set
proof unfold_locales
  fix rs A s e alloc
  assume "acked_set rs A" and se: "s < (e :: nat)"
  then have ok: "ranges_ok rs" "ordered (ranges rs)" "shape (ranges rs)" "elements (ranges rs) = A"
    by (simp_all add: acked_set_def ranges_ok_def)
  show "\<exists>ret rs'. quicly_ranges_add alloc rs s e = Some (ret, rs') \<and>
    (ret = 0 \<and> acked_set rs' (A \<union> {s..<e}) \<or> ret = PTLS_ERROR_NO_MEMORY \<and> rs' = rs)"
    using quicly_ranges_add_outcome [OF ok(1) se, of alloc] spec_add_correct [OF ok(2) se] shape_add [OF ok(3) se] ok(4)
    by (auto simp: acked_set_def outcome_def ranges_ok_def)
qed

lemma pending_subtract:
  assumes "pending_set rs P" "s \<le> e"
  obtains ret rs' where "quicly_ranges_subtract alloc rs s e = Some (ret, rs')"
    "ret = 0 \<and> pending_set rs' (P - {s..<e}) \<or> ret = PTLS_ERROR_NO_MEMORY \<and> rs' = rs"
proof (cases "s = e")
  case True
  then show ?thesis using that [of 0 rs] assms by (simp add: quicly_ranges_subtract_def Let_def)
next
  case False
  then have se: "s < e" using assms(2) by simp
  have ok: "ranges_ok rs" "ordered (ranges rs)" "nonempty (ranges rs)" "elements (ranges rs) = P"
    using assms(1) by (simp_all add: pending_set_def ranges_ok_def)
  show ?thesis
    using quicly_ranges_subtract_outcome [OF ok(1,3) se, of alloc] spec_subtract_correct [OF ok(2,3) se] ok(4) that
    by (auto simp: pending_set_def outcome_def ranges_ok_def)
qed

lemma pending_empty: "pending_set rs P \<Longrightarrow> ranges rs = [] \<longleftrightarrow> P = {}"
  by (cases "ranges rs") (auto simp: pending_set_def)

lemma pending_init [simp]: "pending_set quicly_ranges_init {}" "pending_set (quicly_ranges_clear rs) {}"
  by (simp_all add: pending_set_def quicly_ranges_init_def quicly_ranges_clear_def ranges_ok_def)

lemma pending_first:
  assumes "pending_set rs P" "ranges rs \<noteq> []"
  shows "fst (ranges rs ! 0) \<in> P" "{fst (ranges rs ! 0)..<snd (ranges rs ! 0)} \<subseteq> P" "x \<in> P \<Longrightarrow> fst (ranges rs ! 0) \<le> x"
    "fst (ranges rs ! 0) < snd (ranges rs ! 0)"
proof -
  obtain r xs where xs: "ranges rs = r # xs" using assms(2) by (cases "ranges rs") auto
  then have o: "fst r < snd r" "\<forall>r' \<in> set xs. snd r < fst r'" "P = {fst r..<snd r} \<union> elements xs"
    using assms(1) by (auto simp: pending_set_def ranges_ok_def ordered_Cons)
  then show "fst (ranges rs ! 0) \<in> P" "{fst (ranges rs ! 0)..<snd (ranges rs ! 0)} \<subseteq> P" "fst (ranges rs ! 0) < snd (ranges rs ! 0)"
    by (auto simp: xs)
  show "fst (ranges rs ! 0) \<le> x" if x: "x \<in> P"
    using x o by (auto simp: xs elements_def)
qed

lemma pending_last:
  assumes "pending_set rs P" "ranges rs \<noteq> []"
  shows "snd (ranges rs ! (length (ranges rs) - 1)) - 1 \<in> P" "x \<in> P \<Longrightarrow> x < snd (ranges rs ! (length (ranges rs) - 1))"
    "0 < snd (ranges rs ! (length (ranges rs) - 1))"
proof -
  let ?xs = "ranges rs" and ?n = "length (ranges rs) - 1"
  have n: "?n < length ?xs" using assms(2) by simp
  have ne: "fst (?xs ! ?n) < snd (?xs ! ?n)" and o: "ordered ?xs" and P: "P = elements ?xs"
    using assms(1) n by (auto simp: pending_set_def nonempty_def ranges_ok_def)
  then show "snd (?xs ! ?n) - 1 \<in> P" "0 < snd (?xs ! ?n)" unfolding P elements_nth using n by (auto intro!: exI [of _ ?n])
  show "x < snd (?xs ! ?n)" if x: "x \<in> P"
    using x last_end_le [OF o] unfolding P elements_def by fastforce
qed

lemma acked_first:
  assumes "acked_set rs A"
  shows "{0..<snd (ranges rs ! 0)} \<subseteq> A" "snd (ranges rs ! 0) \<notin> A"
  using shape_prefix [of "ranges rs"] assms by (auto simp: acked_set_def next_missing_def)

section \<open>The invariant\<close>

text \<open>
  The invariant on sets: acknowledged positions \<open>A\<close>, pending ones \<open>P\<close>, \<open>S\<close> for all that have been sent, \<open>U\<close> for those in flight. What is acknowledged
  is not pending; beyond what has been sent either everything is pending or nothing; and no position is forgotten.
\<close>

definition send_end :: "nat \<Rightarrow> nat" where
  "send_end F = (if F = UINT64_MAX then F else F + 1)"

definition send_sets :: "nat set \<Rightarrow> nat set \<Rightarrow> nat \<Rightarrow> nat \<Rightarrow> nat set \<Rightarrow> nat set \<Rightarrow> bool" where
  "send_sets A P si F S U \<longleftrightarrow> A \<inter> P = {} \<and> si + 1 < UINT64_MAX \<and> (F = UINT64_MAX \<or> si \<le> F \<and> F + 1 < UINT64_MAX) \<and>
    U \<subseteq> S \<and> (\<forall>x \<in> S. x < si \<or> F \<noteq> UINT64_MAX \<and> x = F \<and> si = F) \<and>
    (\<forall>x \<in> A. x < si \<or> F \<noteq> UINT64_MAX \<and> x \<le> F \<and> F \<in> A) \<and>
    P \<subseteq> {0..<send_end F} \<and> ({si..<send_end F} \<subseteq> P \<or> P \<subseteq> {0..<si}) \<and>
    {0..<(if F = UINT64_MAX then si else F + 1)} \<subseteq> A \<union> P \<union> U"

lemma send_setsD:
  assumes "send_sets A P si F S U"
  shows "A \<inter> P = {}" "si + 1 < UINT64_MAX" "F = UINT64_MAX \<or> si \<le> F \<and> F + 1 < UINT64_MAX" "U \<subseteq> S"
    "\<And>x. x \<in> S \<Longrightarrow> x < si \<or> F \<noteq> UINT64_MAX \<and> x = F \<and> si = F" "\<And>x. x \<in> A \<Longrightarrow> x < si \<or> F \<noteq> UINT64_MAX \<and> x \<le> F \<and> F \<in> A"
    "P \<subseteq> {0..<send_end F}" "{si..<send_end F} \<subseteq> P \<or> P \<subseteq> {0..<si}" "{0..<(if F = UINT64_MAX then si else F + 1)} \<subseteq> A \<union> P \<union> U"
  using assms unfolding send_sets_def by simp_all

lemma send_setsI:
  assumes "A \<inter> P = {}" "si + 1 < UINT64_MAX" "F = UINT64_MAX \<or> si \<le> F \<and> F + 1 < UINT64_MAX" "U \<subseteq> S"
    "\<And>x. x \<in> S \<Longrightarrow> x < si \<or> F \<noteq> UINT64_MAX \<and> x = F \<and> si = F" "\<And>x. x \<in> A \<Longrightarrow> x < si \<or> F \<noteq> UINT64_MAX \<and> x \<le> F \<and> F \<in> A"
    "P \<subseteq> {0..<send_end F}" "{si..<send_end F} \<subseteq> P \<or> P \<subseteq> {0..<si}" "{0..<(if F = UINT64_MAX then si else F + 1)} \<subseteq> A \<union> P \<union> U"
  shows "send_sets A P si F S U"
  using assms unfolding send_sets_def by simp

lemma sets_ack:
  assumes s: "send_sets A P si F S U" and R: "R \<subseteq> S" "U' \<subseteq> U" "U \<subseteq> U' \<union> R"
  shows "send_sets (A \<union> R) (P - R) si F S U'"
proof (rule send_setsI)
  show "{si..<send_end F} \<subseteq> P - R \<or> P - R \<subseteq> {0..<si}"
  proof (cases "F \<in> R \<and> F \<noteq> UINT64_MAX \<and> si = F")
    case True
    then show ?thesis using send_setsD(7) [OF s] by (auto simp: send_end_def less_Suc_eq)
  next
    case False
    then have "\<forall>x \<in> R. x < si" using send_setsD(5) [OF s] R(1) by blast
    then show ?thesis using send_setsD(8) [OF s] by fastforce
  qed
  show "x < si \<or> F \<noteq> UINT64_MAX \<and> x \<le> F \<and> F \<in> A \<union> R" if "x \<in> A \<union> R" for x
    using that send_setsD(5,6) [OF s, of x] R(1) by auto
  show "{0..<(if F = UINT64_MAX then si else F + 1)} \<subseteq> A \<union> R \<union> (P - R) \<union> U'" using send_setsD(9) [OF s] R(3) by blast
qed (use send_setsD(1-5,7) [OF s] R(2) in blast)+

lemma sets_lost:
  assumes s: "send_sets A P si F S U" and R: "R \<subseteq> U" "U' \<subseteq> U" "U \<subseteq> U' \<union> R"
  shows "send_sets A (P \<union> (R - A)) si F S U'"
proof (rule send_setsI)
  have R': "x < si \<or> F \<noteq> UINT64_MAX \<and> x = F \<and> si = F" if "x \<in> R" for x using that send_setsD(4,5) [OF s] R(1) by blast
  show "{si..<send_end F} \<subseteq> P \<union> (R - A) \<or> P \<union> (R - A) \<subseteq> {0..<si}"
  proof (cases "F \<in> R - A \<and> F \<noteq> UINT64_MAX \<and> si = F")
    case True
    then show ?thesis by (auto simp: send_end_def less_Suc_eq)
  next
    case False
    then have "\<forall>x \<in> R - A. x < si" using R' by blast
    then show ?thesis using send_setsD(8) [OF s] by fastforce
  qed
  show "P \<union> (R - A) \<subseteq> {0..<send_end F}"
    using send_setsD(7) [OF s] R' send_setsD(2,3) [OF s] by (fastforce simp: send_end_def)
  show "{0..<(if F = UINT64_MAX then si else F + 1)} \<subseteq> A \<union> (P \<union> (R - A)) \<union> U'" using send_setsD(9) [OF s] R(3) by blast
qed (use send_setsD(1-6) [OF s] R(2) in blast)+

lemma sets_activate:
  assumes s: "send_sets A P si F S U" and F: "F = UINT64_MAX \<or> F \<notin> A"
  shows "send_sets A (P \<union> {si..<send_end F}) si F S U"
proof (rule send_setsI)
  have "\<forall>x \<in> A. x < si" using send_setsD(6) [OF s] F by blast
  then show "A \<inter> (P \<union> {si..<send_end F}) = {}" using send_setsD(1) [OF s] by fastforce
  show "P \<union> {si..<send_end F} \<subseteq> {0..<send_end F}" using send_setsD(7) [OF s] by auto
qed (use send_setsD(2-6,9) [OF s] in blast)+

lemma sets_shutdown:
  assumes s: "send_sets A P si UINT64_MAX S U" and fin: "si \<le> fin" "fin + 1 < UINT64_MAX"
  shows "send_sets A (P \<union> {si..<fin + 1} - {fin + 1..<UINT64_MAX}) si fin S U"
proof (rule send_setsI)
  have A: "x < si" if "x \<in> A" for x using send_setsD(6) [OF s that] by blast
  then show "A \<inter> (P \<union> {si..<fin + 1} - {fin + 1..<UINT64_MAX}) = {}" using send_setsD(1) [OF s] by fastforce
  show "x < si \<or> fin \<noteq> UINT64_MAX \<and> x \<le> fin \<and> fin \<in> A" if "x \<in> A" for x using A [OF that] by simp
  show "x < si \<or> fin \<noteq> UINT64_MAX \<and> x = fin \<and> si = fin" if "x \<in> S" for x using send_setsD(5) [OF s that] by blast
  show "P \<union> {si..<fin + 1} - {fin + 1..<UINT64_MAX} \<subseteq> {0..<send_end fin}"
    using send_setsD(7) [OF s] fin by (auto simp: send_end_def)
  show "{si..<send_end fin} \<subseteq> P \<union> {si..<fin + 1} - {fin + 1..<UINT64_MAX} \<or> P \<union> {si..<fin + 1} - {fin + 1..<UINT64_MAX} \<subseteq> {0..<si}"
    using fin by (auto simp: send_end_def)
  show "{0..<(if fin = UINT64_MAX then si else fin + 1)} \<subseteq> A \<union> (P \<union> {si..<fin + 1} - {fin + 1..<UINT64_MAX}) \<union> U"
  proof
    fix x assume x: "x \<in> {0..<(if fin = UINT64_MAX then si else fin + 1)}"
    show "x \<in> A \<union> (P \<union> {si..<fin + 1} - {fin + 1..<UINT64_MAX}) \<union> U"
      using x fin send_setsD(9) [OF s] by (cases "x < si") (auto split: if_splits)
  qed
qed (use send_setsD(2-4) [OF s] fin in simp_all)

lemma sets_reset:
  assumes s: "send_sets A P si F S U" and fin: "fin = (if F = UINT64_MAX then si else F)"
  shows "send_sets (A \<union> {0..<fin + 1}) {} si fin S U"
proof (rule send_setsI)
  show "x < si \<or> fin \<noteq> UINT64_MAX \<and> x \<le> fin \<and> fin \<in> A \<union> {0..<fin + 1}" if "x \<in> A \<union> {0..<fin + 1}" for x
    using that fin send_setsD(2,3) [OF s] send_setsD(6) [OF s, of x] by (auto split: if_splits)
  show "x < si \<or> fin \<noteq> UINT64_MAX \<and> x = fin \<and> si = fin" if "x \<in> S" for x
    using fin send_setsD(5) [OF s that] by auto
qed (use fin send_setsD(2-4) [OF s] in \<open>auto split: if_splits\<close>)

lemma sets_send:
  assumes s: "send_sets A P si F S U" and off: "{off..<off + len} \<subseteq> P" "off + len + 1 < UINT64_MAX" "off \<le> si"
    and fin: "is_fin \<longleftrightarrow> F \<noteq> UINT64_MAX \<and> off + len = F" "F \<noteq> UINT64_MAX \<longrightarrow> off + len \<le> F"
    and R: "R = {off..<off + len + (if is_fin then 1 else 0)}"
  shows "send_sets A (P - R) (max si (off + len)) F (S \<union> R) (U \<union> R)"
proof (rule send_setsI)
  let ?si = "max si (off + len)"
  show "{?si..<send_end F} \<subseteq> P - R \<or> P - R \<subseteq> {0..<?si}"
  proof (cases is_fin)
    case True
    have "x < off + len" if x: "x \<in> P - R" for x
    proof -
      have "x < off + len + 1" "x \<notin> {off..<off + len + 1}" using x send_setsD(7) [OF s] R fin(1) True by (auto simp: send_end_def)
      then show ?thesis by auto
    qed
    then show ?thesis by (auto simp: less_max_iff_disj)
  next
    case False
    then have "R \<inter> {?si..<send_end F} = {}" using R by auto
    then show ?thesis using send_setsD(8) [OF s] by auto
  qed
  show "x < ?si \<or> F \<noteq> UINT64_MAX \<and> x = F \<and> ?si = F" if "x \<in> S \<union> R" for x
    using that send_setsD(3) [OF s] send_setsD(5) [OF s, of x] fin R by (auto simp: less_Suc_eq max_def split: if_splits)
  show "x < ?si \<or> F \<noteq> UINT64_MAX \<and> x \<le> F \<and> F \<in> A" if "x \<in> A" for x using send_setsD(6) [OF s that] by auto
  show "{0..<(if F = UINT64_MAX then ?si else F + 1)} \<subseteq> A \<union> (P - R) \<union> (U \<union> R)"
  proof
    fix x assume x: "x \<in> {0..<(if F = UINT64_MAX then ?si else F + 1)}"
    show "x \<in> A \<union> (P - R) \<union> (U \<union> R)"
    proof (cases "F = UINT64_MAX \<and> \<not> x < si")
      case True
      then have x': "si \<le> x" "x < off + len" using x by (auto simp: less_max_iff_disj)
      have "off + len - 1 \<in> P \<or> len = 0" using off(1) by auto
      then show ?thesis
      proof
        assume "off + len - 1 \<in> P"
        then have "{si..<send_end F} \<subseteq> P" using send_setsD(8) [OF s] x' by fastforce
        then show ?thesis using True x' off(2) by (auto simp: send_end_def)
      next
        assume "len = 0"
        then show ?thesis using x' off(3) by simp
      qed
    next
      case False
      then show ?thesis using x send_setsD(9) [OF s] by (auto split: if_splits)
    qed
  qed
qed (use send_setsD(1-4,7) [OF s] off(2) fin(2) in auto)

lemma sets_wrote_all:
  assumes s: "send_sets A P si F S U" and w: "F = UINT64_MAX \<or> P \<subseteq> {0..<si}"
  shows "send_sets A (P - {si..<UINT64_MAX}) si F S U"
proof (cases "P \<subseteq> {0..<si}")
  case True
  then have "P - {si..<UINT64_MAX} = P" by auto
  then show ?thesis using s by simp
next
  case False
  then have F: "F = UINT64_MAX" using w by simp
  show ?thesis
  proof (rule send_setsI)
    show "{0..<(if F = UINT64_MAX then si else F + 1)} \<subseteq> A \<union> (P - {si..<UINT64_MAX}) \<union> U" using send_setsD(9) [OF s] F by auto
    show "{si..<send_end F} \<subseteq> P - {si..<UINT64_MAX} \<or> P - {si..<UINT64_MAX} \<subseteq> {0..<si}"
      using send_setsD(7) [OF s] F by (auto simp: send_end_def)
  qed (use send_setsD(1-7) [OF s] in blast)+
qed

definition in_flight :: "quicly_range multiset \<Rightarrow> nat set" where
  "in_flight out = (\<Union>r \<in> set_mset out. {fst r..<snd r})"

lemma in_flight_add [simp]: "in_flight (add_mset r out) = {fst r..<snd r} \<union> in_flight out" "in_flight {#} = {}"
  by (simp_all add: in_flight_def)

lemma in_flight_diff: "in_flight (out - M) \<subseteq> in_flight out" "in_flight out \<subseteq> in_flight (out - M) \<union> in_flight M"
proof -
  show "in_flight (out - M) \<subseteq> in_flight out" unfolding in_flight_def by (auto dest: in_diffD)
  have "r \<in># out - M \<or> r \<in># M" if "r \<in># out" for r
    using that by (metis count_greater_zero_iff count_diff count_inI diff_zero)
  then show "in_flight out \<subseteq> in_flight (out - M) \<union> in_flight M" unfolding in_flight_def by blast
qed

definition acked_positions :: "quicly_sendstate \<Rightarrow> nat set" where
  "acked_positions state = elements (ranges (acked state))"

definition pending_positions :: "quicly_sendstate \<Rightarrow> nat set" where
  "pending_positions state = elements (ranges (pending state))"

text \<open>\<open>S\<close> is the set of the positions that have been sent, \<open>out\<close> holds the ranges in the map of sent packets that are neither acknowledged nor lost.\<close>

definition send_inv :: "quicly_sendstate \<Rightarrow> nat set \<Rightarrow> quicly_range multiset \<Rightarrow> bool" where
  "send_inv state S out \<longleftrightarrow> acked_set (acked state) (acked_positions state) \<and> pending_set (pending state) (pending_positions state) \<and>
    send_sets (acked_positions state) (pending_positions state) (size_inflight state) (final_size state) S (in_flight out)"

lemma send_invI:
  "acked_set (acked state) A \<Longrightarrow> pending_set (pending state) P \<Longrightarrow> send_sets A P (size_inflight state) (final_size state) S (in_flight out) \<Longrightarrow>
   send_inv state S out"
  by (simp add: send_inv_def acked_set_def pending_set_def acked_positions_def pending_positions_def)

lemma send_invD:
  assumes "send_inv state S out"
  shows "acked_set (acked state) (acked_positions state)" "pending_set (pending state) (pending_positions state)"
    "send_sets (acked_positions state) (pending_positions state) (size_inflight state) (final_size state) S (in_flight out)"
  using assms by (simp_all add: send_inv_def)

lemma positions_eq: "acked_set (acked state) A \<Longrightarrow> acked_positions state = A" "pending_set (pending state) P \<Longrightarrow> pending_positions state = P"
  by (simp_all add: acked_set_def pending_set_def acked_positions_def pending_positions_def)

lemma add_pending_ok:
  assumes "pending_set (pending state) P" "s \<le> e"
  obtains ret rs where "add_pending alloc state s e = Some (ret, state\<lparr>pending := rs\<rparr>)"
    "ret = 0 \<and> pending_set rs (P \<union> {s..<e}) \<or> ret = PTLS_ERROR_NO_MEMORY \<and> rs = pending state"
  by (rule pend.add_union_le [OF assms, of alloc]) (auto simp: add_pending_def intro: that)

lemma behind:
  assumes "acked_set (acked state) A" "pending_set (pending state) P" "A \<inter> P = {}"
  shows "pending_behind_acked state"
proof (cases "ranges (pending state) = []")
  case False
  then have "fst (ranges (pending state) ! 0) \<notin> A" using pending_first(1) [OF assms(2)] assms(3) by blast
  then show ?thesis using acked_first(1) [OF assms(1)] by (auto simp: pending_behind_acked_def acked_upto_def subset_iff)
qed (simp add: pending_behind_acked_def)

lemma acked_upto_bounds:
  assumes "acked_set (acked state) A"
  shows "x < acked_upto state \<Longrightarrow> x \<in> A" "acked_upto state \<notin> A"
  using acked_first [OF assms] by (auto simp: acked_upto_def)

section \<open>The operations keep the invariant\<close>

lemma pending_to_end:
  assumes "pending_set rs P" "ranges rs \<noteq> []" "snd (ranges rs ! (length (ranges rs) - 1)) = E" "{si..<E} \<subseteq> P \<or> P \<subseteq> {0..<si}" "si < E"
  shows "{si..<E} \<subseteq> P"
proof -
  have "E - 1 \<in> P" using pending_last(1) [OF assms(1,2)] assms(3) by simp
  then show ?thesis using assms(4,5) by fastforce
qed

lemma quicly_sendstate_activate_ok:
  assumes inv: "send_inv state S out" and F: "quicly_sendstate_is_open state \<or> final_size state \<notin> acked_positions state"
  shows "\<exists>ret state'. quicly_sendstate_activate alloc state = Some (ret, state') \<and> send_inv state' S out \<and>
    size_inflight state' = size_inflight state \<and> acked state' = acked state \<and> final_size state' = final_size state \<and>
    (ret = 0 \<and> {size_inflight state..<send_end (final_size state)} \<subseteq> pending_positions state' \<or> ret = PTLS_ERROR_NO_MEMORY \<and> state' = state)"
proof -
  let ?si = "size_inflight state" and ?F = "final_size state" and ?rs = "pending state"
  note i = send_invD [OF inv]
  have lt: "?si < send_end ?F" using send_setsD(2,3) [OF i(3)] by (auto simp: send_end_def)
  have e: "(if ?F \<noteq> UINT64_MAX then ?F + 1 else ?F) = send_end ?F" by (simp add: send_end_def)
  show ?thesis
  proof (cases "ranges ?rs \<noteq> [] \<and> pending_upto state = send_end ?F")
    case True
    then have "{?si..<send_end ?F} \<subseteq> pending_positions state"
      using pending_to_end [OF i(2) _ _ send_setsD(8) [OF i(3)] lt] by (simp add: pending_upto_def)
    then show ?thesis using True inv by (simp add: quicly_sendstate_activate_def Let_def e)
  next
    case False
    obtain ret rs where a: "add_pending alloc state ?si (send_end ?F) = Some (ret, state\<lparr>pending := rs\<rparr>)"
      "ret = 0 \<and> pending_set rs (pending_positions state \<union> {?si..<send_end ?F}) \<or> ret = PTLS_ERROR_NO_MEMORY \<and> rs = ?rs"
      using add_pending_ok [OF i(2)] lt by (metis less_imp_le)
    have s: "send_sets (acked_positions state) (pending_positions state \<union> {?si..<send_end ?F}) ?si ?F S (in_flight out)"
      by (rule sets_activate [OF i(3)]) (use F in \<open>simp add: quicly_sendstate_is_open_def\<close>)
    have "send_inv (state\<lparr>pending := rs\<rparr>) S out \<and> {?si..<send_end ?F} \<subseteq> pending_positions (state\<lparr>pending := rs\<rparr>)" if "ret = 0"
      using a(2) that i(1) s by (auto intro!: send_invI simp: PTLS_ERROR_NO_MEMORY_def positions_eq(2) pending_positions_def pending_set_def)
    then show ?thesis using False a inv by (auto simp: quicly_sendstate_activate_def Let_def e)
  qed
qed

lemma truncate_last:
  assumes p: "pending_set rs P" "ranges rs \<noteq> []" and E: "snd (ranges rs ! (length (ranges rs) - 1)) = E"
    and si: "{si..<E} \<subseteq> P" "si \<le> fin" "fin + 1 < E"
  shows "pending_set (rs\<lparr>ranges := (ranges rs)[length (ranges rs) - 1 := (fst (ranges rs ! (length (ranges rs) - 1)), fin + 1)]\<rparr>) (P \<union> {si..<fin + 1} - {fin + 1..<E})"
proof -
  obtain ys a where xs: "ranges rs = ys @ [(a, E)]" using p(2) E by (cases "ranges rs" rule: rev_cases) auto
  have o: "ordered ys" "\<forall>r \<in> set ys. snd r < a" "nonempty ys" "a < E" and P: "P = elements ys \<union> {a..<E}"
    using p(1) by (auto simp: pending_set_def ranges_ok_def xs ordered_append)
  have below: "x < a" if "x \<in> elements ys" for x using that o(2) by (fastforce simp: elements_def)
  have end_a: "a - 1 \<notin> elements ys" if "0 < a"
  proof
    assume "a - 1 \<in> elements ys"
    then obtain r where "r \<in> set ys" "a - 1 < snd r" by (auto simp: elements_def)
    then show False using o(2) that by fastforce
  qed
  have a: "a \<le> si"
  proof (rule ccontr)
    assume "\<not> a \<le> si"
    then have "a - 1 \<in> {si..<E}" "0 < a" "a - 1 \<notin> {a..<E}" using o(4) by auto
    then show False using P end_a si(1) by blast
  qed
  have "P \<union> {si..<fin + 1} - {fin + 1..<E} = elements ys \<union> {a..<fin + 1}"
    using below a si(2,3) unfolding P by fastforce
  moreover have "ordered (ys @ [(a, fin + 1)])" using o(1,2) a si(2) by (simp add: ordered_append ordered_Cons)
  moreover have "nonempty (ys @ [(a, fin + 1)])" using o(3) a si(2) by simp
  ultimately show ?thesis using p(1) by (simp add: xs pending_set_def ranges_ok_def)
qed

lemma quicly_sendstate_shutdown_ok:
  assumes inv: "send_inv state S out" and op: "quicly_sendstate_is_open state" and fin: "size_inflight state \<le> fin" "fin + 1 < UINT64_MAX"
  shows "\<exists>ret state'. quicly_sendstate_shutdown alloc state fin = Some (ret, state') \<and> send_inv state' S out \<and> size_inflight state' = size_inflight state \<and>
    acked state' = acked state \<and> (ret = 0 \<and> final_size state' = fin \<or> ret = PTLS_ERROR_NO_MEMORY \<and> state' = state)"
proof -
  let ?si = "size_inflight state" and ?rs = "pending state" and ?A = "acked_positions state" and ?P = "pending_positions state"
  note i = send_invD [OF inv]
  have F: "final_size state = UINT64_MAX" using op by (simp add: quicly_sendstate_is_open_def)
  have lt: "?si < UINT64_MAX" using fin by linarith
  have s: "send_sets ?A (?P \<union> {?si..<fin + 1} - {fin + 1..<UINT64_MAX}) ?si fin S (in_flight out)"
    by (rule sets_shutdown [OF _ fin]) (use i(3) F in simp)
  have all: "{?si..<UINT64_MAX} \<subseteq> ?P \<or> ?P \<subseteq> {0..<?si}" using send_setsD(8) [OF i(3)] F by (simp add: send_end_def)
  show ?thesis
  proof (cases "ranges ?rs \<noteq> [] \<and> pending_upto state = UINT64_MAX")
    case True
    then have "pending_set (?rs\<lparr>ranges := (ranges ?rs)[length (ranges ?rs) - 1 := (fst (ranges ?rs ! (length (ranges ?rs) - 1)), fin + 1)]\<rparr>)
        (?P \<union> {?si..<fin + 1} - {fin + 1..<UINT64_MAX})"
      using truncate_last [OF i(2) _ _ pending_to_end [OF i(2) _ _ all lt] fin] by (simp add: pending_upto_def)
    then show ?thesis using True op fin(1) i(1) s by (auto simp: quicly_sendstate_shutdown_def Let_def intro!: send_invI)
  next
    case False
    have "?P \<subseteq> {0..<?si}"
    proof (rule ccontr)
      assume "\<not> ?P \<subseteq> {0..<?si}"
      then have "{?si..<UINT64_MAX} \<subseteq> ?P" using all by blast
      moreover have "UINT64_MAX - 1 \<in> {?si..<UINT64_MAX}" using lt by auto
      ultimately have m: "UINT64_MAX - 1 \<in> ?P" by blast
      moreover have "ranges ?rs \<noteq> []" using calculation pending_empty [OF i(2)] by blast
      ultimately have "UINT64_MAX - 1 < pending_upto state" "pending_upto state - 1 \<in> ?P" "0 < pending_upto state"
        using pending_last [OF i(2)] by (simp_all add: pending_upto_def)
      moreover have "pending_upto state - 1 < UINT64_MAX" using calculation(2) send_setsD(7) [OF i(3)] F by (auto simp: send_end_def)
      ultimately show False using False \<open>ranges ?rs \<noteq> []\<close> by linarith
    qed
    then have P: "?P \<union> {?si..<fin + 1} - {fin + 1..<UINT64_MAX} = ?P \<union> {?si..<fin + 1}" using fin(1) by fastforce
    have le: "?si \<le> fin + 1" using fin(1) by simp
    obtain ret rs where a: "add_pending alloc state ?si (fin + 1) = Some (ret, state\<lparr>pending := rs\<rparr>)"
      "ret = 0 \<and> pending_set rs (?P \<union> {?si..<fin + 1}) \<or> ret = PTLS_ERROR_NO_MEMORY \<and> rs = ?rs"
      using add_pending_ok [OF i(2) le] by metis
    have "send_inv (state\<lparr>pending := rs, final_size := fin\<rparr>) S out" if "ret = 0"
      using a(2) that i(1) s [unfolded P] by (auto intro!: send_invI simp: PTLS_ERROR_NO_MEMORY_def)
    then show ?thesis using False a op fin(1) inv by (auto simp: quicly_sendstate_shutdown_def Let_def)
  qed
qed

text \<open>Adding a range from zero on merges it with the first one and needs no memory, as the comment in \<^verbatim>\<open>quicly_sendstate_reset\<close> says.\<close>

lemma add_from_zero:
  assumes sh: "shape (ranges rs)" and ok: "ranges_ok rs" and e: "0 < e"
  shows "\<exists>rs'. quicly_ranges_add alloc rs 0 e = Some (0, rs')"
proof -
  let ?xs = "ranges rs" and ?n = "length (ranges rs) - 1" and ?hi = "reached (ranges rs) e"
  have o: "ordered ?xs" and ne: "?xs \<noteq> []" and z: "fst (?xs ! 0) = 0" using sh by (simp_all add: shape_def)
  have n: "?n < length ?xs" using ne by simp
  have hi: "0 < ?hi" using reached_iff [OF o, of 0 e] z ne by simp
  have lo: "before ?xs 0 = 0" using before_iff [OF o, of 0 0] ne by simp
  have f: "find_end_slot ?xs e ?n = Some (?hi - 1)"
    using find_end_slot_correct [OF o n, of e] hi reached_le [of ?xs e] ne by simp
  have h: "?hi - 1 < length ?xs" using hi reached_le [of ?xs e] by linarith
  have "add_from alloc rs 0 e (?hi - 1) (?hi - 1) = merge_update alloc rs 0 e 0 (?hi - 1)"
    using add_from_correct [OF o h, of 0 "?hi - 1" alloc e] lo by simp
  then have "quicly_ranges_add alloc rs 0 e = merge_update alloc rs 0 e 0 (?hi - 1)"
    using f ne e by (simp add: quicly_ranges_add_def)
  then show ?thesis using merge_update_outcome [OF ok _ h, of 0 alloc 0 e] by auto
qed

lemma quicly_sendstate_reset_ok:
  assumes inv: "send_inv state S out"
  shows "\<exists>state'. quicly_sendstate_reset alloc state = Some state' \<and> send_inv state' S out \<and> size_inflight state' = size_inflight state \<and>
    quicly_sendstate_transfer_complete state' \<and> pending_positions state' = {}"
proof -
  define fin where "fin = (if final_size state = UINT64_MAX then size_inflight state else final_size state)"
  note i = send_invD [OF inv]
  have a: "shape (ranges (acked state))" "ranges_ok (acked state)" using i(1) by (simp_all add: acked_set_def)
  obtain rs where r: "quicly_ranges_add alloc (acked state) 0 (fin + 1) = Some (0, rs)" using add_from_zero [OF a, of "fin + 1" alloc] by auto
  then have rs: "acked_set rs (acked_positions state \<union> {0..<fin + 1})"
    using ack.add_union [OF i(1), of 0 "fin + 1" alloc] by (auto simp: PTLS_ERROR_NO_MEMORY_def)
  let ?st = "state\<lparr>acked := rs, pending := quicly_ranges_clear (pending state), final_size := fin\<rparr>"
  have s: "send_sets (acked_positions state \<union> {0..<fin + 1}) {} (size_inflight state) fin S (in_flight out)"
    by (rule sets_reset [OF i(3) fin_def])
  have inv': "send_inv ?st S out" by (rule send_invI [of _ "acked_positions state \<union> {0..<fin + 1}" "{}"]) (use rs s in simp_all)
  have F: "fin + 1 < UINT64_MAX" using send_setsD(2,3) [OF i(3)] by (auto simp: fin_def)
  have up: "acked_set (acked ?st) (acked_positions state \<union> {0..<fin + 1})" using rs by simp
  have "acked_upto ?st = fin + 1"
  proof (rule antisym)
    have "fin + 1 \<notin> acked_positions state" using send_setsD(6) [OF i(3), of "fin + 1"] send_setsD(3) [OF i(3)] by (auto simp: fin_def split: if_splits)
    then show "acked_upto ?st \<le> fin + 1" using acked_upto_bounds(1) [OF up, of "fin + 1"] by (cases "fin + 1 < acked_upto ?st") auto
    have "acked_upto ?st \<notin> {0..<fin + 1}" using acked_upto_bounds(2) [OF up] by blast
    then show "fin + 1 \<le> acked_upto ?st" by (meson atLeastLessThan_iff le0 not_le)
  qed
  then have "quicly_sendstate_transfer_complete ?st" using F by (simp add: quicly_sendstate_transfer_complete_def)
  moreover have "pending_positions ?st = {}" by (simp add: pending_positions_def quicly_ranges_clear_def)
  moreover have "quicly_sendstate_reset alloc state = Some ?st" using r by (simp add: quicly_sendstate_reset_def Let_def fin_def)
  ultimately show ?thesis using inv' by (intro exI [of _ ?st]) simp
qed

lemma check_amount_of_state_cases: "check_amount_of_state state = 0 \<or> check_amount_of_state state = QUICLY_ERROR_STATE_EXHAUSTION"
  by (simp add: check_amount_of_state_def Let_def)

lemma acked_upto_le:
  assumes "acked_set (acked state) A" "send_sets A P si (final_size state) S U"
  shows "acked_upto state \<le> final_size state + 1" "final_size state = UINT64_MAX \<Longrightarrow> acked_upto state \<le> final_size state"
proof -
  have "x \<le> final_size state" "final_size state = UINT64_MAX \<Longrightarrow> x < final_size state" if "x < acked_upto state" for x
    using send_setsD(6) [OF assms(2) acked_upto_bounds(1) [OF assms(1) that]] send_setsD(2,3) [OF assms(2)] by auto
  then show "acked_upto state \<le> final_size state + 1" "final_size state = UINT64_MAX \<Longrightarrow> acked_upto state \<le> final_size state"
    by (metis Suc_eq_plus1 not_less_eq_eq less_irrefl not_le linorder_not_less le_refl lessI Suc_leI)+
qed

lemma acked_shift_correct:
  assumes new: "acked_set (acked state') A'" and old: "acked_set (acked state) A" "A \<subseteq> A'"
    and s: "send_sets A' P si (final_size state') S U"
  shows "acked_shift state' (acked_upto state) = Some (min (final_size state') (acked_upto state') - min (final_size state') (acked_upto state))"
proof -
  have "acked_upto state \<le> acked_upto state'"
    using acked_upto_bounds(1) [OF old(1)] acked_upto_bounds(2) [OF new] old(2) by (meson not_le subsetD)
  then show ?thesis using acked_upto_le(1) [OF new s] by (auto simp: acked_shift_def)
qed

lemma quicly_sendstate_acked_ok:
  assumes inv: "send_inv state S out" and args: "start \<le> stop" "{start..<stop} \<subseteq> S" "in_flight M \<subseteq> {start..<stop}"
  shows "\<exists>ret shift state'. quicly_sendstate_acked alloc state (start, stop) = Some (ret, shift, state') \<and> size_inflight state' = size_inflight state \<and>
    (ret = PTLS_ERROR_NO_MEMORY \<or>
     (ret = 0 \<or> ret = QUICLY_ERROR_STATE_EXHAUSTION) \<and> send_inv state' S (out - M) \<and>
     final_size state' = final_size state \<and> acked_positions state' = acked_positions state \<union> {start..<stop} \<and>
     shift = min (final_size state) (acked_upto state') - min (final_size state) (acked_upto state))"
proof -
  let ?A = "acked_positions state" and ?P = "pending_positions state" and ?R = "{start..<stop}"
  note i = send_invD [OF inv]
  obtain ret rs where a: "quicly_ranges_add alloc (acked state) start stop = Some (ret, rs)"
    "ret = 0 \<and> acked_set rs (?A \<union> ?R) \<or> ret = PTLS_ERROR_NO_MEMORY \<and> rs = acked state"
    using ack.add_union_le [OF i(1) args(1)] by metis
  obtain ret' rs' where b: "quicly_ranges_subtract alloc (pending state) start stop = Some (ret', rs')"
    "ret' = 0 \<and> pending_set rs' (?P - ?R) \<or> ret' = PTLS_ERROR_NO_MEMORY \<and> rs' = pending state"
    using pending_subtract [OF i(2) args(1)] by metis
  show ?thesis
  proof (cases "ret = 0 \<and> ret' = 0")
    case True
    let ?st = "state\<lparr>acked := rs, pending := rs'\<rparr>"
    have A: "acked_set (acked ?st) (?A \<union> ?R)" and P: "pending_set (pending ?st) (?P - ?R)"
      using a(2) b(2) True by (auto simp: PTLS_ERROR_NO_MEMORY_def)
    have s: "send_sets (?A \<union> ?R) (?P - ?R) (size_inflight ?st) (final_size ?st) S (in_flight (out - M))"
      using sets_ack [OF i(3) args(2) in_flight_diff(1), of M] in_flight_diff(2) [of out M] args(3) by auto
    have "pending_behind_acked ?st" by (rule behind [OF A P send_setsD(1) [OF s]])
    moreover have "acked_shift ?st (acked_upto state) = Some (min (final_size state) (acked_upto ?st) - min (final_size state) (acked_upto state))"
      using acked_shift_correct [OF A i(1) _ s] by auto
    ultimately show ?thesis
      using True a(1) b(1) send_invI [OF A P s] positions_eq(1) [OF A] check_amount_of_state_cases [of ?st]
      by (simp add: quicly_sendstate_acked_def Let_def)
  next
    case False
    then show ?thesis using a b by (auto simp: quicly_sendstate_acked_def Let_def PTLS_ERROR_NO_MEMORY_def)
  qed
qed

lemma lost_loop_ok:
  assumes "pending_set (pending state) P" "ordered slots" "slots \<noteq> []"
  shows "\<exists>ret rs. lost_loop alloc slots start stop state = Some (ret, state\<lparr>pending := rs\<rparr>) \<and>
    (ret = 0 \<and> pending_set rs (P \<union> ({max start (fst (hd slots))..<stop} - elements slots)) \<or> ret = PTLS_ERROR_NO_MEMORY)"
  using assms
proof (induction slots arbitrary: start state P)
  case (Cons r slots)
  let ?start = "if start < r_end r then r_end r else start"
  have o: "ordered slots" "fst r \<le> snd r" "\<forall>r' \<in> set slots. snd r < fst r'" using Cons.prems(2) by (simp_all add: ordered_Cons)
  have st: "{max start (fst r)..<stop} - elements (r # slots) = {?start..<stop} - elements slots"
    using o(2) by auto
  have behind_slots: "fst (hd slots) \<le> x" if "x \<in> elements slots" for x
    using that o(1) by (cases slots) (fastforce simp: ordered_Cons elements_def)+
  show ?case
  proof (cases "start < stop")
    case False
    then have e: "P \<union> ({max start (fst (hd (r # slots)))..<stop} - elements (r # slots)) = P" by auto
    show ?thesis unfolding e using False Cons.prems(1) by (auto intro!: exI [of _ "pending state"])
  next
    case True
    show ?thesis
    proof (cases "slots = [] \<or> stop \<le> fst (hd slots)")
      case last: True
      have e: "{?start..<stop} - elements slots = {?start..<stop}" using last behind_slots by force
      show ?thesis
      proof (cases "?start < stop")
        case lt: True
        then have le: "?start \<le> stop" by simp
        obtain ret rs where "add_pending alloc state ?start stop = Some (ret, state\<lparr>pending := rs\<rparr>)"
          "ret = 0 \<and> pending_set rs (P \<union> {?start..<stop}) \<or> ret = PTLS_ERROR_NO_MEMORY \<and> rs = pending state"
          using add_pending_ok [OF Cons.prems(1) le] by metis
        then show ?thesis unfolding list.sel st e using last lt True by (auto simp: Let_def)
      next
        case False
        then show ?thesis unfolding list.sel st e using last True Cons.prems(1) by (auto simp: Let_def intro!: exI [of _ "pending state"])
      qed
    next
      case more: False
      then have ne: "slots \<noteq> []" by simp
      show ?thesis
      proof (cases "?start < fst (hd slots)")
        case gap: True
        then have le: "?start \<le> fst (hd slots)" by simp
        obtain ret rs where add: "add_pending alloc state ?start (fst (hd slots)) = Some (ret, state\<lparr>pending := rs\<rparr>)"
          "ret = 0 \<and> pending_set rs (P \<union> {?start..<fst (hd slots)}) \<or> ret = PTLS_ERROR_NO_MEMORY \<and> rs = pending state"
          using add_pending_ok [OF Cons.prems(1) le] by metis
        have step: "lost_loop alloc (r # slots) start stop state =
            (if ret \<noteq> 0 then Some (ret, state\<lparr>pending := rs\<rparr>) else lost_loop alloc slots ?start stop (state\<lparr>pending := rs\<rparr>))"
          using True more gap add(1) by (simp add: Let_def)
        show ?thesis
        proof (cases "ret = 0")
          case True
          then have rs: "pending_set (pending (state\<lparr>pending := rs\<rparr>)) (P \<union> {?start..<fst (hd slots)})" using add(2) by (simp add: PTLS_ERROR_NO_MEMORY_def)
          have e: "P \<union> ({?start..<stop} - elements slots) = P \<union> {?start..<fst (hd slots)} \<union> ({max ?start (fst (hd slots))..<stop} - elements slots)"
            using more gap behind_slots by (force simp: max_def)
          show ?thesis unfolding step list.sel st e using Cons.IH [OF rs o(1) ne, of ?start] True by auto
        next
          case False
          then show ?thesis unfolding step using add(2) by (intro exI [of _ ret] exI [of _ rs]) simp
        qed
      next
        case False
        have e: "{?start..<stop} = {max ?start (fst (hd slots))..<stop}" using False by auto
        have step: "lost_loop alloc (r # slots) start stop state = lost_loop alloc slots ?start stop state"
          using True more False by (simp add: Let_def)
        show ?thesis unfolding step list.sel st e by (rule Cons.IH [OF Cons.prems(1) o(1) ne])
      qed
    qed
  qed
qed simp

lemma quicly_sendstate_lost_ok:
  assumes inv: "send_inv state S out" and r: "r \<in># out"
  shows "\<exists>ret state'. quicly_sendstate_lost alloc state r = Some (ret, state') \<and> size_inflight state' = size_inflight state \<and>
    acked state' = acked state \<and> final_size state' = final_size state \<and>
    (ret = PTLS_ERROR_NO_MEMORY \<or>
     (ret = 0 \<or> ret = QUICLY_ERROR_STATE_EXHAUSTION) \<and> send_inv state' S (out - {#r#}) \<and>
     pending_positions state' = pending_positions state \<union> ({fst r..<snd r} - acked_positions state))"
proof -
  let ?A = "acked_positions state" and ?P = "pending_positions state" and ?R = "{fst r..<snd r}" and ?xs = "ranges (acked state)"
  note i = send_invD [OF inv]
  have xs: "ordered ?xs" "?xs \<noteq> []" "fst (hd ?xs) = 0" "elements ?xs = ?A"
    using i(1) by (auto simp: acked_set_def shape_def hd_conv_nth)
  obtain ret rs where l: "lost_loop alloc ?xs (fst r) (snd r) state = Some (ret, state\<lparr>pending := rs\<rparr>)"
    "ret = 0 \<and> pending_set rs (?P \<union> (?R - ?A)) \<or> ret = PTLS_ERROR_NO_MEMORY"
    using lost_loop_ok [OF i(2) xs(1,2), of alloc "fst r" "snd r"] xs(3,4) by auto
  show ?thesis
  proof (cases "ret = 0")
    case True
    let ?st = "state\<lparr>pending := rs\<rparr>"
    have A: "acked_set (acked ?st) ?A" and P: "pending_set (pending ?st) (?P \<union> (?R - ?A))"
      using i(1) l(2) True by (auto simp: PTLS_ERROR_NO_MEMORY_def)
    have R: "?R \<subseteq> in_flight out" using r by (auto simp: in_flight_def)
    have s: "send_sets ?A (?P \<union> (?R - ?A)) (size_inflight ?st) (final_size ?st) S (in_flight (out - {#r#}))"
      using sets_lost [OF i(3) R in_flight_diff(1) [of out "{#r#}"]] in_flight_diff(2) [of out "{#r#}"] by auto
    have "pending_behind_acked ?st" by (rule behind [OF A P send_setsD(1) [OF s]])
    then show ?thesis
      using True l(1) send_invI [OF A P s] positions_eq(2) [OF P] check_amount_of_state_cases [of ?st] by (simp add: quicly_sendstate_lost_def)
  next
    case False
    then show ?thesis using l by (auto simp: quicly_sendstate_lost_def)
  qed
qed

section \<open>Sending keeps the invariant and the limits\<close>

definition flow_ok :: "send_stream \<Rightarrow> send_conn \<Rightarrow> bool" where
  "flow_ok stream conn \<longleftrightarrow> (is_crypto stream \<or> size_inflight (sendstate stream) \<le> max_stream_data stream) \<and> max_stream_data stream < 2 ^ 62 \<and>
    sent conn \<le> permitted conn \<and> permitted conn < 2 ^ 62"

text \<open>The result of sending a frame that starts at \<open>off\<close> and has \<open>len\<close> octets.\<close>

definition frame_sent ::
  "send_stream \<Rightarrow> send_conn \<Rightarrow> nat set \<Rightarrow> quicly_range multiset \<Rightarrow> nat \<Rightarrow> nat \<Rightarrow> nat \<Rightarrow> nat \<times> send_stream \<times> send_conn \<times> quicly_range option \<Rightarrow> bool" where
  "frame_sent stream conn S out off len stop res \<longleftrightarrow> (case res of (ret, stream', conn', sr) \<Rightarrow>
    (let si = size_inflight (sendstate stream); si' = size_inflight (sendstate stream')
     in si' = max si (off + len) \<and> max_stream_data stream' = max_stream_data stream \<and> is_crypto stream' = is_crypto stream \<and>
        conn' = conn\<lparr>sent := sent conn + (if is_crypto stream then 0 else si' - si)\<rparr> \<and> final_size (sendstate stream') = final_size (sendstate stream) \<and>
        acked (sendstate stream') = acked (sendstate stream) \<and>
        (ret = PTLS_ERROR_NO_MEMORY \<and> sr = None \<or>
         ret = 0 \<and> sr = Some (off, stop) \<and> send_inv (sendstate stream') (S \<union> {off..<stop}) (add_mset (off, stop) out))))"

lemma update_state_ok:
  assumes inv: "send_inv (sendstate stream) S out"
    and off: "{off..<off + len} \<subseteq> pending_positions (sendstate stream)" "off + len + 1 < UINT64_MAX" "off \<le> size_inflight (sendstate stream)"
    and fin: "is_fin \<longleftrightarrow> \<not> quicly_sendstate_is_open (sendstate stream) \<and> off + len = final_size (sendstate stream)"
      "\<not> quicly_sendstate_is_open (sendstate stream) \<longrightarrow> off + len \<le> final_size (sendstate stream)"
    and wrote: "wrote_all \<Longrightarrow> quicly_sendstate_is_open (sendstate stream) \<or> is_fin"
    and stop: "stop = off + len + (if is_fin then 1 else 0)"
  shows "\<exists>res. update_state alloc stream conn off len is_fin wrote_all = Some res \<and> frame_sent stream conn S out off len stop res"
proof -
  let ?st = "sendstate stream"
  let ?A = "acked_positions ?st" and ?P = "pending_positions ?st" and ?R = "{off..<stop}" and ?si = "max (size_inflight ?st) (off + len)"
  let ?st1 = "?st\<lparr>size_inflight := ?si\<rparr>" and ?F = "final_size ?st"
  let ?conn = "conn\<lparr>sent := sent conn + (if is_crypto stream then 0 else ?si - size_inflight ?st)\<rparr>"
  note i = send_invD [OF inv]
  have st1: "(if size_inflight ?st < off + len then ?st\<lparr>size_inflight := off + len\<rparr> else ?st) = ?st1" by (simp add: max_def)
  have conn: "(if size_inflight ?st < off + len \<and> \<not> is_crypto stream then conn\<lparr>sent := sent conn + (off + len - size_inflight ?st)\<rparr> else conn) = ?conn"
    by (simp add: max_def)
  have s1: "send_sets ?A (?P - ?R) ?si ?F (S \<union> ?R) (in_flight out \<union> ?R)"
    by (rule sets_send [OF i(3) off, where is_fin = is_fin]) (use fin stop in \<open>simp_all add: quicly_sendstate_is_open_def\<close>)
  have le: "off \<le> stop" using stop by simp
  obtain ret rs where a: "quicly_ranges_subtract alloc (pending ?st) off stop = Some (ret, rs)"
    "ret = 0 \<and> pending_set rs (?P - ?R) \<or> ret = PTLS_ERROR_NO_MEMORY \<and> rs = pending ?st"
    using pending_subtract [OF i(2) le] by metis
  have upd: "update_state alloc stream conn off len is_fin wrote_all =
    (if ret \<noteq> 0 then Some (ret, stream\<lparr>sendstate := ?st1\<lparr>pending := rs\<rparr>\<rparr>, ?conn, None)
     else (case (if wrote_all then quicly_ranges_subtract alloc rs ?si UINT64_MAX else Some (0, rs)) of None \<Rightarrow> None
       | Some (ret, rs') \<Rightarrow> Some (ret, stream\<lparr>sendstate := ?st1\<lparr>pending := rs'\<rparr>\<rparr>, ?conn, if ret = 0 then Some (off, stop) else None)))"
    unfolding update_state_def Let_def st1 conn stop [symmetric] using a(1) by simp
  show ?thesis
  proof (cases "ret = 0")
    case True
    then have rs: "pending_set rs (?P - ?R)" using a(2) by (simp add: PTLS_ERROR_NO_MEMORY_def)
    have si: "?si \<le> UINT64_MAX" using send_setsD(2) [OF s1] by linarith
    have "?F = UINT64_MAX \<or> ?P - ?R \<subseteq> {0..<?si}" if wrote_all
    proof (cases is_fin)
      case True
      have "x < off + len" if x: "x \<in> ?P - ?R" for x
      proof -
        have "x < off + len + 1" "x \<notin> {off..<off + len + 1}"
          using x send_setsD(7) [OF i(3)] True fin(1) stop by (auto simp: send_end_def quicly_sendstate_is_open_def)
        then show ?thesis by auto
      qed
      then show ?thesis by (auto simp: less_max_iff_disj)
    qed (use wrote that in \<open>simp add: quicly_sendstate_is_open_def\<close>)
    then have s2: "send_sets ?A (?P - ?R - {?si..<UINT64_MAX}) ?si ?F (S \<union> ?R) (in_flight out \<union> ?R)" if wrote_all
      using sets_wrote_all [OF s1] that by blast
    obtain ret2 rs2 where "quicly_ranges_subtract alloc rs ?si UINT64_MAX = Some (ret2, rs2)"
      "ret2 = 0 \<and> pending_set rs2 (?P - ?R - {?si..<UINT64_MAX}) \<or> ret2 = PTLS_ERROR_NO_MEMORY \<and> rs2 = rs"
      using pending_subtract [OF rs si] by metis
    then obtain ret' rs' where b: "(if wrote_all then quicly_ranges_subtract alloc rs ?si UINT64_MAX else Some (0, rs)) = Some (ret', rs')"
      "ret' = 0 \<and> pending_set rs' (if wrote_all then ?P - ?R - {?si..<UINT64_MAX} else ?P - ?R) \<or> ret' = PTLS_ERROR_NO_MEMORY"
      using rs by (cases wrote_all) auto
    have "send_inv (?st1\<lparr>pending := rs'\<rparr>) (S \<union> ?R) (add_mset (off, stop) out)" if "ret' = 0"
      by (rule send_invI [of _ ?A "if wrote_all then ?P - ?R - {?si..<UINT64_MAX} else ?P - ?R"])
        (use i(1) b(2) s1 s2 that in \<open>auto simp: PTLS_ERROR_NO_MEMORY_def Un_commute\<close>)
    then show ?thesis using True b unfolding upd by (auto simp: frame_sent_def Let_def)
  next
    case False
    then show ?thesis using a(2) unfolding upd by (simp add: frame_sent_def Let_def)
  qed
qed

lemma pending_start:
  assumes inv: "send_inv state S out" and ne: "ranges (pending state) \<noteq> []"
  shows "fst (ranges (pending state) ! 0) \<le> size_inflight state" "fst (ranges (pending state) ! 0) \<le> final_size state"
    "snd (ranges (pending state) ! 0) \<le> send_end (final_size state)"
proof -
  note i = send_invD [OF inv]
  note f = pending_first [OF i(2) ne]
  let ?a = "fst (ranges (pending state) ! 0)" and ?b = "snd (ranges (pending state) ! 0)" and ?E = "send_end (final_size state)"
  have lt: "size_inflight state < ?E" using send_setsD(2,3) [OF i(3)] by (auto simp: send_end_def)
  show "?a \<le> size_inflight state"
    using send_setsD(8) [OF i(3)]
  proof
    assume "{size_inflight state..<?E} \<subseteq> pending_positions state"
    then show ?thesis using f(3) [of "size_inflight state"] lt by auto
  qed (use f(1) in force)
  show "?a \<le> final_size state" using f(1) send_setsD(7) [OF i(3)] by (auto simp: send_end_def split: if_splits)
  have "?b - 1 \<in> pending_positions state" using f(2,4) by auto
  then show "?b \<le> ?E" using send_setsD(7) [OF i(3)] by fastforce
qed

lemma quicly_stream_can_send_ok:
  assumes "send_inv (sendstate stream) S out" "\<not> is_crypto stream"
  shows "quicly_stream_can_send stream level \<noteq> None"
proof (cases "ranges (pending (sendstate stream)) = []")
  case False
  then show ?thesis using pending_start(2) [OF assms(1)] assms(2) by (auto simp: quicly_stream_can_send_def sched_stream_control_def Let_def)
qed (simp add: quicly_stream_can_send_def)

lemma quicly_stream_can_send_same:
  "quicly_stream_can_send stream level = Some (b, stream') \<Longrightarrow>
   sendstate stream' = sendstate stream \<and> max_stream_data stream' = max_stream_data stream \<and> is_crypto stream' = is_crypto stream"
  by (auto simp: quicly_stream_can_send_def sched_stream_control_def Let_def split: if_splits)

lemma cap_by_limits_ok:
  assumes flow: "flow_ok stream conn" "\<not> is_crypto stream" and off: "off \<le> size_inflight (sendstate stream)" "off < max_stream_data stream"
    and space: "0 < space" "off + space < UINT64_MAX" and can: "off < size_inflight (sendstate stream) \<or> sent conn < permitted conn"
  shows "0 < cap_by_limits stream conn off space" "cap_by_limits stream conn off space \<le> space"
    "off + cap_by_limits stream conn off space \<le> max_stream_data stream"
    "off + cap_by_limits stream conn off space - size_inflight (sendstate stream) \<le> permitted conn - sent conn"
proof -
  define si where "si = size_inflight (sendstate stream)"
  define len where "len = (if off + space > max_stream_data stream then max_stream_data stream - off else space)"
  note f = flow [unfolded flow_ok_def, folded si_def] and o = off [folded si_def] and c = can [folded si_def]
  have len: "0 < len" "len \<le> space" "off + len \<le> max_stream_data stream" using o(2) space(1) by (auto simp: len_def)
  have add: "add64 off space = off + space" "add64 off len = off + len" "add64 si (permitted conn) = si + permitted conn"
    using space(2) len(2) f by (auto simp: add64_def UINT64_MAX_def)
  have sub: "sub64 (max_stream_data stream) off = max_stream_data stream - off" "sub64 (permitted conn) (sent conn) = permitted conn - sent conn"
    "sub64 (si + permitted conn) (sent conn) = si + permitted conn - sent conn"
    "sub64 (si + permitted conn - sent conn) off = si + permitted conn - sent conn - off" "si < off + len \<Longrightarrow> sub64 (off + len) si = off + len - si"
    using o f by (auto simp: sub64_def)
  have eq: "cap_by_limits stream conn off space = (if off + len > si \<and> off + len - si > permitted conn - sent conn then si + permitted conn - sent conn - off else len)"
    unfolding cap_by_limits_def Let_def si_def [symmetric] add(1) sub(1) len_def [symmetric] add(2,3) sub(2-4) using sub(5) by auto
  show "0 < cap_by_limits stream conn off space" "cap_by_limits stream conn off space \<le> space"
    "off + cap_by_limits stream conn off space \<le> max_stream_data stream"
    "off + cap_by_limits stream conn off space - size_inflight (sendstate stream) \<le> permitted conn - sent conn"
    unfolding eq si_def [symmetric] using len o f c by (auto split: if_splits)
qed

lemma cap_by_range_ok:
  assumes inv: "send_inv state S out" and ne: "ranges (pending state) \<noteq> []" and off: "off = fst (ranges (pending state) ! 0)"
    and len: "0 < len" and F: "off \<noteq> final_size state"
  obtains len' where "cap_by_range state off len = Some len'" "0 < len'" "len' \<le> len" "{off..<off + len'} \<subseteq> pending_positions state"
    "quicly_sendstate_is_open state \<or> off + len' \<le> final_size state"
proof -
  let ?b = "snd (ranges (pending state) ! 0)" and ?F = "final_size state"
  note p = pending_start [OF inv ne, folded off] and f = pending_first [OF send_invD(2) [OF inv] ne, folded off]
  have sub: "sub64 ?b off = ?b - off" "off + (?b - off) = ?b" using f(4) by (simp_all add: sub64_def)
  have lt: "off < ?F" using p(2) F by simp
  have cap: "cap_by_range state off len = Some (min len (if ?b > ?F then ?b - off - 1 else ?b - off))"
    unfolding cap_by_range_def Let_def sub using p(3) lt by (auto simp: send_end_def quicly_sendstate_is_open_def)
  let ?len = "min len (if ?b > ?F then ?b - off - 1 else ?b - off)"
  have "off + ?len \<le> ?b" "0 < ?len" "quicly_sendstate_is_open state \<or> off + ?len \<le> ?F"
    using f(4) len lt p(3) by (auto simp: send_end_def quicly_sendstate_is_open_def split: if_splits)
  then show ?thesis using that [OF cap] f(2) by fastforce
qed

lemma adjust_ok:
  assumes len: "0 < len" "len \<le> space" "crypto \<Longrightarrow> 2 \<le> space" and eq: "adjust_stream_frame_layout crypto space len wrote_all = (len', wrote_all')"
  shows "0 < len'" "len' \<le> len" "wrote_all' \<Longrightarrow> wrote_all \<and> len' = len"
proof -
  have "quicly_encodev_capacity len < space" if crypto using len that by (simp add: quicly_encodev_capacity_def)
  then show "0 < len'" "len' \<le> len" "wrote_all' \<Longrightarrow> wrote_all \<and> len' = len"
    using eq len by (auto simp: adjust_stream_frame_layout_def Let_def split: if_splits)
qed

text \<open>
  What the application promises for its callback: it writes something, no more than there is room for, and once the stream is closed it reports
  \<^verbatim>\<open>wrote_all\<close> only with the last octet. Offsets in its buffer count from the first octet that is not acknowledged.
\<close>

definition emit_ok :: "(nat \<Rightarrow> nat \<Rightarrow> emit_result) \<Rightarrow> quicly_sendstate \<Rightarrow> bool" where
  "emit_ok emit state \<longleftrightarrow> (\<forall>emit_off len len' wrote_all. 0 < len \<longrightarrow> emit emit_off len = EMIT_WROTE len' wrote_all \<longrightarrow>
    0 < len' \<and> len' \<le> len \<and> (wrote_all \<longrightarrow> quicly_sendstate_is_open state \<or> acked_upto state + emit_off + len' = final_size state))"

text \<open>When the scheduler lets a stream send: it is not blocked by its own limit, nor by the one of the connection, and the packet has room.\<close>

definition may_send :: "nat \<Rightarrow> send_stream \<Rightarrow> send_conn \<Rightarrow> bool" where
  "may_send space stream conn \<longleftrightarrow> ranges (pending (sendstate stream)) \<noteq> [] \<and>
    fst (ranges (pending (sendstate stream)) ! 0) + space + 1 < UINT64_MAX \<and>
    (if is_crypto stream then quicly_sendstate_is_open (sendstate stream) \<and> 2 \<le> space
     else quicly_stream_can_send stream True = Some (True, stream) \<and>
       (sent conn < permitted conn \<or> quicly_stream_can_send stream False = Some (True, stream)) \<and> 1 \<le> space)"

text \<open>
  A frame goes out, or memory runs out. If the callback has reset the stream, or closed the connection, nothing is changed; the latter is reported as an error.
\<close>

definition send_result ::
  "(nat \<Rightarrow> nat \<Rightarrow> emit_result) \<Rightarrow> send_stream \<Rightarrow> send_conn \<Rightarrow> nat set \<Rightarrow> quicly_range multiset \<Rightarrow> nat \<times> send_stream \<times> send_conn \<times> quicly_range option \<Rightarrow> bool" where
  "send_result emit stream conn S out res \<longleftrightarrow> (let state = sendstate stream; off = r_start (ranges (pending state) ! 0) in
    (\<exists>room. emit (off - acked_upto state) room = EMIT_RESET \<and> res = (0, stream, conn, None)) \<or>
    (\<exists>room. emit (off - acked_upto state) room = EMIT_CLOSING \<and> res = (QUICLY_ERROR_IS_CLOSING, stream, conn, None)) \<or>
    (\<exists>len stop. off < stop \<and> stop = off + len + (if \<not> quicly_sendstate_is_open state \<and> off + len = final_size state then 1 else 0) \<and>
      {off..<off + len} \<subseteq> pending_positions state \<and>
      (is_crypto stream \<or> off + len \<le> max (size_inflight state) (max_stream_data stream) \<and>
        off + len - size_inflight state \<le> permitted conn - sent conn) \<and>
      frame_sent stream conn S out off len stop res))"

lemma emit_frame_ok:
  assumes inv: "send_inv (sendstate stream) S out" and ne: "ranges (pending (sendstate stream)) \<noteq> []" "off = fst (ranges (pending (sendstate stream)) ! 0)"
    and space: "off + space + 1 < UINT64_MAX" "is_crypto stream \<Longrightarrow> 2 \<le> space" and emit: "emit_ok emit (sendstate stream)"
    and len: "0 < len" "len \<le> space" "{off..<off + len} \<subseteq> pending_positions (sendstate stream)"
      "quicly_sendstate_is_open (sendstate stream) \<or> off + len \<le> final_size (sendstate stream)"
    and limit: "is_crypto stream \<or> off + len \<le> max_stream_data stream \<and> off + len - size_inflight (sendstate stream) \<le> permitted conn - sent conn"
  shows "\<exists>res. emit_frame alloc emit space stream conn off len = Some res \<and> send_result emit stream conn S out res"
proof -
  let ?st = "sendstate stream"
  note i = send_invD [OF inv]
  have "pending_behind_acked ?st" by (rule behind [OF i(1,2) send_setsD(1) [OF i(3)]])
  then have upto: "acked_upto ?st \<le> off" using ne by (simp add: pending_behind_acked_def)
  then have eo: "sub64 off (acked_upto ?st) = off - acked_upto ?st" by (simp add: sub64_def)
  show ?thesis
  proof (cases "emit (off - acked_upto ?st) len")
    case EMIT_CLOSING
    then have "send_result emit stream conn S out (QUICLY_ERROR_IS_CLOSING, stream, conn, None)"
      unfolding send_result_def Let_def using ne(2) by (intro disjI2 disjI1 exI [of _ len]) simp
    moreover have "emit_frame alloc emit space stream conn off len = Some (QUICLY_ERROR_IS_CLOSING, stream, conn, None)"
      using EMIT_CLOSING len(1) by (simp add: emit_frame_def eo)
    ultimately show ?thesis by blast
  next
    case EMIT_RESET
    then have "send_result emit stream conn S out (0, stream, conn, None)"
      unfolding send_result_def Let_def using ne(2) by (intro disjI1 exI [of _ len]) simp
    moreover have "emit_frame alloc emit space stream conn off len = Some (0, stream, conn, None)"
      using EMIT_RESET len(1) by (simp add: emit_frame_def eo)
    ultimately show ?thesis by blast
  next
    case e: (EMIT_WROTE len1 w1)
    then have c: "0 < len1" "len1 \<le> len" "w1 \<Longrightarrow> quicly_sendstate_is_open ?st \<or> off + len1 = final_size ?st"
      using emit [unfolded emit_ok_def, rule_format, OF len(1) e] upto by auto
    obtain len2 w2 where a: "adjust_stream_frame_layout (is_crypto stream) space len1 w1 = (len2, w2)" by fastforce
    have "len1 \<le> space" using c(2) len(2) by simp
    then have d: "0 < len2" "len2 \<le> len1" "w2 \<Longrightarrow> w1 \<and> len2 = len1" using adjust_ok [OF c(1) _ space(2) a] by auto
    define is_fin where "is_fin \<longleftrightarrow> \<not> quicly_sendstate_is_open ?st \<and> off + len2 = final_size ?st"
    define stop where "stop = off + len2 + (if is_fin then 1 else 0)"
    have lt: "off + len2 + 1 < UINT64_MAX" using space(1) d(2) c(2) len(2) by linarith
    have sub: "{off..<off + len2} \<subseteq> pending_positions ?st" using len(3) d(2) c(2) by fastforce
    have le: "\<not> quicly_sendstate_is_open ?st \<longrightarrow> off + len2 \<le> final_size ?st" using len(4) c(2) d(2) by auto
    have w: "quicly_sendstate_is_open ?st \<or> is_fin" if w2 using c(3) d(3) that by (auto simp: is_fin_def)
    obtain res where u: "update_state alloc stream conn off len2 is_fin w2 = Some res" "frame_sent stream conn S out off len2 stop res"
      using update_state_ok [OF inv sub lt pending_start(1) [OF inv ne(1), folded ne(2)] is_fin_def le w stop_def] by metis
    have "emit_frame alloc emit space stream conn off len = update_state alloc stream conn off len2 is_fin w2"
      using len(1) c(1) lt by (auto simp: emit_frame_def eo e a is_fin_def quicly_sendstate_is_open_def)
    moreover have "send_result emit stream conn S out res"
      unfolding send_result_def Let_def using u(2) sub limit d(1,2) c(2) ne(2)
      by (intro disjI2 exI [of _ len2] exI [of _ stop]) (auto simp: stop_def is_fin_def)
    ultimately show ?thesis using u(1) by simp
  qed
qed

lemma quicly_send_stream_ok:
  assumes inv: "send_inv (sendstate stream) S out" and flow: "flow_ok stream conn" and may: "may_send space stream conn"
    and emit: "emit_ok emit (sendstate stream)"
  shows "\<exists>res. quicly_send_stream alloc emit space stream conn = Some res \<and> send_result emit stream conn S out res"
proof -
  let ?st = "sendstate stream" and ?off = "fst (ranges (pending (sendstate stream)) ! 0)"
  have ne: "ranges (pending ?st) \<noteq> []" and sp: "?off + space + 1 < UINT64_MAX" using may by (simp_all add: may_send_def)
  note p = pending_start [OF inv ne]
  show ?thesis
  proof (cases "\<not> is_crypto stream \<and> ?off = final_size ?st")
    case True
    then have cl: "\<not> quicly_sendstate_is_open ?st" using sp by (auto simp: quicly_sendstate_is_open_def)
    have "\<exists>res. update_state alloc stream conn ?off 0 True True = Some res \<and> frame_sent stream conn S out ?off 0 (?off + 1) res"
      by (rule update_state_ok [OF inv]) (use True cl p sp in auto)
    then obtain res where u: "update_state alloc stream conn ?off 0 True True = Some res" "frame_sent stream conn S out ?off 0 (?off + 1) res" by blast
    have "send_result emit stream conn S out res"
      unfolding send_result_def Let_def using u(2) True cl p(1) by (intro disjI2 exI [of _ 0] exI [of _ "?off + 1"]) auto
    then show ?thesis using u(1) True cl ne by (simp add: quicly_send_stream_def Let_def)
  next
    case False
    let ?len = "if is_crypto stream then space else cap_by_limits stream conn ?off space"
    have F: "?off \<noteq> final_size ?st" using False may by (auto simp: may_send_def quicly_sendstate_is_open_def)
    have len: "0 < ?len" "?len \<le> space" "is_crypto stream \<or> ?off + ?len \<le> max_stream_data stream \<and> ?off + ?len - size_inflight ?st \<le> permitted conn - sent conn"
      "is_crypto stream \<Longrightarrow> 2 \<le> space"
    proof -
      have c: "?off < max_stream_data stream \<and> (?off < size_inflight ?st \<or> sent conn < permitted conn) \<and> 0 < space" if "\<not> is_crypto stream"
        using may F that p(2) by (auto simp: may_send_def quicly_stream_can_send_def sched_stream_control_def Let_def split: if_splits)
      have sp': "?off + space < UINT64_MAX" using sp by simp
      show "0 < ?len" "?len \<le> space" "is_crypto stream \<or> ?off + ?len \<le> max_stream_data stream \<and> ?off + ?len - size_inflight ?st \<le> permitted conn - sent conn"
        "is_crypto stream \<Longrightarrow> 2 \<le> space"
        using cap_by_limits_ok [OF flow _ p(1) _ _ sp'] c may by (auto simp: may_send_def)
    qed
    obtain len' where r: "cap_by_range ?st ?off ?len = Some len'" "0 < len'" "len' \<le> ?len" "{?off..<?off + len'} \<subseteq> pending_positions ?st"
      "quicly_sendstate_is_open ?st \<or> ?off + len' \<le> final_size ?st"
      by (rule cap_by_range_ok [OF inv ne refl len(1) F])
    have "len' \<le> space" "is_crypto stream \<or> ?off + len' \<le> max_stream_data stream \<and> ?off + len' - size_inflight ?st \<le> permitted conn - sent conn"
      using r(3) len(2,3) by linarith+
    note e = emit_frame_ok [OF inv ne refl sp len(4) emit r(2) this(1) r(4,5) this(2), of alloc]
    have "quicly_send_stream alloc emit space stream conn = emit_frame alloc emit space stream conn ?off len'"
      unfolding quicly_send_stream_def Let_def using ne False r(1) by auto
    then show ?thesis using e by simp
  qed
qed

section \<open>Reachable states\<close>

text \<open>
  A stream on its connection. \<open>S\<close> and \<open>out\<close> are as above, \<open>K\<close> is the set of the positions acknowledged by the peer and \<open>gone\<close> tells whether the stream
  was reset. An error code other than 0 ends the connection, so a run goes on with 0 only. Packets are acknowledged in any order, in merged ranges, and
  also when they were declared lost before. A stream is activated only while it is open or its end is not acknowledged; \<^verbatim>\<open>quicly_sendstate_activate\<close>
  does not check this, and the last theorem below shows what happens otherwise. \<open>others\<close> stands for the data that other streams of the connection send.
\<close>

inductive send_run :: "(nat \<Rightarrow> bool) \<Rightarrow> send_stream \<Rightarrow> send_conn \<Rightarrow> nat set \<Rightarrow> quicly_range multiset \<Rightarrow> nat set \<Rightarrow> bool \<Rightarrow> bool" for alloc where
  start: "flow_ok stream conn \<Longrightarrow> sendstate stream = quicly_sendstate_init alloc \<Longrightarrow> send_run alloc stream conn {} {#} {} False"
| activate: "send_run alloc stream conn S out K gone \<Longrightarrow>
    quicly_sendstate_is_open (sendstate stream) \<or> final_size (sendstate stream) \<notin> acked_positions (sendstate stream) \<Longrightarrow>
    quicly_sendstate_activate alloc (sendstate stream) = Some (0, state') \<Longrightarrow> send_run alloc (stream\<lparr>sendstate := state'\<rparr>) conn S out K gone"
| shutdown: "send_run alloc stream conn S out K gone \<Longrightarrow> quicly_sendstate_is_open (sendstate stream) \<Longrightarrow>
    size_inflight (sendstate stream) \<le> fin \<Longrightarrow> fin + 1 < UINT64_MAX \<Longrightarrow>
    quicly_sendstate_shutdown alloc (sendstate stream) fin = Some (0, state') \<Longrightarrow> send_run alloc (stream\<lparr>sendstate := state'\<rparr>) conn S out K gone"
| reset: "send_run alloc stream conn S out K gone \<Longrightarrow> \<not> quicly_sendstate_transfer_complete (sendstate stream) \<Longrightarrow>
    quicly_sendstate_reset alloc (sendstate stream) = Some state' \<Longrightarrow> send_run alloc (stream\<lparr>sendstate := state'\<rparr>) conn S out K True"
| ack: "send_run alloc stream conn S out K gone \<Longrightarrow> start \<le> stop \<Longrightarrow> {start..<stop} \<subseteq> S \<Longrightarrow> in_flight M \<subseteq> {start..<stop} \<Longrightarrow>
    quicly_sendstate_acked alloc (sendstate stream) (start, stop) = Some (0, shift, state') \<Longrightarrow>
    send_run alloc (stream\<lparr>sendstate := state'\<rparr>) conn S (out - M) (K \<union> {start..<stop}) gone"
| lost: "send_run alloc stream conn S out K gone \<Longrightarrow> r \<in># out \<Longrightarrow> quicly_sendstate_lost alloc (sendstate stream) r = Some (0, state') \<Longrightarrow>
    send_run alloc (stream\<lparr>sendstate := state'\<rparr>) conn S (out - {#r#}) K gone"
| send: "send_run alloc stream conn S out K gone \<Longrightarrow> may_send space stream conn \<Longrightarrow> emit_ok emit (sendstate stream) \<Longrightarrow>
    quicly_send_stream alloc emit space stream conn = Some (0, stream', conn', Some r) \<Longrightarrow>
    send_run alloc stream' conn' (S \<union> {fst r..<snd r}) (add_mset r out) K gone"
| can_send: "send_run alloc stream conn S out K gone \<Longrightarrow> quicly_stream_can_send stream level = Some (b, stream') \<Longrightarrow> send_run alloc stream' conn S out K gone"
| max_stream_data: "send_run alloc stream conn S out K gone \<Longrightarrow> limit < 2 ^ 62 \<Longrightarrow> send_run alloc (raise_max_stream_data stream limit) conn S out K gone"
| max_data: "send_run alloc stream conn S out K gone \<Longrightarrow> limit < 2 ^ 62 \<Longrightarrow> send_run alloc stream (raise_max_data conn limit) S out K gone"
| others: "send_run alloc stream conn S out K gone \<Longrightarrow> sent conn \<le> n \<Longrightarrow> n \<le> permitted conn \<Longrightarrow> send_run alloc stream (conn\<lparr>sent := n\<rparr>) S out K gone"

definition acked_by_peer :: "quicly_sendstate \<Rightarrow> nat set \<Rightarrow> bool \<Rightarrow> bool" where
  "acked_by_peer state K gone \<longleftrightarrow>
    (if gone then \<not> quicly_sendstate_is_open state \<and> {0..<final_size state + 1} \<subseteq> acked_positions state else acked_positions state = K)"

definition run_inv :: "send_stream \<Rightarrow> send_conn \<Rightarrow> nat set \<Rightarrow> quicly_range multiset \<Rightarrow> nat set \<Rightarrow> bool \<Rightarrow> bool" where
  "run_inv stream conn S out K gone \<longleftrightarrow>
    send_inv (sendstate stream) S out \<and> flow_ok stream conn \<and> K \<subseteq> S \<and> acked_by_peer (sendstate stream) K gone"

lemma transfer_complete_iff:
  assumes inv: "send_inv state S out"
  shows "quicly_sendstate_transfer_complete state \<longleftrightarrow> \<not> quicly_sendstate_is_open state \<and> {0..<final_size state + 1} \<subseteq> acked_positions state"
proof -
  note i = send_invD [OF inv]
  note u = acked_upto_bounds [OF i(1)]
  have "acked_upto state = final_size state + 1 \<longleftrightarrow> {0..<final_size state + 1} \<subseteq> acked_positions state"
  proof
    assume "{0..<final_size state + 1} \<subseteq> acked_positions state"
    then have "\<not> acked_upto state < final_size state + 1" using u(2) by auto
    then show "acked_upto state = final_size state + 1" using acked_upto_le(1) [OF i(1,3)] by simp
  qed (use u(1) in auto)
  then show ?thesis by (simp add: quicly_sendstate_transfer_complete_def quicly_sendstate_is_open_def)
qed

lemma acked_by_peer_same:
  "acked_by_peer state K gone \<Longrightarrow> acked state' = acked state \<Longrightarrow> final_size state' = final_size state \<Longrightarrow> acked_by_peer state' K gone"
  "acked_by_peer state K False \<Longrightarrow> acked state' = acked state \<Longrightarrow> acked_by_peer state' K False"
  by (cases gone; simp add: acked_by_peer_def acked_positions_def quicly_sendstate_is_open_def)+

lemma acked_by_peer_add:
  assumes "acked_by_peer state K gone" "acked_positions state' = acked_positions state \<union> R" "final_size state' = final_size state"
  shows "acked_by_peer state' (K \<union> R) gone"
  using assms by (cases gone) (auto simp: acked_by_peer_def quicly_sendstate_is_open_def)

lemma send_init_inv: "send_inv (quicly_sendstate_init alloc) {} {#}" "acked_positions (quicly_sendstate_init alloc) = {}"
proof -
  have a: "acked (quicly_sendstate_init alloc) = \<lparr>ranges = [(0, 0)], capacity = 1\<rparr>"
    by (simp add: quicly_sendstate_init_def quicly_ranges_init_with_range_def quicly_ranges_init_def insert_at_def)
  then show "acked_positions (quicly_sendstate_init alloc) = {}" by (simp add: acked_positions_def)
  have "acked_set (acked (quicly_sendstate_init alloc)) {}" by (simp add: a acked_set_def ranges_ok_def shape_def ordered_Cons)
  then show "send_inv (quicly_sendstate_init alloc) {} {#}"
    by (rule send_invI [where P = "{}"]) (simp_all add: quicly_sendstate_init_def send_sets_def UINT64_MAX_def)
qed

lemma frame_sent_inv:
  assumes inv: "run_inv stream conn S out K gone" and res: "send_result emit stream conn S out (0, stream', conn', Some r)"
  shows "run_inv stream' conn' (S \<union> {fst r..<snd r}) (add_mset r out) K gone"
proof -
  let ?st = "sendstate stream"
  obtain off len stop where f: "frame_sent stream conn S out off len stop (0, stream', conn', Some r)"
    and lim: "is_crypto stream \<or> off + len \<le> max (size_inflight ?st) (max_stream_data stream) \<and> off + len - size_inflight ?st \<le> permitted conn - sent conn"
    using res by (auto simp: send_result_def Let_def)
  have r: "r = (off, stop)" "send_inv (sendstate stream') (S \<union> {off..<stop}) (add_mset (off, stop) out)"
    and same: "acked (sendstate stream') = acked ?st" "final_size (sendstate stream') = final_size ?st"
    and flow: "size_inflight (sendstate stream') = max (size_inflight ?st) (off + len)" "max_stream_data stream' = max_stream_data stream"
      "is_crypto stream' = is_crypto stream" "permitted conn' = permitted conn"
      "sent conn' = sent conn + (if is_crypto stream then 0 else max (size_inflight ?st) (off + len) - size_inflight ?st)"
    using f by (auto simp: frame_sent_def Let_def PTLS_ERROR_NO_MEMORY_def)
  have "flow_ok stream' conn'" using inv lim by (auto simp: run_inv_def flow_ok_def flow)
  then show ?thesis using inv r acked_by_peer_same(1) [OF _ same] by (auto simp: run_inv_def)
qed

lemma run_inv_update:
  assumes "run_inv stream conn S out K gone" "send_inv state' S out'" "size_inflight state' = size_inflight (sendstate stream)"
    "K' \<subseteq> S" "acked_by_peer state' K' gone'"
  shows "run_inv (stream\<lparr>sendstate := state'\<rparr>) conn S out' K' gone'"
  using assms by (simp add: run_inv_def flow_ok_def)

lemma run_invD:
  assumes "run_inv stream conn S out K gone"
  shows "send_inv (sendstate stream) S out" "flow_ok stream conn" "K \<subseteq> S" "acked_by_peer (sendstate stream) K gone"
  using assms by (simp_all add: run_inv_def)

lemma send_run_inv: "send_run alloc stream conn S out K gone \<Longrightarrow> run_inv stream conn S out K gone"
proof (induction rule: send_run.induct)
  case (start stream conn)
  then show ?case using send_init_inv [of alloc] by (simp add: run_inv_def acked_by_peer_def)
next
  case (activate stream conn S out K gone state')
  note i = run_invD [OF activate.IH]
  have "send_inv state' S out" "size_inflight state' = size_inflight (sendstate stream)" "acked state' = acked (sendstate stream)"
    "final_size state' = final_size (sendstate stream)"
    using quicly_sendstate_activate_ok [OF i(1) activate.hyps(2), of alloc] activate.hyps(3) by auto
  then show ?case using run_inv_update [OF activate.IH _ _ i(3)] acked_by_peer_same(1) [OF i(4)] by blast
next
  case (shutdown stream conn S out K gone fin state')
  note i = run_invD [OF shutdown.IH]
  have "\<not> gone" using i(4) shutdown.hyps(2) by (auto simp: acked_by_peer_def)
  moreover have "send_inv state' S out" "size_inflight state' = size_inflight (sendstate stream)" "acked state' = acked (sendstate stream)"
    using quicly_sendstate_shutdown_ok [OF i(1) shutdown.hyps(2-4), of alloc] shutdown.hyps(5) by auto
  ultimately show ?case using run_inv_update [OF shutdown.IH _ _ i(3)] acked_by_peer_same(2) [of "sendstate stream" K] i(4) by simp
next
  case (reset stream conn S out K gone state')
  note i = run_invD [OF reset.IH]
  have r: "send_inv state' S out" "size_inflight state' = size_inflight (sendstate stream)" "quicly_sendstate_transfer_complete state'"
    using quicly_sendstate_reset_ok [OF i(1), of alloc] reset.hyps(3) by auto
  then have "acked_by_peer state' K True" using transfer_complete_iff [OF r(1)] by (simp add: acked_by_peer_def)
  then show ?case by (rule run_inv_update [OF reset.IH r(1,2) i(3)])
next
  case (ack stream conn S out K gone start stop M shift state')
  note i = run_invD [OF ack.IH]
  have "send_inv state' S (out - M)" "size_inflight state' = size_inflight (sendstate stream)" "final_size state' = final_size (sendstate stream)"
    "acked_positions state' = acked_positions (sendstate stream) \<union> {start..<stop}"
    using quicly_sendstate_acked_ok [OF i(1) ack.hyps(2-4), of alloc] ack.hyps(5) by (auto simp: recv_errors)
  then show ?case using run_inv_update [OF ack.IH, of state'] acked_by_peer_add [OF i(4)] i(3) ack.hyps(3) by simp
next
  case (lost stream conn S out K gone r state')
  note i = run_invD [OF lost.IH]
  have "send_inv state' S (out - {#r#})" "size_inflight state' = size_inflight (sendstate stream)" "acked state' = acked (sendstate stream)"
    "final_size state' = final_size (sendstate stream)"
    using quicly_sendstate_lost_ok [OF i(1) lost.hyps(2), of alloc] lost.hyps(3) by (auto simp: recv_errors)
  then show ?case using run_inv_update [OF lost.IH _ _ i(3)] acked_by_peer_same(1) [OF i(4)] by blast
next
  case (send stream conn S out K gone space emit stream' conn' r)
  note i = run_invD [OF send.IH]
  show ?case using frame_sent_inv [OF send.IH] quicly_send_stream_ok [OF i(1,2) send.hyps(2,3), of alloc] send.hyps(4) by auto
qed (auto simp: run_inv_def flow_ok_def dest!: quicly_stream_can_send_same simp: raise_max_stream_data_def raise_max_data_def)

section \<open>A concrete run\<close>

text \<open>A stream is opened, five octets are written and sent in one packet.\<close>

definition ex_stream :: "quicly_range list \<Rightarrow> nat \<Rightarrow> send_stream" where
  "ex_stream xs n = \<lparr>sendstate = \<lparr>acked = \<lparr>ranges = [(0, 0)], capacity = 1\<rparr>, pending = \<lparr>ranges = xs, capacity = 1\<rparr>, size_inflight = n, final_size = UINT64_MAX\<rparr>,
    max_stream_data = 100, blocked = QUICLY_SENDER_STATE_NONE, control_linked = False, is_crypto = False\<rparr>"

definition ex_conn :: "nat \<Rightarrow> send_conn" where
  "ex_conn n = \<lparr>permitted = 50, sent = n, data_blocked = QUICLY_SENDER_STATE_NONE\<rparr>"

definition ex_emit :: "nat \<Rightarrow> nat \<Rightarrow> emit_result" where
  "ex_emit off len = EMIT_WROTE (min len 5) True"

lemmas ex_defs = ex_stream_def ex_conn_def UINT64_MAX_def quicly_sendstate_is_open_def

lemma ex_init: "sendstate (ex_stream [] 0) = quicly_sendstate_init (\<lambda>n. True)"
  by (simp add: ex_stream_def quicly_sendstate_init_def quicly_ranges_init_with_range_def quicly_ranges_init_def insert_at_def)

lemma ex_activate: "quicly_sendstate_activate (\<lambda>n. True) (sendstate (ex_stream [] 0)) = Some (0, sendstate (ex_stream [(0, UINT64_MAX)] 0))"
  by (simp add: ex_defs quicly_sendstate_activate_def add_pending_def quicly_ranges_add_def insert_at_def)

lemma ex_send: "quicly_send_stream (\<lambda>n. True) ex_emit 10 (ex_stream [(0, UINT64_MAX)] 0) (ex_conn 0) = Some (0, ex_stream [] 5, ex_conn 5, Some (0, 5))"
proof -
  have e: "ex_emit 0 10 = EMIT_WROTE 5 True" by (simp add: ex_emit_def)
  have l: "cap_by_limits (ex_stream [(0, UINT64_MAX)] 0) (ex_conn 0) 0 10 = 10"
    by (simp add: cap_by_limits_def ex_defs add64_def sub64_def)
  have r: "cap_by_range (sendstate (ex_stream [(0, UINT64_MAX)] 0)) 0 10 = Some 10"
    by (simp add: cap_by_range_def ex_defs sub64_def)
  have s1: "quicly_ranges_subtract (\<lambda>n. True) \<lparr>ranges = [(0, UINT64_MAX)], capacity = 1\<rparr> 0 5 = Some (0, \<lparr>ranges = [(5, UINT64_MAX)], capacity = 1\<rparr>)"
    by (simp add: quicly_ranges_subtract_def first_slot_def UINT64_MAX_def Let_def)
  have s2: "quicly_ranges_subtract (\<lambda>n. True) \<lparr>ranges = [(5, UINT64_MAX)], capacity = 1\<rparr> 5 UINT64_MAX = Some (0, \<lparr>ranges = [], capacity = 1\<rparr>)"
    by (simp add: quicly_ranges_subtract_def first_slot_def UINT64_MAX_def Let_def quicly_ranges_drop_by_range_indices_def)
  have "update_state (\<lambda>n. True) (ex_stream [(0, UINT64_MAX)] 0) (ex_conn 0) 0 5 False True = Some (0, ex_stream [] 5, ex_conn 5, Some (0, 5))"
    using s1 s2 by (simp add: update_state_def ex_stream_def ex_conn_def)
  moreover have "adjust_stream_frame_layout False 10 5 True = (5, True)" by (simp add: adjust_stream_frame_layout_def)
  moreover have "final_size (sendstate (ex_stream [(0, UINT64_MAX)] 0)) \<noteq> 5" "acked_upto (sendstate (ex_stream [(0, UINT64_MAX)] 0)) = 0"
    "is_crypto (ex_stream [(0, UINT64_MAX)] 0) = False"
    by (simp_all add: ex_defs acked_upto_def)
  ultimately have "emit_frame (\<lambda>n. True) ex_emit 10 (ex_stream [(0, UINT64_MAX)] 0) (ex_conn 0) 0 10 = Some (0, ex_stream [] 5, ex_conn 5, Some (0, 5))"
    using e by (simp add: emit_frame_def sub64_def)
  moreover have "ranges (pending (sendstate (ex_stream [(0, UINT64_MAX)] 0))) = [(0, UINT64_MAX)]" "final_size (sendstate (ex_stream [(0, UINT64_MAX)] 0)) \<noteq> 0"
    "is_crypto (ex_stream [(0, UINT64_MAX)] 0) = False"
    by (simp_all add: ex_defs)
  ultimately show ?thesis using l r by (simp add: quicly_send_stream_def)
qed

lemma ex_run: "send_run (\<lambda>n. True) (ex_stream [] 5) (ex_conn 5) {0..<5} {#(0, 5)#} {} False"
proof -
  have "send_run (\<lambda>n. True) (ex_stream [] 0) (ex_conn 0) {} {#} {} False"
    by (rule send_run.start [OF _ ex_init]) (simp add: flow_ok_def ex_defs)
  from send_run.activate [OF this _ ex_activate]
  have a: "send_run (\<lambda>n. True) (ex_stream [(0, UINT64_MAX)] 0) (ex_conn 0) {} {#} {} False"
    by (simp add: ex_stream_def quicly_sendstate_is_open_def)
  have m: "may_send 10 (ex_stream [(0, UINT64_MAX)] 0) (ex_conn 0)"
    by (simp add: may_send_def quicly_stream_can_send_def ex_defs)
  have e: "emit_ok ex_emit (sendstate (ex_stream [(0, UINT64_MAX)] 0))" by (simp add: emit_ok_def ex_emit_def ex_defs)
  show ?thesis using send_run.send [OF a m e ex_send] by simp
qed

text \<open>The stream is then closed, the end of the stream is sent in a packet of its own, and this packet is acknowledged first.\<close>

definition ex_closed :: "quicly_ranges \<Rightarrow> quicly_range list \<Rightarrow> send_stream" where
  "ex_closed rs xs = \<lparr>sendstate = \<lparr>acked = rs, pending = \<lparr>ranges = xs, capacity = 1\<rparr>, size_inflight = 5, final_size = 5\<rparr>,
    max_stream_data = 100, blocked = QUICLY_SENDER_STATE_NONE, control_linked = False, is_crypto = False\<rparr>"

definition none_acked :: quicly_ranges where
  "none_acked = \<lparr>ranges = [(0, 0)], capacity = 1\<rparr>"

definition end_acked :: quicly_ranges where
  "end_acked = \<lparr>ranges = [(0, 0), (5, 6)], capacity = 4\<rparr>"

lemma ex_shutdown: "quicly_sendstate_shutdown (\<lambda>n. True) (sendstate (ex_stream [] 5)) 5 = Some (0, sendstate (ex_closed none_acked [(5, 6)]))"
  by (simp add: ex_defs ex_closed_def none_acked_def quicly_sendstate_shutdown_def add_pending_def quicly_ranges_add_def insert_at_def pending_behind_acked_def acked_upto_def)

lemma ex_send_end:
  "quicly_send_stream (\<lambda>n. True) emit 10 (ex_closed none_acked [(5, 6)]) (ex_conn 5) = Some (0, ex_closed none_acked [], ex_conn 5, Some (5, 6))"
proof -
  have "quicly_ranges_subtract (\<lambda>n. True) \<lparr>ranges = [(5, 6)], capacity = 1\<rparr> 5 6 = Some (0, \<lparr>ranges = [], capacity = 1\<rparr>)"
    "quicly_ranges_subtract (\<lambda>n. True) \<lparr>ranges = [], capacity = 1\<rparr> 5 UINT64_MAX = Some (0, \<lparr>ranges = [], capacity = 1\<rparr>)"
    by (simp_all add: quicly_ranges_subtract_def first_slot_def UINT64_MAX_def Let_def quicly_ranges_drop_by_range_indices_def)
  then have "update_state (\<lambda>n. True) (ex_closed none_acked [(5, 6)]) (ex_conn 5) 5 0 True True = Some (0, ex_closed none_acked [], ex_conn 5, Some (5, 6))"
    by (simp add: update_state_def ex_closed_def ex_conn_def)
  then show ?thesis by (simp add: quicly_send_stream_def ex_closed_def quicly_sendstate_is_open_def UINT64_MAX_def)
qed

lemmas ex_ack_defs = quicly_sendstate_acked_def ex_closed_def none_acked_def end_acked_def quicly_ranges_add_def find_end_slot.simps add_from.simps
  merge_update_def insert_at_def quicly_ranges_subtract_def quicly_ranges_drop_by_range_indices_def first_slot_def acked_upto_def pending_behind_acked_def
  acked_shift_def check_amount_of_state_def UINT64_MAX_def Let_def

lemma ex_ack_end: "quicly_sendstate_acked (\<lambda>n. True) (sendstate (ex_closed none_acked [])) (5, 6) = Some (0, 0, sendstate (ex_closed end_acked []))"
  by (simp add: ex_ack_defs)

lemma ex_run_end_acked: "send_run (\<lambda>n. True) (ex_closed end_acked []) (ex_conn 5) {0..<6} {#(0, 5)#} {5} False"
proof -
  have "quicly_sendstate_is_open (sendstate (ex_stream [] 5))" "size_inflight (sendstate (ex_stream [] 5)) \<le> 5" "5 + 1 < UINT64_MAX"
    by (simp_all add: ex_defs)
  from send_run.shutdown [OF ex_run this ex_shutdown]
  have c: "send_run (\<lambda>n. True) (ex_closed none_acked [(5, 6)]) (ex_conn 5) {0..<5} {#(0, 5)#} {} False"
    by (simp add: ex_stream_def ex_closed_def)
  have m: "may_send 10 (ex_closed none_acked [(5, 6)]) (ex_conn 5)"
    by (simp add: may_send_def quicly_stream_can_send_def ex_closed_def ex_defs sched_stream_control_def)
  have e: "emit_ok (\<lambda>off len. EMIT_WROTE len False) (sendstate (ex_closed none_acked [(5, 6)]))" by (simp add: emit_ok_def)
  have "{0..<5} \<union> {5..<6 :: nat} = {0..<6}" by auto
  then have "send_run (\<lambda>n. True) (ex_closed none_acked []) (ex_conn 5) {0..<6} {#(5, 6), (0, 5)#} {} False"
    using send_run.send [OF c m e ex_send_end] by simp
  from send_run.ack [OF this, of 5 6 "{#(5, 6)#}", OF _ _ _ ex_ack_end]
  have "send_run (\<lambda>n. True) (ex_closed end_acked []) (ex_conn 5) {0..<6} {#(0, 5)#} {5..<6} False"
    by (simp add: ex_closed_def in_flight_def)
  moreover have "{5..<6 :: nat} = {5}" by auto
  ultimately show ?thesis by simp
qed

section \<open>Properties\<close>

text \<open>
  C2. No octet of a stream is forgotten, however packets are acknowledged, lost and acknowledged late. Every octet that has been sent, and every
  octet and the end of a closed stream, is acknowledged, waiting to be sent or in flight, and none is acknowledged and waiting; a stream that was not reset
  counts as complete exactly when the peer has acknowledged everything, the end of the stream included; until then, if nothing is in flight, there is
  something to be sent. In these runs the application does not activate a closed stream again once the end of the stream is acknowledged.
\<close>

theorem sendstate_no_octet_forgotten:
  assumes "send_run alloc stream conn S out K gone"
  shows "(let state = sendstate stream; A = acked_positions state; P = pending_positions state
    in {0..<(if quicly_sendstate_is_open state then size_inflight state else final_size state + 1)} \<subseteq> A \<union> P \<union> in_flight out \<and> A \<inter> P = {} \<and>
       (quicly_sendstate_transfer_complete state \<longleftrightarrow> gone \<or> \<not> quicly_sendstate_is_open state \<and> {0..<final_size state + 1} \<subseteq> K) \<and> K \<subseteq> S \<and>
       (\<not> quicly_sendstate_is_open state \<and> \<not> quicly_sendstate_transfer_complete state \<and> out = {#} \<longrightarrow> ranges (pending state) \<noteq> []))"
proof -
  let ?st = "sendstate stream"
  have run: "run_inv stream conn S out K gone" by (rule send_run_inv [OF assms])
  note inv = run_invD(1) [OF run]
  note i = send_invD [OF inv] and c = transfer_complete_iff [OF inv]
  have cover: "{0..<(if quicly_sendstate_is_open ?st then size_inflight ?st else final_size ?st + 1)} \<subseteq> acked_positions ?st \<union> pending_positions ?st \<union> in_flight out"
    using send_setsD(9) [OF i(3)] by (simp add: quicly_sendstate_is_open_def)
  moreover have "quicly_sendstate_transfer_complete ?st \<longleftrightarrow> gone \<or> \<not> quicly_sendstate_is_open ?st \<and> {0..<final_size ?st + 1} \<subseteq> K"
    using run_invD(4) [OF run] c by (cases gone) (simp_all add: acked_by_peer_def)
  moreover have "ranges (pending ?st) \<noteq> []" if "\<not> quicly_sendstate_is_open ?st" "\<not> quicly_sendstate_transfer_complete ?st" "out = {#}"
    using that cover c pending_empty [OF i(2)] by auto
  ultimately show ?thesis using run_invD(3) [OF run] send_setsD(1) [OF i(3)] unfolding Let_def by blast
qed

theorem sendstate_no_octet_forgotten_witness:
  "quicly_sendstate_lost (\<lambda>n. True) (sendstate (ex_stream [] 5)) (0, 5) = Some (0, sendstate (ex_stream [(0, 5)] 5)) \<and>
   {0..<5} \<subseteq> pending_positions (sendstate (ex_stream [(0, 5)] 5)) \<and> \<not> quicly_sendstate_transfer_complete (sendstate (ex_stream [(0, 5)] 5))"
proof -
  have l: "quicly_sendstate_lost (\<lambda>n. True) (sendstate (ex_stream [] 5)) (0, 5) = Some (0, sendstate (ex_stream [(0, 5)] 5))"
    by (simp add: quicly_sendstate_lost_def ex_stream_def add_pending_def quicly_ranges_add_def insert_at_def pending_behind_acked_def acked_upto_def
      check_amount_of_state_def)
  have "send_run (\<lambda>n. True) (ex_stream [(0, 5)] 5) (ex_conn 5) {0..<5} {#} {} False"
    using send_run.lost [OF ex_run _ l] by (simp add: ex_stream_def)
  from sendstate_no_octet_forgotten [OF this] show ?thesis
    using l by (simp add: Let_def ex_stream_def quicly_sendstate_is_open_def acked_positions_def)
qed

text \<open>
  C40. In a reachable state no operation fails an assertion, provided that a stream is activated only while it is open or its end is not acknowledged, that it
  is closed once, at a size not below what was sent, and that only positions that were sent are acknowledged or lost. Sending respects flow control: the data sent on a stream stays within the limit of the
  stream, the data sent on the connection within the limit of the connection, and a frame carries octets that are waiting to be sent, from the first one on, and the
  end of the stream exactly if it reaches the final size. An acknowledgement releases from the send buffer exactly the octets by which the
  acknowledged prefix grows. If the callback of the application has closed the connection or reset the stream, the state is not changed.
\<close>

theorem send_operations_safe:
  assumes "send_run alloc stream conn S out K gone"
  shows "(is_crypto stream \<or> size_inflight (sendstate stream) \<le> max_stream_data stream) \<and> sent conn \<le> permitted conn \<and>
    (\<forall>level. \<not> is_crypto stream \<longrightarrow> quicly_stream_can_send stream level \<noteq> None) \<and>
    (quicly_sendstate_is_open (sendstate stream) \<or> final_size (sendstate stream) \<notin> acked_positions (sendstate stream) \<longrightarrow>
      quicly_sendstate_activate alloc (sendstate stream) \<noteq> None) \<and>
    (\<forall>fin. quicly_sendstate_is_open (sendstate stream) \<and> size_inflight (sendstate stream) \<le> fin \<and> fin + 1 < UINT64_MAX \<longrightarrow>
      quicly_sendstate_shutdown alloc (sendstate stream) fin \<noteq> None) \<and>
    quicly_sendstate_reset alloc (sendstate stream) \<noteq> None \<and>
    (\<forall>r. r \<in># out \<longrightarrow> quicly_sendstate_lost alloc (sendstate stream) r \<noteq> None) \<and>
    (\<forall>start stop. start \<le> stop \<and> {start..<stop} \<subseteq> S \<longrightarrow>
      (\<exists>ret shift state'. quicly_sendstate_acked alloc (sendstate stream) (start, stop) = Some (ret, shift, state') \<and>
        (ret = PTLS_ERROR_NO_MEMORY \<or>
         shift = min (final_size (sendstate stream)) (acked_upto state') - min (final_size (sendstate stream)) (acked_upto (sendstate stream))))) \<and>
    (\<forall>emit space. may_send space stream conn \<and> emit_ok emit (sendstate stream) \<longrightarrow>
      (\<exists>res. quicly_send_stream alloc emit space stream conn = Some res \<and> send_result emit stream conn S out res))"
proof -
  have run: "run_inv stream conn S out K gone" by (rule send_run_inv [OF assms])
  note i = run_invD(1,2) [OF run]
  have "\<exists>ret shift state'. quicly_sendstate_acked alloc (sendstate stream) (start, stop) = Some (ret, shift, state') \<and> (ret = PTLS_ERROR_NO_MEMORY \<or>
      shift = min (final_size (sendstate stream)) (acked_upto state') - min (final_size (sendstate stream)) (acked_upto (sendstate stream)))"
    if "start \<le> stop" "{start..<stop} \<subseteq> S" for start stop
    using quicly_sendstate_acked_ok [OF i(1) that, of "{#}" alloc] by auto
  moreover have "is_crypto stream \<or> size_inflight (sendstate stream) \<le> max_stream_data stream" "sent conn \<le> permitted conn"
    using i(2) by (simp_all add: flow_ok_def)
  moreover have "quicly_sendstate_activate alloc (sendstate stream) \<noteq> None"
    if "quicly_sendstate_is_open (sendstate stream) \<or> final_size (sendstate stream) \<notin> acked_positions (sendstate stream)"
    using quicly_sendstate_activate_ok [OF i(1) that, of alloc] by auto
  moreover have "quicly_sendstate_shutdown alloc (sendstate stream) fin \<noteq> None"
    if "quicly_sendstate_is_open (sendstate stream)" "size_inflight (sendstate stream) \<le> fin" "fin + 1 < UINT64_MAX" for fin
    using quicly_sendstate_shutdown_ok [OF i(1) that, of alloc] by auto
  moreover have "quicly_sendstate_reset alloc (sendstate stream) \<noteq> None" using quicly_sendstate_reset_ok [OF i(1), of alloc] by auto
  moreover have "quicly_sendstate_lost alloc (sendstate stream) r \<noteq> None" if "r \<in># out" for r
    using quicly_sendstate_lost_ok [OF i(1) that, of alloc] by auto
  ultimately show ?thesis using quicly_stream_can_send_ok [OF i(1)] quicly_send_stream_ok [OF i, of _ _ alloc] by (intro conjI) blast+
qed

theorem send_operations_safe_witness:
  "\<exists>ret state'. quicly_sendstate_acked (\<lambda>n. True) (sendstate (ex_stream [] 5)) (0, 5) = Some (ret, 5, state') \<and> acked_upto state' = 5"
proof -
  obtain ret shift state' where a: "quicly_sendstate_acked (\<lambda>n. True) (sendstate (ex_stream [] 5)) (0, 5) = Some (ret, shift, state')"
    "ret = PTLS_ERROR_NO_MEMORY \<or> shift = min (final_size (sendstate (ex_stream [] 5))) (acked_upto state') -
      min (final_size (sendstate (ex_stream [] 5))) (acked_upto (sendstate (ex_stream [] 5)))"
    using send_operations_safe [OF ex_run, THEN conjunct2, THEN conjunct2, THEN conjunct2, THEN conjunct2, THEN conjunct2, THEN conjunct2, THEN conjunct2,
      THEN conjunct1, rule_format, of 0 5] by auto
  have "ret = 0 \<and> acked_upto state' = 5"
    using a(1) by (auto simp: quicly_sendstate_acked_def ex_stream_def quicly_ranges_add_def find_end_slot.simps add_from.simps merge_update_def
      quicly_ranges_subtract_def acked_upto_def pending_behind_acked_def acked_shift_def check_amount_of_state_def UINT64_MAX_def Let_def)
  then show ?thesis using a by (auto simp: ex_defs acked_upto_def PTLS_ERROR_NO_MEMORY_def)
qed


end
