(* ===== verification/Spec2Isabelle.thy ===== *)
theory Spec2Isabelle
  imports Hpack_Exchange Absprio Sched_Run Quic_Send
begin

text \<open>
  Verification of the protocol core of the h2o server kept in this repository under \<^verbatim>\<open>src/h2o\<close>.

  \<^bold>\<open>The program.\<close> The repository holds an HTTP/1, HTTP/2 and HTTP/3 server with its libraries and some container
  configuration. A request arrives as octets on a socket; for HTTP/2 the connection code cuts them into frames
  (\<^verbatim>\<open>lib/http2/frame.c\<close>), joins the payloads of \<^verbatim>\<open>HEADERS\<close> and \<^verbatim>\<open>CONTINUATION\<close> frames into header blocks, decodes them with
  HPACK (\<^verbatim>\<open>lib/http2/hpack.c\<close>) and hands method, path and header fields to the core, which normalises the path
  (\<^verbatim>\<open>lib/common/url.c\<close>) and reads and edits header fields (\<^verbatim>\<open>lib/core/headers.c\<close>). The response takes the opposite way.

  \<^bold>\<open>The theories.\<close> Octets are \<^verbatim>\<open>8 word\<close>s and buffers are lists of them; C records are records, C enumerations are
  datatypes or constants with their numbers, \<^verbatim>\<open>size_t\<close> and the fixed-width integers are words where they can wrap and natural numbers where
  a bound is shown. A function that can fail returns a sum or an option; the markers \<^verbatim>\<open>READ_PAST_END\<close> and \<^verbatim>\<open>ASSERTION_FAILED\<close> stand
  for an out-of-bounds read and a failing \<^verbatim>\<open>assert\<close>, so that their absence is a theorem.

  \<^item> \<^verbatim>\<open>Prelude\<close>: types, the error codes of HTTP/2, lemmas on words and lists used everywhere.
  \<^item> \<^verbatim>\<open>Http2_Frame\<close>: \<^verbatim>\<open>frame.c\<close> and the settings and windows of \<^verbatim>\<open>http2_common.h\<close>. No decoder reads outside its payload, encoders and
    decoders are inverse, and the settings of a peer stay within the bounds of RFC 9113.
  \<^item> \<^verbatim>\<open>Hpack_Int\<close>, \<^verbatim>\<open>Hpack_Huffman_Table\<close>, \<^verbatim>\<open>Bit_Strings\<close>, \<^verbatim>\<open>Hpack_Huffman_Check\<close>, \<^verbatim>\<open>Hpack_Huffman\<close>, \<^verbatim>\<open>Hpack_String\<close>: integer, Huffman
    and string representations. The decoders are equivalent to RFC 7541: the decoding automaton of \<^verbatim>\<open>hpack_huffman_table.h\<close> is shown
    equivalent to the code table, state by state. Reads and the size of the buffer of a string are explicit, so that reading behind the input and
    writing behind the buffer are results of the model, shown not to occur.
  \<^item> \<^verbatim>\<open>Tokens\<close>: the header names known at compile time, the generated lookup \<^verbatim>\<open>switch\<close> and the static table.
  \<^item> \<^verbatim>\<open>Hpack_Table\<close>: the dynamic table, a ring buffer that refines the first-in first-out list of RFC 7541. The locale
    \<^verbatim>\<open>dynamic_table\<close> is the contract between the table and its clients, with the notion of an encoder's table in step with a decoder's;
    the ring buffer interprets it.
  \<^item> \<^verbatim>\<open>Hpack_Header\<close>: one header field. The decoder is safe on every input and reads back what the encoder wrote.
  \<^item> \<^verbatim>\<open>String_Util\<close>, \<^verbatim>\<open>Url\<close>, \<^verbatim>\<open>Absprio\<close>, \<^verbatim>\<open>Headers\<close>: \<^verbatim>\<open>string.c\<close>, \<^verbatim>\<open>url.c\<close>, \<^verbatim>\<open>absprio.c\<close> and \<^verbatim>\<open>core/headers.c\<close>. Path
    normalisation computes its two-pass specification and leaves no dot segment, URL resolution inverts printing, number and token parsers are
    characterised completely.
  \<^item> \<^verbatim>\<open>Hpack_Parse\<close>: parsing a header block into a request or response. The locale \<^verbatim>\<open>field_decoder\<close> is the contract of
    the field decoder callback; termination and safety are proved once from it and hold for HPACK by interpretation.
  \<^item> \<^verbatim>\<open>Hpack_Flatten\<close>: writing requests, push promises, responses and trailers and cutting the block into frames; the space that is reserved
    in advance is sufficient.
  \<^item> \<^verbatim>\<open>Hpack_Exchange\<close>: the composition of frames, HPACK and header fields: what one end writes, the other end reads.
  \<^item> \<^verbatim>\<open>Sched_Queue\<close>, \<^verbatim>\<open>Scheduler\<close>, \<^verbatim>\<open>Sched_Tree\<close>, \<^verbatim>\<open>Sched_Ops\<close>, \<^verbatim>\<open>Sched_Run\<close>: \<^verbatim>\<open>lib/http2/scheduler.c\<close>, which decides whose data
    is sent next. The first holds the weighted round robin, a bit field over a ring that refines a list of slots; the locale \<^verbatim>\<open>weighted_queue\<close>
    is its contract, from which no entry starves. \<^verbatim>\<open>Scheduler\<close> has the operations on the dependency tree over a store of nodes, \<^verbatim>\<open>Sched_Tree\<close>
    the invariant and the counting of active nodes, \<^verbatim>\<open>Sched_Ops\<close> that every operation keeps the invariant and gives the tree of RFC 7540, and
    \<^verbatim>\<open>Sched_Run\<close> the reachable states, which streams are served, and that a run returns.
  \<^item> \<^verbatim>\<open>Quic_Ranges\<close>, \<^verbatim>\<open>Quic_Recv\<close>, \<^verbatim>\<open>Quic_Send\<close>: the streams of HTTP/3, \<^verbatim>\<open>ranges.c\<close>, \<^verbatim>\<open>recvstate.c\<close> and \<^verbatim>\<open>sendstate.c\<close> under
    \<^verbatim>\<open>deps/quicly/lib\<close>, and of \<^verbatim>\<open>quicly.c\<close> the choice of the octets of a frame. Arrays of ranges refine sets of positions; a receiver
    reassembles frames cut, repeated and reordered in any way; a sender forgets no octet whatever is acknowledged and lost, and keeps to the limits of
    flow control. Here a stream is activated only while it is open or its end is not acknowledged; the code does not check this, and
    the last theorem of \<^verbatim>\<open>Quic_Send\<close> shows an assertion failing otherwise. The locale \<^verbatim>\<open>range_set\<close> is what the sender relies on, interpreted for acknowledged and for pending ranges. The map of sent packets and
    the peer are the steps of the relations \<^verbatim>\<open>recv_run\<close> and \<^verbatim>\<open>send_run\<close>; the callback \<^verbatim>\<open>on_send_emit\<close> of the application and the success
    of memory allocation are parameters.

  \<^bold>\<open>Bounds and fuel.\<close> The two parsing loops take one unit of fuel per octet and one more; \<^verbatim>\<open>parse_returns\<close> shows that
  this is enough. The eviction loops take the number of entries. Strings are shorter than 4 GiB where their length is encoded in 32 bits.
  The loops of the scheduler that follow pointers are \<^verbatim>\<open>partial_function\<close>s whose return is proved from the tree being finite and acyclic;
  the tree has at most \<open>2\<^sup>2\<^sup>3\<close> nodes, so that the sum of the weights of siblings fits into 32 bits.
  Offsets in QUIC streams stay below \<open>2\<^sup>6\<^sup>4 - 1\<close>, which stands for an unknown final size; limits of flow control have 62 bits, as on the wire.

  \<^bold>\<open>Not modelled.\<close> Sockets, threads, TLS, timers of the event loop, memory pools and reference counts: they are I/O or
  bookkeeping around the modelled functions. Configuration, handlers and the server executable are glue to the operating system. Of QUIC, packets, the
  handshake, loss detection and congestion control are not modelled, nor are the octets of its frames. The other libraries
  under \<^verbatim>\<open>deps\<close> are third-party code that h2o calls. The buffer into which \<^verbatim>\<open>rebuild_path\<close> writes a normalised path is a list
  without a size. The manifest lists each part with the reason.
\<close>

end
